(* ===== verification/Py_Float.thy ===== *)
theory Py_Float
  imports Complex_Main "HOL-Library.Log_Nat"
begin

text \<open>
  The floats of Python: rounding of a rational to double precision, and \<open>round(x, 2)\<close>.
  A float is the rational it denotes; an operation of the sources on floats is the exact
  operation followed by \<open>double\<close>.
\<close>

section \<open>Rounding half to even\<close>

definition round_half_even :: "rat \<Rightarrow> int" where
  "round_half_even x =
     (let f = \<lfloor>x\<rfloor>; d = x - of_int f in
      if d < 1/2 then f
      else if 1/2 < d then f + 1
      else if even f then f else f + 1)"

lemma round_half_even_close: "\<bar>of_int (round_half_even x) - x\<bar> \<le> 1/2"
proof -
  define f where "f = \<lfloor>x\<rfloor>"
  have lo: "of_int f \<le> x" and hi: "x < of_int f + 1"
    unfolding f_def by linarith+
  have "round_half_even x = f \<and> x - of_int f \<le> 1/2
      \<or> round_half_even x = f + 1 \<and> 1/2 \<le> x - of_int f"
    by (auto simp: round_half_even_def Let_def f_def)
  with lo hi show ?thesis by (auto simp: abs_le_iff)
qed

lemma round_half_even_nonneg: "0 \<le> x \<Longrightarrow> 0 \<le> round_half_even x"
  by (auto simp: round_half_even_def Let_def)

lemma round_half_even_of_int [simp]: "round_half_even (of_int i) = i"
  by (simp add: round_half_even_def)

lemma round_half_even_near: "\<bar>x - of_int m\<bar> < 1/2 \<Longrightarrow> round_half_even x = m"
proof -
  assume "\<bar>x - of_int m\<bar> < 1/2"
  with round_half_even_close [of x] have "\<bar>of_int (round_half_even x) - of_int m\<bar> < (1 :: rat)" by linarith
  then have "\<bar>of_int (round_half_even x - m)\<bar> < (1 :: rat)" by simp
  then show ?thesis by linarith
qed

section \<open>Double precision\<close>

text \<open>
  \<open>double x\<close> is the floating-point number nearest to \<open>x\<close>, with ties to an even
  significand: an integer of at most 53 bits times the power of two that leaves 53 bits of
  \<open>x\<close> before the point. The exponent is not bounded (no overflow, no subnormal numbers).
\<close>

definition exponent_of :: "rat \<Rightarrow> int" where
  "exponent_of x =
     (let d = bitlen (snd (quotient_of x)) in bitlen \<lfloor>\<bar>x\<bar> * 2 powi d\<rfloor> - d - 53)"

definition double :: "rat \<Rightarrow> rat" where
  "double x = of_int (round_half_even (x / 2 powi exponent_of x)) * 2 powi exponent_of x"

lemma bitlen_floor: "1 \<le> y \<Longrightarrow> 2 powi (bitlen \<lfloor>y\<rfloor> - 1) \<le> (y :: rat) \<and> y < 2 powi bitlen \<lfloor>y\<rfloor>"
proof -
  assume y: "1 \<le> y"
  then have f: "0 < \<lfloor>y\<rfloor>" by simp
  from bitlen_bounds [OF this] have lo: "2 ^ nat (bitlen \<lfloor>y\<rfloor> - 1) \<le> \<lfloor>y\<rfloor>" and hi: "\<lfloor>y\<rfloor> < 2 ^ nat (bitlen \<lfloor>y\<rfloor>)"
    by auto
  have "1 \<le> bitlen \<lfloor>y\<rfloor>" using f bitlen_eq_zero_iff [of "\<lfloor>y\<rfloor>"] bitlen_nonneg [of "\<lfloor>y\<rfloor>"] by linarith
  moreover from lo have "2 ^ nat (bitlen \<lfloor>y\<rfloor> - 1) \<le> y" by (simp add: le_floor_iff)
  moreover from hi have "y < 2 ^ nat (bitlen \<lfloor>y\<rfloor>)" by (simp add: floor_less_iff)
  ultimately show ?thesis by (simp add: power_int_def)
qed

lemma powi2_pos [simp]: "0 < (2 powi i :: rat)"
  by simp

lemma powi_add: "2 powi (i + j) = 2 powi i * (2 powi j :: rat)"
  by (rule power_int_add) simp

lemma powi_shift: "2 powi (i + int n) = 2 ^ n * (2 powi i :: rat)"
  by (simp add: powi_add)

lemma powi_less: "2 powi i < (2 powi j :: rat) \<Longrightarrow> i < j"
  using power_int_increasing [of j i "2 :: rat"] by (cases "i < j") auto

lemma exponent_bounds:
  assumes "x \<noteq> 0"
  shows "2 ^ 52 * 2 powi exponent_of x \<le> \<bar>x\<bar> \<and> \<bar>x\<bar> < 2 ^ 53 * 2 powi exponent_of x"
proof -
  obtain p q where x: "quotient_of x = (p, q)" by fastforce
  define d where "d = bitlen q"
  define n where "n = bitlen \<lfloor>\<bar>x\<bar> * 2 powi d\<rfloor>"
  have q: "0 < q" and xq: "x = of_int p / of_int q"
    using quotient_of_denom_pos [OF x] quotient_of_div [OF x] by auto
  have "0 \<le> d" unfolding d_def by (rule bitlen_nonneg)
  have "q < 2 ^ nat d" using bitlen_bounds [OF q] by (simp add: d_def)
  then have "of_int q < (of_int (2 ^ nat d) :: rat)" by (simp only: of_int_less_iff)
  then have big: "of_int q \<le> (2 powi d :: rat)" using \<open>0 \<le> d\<close> by (simp add: power_int_def)
  have "1 \<le> \<bar>p\<bar>" using assms xq by auto
  then have "of_int 1 \<le> (of_int \<bar>p\<bar> :: rat)" by (simp only: of_int_le_iff)
  then have "1 * of_int q \<le> of_int \<bar>p\<bar> * (2 powi d :: rat)"
    using big q by (intro mult_mono) auto
  then have "1 \<le> of_int \<bar>p\<bar> * 2 powi d / (of_int q :: rat)" using q by (simp add: le_divide_eq)
  then have "1 \<le> \<bar>x\<bar> * 2 powi d" using q by (simp add: xq abs_divide)
  from bitlen_floor [OF this] have b: "2 powi (n - 1) \<le> \<bar>x\<bar> * 2 powi d" "\<bar>x\<bar> * 2 powi d < 2 powi n"
    by (simp_all only: n_def)
  have e: "exponent_of x = n - d - 53" by (simp only: exponent_of_def x d_def n_def snd_conv Let_def)
  have "n - 1 = (exponent_of x + int 52) + d" "n = (exponent_of x + int 53) + d" by (simp_all add: e)
  then have "2 powi (n - 1) = 2 ^ 52 * 2 powi exponent_of x * (2 powi d :: rat)"
    and "2 powi n = 2 ^ 53 * 2 powi exponent_of x * (2 powi d :: rat)"
    using powi_shift [of "exponent_of x" 52] powi_shift [of "exponent_of x" 53]
    by (simp_all only: powi_add)
  with b have "2 ^ 52 * 2 powi exponent_of x * 2 powi d \<le> \<bar>x\<bar> * 2 powi d"
    "\<bar>x\<bar> * 2 powi d < 2 ^ 53 * 2 powi exponent_of x * 2 powi d" by (simp_all only:)
  then show ?thesis
    by (simp only: mult_le_cancel_right mult_less_cancel_right powi2_pos simp_thms less_imp_le not_less)
qed

lemma exponent_unique:
  assumes "2 ^ 52 * 2 powi e \<le> \<bar>x\<bar>" and "\<bar>x\<bar> < 2 ^ 53 * 2 powi e"
  shows "exponent_of x = e"
proof -
  have "0 < 2 ^ 52 * (2 powi e :: rat)" by simp
  with assms(1) have "0 < \<bar>x\<bar>" by (rule order.strict_trans2 [rotated])
  then have "x \<noteq> 0" by simp
  note b = exponent_bounds [OF this]
  have le: "i \<le> j" if "2 ^ 52 * 2 powi i \<le> \<bar>x\<bar>" "\<bar>x\<bar> < 2 ^ 53 * (2 powi j)" for i j
  proof -
    have "2 ^ 52 * 2 powi i < 2 ^ 52 * (2 powi (j + int 1) :: rat)"
      using that unfolding powi_shift by simp
    then have "2 powi i < (2 powi (j + int 1) :: rat)" by simp
    from powi_less [OF this] show ?thesis by simp
  qed
  show ?thesis using le [of "exponent_of x" e] le [of e "exponent_of x"] assms b by simp
qed

lemma double_zero [simp]: "double 0 = 0"
  by (simp add: double_def round_half_even_def)

lemma double_nonneg: "0 \<le> x \<Longrightarrow> 0 \<le> double x"
  by (simp add: double_def round_half_even_nonneg)

text \<open>Rounding moves a value by at most half a unit in the last place, a 2^53th of it.\<close>

lemma double_ulp: "\<bar>double x - x\<bar> \<le> 2 powi exponent_of x / 2"
proof -
  let ?u = "2 powi exponent_of x :: rat"
  have "double x - x = (of_int (round_half_even (x / ?u)) - x / ?u) * ?u"
    by (simp add: double_def left_diff_distrib)
  then have "\<bar>double x - x\<bar> = \<bar>of_int (round_half_even (x / ?u)) - x / ?u\<bar> * ?u"
    by (simp add: abs_mult)
  also have "\<dots> \<le> 1 / 2 * ?u"
    by (rule mult_right_mono [OF round_half_even_close]) simp
  finally show ?thesis by simp
qed

lemma double_close: "\<bar>double x - x\<bar> \<le> \<bar>x\<bar> / 2 ^ 53"
proof (cases "x = 0")
  case False
  from exponent_bounds [OF this] double_ulp [of x] show ?thesis by (simp add: field_simps)
qed simp

lemma double_pos: "0 < x \<Longrightarrow> 0 < double x"
  using double_close [of x] by (cases "double x \<le> 0") (simp_all add: abs_if)

lemma double_scaled:
  assumes "\<bar>m\<bar> < 2 ^ 53" and "2 ^ 52 \<le> \<bar>m\<bar>"
  shows "double (of_int m * 2 powi e) = of_int m * 2 powi e"
proof -
  have "of_int (2 ^ 52) \<le> (of_int \<bar>m\<bar> :: rat)" and "of_int \<bar>m\<bar> < (of_int (2 ^ 53) :: rat)"
    using assms by (simp_all only: of_int_le_iff of_int_less_iff)
  then have "exponent_of (of_int m * 2 powi e) = e"
    by (intro exponent_unique) (simp_all add: abs_mult)
  then show ?thesis by (simp add: double_def)
qed

lemma double_near:
  assumes "2 ^ 52 < m" and "m < 2 ^ 53" and "\<bar>y - of_int m * 2 powi e\<bar> < 2 powi e / 2"
  shows "double y = of_int m * 2 powi e"
proof -
  let ?u = "2 powi e :: rat"
  have u: "0 < ?u" by simp
  have "of_int (2 ^ 52 + 1) \<le> (of_int m :: rat)" and "of_int m \<le> (of_int (2 ^ 53 - 1) :: rat)"
    unfolding of_int_le_iff using assms(1,2) by simp_all
  then have "of_int (2 ^ 52 + 1) * ?u \<le> of_int m * ?u" and "of_int m * ?u \<le> of_int (2 ^ 53 - 1) * ?u"
    using u by (simp_all only: mult_le_cancel_right_pos)
  then have "2 ^ 52 * ?u + ?u \<le> of_int m * ?u" and "of_int m * ?u \<le> 2 ^ 53 * ?u - ?u"
    by (simp_all add: distrib_right left_diff_distrib)
  with abs_less_iff [THEN iffD1, OF assms(3)] u have "2 ^ 52 * ?u \<le> y" and "y < 2 ^ 53 * ?u"
    by linarith+
  moreover from this(1) u have "0 \<le> y" by (simp add: order.trans [rotated])
  ultimately have e: "exponent_of y = e" by (intro exponent_unique) simp_all
  have "y / ?u - of_int m = (y - of_int m * ?u) / ?u" by (simp add: diff_divide_distrib)
  then have "\<bar>y / ?u - of_int m\<bar> = \<bar>y - of_int m * ?u\<bar> / ?u" by (simp add: abs_divide)
  also have "\<dots> < 1 / 2" using assms(3) u by (simp add: divide_less_eq)
  finally show ?thesis by (simp add: double_def e round_half_even_near)
qed

lemma double_cases:
  assumes "0 < x"
  obtains m where "double x = of_int m * 2 powi exponent_of x" and "2 ^ 52 \<le> m" and "m \<le> 2 ^ 53"
proof -
  let ?u = "2 powi exponent_of x :: rat"
  let ?m = "round_half_even (x / ?u)"
  have u: "0 < ?u" by simp
  have "2 ^ 52 \<le> x / ?u" and "x / ?u < 2 ^ 53"
    using exponent_bounds [of x] assms u by (simp_all add: le_divide_eq divide_less_eq)
  with round_half_even_close [of "x / ?u"]
  have "of_int (2 ^ 52 - 1) < (of_int ?m :: rat)" and "of_int ?m < (of_int (2 ^ 53 + 1) :: rat)"
    unfolding abs_le_iff of_int_diff of_int_add by (simp_all only: of_int_power of_int_numeral of_int_1) linarith+
  then have "2 ^ 52 \<le> ?m" and "?m \<le> 2 ^ 53" unfolding of_int_less_iff by simp_all
  then show ?thesis by (rule that [rotated]) (simp add: double_def)
qed

lemma double_of_power: "double (2 powi e) = 2 powi e"
proof -
  have "of_int (2 ^ 52) * 2 powi (e - 52) = (2 powi e :: rat)" using powi_shift [of "e - 52" 52] by simp
  then show ?thesis using double_scaled [of "2 ^ 52" "e - 52"] by simp
qed

section \<open>Rounding to two decimals\<close>

text \<open>
  Python's \<open>round(x, 2)\<close> rounds the exact value of the float half to even at the second
  decimal and answers the float nearest to that decimal.
\<close>

definition round2 :: "rat \<Rightarrow> rat" where
  "round2 x = of_int (round_half_even (x * 100)) / 100"

definition py_round2 :: "rat \<Rightarrow> rat" where
  "py_round2 x = double (round2 x)"

lemma round2_close: "\<bar>round2 x - x\<bar> \<le> 1/200"
proof -
  have "\<bar>of_int (round_half_even (x * 100)) - x * 100\<bar> \<le> 1/2"
    by (rule round_half_even_close)
  then show ?thesis
    by (simp add: round2_def field_simps abs_le_iff)
qed

lemma round2_nonneg: "0 \<le> x \<Longrightarrow> 0 \<le> round2 x"
  by (simp add: round2_def round_half_even_nonneg)

lemma py_round2_nonneg: "0 \<le> x \<Longrightarrow> 0 \<le> py_round2 x"
  by (simp add: py_round2_def round2_nonneg double_nonneg)

lemma py_round2_zero [simp]: "py_round2 0 = 0"
  using round_half_even_of_int [of 0] by (simp add: py_round2_def round2_def)

lemma round2_int: "round2 (of_int i) = of_int i"
proof -
  have "round_half_even (of_int i * 100) = i * 100" using round_half_even_of_int [of "i * 100"] by simp
  then show ?thesis by (simp add: round2_def)
qed

lemma double_round2_idem:
  assumes "0 \<le> x"
  shows "double (round2 (double (round2 x))) = double (round2 x)"
proof (cases "round2 x = 0")
  case False
  define q where "q = round2 x"
  have "0 < q" using False round2_nonneg [OF assms] by (simp add: q_def)
  define e where "e = exponent_of q"
  from double_cases [OF \<open>0 < q\<close>] obtain m where
    r: "double q = of_int m * 2 powi e" and m: "2 ^ 52 \<le> m" "m \<le> 2 ^ 53" unfolding e_def by blast
  have "double (round2 (double q)) = double q"
  proof (cases "e \<le> -7")
    case True
    then have "2 powi e \<le> (2 powi (-7) :: rat)" by (rule power_int_increasing) simp_all
    with double_ulp [of q] have "\<bar>double q - q\<bar> \<le> 1/256" by (simp add: e_def)
    moreover obtain k where k: "q * 100 = of_int k" by (simp add: q_def round2_def)
    ultimately have "\<bar>double q * 100 - of_int k\<bar> < 1/2" unfolding abs_le_iff abs_less_iff k [symmetric] by linarith
    from round_half_even_near [OF this] have "round2 (double q) = q"
      by (simp add: round2_def flip: k)
    then show ?thesis by simp
  next
    case big: False
    then have "2 powi (-6) \<le> (2 powi e :: rat)" by (intro power_int_increasing) simp_all
    then have near: "\<bar>round2 (double q) - double q\<bar> < 2 powi e / 2"
      using round2_close [of "double q"] by simp
    consider "2 ^ 52 < m \<and> m < 2 ^ 53" | "double q = 2 powi (e + 52)" | "double q = 2 powi (e + 53)"
      using m powi_shift [of e 52] powi_shift [of e 53] unfolding r by fastforce
    then show ?thesis
    proof cases
      case 1
      then show ?thesis using double_near [of m "round2 (double q)" e] near unfolding r by simp
    next
      case 2
      have "2 powi (e + 52) = (of_int (2 ^ nat (e + 52)) :: rat)" using big by (simp add: power_int_def)
      then show ?thesis using 2 round2_int double_of_power [of "e + 52"] by metis
    next
      case 3
      have "2 powi (e + 53) = (of_int (2 ^ nat (e + 53)) :: rat)" using big by (simp add: power_int_def)
      then show ?thesis using 3 round2_int double_of_power [of "e + 53"] by metis
    qed
  qed
  then show ?thesis by (simp add: q_def)
qed (simp add: round2_int [of 0, simplified])

lemma py_round2_idem: "0 \<le> x \<Longrightarrow> py_round2 (py_round2 x) = py_round2 x"
  unfolding py_round2_def by (rule double_round2_idem)

section \<open>Errors add up\<close>

lemma quotient_close:
  fixes n d t e u :: rat
  assumes "\<bar>d - n\<bar> \<le> n * u" and "\<bar>e - t\<bar> \<le> t * u" and "0 \<le> n" and "0 < t" and "0 \<le> u" and "u \<le> 1/4"
  shows "\<bar>d / e - n / t\<bar> \<le> 3 * u * (n / t)"
proof -
  have "t * u \<le> t * (1/4)" using assms by (intro mult_left_mono) simp_all
  then have e: "3/4 * t \<le> e" using assms(2) by (simp add: abs_le_iff)
  then have "0 < e" using \<open>0 < t\<close> by simp
  have "d * t - n * e = (d - n) * t - n * (e - t)" by (simp add: algebra_simps)
  also have "\<bar>\<dots>\<bar> \<le> \<bar>d - n\<bar> * t + n * \<bar>e - t\<bar>"
    using abs_triangle_ineq4 [of "(d - n) * t" "n * (e - t)"] assms by (simp add: abs_mult)
  also have "\<dots> \<le> n * u * t + n * (t * u)"
    using assms by (intro add_mono mult_right_mono mult_left_mono) simp_all
  finally have b: "\<bar>d * t - n * e\<bar> \<le> 2 * u * n * t" by (simp add: algebra_simps)
  have "d / e - n / t = (d * t - n * e) / (e * t)" using \<open>0 < e\<close> \<open>0 < t\<close> by (simp add: field_simps)
  then have "\<bar>d / e - n / t\<bar> = \<bar>d * t - n * e\<bar> / (e * t)" using \<open>0 < e\<close> \<open>0 < t\<close> by (simp add: abs_mult)
  also have "\<dots> \<le> 2 * u * n * t / (e * t)" using b \<open>0 < e\<close> \<open>0 < t\<close> by (intro divide_right_mono) simp_all
  also have "\<dots> = 2 * u * n / e" using \<open>0 < t\<close> by simp
  also have "\<dots> \<le> 2 * u * n / (3/4 * t)" using assms e \<open>0 < e\<close> by (intro divide_left_mono) simp_all
  also have "\<dots> \<le> 3 * (u * n / t)" using assms by (simp add: field_simps)
  finally show ?thesis by simp
qed

lemma rounded_close:
  assumes "\<bar>q - x\<bar> \<le> x / 2 ^ 51" and "0 \<le> x"
  shows "\<bar>py_round2 (double q) - x\<bar> \<le> 1/200 + (x + 1) / 2 ^ 50"
proof -
  define p where "p = round2 (double q)"
  have b: "\<bar>q\<bar> \<le> x + x / 2 ^ 51" using assms by linarith
  have "\<bar>double q - q\<bar> \<le> \<bar>q\<bar> / 2 ^ 53" by (rule double_close)
  also have "\<dots> \<le> (x + x / 2 ^ 51) / 2 ^ 53" using b by (rule divide_right_mono) simp
  finally have c: "\<bar>double q - q\<bar> \<le> (x + x / 2 ^ 51) / 2 ^ 53" .
  have d: "\<bar>p - double q\<bar> \<le> 1/200" unfolding p_def by (rule round2_close)
  have p: "\<bar>p\<bar> \<le> 1/200 + (x + x / 2 ^ 51) + (x + x / 2 ^ 51) / 2 ^ 53" using b c d by linarith
  have "\<bar>double p - p\<bar> \<le> \<bar>p\<bar> / 2 ^ 53" by (rule double_close)
  also have "\<dots> \<le> (1/200 + (x + x / 2 ^ 51) + (x + x / 2 ^ 51) / 2 ^ 53) / 2 ^ 53"
    using p by (rule divide_right_mono) simp
  finally have "\<bar>double p - x\<bar> \<le> (1/200 + (x + x / 2 ^ 51) + (x + x / 2 ^ 51) / 2 ^ 53) / 2 ^ 53
      + 1/200 + (x + x / 2 ^ 51) / 2 ^ 53 + x / 2 ^ 51" using c d assms(1) by linarith
  also have "\<dots> \<le> 1/200 + (x + 1) / 2 ^ 50" using assms(2) by (simp add: field_simps)
  finally have "\<bar>double p - x\<bar> \<le> 1/200 + (x + 1) / 2 ^ 50" .
  then show ?thesis by (simp add: py_round2_def p_def)
qed

end
