(* ===== verification/Py_Prelude.thy ===== *)
theory Py_Prelude
  imports Py_Float "HOL-Library.AList" "HOL-Library.Sublist"
begin

text \<open>
  The vocabulary the component theories share: Python's insertion-ordered dictionaries as
  association lists (\<open>AList.update\<close> overwrites in place or appends, exactly as
  \<open>d[k] = v\<close>), exceptions as values of a sum type, \<open>str\<close> as HOL strings
  (ASCII text) with the methods the sources call, decimal printing and parsing of integers,
  bounded deques. Times and rates, which the sources keep as floats, are rationals
  (\<open>rat\<close>); the arithmetic of the rates rounds as floats do (\<open>Py_Float\<close>), clock
  readings are compared and subtracted exactly elsewhere.
\<close>

named_theorems dict_simps \<open>equations for lookups in updated, filtered and trimmed dictionaries\<close>
named_theorems str_simps \<open>equations for the string operations\<close>

section \<open>Results and exceptions\<close>

text \<open>
  One constructor for each exception the modelled code raises or lets through. \<open>OtherError\<close>
  stands for an exception of a library call that only a generic \<open>except Exception\<close> sees.
\<close>

datatype exc =
    ValueError
  | TypeError
  | AttributeError
  | StructError
  | FirewallRuleError
  | CleanupError
  | TimeoutExpired
  | FileNotFoundError
  | PermissionError
  | ImportError
  | AccessDenied
  | NoSuchProcess
  | ZombieProcess
  | HTTPException nat string
  | OtherError string

type_synonym 'a result = "exc + 'a"
type_synonym time = rat

section \<open>Dictionaries\<close>

type_synonym ('k, 'v) dict = "('k \<times> 'v) list"

abbreviation dget :: "('k, 'v) dict \<Rightarrow> 'k \<Rightarrow> 'v option" where
  "dget d k \<equiv> map_of d k"

abbreviation dset :: "('k, 'v) dict \<Rightarrow> 'k \<Rightarrow> 'v \<Rightarrow> ('k, 'v) dict" where
  "dset d k v \<equiv> AList.update k v d"

abbreviation ddel :: "('k, 'v) dict \<Rightarrow> 'k \<Rightarrow> ('k, 'v) dict" where
  "ddel d k \<equiv> AList.delete k d"

abbreviation dkeys :: "('k, 'v) dict \<Rightarrow> 'k list" where
  "dkeys d \<equiv> map fst d"

definition dict_ok :: "('k, 'v) dict \<Rightarrow> bool" where
  "dict_ok d \<longleftrightarrow> distinct (dkeys d)"

definition dmem :: "'k \<Rightarrow> ('k, 'v) dict \<Rightarrow> bool" where
  "dmem k d \<longleftrightarrow> map_of d k \<noteq> None"

lemma dmem_iff: "dmem k d \<longleftrightarrow> k \<in> fst ` set d"
  by (auto simp: dmem_def map_of_eq_None_iff)

lemma dict_ok_Nil [simp, intro]: "dict_ok []"
  by (simp add: dict_ok_def)

lemma dict_ok_dset [simp, intro]: "dict_ok d \<Longrightarrow> dict_ok (dset d k v)"
  unfolding dict_ok_def by (rule distinct_update)

lemma dict_ok_ddel [simp, intro]: "dict_ok d \<Longrightarrow> dict_ok (ddel d k)"
  unfolding dict_ok_def by (rule AList.distinct_delete)

lemma dict_ok_filter [simp, intro]: "dict_ok d \<Longrightarrow> dict_ok (filter P d)"
  unfolding dict_ok_def by (simp add: distinct_map inj_on_def)

lemma dget_dset [dict_simps]: "dget (dset d k v) k' = (if k' = k then Some v else dget d k')"
  by (simp add: update_conv')

lemma dget_ddel [dict_simps]: "dget (ddel d k) k' = (if k' = k then None else dget d k')"
  by (simp add: AList.delete_conv')

text \<open>Key sets, in the form \<open>fst ` set d\<close> the simplifier brings \<open>set (dkeys d)\<close> to.\<close>

lemma keys_dset [dict_simps]: "fst ` set (dset d k v) = insert k (fst ` set d)"
proof -
  have "set (dkeys (dset d k v)) = insert k (set (dkeys d))"
    by (auto simp: AList.update_keys simp del: set_map)
  then show ?thesis by simp
qed

lemma keys_ddel [dict_simps]: "fst ` set (ddel d k) = fst ` set d - {k}"
proof -
  have "set (dkeys (ddel d k)) = set (dkeys d) - {k}"
    by (simp add: AList.delete_keys del: set_map)
  then show ?thesis by simp
qed

lemma dget_filter [dict_simps]:
  "dict_ok d \<Longrightarrow> dget (filter P d) k =
     (case dget d k of None \<Rightarrow> None | Some v \<Rightarrow> if P (k, v) then Some v else None)"
proof (induction d)
  case Nil
  then show ?case by simp
next
  case (Cons x d)
  obtain a b where x: "x = (a, b)" by (cases x)
  from Cons.prems x have ok: "dict_ok d" and new: "a \<notin> set (dkeys d)"
    by (auto simp: dict_ok_def)
  from new have none: "dget d a = None" by (simp add: map_of_eq_None_iff)
  show ?case using Cons.IH [OF ok] x none by auto
qed

lemma dict_ok_item: "dict_ok d \<Longrightarrow> (k, v) \<in> set d \<longleftrightarrow> dget d k = Some v"
  unfolding dict_ok_def by auto

lemma length_dset: "length (dset d k v) = (if dmem k d then length d else Suc (length d))"
proof -
  have "length (dset d k v) = length (dkeys (dset d k v))" by simp
  also have "\<dots> = (if k \<in> set (dkeys d) then length d else Suc (length d))"
    by (simp add: AList.update_keys)
  finally show ?thesis by (simp add: dmem_iff)
qed

lemma sum_list_dset:
  assumes "dict_ok d"
  shows "(\<Sum>x\<leftarrow>dset d k v. f (snd x)) + (case dget d k of None \<Rightarrow> 0 | Some u \<Rightarrow> f u)
       = (\<Sum>x\<leftarrow>d. f (snd x)) + (f v :: 'a :: comm_monoid_add)"
  using assms
proof (induction d)
  case Nil
  then show ?case by simp
next
  case (Cons x d)
  obtain a b where x: "x = (a, b)" by (cases x)
  from Cons.prems have ok: "dict_ok d" by (simp add: dict_ok_def)
  show ?case
  proof (cases "a = k")
    case True
    with Cons.prems x have "dget d k = None"
      by (simp add: dict_ok_def map_of_eq_None_iff)
    with True x show ?thesis by (simp add: ac_simps)
  next
    case False
    with Cons.IH [OF ok] x show ?thesis by (simp add: ac_simps)
  qed
qed

text \<open>\<open>OrderedDict.move_to_end(k)\<close> and \<open>popitem(last=False)\<close>.\<close>

definition dmove_to_end :: "('k, 'v) dict \<Rightarrow> 'k \<Rightarrow> ('k, 'v) dict" where
  "dmove_to_end d k = (case dget d k of None \<Rightarrow> d | Some v \<Rightarrow> ddel d k @ [(k, v)])"

lemma dget_dmove_to_end [dict_simps]: "dget (dmove_to_end d k) k' = dget d k'"
  by (auto simp: dmove_to_end_def map_add_def AList.delete_conv' split: option.splits)

lemma dict_ok_dmove_to_end [simp, intro]: "dict_ok d \<Longrightarrow> dict_ok (dmove_to_end d k)"
proof -
  assume ok: "dict_ok d"
  then have "dict_ok (ddel d k)" by simp
  then show ?thesis using ok
    by (auto simp: dmove_to_end_def dict_ok_def AList.delete_keys split: option.splits)
qed

lemma keys_dmove_to_end [dict_simps]: "fst ` set (dmove_to_end d k) = fst ` set d"
proof -
  have "dmem x (dmove_to_end d k) = dmem x d" for x
    by (simp add: dmem_def dget_dmove_to_end)
  then show ?thesis by (auto simp: dmem_iff)
qed

lemma length_ddel: "dict_ok d \<Longrightarrow> dmem k d \<Longrightarrow> Suc (length (ddel d k)) = length d"
proof (induction d)
  case Nil
  then show ?case by (simp add: dmem_def)
next
  case (Cons x d)
  obtain a b where x: "x = (a, b)" by (cases x)
  from Cons.prems(1) x have ok: "dict_ok d" and new: "a \<notin> set (dkeys d)"
    by (auto simp: dict_ok_def)
  show ?case
  proof (cases "a = k")
    case True
    with new x show ?thesis by (simp add: AList.delete_id)
  next
    case False
    with Cons.prems(2) x have "dmem k d" by (simp add: dmem_def)
    with Cons.IH [OF ok] False x show ?thesis by simp
  qed
qed

lemma length_dmove_to_end: "dict_ok d \<Longrightarrow> length (dmove_to_end d k) = length d"
  using length_ddel [of d k] by (auto simp: dmove_to_end_def dmem_def split: option.splits)

text \<open>The items of a changed dictionary.\<close>

lemma set_dset_subset: "set (dset d k v) \<subseteq> insert (k, v) (set d)"
  by (induction d) auto

lemma set_ddel_subset: "set (ddel d k) \<subseteq> set d"
  by (auto simp: AList.delete_eq)

lemma set_dmove_subset: "set (dmove_to_end d k) \<subseteq> set d"
  using set_ddel_subset [of k d] by (auto simp: dmove_to_end_def map_of_SomeD split: option.splits)

lemmas dict_subsets = set_dset_subset set_ddel_subset set_dmove_subset

section \<open>Deques with a maximal length\<close>

text \<open>\<open>deque(maxlen=n).append(x)\<close> drops from the left what no longer fits.\<close>

definition deque_append :: "nat \<Rightarrow> 'a \<Rightarrow> 'a list \<Rightarrow> 'a list" where
  "deque_append n x xs = drop (Suc (length xs) - n) (xs @ [x])"

lemma length_deque_append: "length (deque_append n x xs) = min n (Suc (length xs))"
  by (simp add: deque_append_def)

lemma deque_append_room: "length xs < n \<Longrightarrow> deque_append n x xs = xs @ [x]"
  by (simp add: deque_append_def)

lemma deque_append_full:
  "0 < n \<Longrightarrow> n \<le> length xs \<Longrightarrow> deque_append n x xs = drop (Suc (length xs) - n) xs @ [x]"
  by (simp add: deque_append_def)

lemma last_deque_append: "0 < n \<Longrightarrow> last (deque_append n x xs) = x"
  by (simp add: deque_append_def last_drop)

lemma deque_append_nonempty: "0 < n \<Longrightarrow> deque_append n x xs \<noteq> []"
  by (simp add: deque_append_def)

lemma set_deque_append: "set (deque_append n x xs) \<subseteq> insert x (set xs)"
  using set_drop_subset [of "Suc (length xs) - n" "xs @ [x]"] by (auto simp: deque_append_def)

section \<open>Strings\<close>

text \<open>
  A Python \<open>str\<close> is a HOL \<open>string\<close>, restricted to ASCII text: case conversion,
  digits and whitespace are those of ASCII.
\<close>

definition lower_char :: "char \<Rightarrow> char" where
  "lower_char c = (let n = of_char c :: nat in if 65 \<le> n \<and> n \<le> 90 then char_of (n + 32) else c)"

definition upper_char :: "char \<Rightarrow> char" where
  "upper_char c = (let n = of_char c :: nat in if 97 \<le> n \<and> n \<le> 122 then char_of (n - 32) else c)"

definition str_lower :: "string \<Rightarrow> string" where
  "str_lower = map lower_char"

definition str_upper :: "string \<Rightarrow> string" where
  "str_upper = map upper_char"

abbreviation startswith :: "string \<Rightarrow> string \<Rightarrow> bool" where
  "startswith s p \<equiv> prefix p s"

abbreviation contains :: "string \<Rightarrow> string \<Rightarrow> bool" where
  "contains s p \<equiv> sublist p s"

lemma startswith_append: "c \<notin> set p \<Longrightarrow> startswith (s @ c # t) p \<longleftrightarrow> startswith s p"
  by (auto simp: prefix_append prefix_Cons)

lemma lower_char_idem [simp]: "lower_char (lower_char c) = lower_char c"
  by (simp add: lower_char_def Let_def)

lemma str_lower_idem [simp]: "str_lower (str_lower s) = str_lower s"
  by (simp add: str_lower_def)

lemma upper_lower_char: "lower_char (upper_char c) = lower_char c" "upper_char (lower_char c) = upper_char c"
proof -
  have small: "n \<le> 122 \<Longrightarrow> (n - 32) mod 256 = n - 32" "m \<le> 90 \<Longrightarrow> (m + 32) mod 256 = m + 32" for n m :: nat
    by simp_all
  show "lower_char (upper_char c) = lower_char c"
    by (cases "97 \<le> (of_char c :: nat) \<and> (of_char c :: nat) \<le> 122")
       (auto simp: lower_char_def upper_char_def Let_def small)
  show "upper_char (lower_char c) = upper_char c"
    by (cases "65 \<le> (of_char c :: nat) \<and> (of_char c :: nat) \<le> 90")
       (auto simp: lower_char_def upper_char_def Let_def small)
qed

definition is_space :: "char \<Rightarrow> bool" where
  "is_space c \<longleftrightarrow> (of_char c :: nat) \<in> {9, 10, 11, 12, 13, 28, 29, 30, 31, 32}"

definition str_strip :: "string \<Rightarrow> string" where
  "str_strip s = rev (dropWhile is_space (rev (dropWhile is_space s)))"

text \<open>\<open>s.split(c)\<close> for a one-character separator, and \<open>s.split()\<close> on runs of whitespace.\<close>

fun split_on :: "char \<Rightarrow> string \<Rightarrow> string list" where
  "split_on c [] = [[]]"
| "split_on c (x # xs) =
     (if x = c then [] # split_on c xs
      else (case split_on c xs of [] \<Rightarrow> [[x]] | p # ps \<Rightarrow> (x # p) # ps))"

fun words_aux :: "string \<Rightarrow> string \<Rightarrow> string list" where
  "words_aux w [] = (if w = [] then [] else [rev w])"
| "words_aux w (x # xs) =
     (if is_space x then (if w = [] then words_aux [] xs else rev w # words_aux [] xs)
      else words_aux (x # w) xs)"

definition str_words :: "string \<Rightarrow> string list" where
  "str_words s = words_aux [] s"

lemma split_on_nonempty: "split_on c s \<noteq> []"
  by (induction s) (auto split: list.splits)

lemma split_on_no_sep: "p \<in> set (split_on c s) \<Longrightarrow> c \<notin> set p"
  by (induction s arbitrary: p) (auto split: list.splits if_splits)

lemma split_on_append: "split_on c (s @ c # t) = split_on c s @ split_on c t"
  by (induction s) (auto split: list.splits simp: split_on_nonempty)

lemma split_on_none: "c \<notin> set t \<Longrightarrow> split_on c t = [t]"
  by (induction t) auto

lemma split_on_last: "c \<notin> set t \<Longrightarrow> last (split_on c (s @ c # t)) = t"
  by (simp add: split_on_append split_on_none)

section \<open>Decimal integers\<close>

definition digit_char :: "nat \<Rightarrow> char" where
  "digit_char d = char_of (48 + d)"

definition is_digit :: "char \<Rightarrow> bool" where
  "is_digit c \<longleftrightarrow> (48 :: nat) \<le> of_char c \<and> (of_char c :: nat) \<le> 57"

definition digit_val :: "char \<Rightarrow> nat" where
  "digit_val c = of_char c - 48"

fun show_nat :: "nat \<Rightarrow> string" where
  "show_nat n = (if n < 10 then [digit_char n] else show_nat (n div 10) @ [digit_char (n mod 10)])"

declare show_nat.simps [simp del]

definition show_int :: "int \<Rightarrow> string" where
  "show_int i = (if i < 0 then ''-'' @ show_nat (nat (- i)) else show_nat (nat i))"

definition parse_nat :: "string \<Rightarrow> nat" where
  "parse_nat s = foldl (\<lambda>a c. 10 * a + digit_val c) 0 s"

text \<open>\<open>s.isdigit()\<close>: not empty, and digits only.\<close>

definition str_isdigit :: "string \<Rightarrow> bool" where
  "str_isdigit s \<longleftrightarrow> s \<noteq> [] \<and> list_all is_digit s"

lemma digit_val_char [simp]: "d < 10 \<Longrightarrow> digit_val (digit_char d) = d"
  by (simp add: digit_val_def digit_char_def)

lemma is_digit_char [simp]: "d < 10 \<Longrightarrow> is_digit (digit_char d)"
  by (simp add: is_digit_def digit_char_def)

lemma parse_nat_snoc: "parse_nat (s @ [c]) = 10 * parse_nat s + digit_val c"
  by (simp add: parse_nat_def)

lemma parse_show_nat [str_simps]: "parse_nat (show_nat n) = n"
proof (induction n rule: show_nat.induct)
  case (1 n)
  show ?case
  proof (cases "n < 10")
    case True
    then show ?thesis by (subst show_nat.simps) (simp add: parse_nat_def)
  next
    case False
    with 1 show ?thesis by (subst show_nat.simps) (simp add: parse_nat_snoc)
  qed
qed

lemma show_nat_digits: "list_all is_digit (show_nat n)"
proof (induction n rule: show_nat.induct)
  case (1 n)
  then show ?case by (subst show_nat.simps) simp
qed

lemma show_nat_nonempty [simp]: "show_nat n \<noteq> []"
  by (subst show_nat.simps) simp

lemma str_isdigit_show_nat [str_simps]: "str_isdigit (show_nat n)"
  by (simp add: str_isdigit_def show_nat_digits)

lemma show_nat_inj [simp]: "show_nat m = show_nat n \<longleftrightarrow> m = n"
  using parse_show_nat by metis

lemma show_nat_0 [simp]: "show_nat 0 = ''0''"
  by code_simp

lemma hd_show_nat: "0 < n \<Longrightarrow> hd (show_nat n) \<noteq> CHR ''0''"
proof (induction n rule: show_nat.induct)
  case (1 n)
  show ?case
  proof (cases "n < 10")
    case True
    with 1 have "digit_val (digit_char n) \<noteq> digit_val CHR ''0''"
      by (simp add: digit_val_def [of "CHR ''0''"])
    then have "digit_char n \<noteq> CHR ''0''" by metis
    with True show ?thesis by (subst show_nat.simps) simp
  next
    case False
    with 1 show ?thesis by (subst show_nat.simps) simp
  qed
qed

lemma length_show_nat: "n < 10 ^ Suc k \<Longrightarrow> length (show_nat n) \<le> Suc k"
proof (induction k arbitrary: n)
  case 0
  then show ?case by (subst show_nat.simps) simp
next
  case (Suc k)
  then have "length (show_nat (n div 10)) \<le> Suc k" by (simp add: less_mult_imp_div_less)
  then show ?case by (subst show_nat.simps) simp
qed

lemma digit_not_colon: "list_all is_digit s \<Longrightarrow> CHR '':'' \<notin> set s \<and> CHR ''-'' \<notin> set s"
  by (induction s) (auto simp: is_digit_def)

lemma show_int_inj [simp]: "show_int i = show_int j \<longleftrightarrow> i = j"
proof
  assume eq: "show_int i = show_int j"
  have no: "CHR ''-'' # s \<noteq> show_nat n" for s n
    using digit_not_colon [OF show_nat_digits [of n]] by (metis list.set_intros(1))
  have "i < 0 \<longleftrightarrow> j < 0"
    using eq no no [symmetric] by (auto simp: show_int_def split: if_splits)
  with eq show "i = j" by (auto simp: show_int_def split: if_splits)
qed simp

lemma show_int_no_colon: "CHR '':'' \<notin> set (show_int i)"
  using digit_not_colon [OF show_nat_digits] by (auto simp: show_int_def)

text \<open>
  \<open>int(s)\<close>: surrounding whitespace, an optional sign, digits with single underscores
  between them; anything else raises \<open>ValueError\<close> (here \<open>None\<close>).
\<close>

fun int_digits :: "bool \<Rightarrow> nat \<Rightarrow> string \<Rightarrow> nat option" where
  "int_digits seen a [] = (if seen then Some a else None)"
| "int_digits seen a (c # cs) =
     (if is_digit c then int_digits True (10 * a + digit_val c) cs
      else if c = CHR ''_'' \<and> seen then
        (case cs of [] \<Rightarrow> None | d # _ \<Rightarrow> if is_digit d then int_digits False a cs else None)
      else None)"

definition py_int :: "string \<Rightarrow> int option" where
  "py_int s = (case str_strip s of
       [] \<Rightarrow> None
     | c # cs \<Rightarrow>
         if c = CHR ''-'' then map_option (\<lambda>n. - int n) (int_digits False 0 cs)
         else if c = CHR ''+'' then map_option int (int_digits False 0 cs)
         else map_option int (int_digits False 0 (c # cs)))"

lemma int_digits_all: "list_all is_digit s \<Longrightarrow>
    int_digits seen a s = (if s = [] \<and> \<not> seen then None
      else Some (foldl (\<lambda>a c. 10 * a + digit_val c) a s))"
  by (induction s arbitrary: seen a) auto

lemma digit_not_space: "is_digit c \<Longrightarrow> \<not> is_space c"
  by (auto simp: is_digit_def is_space_def)

lemma str_strip_digits: "list_all is_digit s \<Longrightarrow> str_strip s = s"
proof -
  assume d: "list_all is_digit s"
  have drop: "list_all is_digit t \<Longrightarrow> dropWhile is_space t = t" for t
    by (cases t) (auto simp: digit_not_space)
  have "list_all is_digit (rev s)" using d by (simp add: list_all_iff)
  with d show ?thesis by (simp add: str_strip_def drop)
qed

lemma py_int_show_nat [str_simps]: "py_int (show_nat n) = Some (int n)"
proof -
  have d: "list_all is_digit (show_nat n)" by (rule show_nat_digits)
  obtain c cs where s: "show_nat n = c # cs" by (cases "show_nat n") auto
  with d have c: "is_digit c" by simp
  then have "c \<noteq> CHR ''-''" and "c \<noteq> CHR ''+''"
    by (auto simp: is_digit_def)
  moreover have "int_digits False 0 (show_nat n) = Some n"
    using parse_show_nat [of n] d by (simp add: int_digits_all parse_nat_def)
  ultimately show ?thesis
    using d s by (simp add: py_int_def str_strip_digits)
qed

end
