(* ===== verification/Sha256.thy ===== *)
theory Sha256
  imports Py_Prelude "HOL-Library.Word"
begin

text \<open>
  What the sniffer uses of Python's standard library to sign the shared-memory entries:
  \<open>hmac.new(key, data, hashlib.sha256).digest()\<close>, that is HMAC (RFC 2104) over SHA-256
  (FIPS 180-4), on lists of bytes. The definitions are executable; published test vectors are
  evaluated by the kernel. The development relies on nothing but the length of the digest.
\<close>

unbundle bit_operations_syntax

type_synonym byte = "8 word"

section \<open>SHA-256\<close>

text \<open>The round constants and the initial state of the standard, in decimal.\<close>

definition sha_K :: "32 word list" where
  "sha_K =
   [1116352408, 1899447441, 3049323471, 3921009573, 961987163, 1508970993, 2453635748, 2870763221,
    3624381080, 310598401, 607225278, 1426881987, 1925078388, 2162078206, 2614888103, 3248222580,
    3835390401, 4022224774, 264347078, 604807628, 770255983, 1249150122, 1555081692, 1996064986,
    2554220882, 2821834349, 2952996808, 3210313671, 3336571891, 3584528711, 113926993, 338241895,
    666307205, 773529912, 1294757372, 1396182291, 1695183700, 1986661051, 2177026350, 2456956037,
    2730485921, 2820302411, 3259730800, 3345764771, 3516065817, 3600352804, 4094571909, 275423344,
    430227734, 506948616, 659060556, 883997877, 958139571, 1322822218, 1537002063, 1747873779,
    1955562222, 2024104815, 2227730452, 2361852424, 2428436474, 2756734187, 3204031479, 3329325298]"

definition sha_H0 :: "32 word list" where
  "sha_H0 =
   [1779033703, 3144134277, 1013904242, 2773480762, 1359893119, 2600822924, 528734635, 1541459225]"

definition big_sigma0 :: "32 word \<Rightarrow> 32 word" where
  "big_sigma0 x = word_rotr 2 x XOR word_rotr 13 x XOR word_rotr 22 x"

definition big_sigma1 :: "32 word \<Rightarrow> 32 word" where
  "big_sigma1 x = word_rotr 6 x XOR word_rotr 11 x XOR word_rotr 25 x"

definition small_sigma0 :: "32 word \<Rightarrow> 32 word" where
  "small_sigma0 x = word_rotr 7 x XOR word_rotr 18 x XOR drop_bit 3 x"

definition small_sigma1 :: "32 word \<Rightarrow> 32 word" where
  "small_sigma1 x = word_rotr 17 x XOR word_rotr 19 x XOR drop_bit 10 x"

text \<open>The message schedule, kept newest word first.\<close>

fun sha_schedule :: "nat \<Rightarrow> 32 word list \<Rightarrow> 32 word list" where
  "sha_schedule 0 ws = rev ws"
| "sha_schedule (Suc k) ws =
     sha_schedule k ((small_sigma1 (ws ! 1) + ws ! 6 + small_sigma0 (ws ! 14) + ws ! 15) # ws)"

type_synonym sha_vars =
  "32 word \<times> 32 word \<times> 32 word \<times> 32 word \<times> 32 word \<times> 32 word \<times> 32 word \<times> 32 word"

fun sha_round :: "sha_vars \<Rightarrow> 32 word \<times> 32 word \<Rightarrow> sha_vars" where
  "sha_round (a, b, c, d, e, f, g, h) (k, w) =
     (let t1 = h + big_sigma1 e + ((e AND f) XOR (NOT e AND g)) + k + w;
          t2 = big_sigma0 a + ((a AND b) XOR (a AND c) XOR (b AND c))
      in (t1 + t2, a, b, c, d + t1, e, f, g))"

fun vars_list :: "sha_vars \<Rightarrow> 32 word list" where
  "vars_list (a, b, c, d, e, f, g, h) = [a, b, c, d, e, f, g, h]"

definition list_vars :: "32 word list \<Rightarrow> sha_vars" where
  "list_vars s = (s ! 0, s ! 1, s ! 2, s ! 3, s ! 4, s ! 5, s ! 6, s ! 7)"

definition be_word :: "byte list \<Rightarrow> 32 word" where
  "be_word bs = foldl (\<lambda>a b. push_bit 8 a OR ucast b) 0 bs"

definition word_be :: "32 word \<Rightarrow> byte list" where
  "word_be w = [ucast (drop_bit 24 w), ucast (drop_bit 16 w), ucast (drop_bit 8 w), ucast w]"

fun chunks :: "nat \<Rightarrow> nat \<Rightarrow> 'a list \<Rightarrow> 'a list list" where
  "chunks 0 n xs = []"
| "chunks (Suc k) n xs = take n xs # chunks k n (drop n xs)"

definition sha_block :: "32 word list \<Rightarrow> byte list \<Rightarrow> 32 word list" where
  "sha_block s blk =
     map2 (+) s (vars_list (foldl sha_round (list_vars s)
       (zip sha_K (sha_schedule 48 (rev (map be_word (chunks 16 4 blk)))))))"

definition sha_pad :: "byte list \<Rightarrow> byte list" where
  "sha_pad m =
     (let n = length m; z = (119 - n mod 64) mod 64; bits = word_of_nat (8 * n) :: 64 word in
      m @ [0x80] @ replicate z 0 @ map (\<lambda>i. ucast (drop_bit (8 * i) bits)) (rev [0..<8]))"

definition sha256 :: "byte list \<Rightarrow> byte list" where
  "sha256 m =
     (let p = sha_pad m in
      concat (map word_be (foldl sha_block sha_H0 (chunks (length p div 64) 64 p))))"

section \<open>HMAC\<close>

definition hmac_key_block :: "byte list \<Rightarrow> byte list" where
  "hmac_key_block k =
     (let k' = (if 64 < length k then sha256 k else k) in k' @ replicate (64 - length k') 0)"

definition hmac_sha256 :: "byte list \<Rightarrow> byte list \<Rightarrow> byte list" where
  "hmac_sha256 key msg =
     (let b = hmac_key_block key in
      sha256 (map (\<lambda>x. x XOR 0x5c) b @ sha256 (map (\<lambda>x. x XOR 0x36) b @ msg)))"

section \<open>The digest has 32 bytes\<close>

lemma length_sha_block: "length s = 8 \<Longrightarrow> length (sha_block s blk) = 8"
proof -
  have "length (vars_list v) = 8" for v by (cases v rule: vars_list.cases) simp
  then show "length s = 8 \<Longrightarrow> length (sha_block s blk) = 8"
    by (simp add: sha_block_def)
qed

lemma length_sha_fold: "length s = 8 \<Longrightarrow> length (foldl sha_block s bs) = 8"
  by (induction bs arbitrary: s) (simp_all add: length_sha_block)

lemma length_word_bes: "length (concat (map word_be ws)) = 4 * length ws"
  by (induction ws) (simp_all add: word_be_def)

lemma length_sha256 [simp]: "length (sha256 m) = 32"
proof -
  have "length (foldl sha_block sha_H0 bs) = 8" for bs
    by (rule length_sha_fold) (simp add: sha_H0_def)
  then show ?thesis by (simp add: sha256_def Let_def length_word_bes)
qed

lemma length_hmac_sha256 [simp]: "length (hmac_sha256 key msg) = 32"
  by (simp add: hmac_sha256_def Let_def)

lemma length_sha_pad: "64 dvd length (sha_pad m)"
proof -
  define q r where "q = length m div 64" and "r = length m mod 64"
  have m: "length m = 64 * q + r" and r: "r < 64" by (simp_all add: q_def r_def)
  have "r + 9 + (119 - r) mod 64 = (if r \<le> 55 then 64 else 128)"
    using r by (auto simp: mod_if)
  then have "64 dvd r + 9 + (119 - r) mod 64" by (simp split: if_splits)
  then have "64 dvd 64 * q + (r + 9 + (119 - r) mod 64)" by simp
  moreover have "length (sha_pad m) = 64 * q + (r + 9 + (119 - r) mod 64)"
    by (simp add: sha_pad_def Let_def m r)
  ultimately show ?thesis by (simp only:)
qed

end
