(* ===== verification/Interfaces.thy ===== *)
theory Interfaces
  imports Py_Prelude
begin

text \<open>
  The contracts of \<open>backend/domain/interfaces\<close> and of the other seams between components,
  as locales: the operations a client is handed by the container, and the laws it may rely on.
  Each locale is interpreted on the model's own definitions in the theory of the component that
  provides it.
\<close>

section \<open>IThreatIntelProvider\<close>

text \<open>
  The dictionary \<open>get_ip_metadata\<close> returns. Its \<open>org\<close>, \<open>country\<close> and \<open>risk\<close>
  are always present, \<open>city\<close> and the coordinates are not.
\<close>

record meta =
  m_org :: string
  m_country :: string
  m_risk :: int
  m_city :: "string option"
  m_geo :: "(rat \<times> rat) option"

text \<open>A lookup reads the clock twice and may change the provider's state.\<close>

type_synonym 't meta_op = "time \<Rightarrow> time \<Rightarrow> string \<Rightarrow> 't \<Rightarrow> meta \<times> 't"

locale threat_provider =
  fixes get_meta :: "'t meta_op"
    and risk_score :: "'t \<Rightarrow> string \<Rightarrow> int"
    and svc_ok :: "'t \<Rightarrow> bool"
  assumes meta_ok: "svc_ok s \<Longrightarrow> svc_ok (snd (get_meta now now' ip s))"
    and meta_risk: "svc_ok s \<Longrightarrow> m_risk (fst (get_meta now now' ip s)) \<in> {0..10}"
    and risk_range: "risk_score s ip \<in> {0..10}"
    and meta_stable: "svc_ok s \<Longrightarrow> risk_score (snd (get_meta now now' ip s)) ip' = risk_score s ip'"
begin

lemma max_risk_range: "svc_ok s \<Longrightarrow> r \<in> {0..10} \<Longrightarrow>
    max r (m_risk (fst (get_meta now now' ip s))) \<in> {0..10}"
  using meta_risk [of s now now' ip] by (auto simp: max_def)

text \<open>A run of lookups keeps the provider in order and the risk scores fixed.\<close>

lemma lookups_ok:
  "svc_ok s \<Longrightarrow> svc_ok (fold (\<lambda>(now, now', ip) s. snd (get_meta now now' ip s)) qs s)
     \<and> risk_score (fold (\<lambda>(now, now', ip) s. snd (get_meta now now' ip s)) qs s) ip' = risk_score s ip'"
  by (induction qs arbitrary: s) (auto simp: meta_ok meta_stable split: prod.splits)

end

section \<open>IEventBus: subscriptions\<close>

locale subscriptions =
  fixes sub :: "'c \<Rightarrow> 'h \<Rightarrow> 'b \<Rightarrow> 'b"
    and unsub :: "'c \<Rightarrow> 'h \<Rightarrow> 'b \<Rightarrow> 'b"
    and listed :: "'b \<Rightarrow> 'c \<Rightarrow> 'h list"
    and bus_inv :: "'b \<Rightarrow> bool"
  assumes listed_sub: "listed (sub c h b) c' =
      (if c' = c \<and> h \<notin> set (listed b c) then listed b c @ [h] else listed b c')"
    and listed_unsub: "listed (unsub c h b) c' = (if c' = c then remove1 h (listed b c) else listed b c')"
    and inv_distinct: "bus_inv b \<Longrightarrow> distinct (listed b c)"
    and inv_sub: "bus_inv b \<Longrightarrow> bus_inv (sub c h b)"
    and inv_unsub: "bus_inv b \<Longrightarrow> bus_inv (unsub c h b)"
begin

lemma sub_again: "h \<in> set (listed b c) \<Longrightarrow> listed (sub c h b) = listed b"
  by (rule ext) (simp add: listed_sub)

lemma unsub_gone: "bus_inv b \<Longrightarrow> h \<notin> set (listed (unsub c h b) c)"
  by (simp add: listed_unsub inv_distinct)

lemma unsub_sub: "bus_inv b \<Longrightarrow> h \<notin> set (listed b c) \<Longrightarrow> listed (unsub c h (sub c h b)) = listed b"
  by (rule ext) (simp add: listed_sub listed_unsub remove1_append)

text \<open>Registering a table of handlers, and registering it again.\<close>

lemma registered: "set (listed (fold (\<lambda>(c, h). sub c h) xs b) c') =
    set (listed b c') \<union> {h. (c', h) \<in> set xs}"
proof (induction xs arbitrary: b)
  case (Cons x xs)
  then show ?case by (auto simp: listed_sub split: prod.splits)
qed simp

lemma registered_again: "\<forall>(c, h) \<in> set xs. h \<in> set (listed b c) \<Longrightarrow>
    listed (fold (\<lambda>(c, h). sub c h) xs b) = listed b"
proof (induction xs arbitrary: b)
  case (Cons x xs)
  obtain c h where x: "x = (c, h)" by (cases x)
  with Cons.prems have same: "listed (sub c h b) = listed b" by (intro sub_again) auto
  have "\<forall>(c', h') \<in> set xs. h' \<in> set (listed (sub c h b) c')"
    unfolding same using Cons.prems by simp
  from Cons.IH [OF this] same x show ?case by simp
qed simp

lemma registration_inv: "bus_inv b \<Longrightarrow> bus_inv (fold (\<lambda>(c, h). sub c h) xs b)"
  by (induction xs arbitrary: b) (auto simp: inv_sub split: prod.splits)

end

section \<open>IPortRepository\<close>

text \<open>
  A repository of blocked ports shows a finite map from ports to their block information. A
  call that fails leaves it as it was.
\<close>

locale port_repository =
  fixes add :: "time \<Rightarrow> int \<Rightarrow> string \<Rightarrow> string \<Rightarrow> 'd \<Rightarrow> unit result \<times> 'd"
    and remove :: "int \<Rightarrow> 'd \<Rightarrow> unit result \<times> 'd"
    and listing :: "'d \<Rightarrow> 'r list result \<times> 'd"
    and row :: "'r \<Rightarrow> int \<times> string \<times> time \<times> string"
    and view :: "'d \<Rightarrow> int \<Rightarrow> (string \<times> time \<times> string) option"
    and repo_inv :: "'d \<Rightarrow> bool"
  assumes add_law: "repo_inv d \<Longrightarrow> add now p btype reason d = (r, d') \<Longrightarrow>
      repo_inv d' \<and> view d' = (if r = Inr () then (view d)(p \<mapsto> (btype, now, reason)) else view d)"
    and remove_law: "repo_inv d \<Longrightarrow> remove p d = (r, d') \<Longrightarrow>
      repo_inv d' \<and> view d' = (if r = Inr () then (view d)(p := None) else view d)"
    and listing_law: "repo_inv d \<Longrightarrow> listing d = (rl, d') \<Longrightarrow> repo_inv d' \<and> view d' = view d
      \<and> (\<forall>rs. rl = Inr rs \<longrightarrow> sorted_wrt (\<lambda>x y. fst (row x) < fst (row y)) rs
           \<and> view d = map_of (map row rs))"
begin

text \<open>What the listing shows after an addition and after a removal.\<close>

lemma listed_after_add:
  assumes "repo_inv d" and "add now p btype reason d = (Inr (), d1)" and "listing d1 = (Inr rs, d2)"
  shows "map_of (map row rs) = (view d)(p \<mapsto> (btype, now, reason))"
proof -
  have "repo_inv d1 \<and> view d1 = (view d)(p \<mapsto> (btype, now, reason))"
    using add_law [OF assms(1,2)] by simp
  with listing_law [OF _ assms(3)] show ?thesis by auto
qed

lemma listed_after_remove:
  assumes "repo_inv d" and "remove p d = (Inr (), d1)" and "listing d1 = (Inr rs, d2)"
  shows "map_of (map row rs) = (view d)(p := None)"
proof -
  have "repo_inv d1 \<and> view d1 = (view d)(p := None)"
    using remove_law [OF assms(1,2)] by simp
  with listing_law [OF _ assms(3)] show ?thesis by auto
qed

lemma add_remove_view:
  assumes "repo_inv d" and "add now p btype reason d = (Inr (), d1)" and "remove p d1 = (Inr (), d2)"
    and "view d p = None"
  shows "view d2 = view d"
proof -
  have d1: "repo_inv d1" "view d1 = (view d)(p \<mapsto> (btype, now, reason))"
    using add_law [OF assms(1,2)] by auto
  with remove_law [OF d1(1) assms(3)] assms(4) show ?thesis by auto
qed

end

section \<open>IApprovalRepository\<close>

text \<open>
  Approvals are kept under identifiers; the pending ones are those nobody has resolved. The
  view gives the status of each identifier.
\<close>

locale approval_repository =
  fixes create :: "time \<Rightarrow> string \<Rightarrow> string \<Rightarrow> string \<Rightarrow> int \<Rightarrow> 'd \<Rightarrow> int result \<times> 'd"
    and update :: "time \<Rightarrow> int \<Rightarrow> string \<Rightarrow> string \<Rightarrow> 'd \<Rightarrow> bool result \<times> 'd"
    and pending :: "'d \<Rightarrow> 'r list result \<times> 'd"
    and rid :: "'r \<Rightarrow> int"
    and status :: "'d \<Rightarrow> int \<Rightarrow> string option"
    and appr_inv :: "'d \<Rightarrow> bool"
  assumes create_law: "appr_inv d \<Longrightarrow> create now act target reason risk d = (ri, d') \<Longrightarrow> appr_inv d'
      \<and> (case ri of Inl _ \<Rightarrow> status d' = status d
         | Inr i \<Rightarrow> status d i = None \<and> status d' = (status d)(i \<mapsto> ''pending''))"
    and update_law: "appr_inv d \<Longrightarrow> update now i st who d = (rb, d') \<Longrightarrow> appr_inv d'
      \<and> (case rb of Inl _ \<Rightarrow> status d' = status d
         | Inr found \<Rightarrow> (found \<longleftrightarrow> status d i \<noteq> None)
             \<and> status d' = (if found then (status d)(i \<mapsto> st) else status d))"
    and pending_law: "appr_inv d \<Longrightarrow> pending d = (rl, d') \<Longrightarrow> appr_inv d' \<and> status d' = status d
      \<and> (\<forall>rs. rl = Inr rs \<longrightarrow> distinct (map rid rs) \<and> set (map rid rs) = {i. status d i = Some ''pending''})"
begin

text \<open>An approval that has been created is pending until it is resolved, and then no longer.\<close>

lemma created_is_pending:
  assumes "appr_inv d" and "create now act target reason risk d = (Inr i, d1)" and "pending d1 = (Inr rs, d2)"
  shows "set (map rid rs) = insert i {j. status d j = Some ''pending''}"
proof -
  have "appr_inv d1 \<and> status d1 = (status d)(i \<mapsto> ''pending'')"
    using create_law [OF assms(1,2)] by simp
  with pending_law [OF _ assms(3)] show ?thesis by auto
qed

lemma resolved_not_pending:
  assumes "appr_inv d" and "update now i st who d = (Inr True, d1)" and "st \<noteq> ''pending''"
    and "pending d1 = (Inr rs, d2)"
  shows "set (map rid rs) = {j. status d j = Some ''pending''} - {i}"
proof -
  have "appr_inv d1 \<and> status d1 = (status d)(i \<mapsto> st)"
    using update_law [OF assms(1,2)] by simp
  with pending_law [OF _ assms(4)] assms(3) show ?thesis by auto
qed

end

section \<open>IFirewallAdapter\<close>

text \<open>
  The contract of \<open>os_adapters/base_bridge.py\<close>: a block either succeeds or raises
  \<open>FirewallRuleError\<close>, and with arguments outside the documented range it raises before it
  touches the firewall; an unblock never raises; a clean-up counts or raises \<open>CleanupError\<close>.
\<close>

definition valid_port :: "int \<Rightarrow> bool" where
  "valid_port p \<longleftrightarrow> 1 \<le> p \<and> p \<le> 65535"

definition valid_protocol :: "string \<Rightarrow> bool" where
  "valid_protocol s \<longleftrightarrow> str_lower s \<in> {''tcp'', ''udp''}"

lemma upper_protocol: "str_upper s \<in> {''TCP'', ''UDP''} \<longleftrightarrow> valid_protocol s"
proof -
  have up: "str_upper (str_lower s) = str_upper s" and low: "str_lower (str_upper s) = str_lower s"
    by (simp_all add: str_upper_def str_lower_def upper_lower_char)
  have "str_lower ''TCP'' = ''tcp''" "str_lower ''UDP'' = ''udp''" "str_upper ''tcp'' = ''TCP''" "str_upper ''udp'' = ''UDP''"
    by code_simp+
  with up low show ?thesis unfolding valid_protocol_def by (metis insert_iff singletonD)
qed

locale firewall_adapter =
  fixes block :: "int \<Rightarrow> string \<Rightarrow> 's \<Rightarrow> bool result \<times> 's"
    and unblock :: "int \<Rightarrow> 's \<Rightarrow> bool result \<times> 's"
    and cleanup :: "'s \<Rightarrow> nat result \<times> 's"
  assumes block_outcome: "block p proto s = (r, s') \<Longrightarrow> r = Inr True \<or> r = Inl FirewallRuleError"
    and block_guard: "\<not> (valid_port p \<and> valid_protocol proto) \<Longrightarrow> block p proto s = (Inl FirewallRuleError, s)"
    and unblock_outcome: "unblock p s = (r', s') \<Longrightarrow> \<exists>b. r' = Inr b"
    and cleanup_outcome: "cleanup s = (rn, s') \<Longrightarrow> (\<exists>n. rn = Inr n) \<or> rn = Inl CleanupError"
begin

lemma block_success: "block p proto s = (Inr b, s') \<Longrightarrow> b \<and> valid_port p \<and> valid_protocol proto"
  using block_outcome block_guard by fastforce

lemma block_failure: "block p proto s = (Inl err, s') \<Longrightarrow> err = FirewallRuleError"
  using block_outcome by fastforce

lemma unblock_total: "fst (unblock p s) \<noteq> Inl err"
  using unblock_outcome [of p s] by (metis prod.collapse Inl_Inr_False)

end

end
