(* ===== verification/Net_Addr.thy ===== *)
theory Net_Addr
  imports Sha256
begin

text \<open>
  Numbers as bytes in little-endian order (what \<open>struct\<close> writes with the \<open><\<close>
  prefix), and the two address notations of the standard library the sources use:
  \<open>socket.inet_aton\<close> / \<open>inet_ntoa\<close> (the C library's reading, with its octal, hexadecimal
  and shortened forms) and \<open>ipaddress.ip_address\<close> (strict IPv4 and IPv6 text).
\<close>

section \<open>Little-endian integers\<close>

fun le_bytes :: "nat \<Rightarrow> int \<Rightarrow> byte list" where
  "le_bytes 0 x = []"
| "le_bytes (Suc n) x = word_of_int x # le_bytes n (x div 256)"

fun of_le :: "byte list \<Rightarrow> int" where
  "of_le [] = 0"
| "of_le (b # bs) = uint b + 256 * of_le bs"

lemma length_le_bytes [simp]: "length (le_bytes n x) = n"
  by (induction n arbitrary: x) auto

lemma of_le_le_bytes: "of_le (le_bytes n x) = x mod 256 ^ n"
proof (induction n arbitrary: x)
  case 0
  then show ?case by simp
next
  case (Suc n)
  have "of_le (le_bytes (Suc n) x) = x mod 256 + 256 * (x div 256 mod 256 ^ n)"
    using Suc.IH by (simp add: uint_word_of_int)
  also have "\<dots> = x mod (256 * 256 ^ n)"
    by (simp add: zmod_zmult2_eq)
  finally show ?case by simp
qed

lemma of_le_le_bytes_id: "0 \<le> x \<Longrightarrow> x < 256 ^ n \<Longrightarrow> of_le (le_bytes n x) = x"
  by (simp add: of_le_le_bytes)

lemma of_le_bounds: "0 \<le> of_le bs \<and> of_le bs < 256 ^ length bs"
proof (induction bs)
  case Nil
  then show ?case by simp
next
  case (Cons b bs)
  have "0 \<le> uint b" and "uint b < 256"
    using uint_lt2p [of b] by auto
  with Cons.IH show ?case by auto
qed

lemma le_bytes_of_le: "le_bytes (length bs) (of_le bs) = bs"
proof (induction bs)
  case Nil
  then show ?case by simp
next
  case (Cons b bs)
  have b: "0 \<le> uint b" "uint b < 256"
    using uint_lt2p [of b] by auto
  then have "(uint b + 256 * of_le bs) div 256 = of_le bs"
    by (simp add: div_add1_eq)
  moreover have "(word_of_int (uint b + 256 * of_le bs) :: byte) = b"
  proof -
    have "(word_of_int (uint b + 256 * of_le bs) :: byte) = word_of_int (uint b) + 256 * word_of_int (of_le bs)"
      by simp
    also have "(256 :: byte) = 0" by simp
    finally show ?thesis by simp
  qed
  ultimately show ?case using Cons.IH by simp
qed

section \<open>inet\_aton and inet\_ntoa\<close>

definition hex_val :: "char \<Rightarrow> nat option" where
  "hex_val c = (let n = of_char c :: nat in
     if 48 \<le> n \<and> n \<le> 57 then Some (n - 48)
     else if 97 \<le> n \<and> n \<le> 102 then Some (n - 87)
     else if 65 \<le> n \<and> n \<le> 70 then Some (n - 55) else None)"

fun digits_base :: "nat \<Rightarrow> nat \<Rightarrow> string \<Rightarrow> nat option" where
  "digits_base b a [] = Some a"
| "digits_base b a (c # cs) = (case hex_val c of
     None \<Rightarrow> None
   | Some d \<Rightarrow> if d < b then digits_base b (b * a + d) cs else None)"

text \<open>A C number: hexadecimal after \<open>0x\<close>, octal after \<open>0\<close>, decimal otherwise.\<close>

fun c_number :: "string \<Rightarrow> nat option" where
  "c_number [] = None"
| "c_number (c # cs) =
     (if c = CHR ''0'' then
        (case cs of
           [] \<Rightarrow> Some 0
         | x # hs \<Rightarrow> if x = CHR ''x'' \<or> x = CHR ''X''
                    then (if hs = [] then None else digits_base 16 0 hs)
                    else digits_base 8 0 cs)
      else digits_base 10 0 (c # cs))"

fun all_some :: "'a option list \<Rightarrow> 'a list option" where
  "all_some [] = Some []"
| "all_some (None # xs) = None"
| "all_some (Some x # xs) = map_option ((#) x) (all_some xs)"

definition inet_aton :: "string \<Rightarrow> byte list option" where
  "inet_aton s =
     (case all_some (map c_number (split_on CHR ''.'' (takeWhile (Not \<circ> is_space) s))) of
        None \<Rightarrow> None
      | Some vs \<Rightarrow>
          (let k = 5 - length vs in
           if length vs \<le> 4 \<and> list_all (\<lambda>v. v \<le> 255) (butlast vs) \<and> last vs < 256 ^ k
           then Some (map word_of_nat (butlast vs) @ rev (le_bytes k (int (last vs))))
           else None))"

definition inet_ntoa :: "byte list \<Rightarrow> string" where
  "inet_ntoa bs = show_nat (unat (bs ! 0)) @ ''.'' @ show_nat (unat (bs ! 1)) @ ''.'' @
     show_nat (unat (bs ! 2)) @ ''.'' @ show_nat (unat (bs ! 3))"

lemma digits_base_digits: "list_all is_digit s \<Longrightarrow>
    digits_base 10 a s = Some (foldl (\<lambda>a c. 10 * a + digit_val c) a s)"
proof (induction s arbitrary: a)
  case Nil
  then show ?case by simp
next
  case (Cons c s)
  then have "hex_val c = Some (digit_val c)" and "digit_val c < 10"
    by (auto simp: hex_val_def is_digit_def digit_val_def Let_def)
  with Cons show ?case by simp
qed

lemma c_number_show_nat: "c_number (show_nat n) = Some n"
proof (cases "n = 0")
  case True
  then show ?thesis by simp
next
  case False
  then obtain c cs where s: "show_nat n = c # cs" and "c \<noteq> CHR ''0''"
    using hd_show_nat [of n] by (cases "show_nat n") auto
  with digits_base_digits [OF show_nat_digits [of n], of 0] parse_show_nat [of n] show ?thesis
    by (simp add: parse_nat_def)
qed

lemma digit_not_dot: "list_all is_digit s \<Longrightarrow> CHR ''.'' \<notin> set s"
  by (induction s) (auto simp: is_digit_def)

lemma inet_aton_ntoa:
  assumes "length bs = 4"
  shows "inet_aton (inet_ntoa bs) = Some bs"
proof -
  from assms obtain a b c d where bs: "bs = [a, b, c, d]"
    by (auto simp: length_Suc_conv numeral_eq_Suc)
  have small: "unat (x :: byte) < 256" for x
    using unsigned_less [of x] by simp
  have nodot: "CHR ''.'' \<notin> set (show_nat n)" for n
    by (rule digit_not_dot [OF show_nat_digits])
  have "list_all (Not \<circ> is_space) (show_nat n)" for n
    using show_nat_digits [of n] by (auto simp: list_all_iff digit_not_space)
  then have "list_all (Not \<circ> is_space) (inet_ntoa bs)"
    by (simp add: inet_ntoa_def is_space_def)
  then have tw: "takeWhile (Not \<circ> is_space) (inet_ntoa bs) = inet_ntoa bs"
    by (simp add: takeWhile_eq_all_conv list_all_iff)
  have sp: "split_on CHR ''.'' (inet_ntoa bs) =
      [show_nat (unat a), show_nat (unat b), show_nat (unat c), show_nat (unat d)]"
    using nodot by (simp add: inet_ntoa_def bs split_on_append split_on_none)
  show ?thesis
    unfolding inet_aton_def tw sp
    using small [of a] small [of b] small [of c] small [of d]
    by (simp add: c_number_show_nat bs)
qed

lemma length_inet_aton: "inet_aton s = Some bs \<Longrightarrow> length bs = 4"
proof -
  have ne: "all_some xs = Some vs \<Longrightarrow> xs \<noteq> [] \<Longrightarrow> vs \<noteq> []" for xs :: "nat option list" and vs
    by (induction xs arbitrary: vs rule: all_some.induct) auto
  assume "inet_aton s = Some bs"
  then obtain vs where vs: "all_some (map c_number (split_on CHR ''.'' (takeWhile (Not \<circ> is_space) s))) = Some vs"
    and le: "length vs \<le> 4" and bs: "bs = map word_of_nat (butlast vs) @ rev (le_bytes (5 - length vs) (int (last vs)))"
    by (auto simp: inet_aton_def Let_def split: option.splits if_splits)
  from ne [OF vs] have "vs \<noteq> []" by (simp add: split_on_nonempty)
  with le bs show ?thesis by (cases vs) auto
qed

section \<open>ipaddress.ip\_address\<close>

definition octet_ok :: "string \<Rightarrow> bool" where
  "octet_ok s \<longleftrightarrow> str_isdigit s \<and> length s \<le> 3
     \<and> \<not> (1 < length s \<and> hd s = CHR ''0'') \<and> parse_nat s \<le> 255"

definition ipv4_ok :: "string \<Rightarrow> bool" where
  "ipv4_ok s \<longleftrightarrow> (let ps = split_on CHR ''.'' s in length ps = 4 \<and> list_all octet_ok ps)"

definition hextet_ok :: "string \<Rightarrow> bool" where
  "hextet_ok s \<longleftrightarrow> s \<noteq> [] \<and> length s \<le> 4 \<and> list_all (\<lambda>c. hex_val c \<noteq> None) s"

text \<open>
  The IPv6 parser works on the parts between colons: an embedded IPv4 tail counts as two
  parts, one empty part inside marks the run of zeros, and an empty first or last part is
  allowed only next to it.
\<close>

definition ipv6_parts_ok :: "string list \<Rightarrow> bool" where
  "ipv6_parts_ok ps =
     (let n = length ps;
          gaps = filter (\<lambda>i. ps ! i = []) [1..<n - 1]
      in n \<le> 9 \<and>
         (case gaps of
            [] \<Rightarrow> n = 8 \<and> list_all hextet_ok ps
          | [k] \<Rightarrow>
              (let lo = n - k - 1;
                   hi' = (if ps ! 0 = [] then k - 1 else k);
                   lo' = (if ps ! (n - 1) = [] then lo - 1 else lo)
               in (ps ! 0 = [] \<longrightarrow> hi' = 0) \<and> (ps ! (n - 1) = [] \<longrightarrow> lo' = 0) \<and> hi' + lo' < 8 \<and>
                  list_all hextet_ok (take hi' ps) \<and> list_all hextet_ok (drop (n - lo') ps))
          | _ \<Rightarrow> False))"

definition ipv6_ok :: "string \<Rightarrow> bool" where
  "ipv6_ok s =
     (let addr = takeWhile (\<lambda>c. c \<noteq> CHR ''%'') s; rest = drop (length addr) s;
          ps = split_on CHR '':'' addr
      in (rest = [] \<or> (tl rest \<noteq> [] \<and> CHR ''%'' \<notin> set (tl rest))) \<and>
         CHR ''/'' \<notin> set s \<and> 3 \<le> length ps \<and>
         (if CHR ''.'' \<in> set (last ps)
          then ipv4_ok (last ps) \<and> ipv6_parts_ok (butlast ps @ [''0'', ''0''])
          else ipv6_parts_ok ps))"

definition ip_address_ok :: "string \<Rightarrow> bool" where
  "ip_address_ok s \<longleftrightarrow> ipv4_ok s \<or> ipv6_ok s"

end
