(* ===== verification/Shm.thy ===== *)
theory Shm
  imports Net_Addr
begin

text \<open>
  The shared-memory segment of \<open>backend/core/sniffer.py\<close>: one signed 64-byte slot per port
  and a bitmap of active ports behind the slots. Modelled are the packed entry
  (\<open>PORT_ENTRY_STRUCT\<close>), \<open>_init_shared_memory\<close>'s zeroed segment, \<open>_write_port_entry\<close>,
  \<open>read_port_entry\<close> and the bitmap scan \<open>read_all_active_ports\<close>. The buffer is a map
  from offsets to bytes; every access of the code stays below \<open>SHM_SIZE\<close>.
\<close>

unbundle bit_operations_syntax

section \<open>Layout\<close>

definition MAX_PORTS :: nat where "MAX_PORTS = 65536"
definition ENTRY_SIZE :: nat where "ENTRY_SIZE = 64"
definition BITMAP_SIZE :: nat where "BITMAP_SIZE = 8192"
definition BITMAP_OFFSET :: nat where "BITMAP_OFFSET = MAX_PORTS * ENTRY_SIZE"
definition SHM_SIZE :: nat where "SHM_SIZE = BITMAP_OFFSET + BITMAP_SIZE"

type_synonym buf = "nat \<Rightarrow> byte"

definition store :: "nat \<Rightarrow> byte list \<Rightarrow> buf \<Rightarrow> buf" where
  "store off bs m = (\<lambda>i. if off \<le> i \<and> i < off + length bs then bs ! (i - off) else m i)"

definition slice :: "nat \<Rightarrow> nat \<Rightarrow> buf \<Rightarrow> byte list" where
  "slice off n m = map m [off..<off + n]"

definition init_shared_memory :: buf where
  "init_shared_memory = (\<lambda>_. 0)"

lemma length_slice [simp]: "length (slice off n m) = n"
  by (simp add: slice_def)

lemma slice_store_same: "length bs = n \<Longrightarrow> slice off n (store off bs m) = bs"
  by (rule nth_equalityI) (auto simp: slice_def store_def)

lemma slice_store_other:
  "off + length bs \<le> off' \<or> off' + n \<le> off \<Longrightarrow> slice off' n (store off bs m) = slice off' n m"
  by (auto simp: slice_def store_def)

lemma slice_upd_other: "i < off \<or> off + n \<le> i \<Longrightarrow> slice off n (m(i := b)) = slice off n m"
  by (auto simp: slice_def)

lemma store_other: "i < off \<or> off + length bs \<le> i \<Longrightarrow> store off bs m i = m i"
  by (auto simp: store_def)

section \<open>The packed entry\<close>

text \<open>
  The tuple of \<open>struct.Struct("<HQQI BBB 4s 3x")\<close>: the address is four bytes in the struct
  and dotted text in the rows the reader hands out, hence the type parameter.
\<close>

record 'ip port_entry =
  e_port :: int
  e_bytes_in :: int
  e_bytes_out :: int
  e_pid :: int
  e_protocol :: int
  e_active :: int
  e_risk :: int
  e_ip :: 'ip

definition in_range :: "nat \<Rightarrow> int \<Rightarrow> bool" where
  "in_range n x \<longleftrightarrow> 0 \<le> x \<and> x < 256 ^ n"

definition entry_fits :: "'ip port_entry \<Rightarrow> bool" where
  "entry_fits e \<longleftrightarrow> in_range 2 (e_port e) \<and> in_range 8 (e_bytes_in e) \<and> in_range 8 (e_bytes_out e)
     \<and> in_range 4 (e_pid e) \<and> in_range 1 (e_protocol e) \<and> in_range 1 (e_active e) \<and> in_range 1 (e_risk e)"

text \<open>\<open>pack\<close> raises \<open>struct.error\<close> for a value out of its field's range; \<open>4s\<close> pads or cuts.\<close>

definition pack_entry :: "byte list port_entry \<Rightarrow> byte list result" where
  "pack_entry e =
     (if entry_fits e
      then Inr (le_bytes 2 (e_port e) @ le_bytes 8 (e_bytes_in e) @ le_bytes 8 (e_bytes_out e)
             @ le_bytes 4 (e_pid e) @ le_bytes 1 (e_protocol e) @ le_bytes 1 (e_active e)
             @ le_bytes 1 (e_risk e) @ take 4 (e_ip e @ replicate 4 0) @ replicate 3 0)
      else Inl StructError)"

definition unpack_entry :: "byte list \<Rightarrow> byte list port_entry" where
  "unpack_entry d =
     \<lparr>e_port = of_le (take 2 d), e_bytes_in = of_le (take 8 (drop 2 d)),
      e_bytes_out = of_le (take 8 (drop 10 d)), e_pid = of_le (take 4 (drop 18 d)),
      e_protocol = of_le (take 1 (drop 22 d)), e_active = of_le (take 1 (drop 23 d)),
      e_risk = of_le (take 1 (drop 24 d)), e_ip = take 4 (drop 25 d)\<rparr>"

lemma length_pack_entry: "pack_entry e = Inr d \<Longrightarrow> length d = 32"
  by (auto simp: pack_entry_def split: if_splits)

lemma unpack_pack_entry:
  assumes "pack_entry e = Inr d" and "length (e_ip e) = 4"
  shows "unpack_entry d = e"
proof -
  from assms(1) have fits: "entry_fits e" by (auto simp: pack_entry_def split: if_splits)
  have id: "of_le (le_bytes n x) = x" if "in_range n x" for n x
    using that by (simp add: in_range_def of_le_le_bytes_id)
  from assms fits show ?thesis
    by (auto simp: pack_entry_def unpack_entry_def entry_fits_def id
             simp del: le_bytes.simps of_le.simps)
qed

section \<open>Writing a slot\<close>

definition ip_bytes_of :: "string \<Rightarrow> byte list" where
  "ip_bytes_of ip = (case inet_aton ip of Some b \<Rightarrow> b | None \<Rightarrow> [0, 0, 0, 0])"

definition bitmap_byte :: "int \<Rightarrow> nat" where
  "bitmap_byte port = BITMAP_OFFSET + nat (port div 8)"

definition update_bitmap :: "int \<Rightarrow> int \<Rightarrow> buf \<Rightarrow> buf" where
  "update_bitmap port active m =
     (let i = bitmap_byte port; mask = push_bit (nat (port mod 8)) 1
      in if active \<noteq> 0 then m(i := m i OR mask) else m(i := m i AND NOT mask))"

definition write_port_entry ::
  "byte list \<Rightarrow> int \<Rightarrow> int \<Rightarrow> int \<Rightarrow> int \<Rightarrow> int \<Rightarrow> int \<Rightarrow> int \<Rightarrow> string \<Rightarrow> buf option \<Rightarrow> buf option result" where
  "write_port_entry key port bytes_in bytes_out pid protocol active risk remote_ip shm =
     (case shm of
        None \<Rightarrow> Inr None
      | Some m \<Rightarrow>
          (case pack_entry \<lparr>e_port = port, e_bytes_in = bytes_in mod 2 ^ 64,
                  e_bytes_out = bytes_out mod 2 ^ 64, e_pid = pid, e_protocol = protocol,
                  e_active = active, e_risk = risk, e_ip = ip_bytes_of remote_ip\<rparr> of
             Inl err \<Rightarrow> Inl err
           | Inr d \<Rightarrow>
               Inr (Some (update_bitmap port active
                 (store (nat port * ENTRY_SIZE) (d @ hmac_sha256 key d) m)))))"

section \<open>Reading slots\<close>

definition read_port_entry :: "byte list \<Rightarrow> buf \<Rightarrow> nat \<Rightarrow> string port_entry option" where
  "read_port_entry key m port =
     (let raw = slice (port * ENTRY_SIZE) ENTRY_SIZE m; d = take 32 raw; mac = drop 32 raw in
      if mac \<noteq> hmac_sha256 key d then None
      else let e = unpack_entry d in
        if e_active e = 0 then None
        else Some \<lparr>e_port = e_port e, e_bytes_in = e_bytes_in e, e_bytes_out = e_bytes_out e,
                   e_pid = e_pid e, e_protocol = e_protocol e, e_active = e_active e,
                   e_risk = e_risk e, e_ip = inet_ntoa (e_ip e)\<rparr>)"

definition scan_bit :: "byte list \<Rightarrow> buf \<Rightarrow> nat \<Rightarrow> nat \<Rightarrow> string port_entry list" where
  "scan_bit key m i k =
     (if m (BITMAP_OFFSET + i) AND push_bit k 1 = 0 then []
      else case read_port_entry key m (i * 8 + k) of None \<Rightarrow> [] | Some e \<Rightarrow> [e])"

definition read_all_active_ports :: "byte list \<Rightarrow> buf \<Rightarrow> string port_entry list" where
  "read_all_active_ports key m =
     concat (map (\<lambda>i. if m (BITMAP_OFFSET + i) = 0 then []
                      else concat (map (scan_bit key m i) [0..<8])) [0..<BITMAP_SIZE])"

text \<open>The scan the bitmap replaces: every slot in port order.\<close>

definition scan_all_slots :: "byte list \<Rightarrow> buf \<Rightarrow> string port_entry list" where
  "scan_all_slots key m =
     concat (map (\<lambda>p. case read_port_entry key m p of None \<Rightarrow> [] | Some e \<Rightarrow> [e]) [0..<MAX_PORTS])"

section \<open>What a write does to a slot, to the others and to the bitmap\<close>

definition bitmap_bit :: "buf \<Rightarrow> nat \<Rightarrow> bool" where
  "bitmap_bit m p \<longleftrightarrow> bit (m (BITMAP_OFFSET + p div 8)) (p mod 8)"

text \<open>The row a successful write leaves to be read.\<close>

definition written_row ::
  "int \<Rightarrow> int \<Rightarrow> int \<Rightarrow> int \<Rightarrow> int \<Rightarrow> int \<Rightarrow> int \<Rightarrow> string \<Rightarrow> string port_entry" where
  "written_row port bytes_in bytes_out pid protocol active risk remote_ip =
     \<lparr>e_port = port, e_bytes_in = bytes_in mod 2 ^ 64, e_bytes_out = bytes_out mod 2 ^ 64,
      e_pid = pid, e_protocol = protocol, e_active = active, e_risk = risk,
      e_ip = inet_ntoa (ip_bytes_of remote_ip)\<rparr>"

lemma length_ip_bytes_of [simp]: "length (ip_bytes_of ip) = 4"
  by (auto simp: ip_bytes_of_def length_inet_aton split: option.splits)

lemma slot_below_bitmap: "p < MAX_PORTS \<Longrightarrow> p * ENTRY_SIZE + ENTRY_SIZE \<le> BITMAP_OFFSET"
  by (simp add: MAX_PORTS_def ENTRY_SIZE_def BITMAP_OFFSET_def)

lemma slots_disjoint: "p \<noteq> q \<Longrightarrow> p * ENTRY_SIZE + ENTRY_SIZE \<le> q * ENTRY_SIZE \<or> q * ENTRY_SIZE + ENTRY_SIZE \<le> p * ENTRY_SIZE"
  by (auto simp: ENTRY_SIZE_def)

lemma slice_update_bitmap:
  "off + n \<le> BITMAP_OFFSET \<Longrightarrow> slice off n (update_bitmap port active m) = slice off n m"
  by (simp add: update_bitmap_def Let_def bitmap_byte_def slice_upd_other)

text \<open>A successful write, taken apart once for all proofs below.\<close>

lemma write_port_entryE:
  assumes "write_port_entry key port bi bo pid proto act risk ip (Some m) = Inr s'"
  obtains d where
    "pack_entry \<lparr>e_port = port, e_bytes_in = bi mod 2 ^ 64, e_bytes_out = bo mod 2 ^ 64,
       e_pid = pid, e_protocol = proto, e_active = act, e_risk = risk, e_ip = ip_bytes_of ip\<rparr> = Inr d"
    and "length d = 32" and "0 \<le> port" and "nat port < MAX_PORTS"
    and "s' = Some (update_bitmap port act (store (nat port * ENTRY_SIZE) (d @ hmac_sha256 key d) m))"
proof -
  let ?e = "\<lparr>e_port = port, e_bytes_in = bi mod 2 ^ 64, e_bytes_out = bo mod 2 ^ 64,
       e_pid = pid, e_protocol = proto, e_active = act, e_risk = risk, e_ip = ip_bytes_of ip\<rparr>"
  from assms obtain d where d: "pack_entry ?e = Inr d"
    and s': "s' = Some (update_bitmap port act (store (nat port * ENTRY_SIZE) (d @ hmac_sha256 key d) m))"
    by (auto simp: write_port_entry_def split: sum.splits)
  from d have "in_range 2 port"
    by (auto simp: pack_entry_def entry_fits_def split: if_splits)
  then have "0 \<le> port" and "nat port < MAX_PORTS"
    by (auto simp: in_range_def MAX_PORTS_def)
  from that [OF d length_pack_entry [OF d] this s'] show ?thesis .
qed

lemma read_after_write:
  assumes w: "write_port_entry key port bi bo pid proto act risk ip (Some m) = Inr (Some m')"
  shows "read_port_entry key m' (nat port) =
    (if act = 0 then None else Some (written_row port bi bo pid proto act risk ip))"
proof -
  from w obtain d where d: "pack_entry \<lparr>e_port = port, e_bytes_in = bi mod 2 ^ 64,
        e_bytes_out = bo mod 2 ^ 64, e_pid = pid, e_protocol = proto, e_active = act, e_risk = risk,
        e_ip = ip_bytes_of ip\<rparr> = Inr d" and len: "length d = 32" and p: "nat port < MAX_PORTS"
    and m': "m' = update_bitmap port act (store (nat port * ENTRY_SIZE) (d @ hmac_sha256 key d) m)"
    by (rule write_port_entryE) simp
  have "slice (nat port * ENTRY_SIZE) ENTRY_SIZE m' = d @ hmac_sha256 key d"
    unfolding m' slice_update_bitmap [OF slot_below_bitmap [OF p]]
    by (rule slice_store_same) (simp add: len ENTRY_SIZE_def)
  moreover note unpack_pack_entry [OF d]
  ultimately show ?thesis
    by (simp add: read_port_entry_def Let_def len written_row_def)
qed

lemma read_other_after_write:
  assumes w: "write_port_entry key port bi bo pid proto act risk ip (Some m) = Inr (Some m')"
    and q: "q < MAX_PORTS" "q \<noteq> nat port"
  shows "read_port_entry key' m' q = read_port_entry key' m q"
proof -
  from w obtain d where len: "length d = 32"
    and m': "m' = update_bitmap port act (store (nat port * ENTRY_SIZE) (d @ hmac_sha256 key d) m)"
    by (rule write_port_entryE) simp
  have "slice (q * ENTRY_SIZE) ENTRY_SIZE m' = slice (q * ENTRY_SIZE) ENTRY_SIZE m"
    unfolding m' slice_update_bitmap [OF slot_below_bitmap [OF q(1)]]
    using slots_disjoint [OF q(2)]
    by (intro slice_store_other) (auto simp: len ENTRY_SIZE_def)
  then show ?thesis by (simp add: read_port_entry_def)
qed

lemma bit_byte_mask: "k < 8 \<Longrightarrow> bit (2 ^ j :: byte) k \<longleftrightarrow> k = j"
  by (auto simp: bit_exp_iff)

lemma bitmap_after_write:
  assumes w: "write_port_entry key port bi bo pid proto act risk ip (Some m) = Inr (Some m')"
  shows "bitmap_bit m' q \<longleftrightarrow> (if q = nat port then act \<noteq> 0 else bitmap_bit m q)"
proof -
  from w obtain d where len: "length d = 32" and p: "0 \<le> port" "nat port < MAX_PORTS"
    and m': "m' = update_bitmap port act (store (nat port * ENTRY_SIZE) (d @ hmac_sha256 key d) m)"
    by (rule write_port_entryE) simp
  let ?n = "store (nat port * ENTRY_SIZE) (d @ hmac_sha256 key d) m"
  have n: "?n (BITMAP_OFFSET + i) = m (BITMAP_OFFSET + i)" for i
    using slot_below_bitmap [OF p(2)] by (intro store_other) (simp add: len ENTRY_SIZE_def)
  have div: "nat (port div 8) = nat port div 8" and mod: "nat (port mod 8) = nat port mod 8"
    using p(1) by (simp_all add: nat_div_distrib nat_mod_distrib)
  have q: "q = nat port \<longleftrightarrow> q div 8 = nat port div 8 \<and> q mod 8 = nat port mod 8"
    by (metis div_mult_mod_eq)
  have "q mod 8 < 8" by simp
  then show ?thesis
    unfolding bitmap_bit_def m' update_bitmap_def Let_def bitmap_byte_def div mod n q
    by (auto simp: n bit_or_iff bit_and_iff bit_not_iff_eq bit_byte_mask)
qed

section \<open>The segments a writer can produce\<close>

inductive shm_reach :: "byte list \<Rightarrow> buf \<Rightarrow> bool" for key where
  reach_init: "shm_reach key init_shared_memory"
| reach_write: "shm_reach key m \<Longrightarrow>
     write_port_entry key port bi bo pid proto act risk ip (Some m) = Inr (Some m') \<Longrightarrow>
     shm_reach key m'"

text \<open>Every slot that reads as active has its bit set.\<close>

definition bitmap_complete :: "byte list \<Rightarrow> buf \<Rightarrow> bool" where
  "bitmap_complete key m \<longleftrightarrow>
     (\<forall>p < MAX_PORTS. read_port_entry key m p \<noteq> None \<longrightarrow> bitmap_bit m p)"

lemma of_le_zeros [simp]: "of_le (replicate n 0) = 0"
  by (induction n) auto

lemma read_init: "read_port_entry key init_shared_memory p = None"
proof -
  have "slice off n init_shared_memory = replicate n 0" for off n
    by (simp add: slice_def init_shared_memory_def map_replicate_const)
  then show ?thesis
    by (simp add: read_port_entry_def Let_def unpack_entry_def ENTRY_SIZE_def)
qed

lemma bitmap_complete_init: "bitmap_complete key init_shared_memory"
  by (simp add: bitmap_complete_def read_init)

lemma bitmap_complete_write:
  assumes c: "bitmap_complete key m"
    and w: "write_port_entry key port bi bo pid proto act risk ip (Some m) = Inr (Some m')"
  shows "bitmap_complete key m'"
  unfolding bitmap_complete_def
proof (intro allI impI)
  fix p assume p: "p < MAX_PORTS" and some: "read_port_entry key m' p \<noteq> None"
  show "bitmap_bit m' p"
  proof (cases "p = nat port")
    case True
    with some read_after_write [OF w] have "act \<noteq> 0" by (auto split: if_splits)
    with True show ?thesis by (simp add: bitmap_after_write [OF w])
  next
    case False
    with c p some show ?thesis
      by (simp add: bitmap_after_write [OF w] read_other_after_write [OF w] bitmap_complete_def)
  qed
qed

lemma shm_reach_complete: "shm_reach key m \<Longrightarrow> bitmap_complete key m"
  by (induction rule: shm_reach.induct) (auto intro: bitmap_complete_init bitmap_complete_write)

section \<open>The bitmap scan reads every active slot\<close>

lemma concat_by_eight:
  "concat (map (\<lambda>i. concat (map (\<lambda>k. f (i * 8 + k)) [0..<8])) [0..<n]) = concat (map f [0..<n * 8])"
proof (induction n)
  case 0
  then show ?case by simp
next
  case (Suc n)
  have "[n * 8..<n * 8 + 8] = map (\<lambda>k. n * 8 + k) [0..<8]"
    by (rule nth_equalityI) auto
  moreover have "[0..<Suc n * 8] = [0..<n * 8] @ [n * 8..<n * 8 + 8]"
    using upt_add_eq_append [of 0 "n * 8" 8] by (simp add: add.commute)
  moreover have "[0..<Suc n] = [0..<n] @ [n]" by simp
  ultimately show ?case using Suc.IH by (simp add: comp_def del: upt_Suc)
qed

lemma scan_bit_eq:
  assumes "bitmap_complete key m" and "i < BITMAP_SIZE" and "k < 8"
  shows "scan_bit key m i k =
    (case read_port_entry key m (i * 8 + k) of None \<Rightarrow> [] | Some e \<Rightarrow> [e])"
proof -
  have "i * 8 + k < MAX_PORTS" using assms(2,3) by (simp add: BITMAP_SIZE_def MAX_PORTS_def)
  with assms(1) have "read_port_entry key m (i * 8 + k) \<noteq> None \<Longrightarrow> bit (m (BITMAP_OFFSET + i)) k"
    using assms(3) by (auto simp: bitmap_complete_def bitmap_bit_def)
  then show ?thesis
    by (auto simp: scan_bit_def bit_iff_and_push_bit_not_eq_0 split: option.splits)
qed

lemma read_all_eq_scan_all:
  assumes c: "bitmap_complete key m"
  shows "read_all_active_ports key m = scan_all_slots key m"
proof -
  let ?f = "\<lambda>p. case read_port_entry key m p of None \<Rightarrow> [] | Some e \<Rightarrow> [e]"
  have byte: "(if m (BITMAP_OFFSET + i) = 0 then [] else concat (map (scan_bit key m i) [0..<8]))
      = concat (map (\<lambda>k. ?f (i * 8 + k)) [0..<8])" if i: "i < BITMAP_SIZE" for i
  proof -
    have "concat (map (scan_bit key m i) [0..<8]) = concat (map (\<lambda>k. ?f (i * 8 + k)) [0..<8])"
      using scan_bit_eq [OF c i] by (intro arg_cong [where f = concat] map_cong) auto
    moreover have "concat (map (scan_bit key m i) [0..<8]) = []" if "m (BITMAP_OFFSET + i) = 0"
      using that by (simp add: scan_bit_def)
    ultimately show ?thesis by simp
  qed
  have "read_all_active_ports key m
      = concat (map (\<lambda>i. concat (map (\<lambda>k. ?f (i * 8 + k)) [0..<8])) [0..<BITMAP_SIZE])"
    unfolding read_all_active_ports_def
    by (intro arg_cong [where f = concat] map_cong refl) (simp only: set_upt atLeastLessThan_iff byte)
  also have "\<dots> = concat (map ?f [0..<BITMAP_SIZE * 8])" by (rule concat_by_eight)
  also have "BITMAP_SIZE * 8 = MAX_PORTS" by (simp add: BITMAP_SIZE_def MAX_PORTS_def)
  finally show ?thesis by (simp add: scan_all_slots_def)
qed

lemma scan_all_slots_iff:
  "e \<in> set (scan_all_slots key m) \<longleftrightarrow> (\<exists>p < MAX_PORTS. read_port_entry key m p = Some e)"
  by (force simp: scan_all_slots_def split: option.splits)

section \<open>Properties\<close>

lemma write_succeeds_iff:
  "write_port_entry key port bi bo pid proto act risk ip (Some m) =
     (if in_range 2 port \<and> in_range 4 pid \<and> in_range 1 proto \<and> in_range 1 act \<and> in_range 1 risk
      then Inr (Some (update_bitmap port act (store (nat port * ENTRY_SIZE)
        (let d = projr (pack_entry \<lparr>e_port = port, e_bytes_in = bi mod 2 ^ 64,
             e_bytes_out = bo mod 2 ^ 64, e_pid = pid, e_protocol = proto, e_active = act,
             e_risk = risk, e_ip = ip_bytes_of ip\<rparr>) in d @ hmac_sha256 key d) m)))
      else Inl StructError)"
proof -
  have "in_range 8 (x mod 2 ^ 64)" for x
    by (simp add: in_range_def)
  then show ?thesis
    by (simp add: write_port_entry_def pack_entry_def entry_fits_def)
qed

lemma written_row_ip: "length b = 4 \<Longrightarrow> ip = inet_ntoa b \<Longrightarrow>
    e_ip (written_row port bi bo pid proto act risk ip) = ip"
  by (simp add: written_row_def ip_bytes_of_def inet_aton_ntoa)

text \<open>
  C4: writing a slot and reading it back. Whatever the byte counters are (they are stored
  modulo \<open>2 ^ 64\<close>), a write whose other fields fit their struct fields succeeds; the slot then
  reads back exactly what was written when the entry is active and reads as empty when it is
  not; and no other slot changes.
\<close>

theorem write_read_roundtrip:
  assumes "in_range 2 port" and "in_range 4 pid" and "in_range 1 proto"
    and "in_range 1 act" and "in_range 1 risk"
  shows "\<exists>m'. write_port_entry key port bi bo pid proto act risk ip (Some m) = Inr (Some m')
    \<and> read_port_entry key m' (nat port) =
        (if act = 0 then None else Some (written_row port bi bo pid proto act risk ip))
    \<and> (\<forall>q. q < MAX_PORTS \<and> q \<noteq> nat port \<longrightarrow> read_port_entry key m' q = read_port_entry key m q)"
proof -
  obtain m' where w: "write_port_entry key port bi bo pid proto act risk ip (Some m) = Inr (Some m')"
    using assms by (simp add: write_succeeds_iff)
  with read_after_write [OF w] read_other_after_write [OF w] show ?thesis by blast
qed

theorem write_read_roundtrip_witness:
  "\<exists>m'. write_port_entry [1, 2] 443 (2 ^ 64 + 7) 9 1124 0 1 0 ''8.8.8.8'' (Some init_shared_memory) = Inr (Some m')
    \<and> read_port_entry [1, 2] m' 443 = Some (written_row 443 7 9 1124 0 1 0 ''8.8.8.8'')"
  using write_read_roundtrip [of 443 1124 0 1 0 "[1, 2]" "2 ^ 64 + 7" 9 "''8.8.8.8''" init_shared_memory]
  by (auto simp: in_range_def written_row_def)

text \<open>
  C5: in every segment that writers can produce from the zeroed one, the bitmap scan returns
  exactly what reading all 65536 slots in port order would: no active entry is missed, none is
  reported twice.
\<close>

theorem bitmap_scan_complete:
  assumes "shm_reach key m"
  shows "read_all_active_ports key m = scan_all_slots key m"
  by (rule read_all_eq_scan_all) (rule shm_reach_complete [OF assms])

theorem bitmap_scan_complete_witness:
  "\<exists>m. write_port_entry [7] 53 10 20 99 1 1 0 ''1.1.1.1'' (Some init_shared_memory) = Inr (Some m)
     \<and> read_all_active_ports [7] m = scan_all_slots [7] m"
proof -
  obtain m where w: "write_port_entry [7] 53 10 20 99 1 1 0 ''1.1.1.1'' (Some init_shared_memory) = Inr (Some m)"
    by (simp add: write_succeeds_iff in_range_def)
  then have "shm_reach [7] m" by (rule reach_write [OF reach_init])
  with w bitmap_scan_complete [of "[7]" m] show ?thesis by blast
qed

text \<open>
  The signature does not tie an entry to its slot. Copying the 64 signed bytes of an
  active slot over any other slot makes that slot read as the same valid entry, so a local
  process that can write the segment can replay and multiply metrics without the key.
\<close>

theorem replayed_slot_accepted:
  assumes "read_port_entry key m p = Some e"
  shows "read_port_entry key (store (q * ENTRY_SIZE) (slice (p * ENTRY_SIZE) ENTRY_SIZE m) m) q = Some e"
  using assms by (simp add: read_port_entry_def slice_store_same)

theorem replayed_slot_accepted_witness:
  "\<exists>m. read_port_entry [5] m 443 = Some (written_row 443 1 2 3 0 1 0 ''8.8.8.8'')
     \<and> read_port_entry [5] (store (80 * ENTRY_SIZE) (slice (443 * ENTRY_SIZE) ENTRY_SIZE m) m) 80
         = Some (written_row 443 1 2 3 0 1 0 ''8.8.8.8'')"
proof -
  obtain m where "write_port_entry [5] 443 1 2 3 0 1 0 ''8.8.8.8'' (Some init_shared_memory) = Inr (Some m)"
    by (simp add: write_succeeds_iff in_range_def)
  from read_after_write [OF this]
  have "read_port_entry [5] m 443 = Some (written_row 443 1 2 3 0 1 0 ''8.8.8.8'')" by simp
  with replayed_slot_accepted [of "[5]" m 443 _ 80] show ?thesis by blast
qed

end
