(* ===== verification/Metrics.thy ===== *)
theory Metrics
  imports Interfaces Shm
begin

text \<open>
  \<open>application/services/metrics_service.py\<close>: byte counters become rates
  (\<open>PortMetrics\<close>), rates become a bounded history per port
  (\<open>SlidingWindowCache\<close>), and \<open>TrafficAccumulator\<close> combines both with the process
  names and the threat metadata. Rates are floats (\<open>Py_Float\<close>), times rationals; the clock readings and the
  answers of psutil are arguments.
\<close>

section \<open>PortMetrics\<close>

record port_snapshot =
  s_time :: time
  s_port :: int
  s_pid :: int
  s_app :: string
  s_in :: rat
  s_out :: rat
  s_protocol :: string
  s_direction :: string
  s_risk :: int
  s_remote :: string
  s_org :: string
  s_country :: string

record byte_snapshot =
  b_time :: time
  b_in :: int
  b_out :: int

type_synonym port_metrics = "(int, byte_snapshot) dict"

definition safe_delta :: "int \<Rightarrow> int \<Rightarrow> int" where
  "safe_delta current previous =
     (if previous \<le> current then current - previous else current + (2 ^ 64 - previous))"

definition rate :: "int \<Rightarrow> rat \<Rightarrow> rat" where
  "rate delta elapsed = py_round2 (double (double (of_int delta) / 1024 / elapsed))"

definition calculate_delta ::
  "int \<Rightarrow> int \<Rightarrow> int \<Rightarrow> time \<Rightarrow> port_metrics \<Rightarrow> (rat \<times> rat) \<times> port_metrics" where
  "calculate_delta port bytes_in bytes_out now m =
     (let m' = dset m port \<lparr>b_time = now, b_in = bytes_in, b_out = bytes_out\<rparr> in
      case dget m port of
        None \<Rightarrow> ((0, 0), m')
      | Some prev \<Rightarrow>
          (let elapsed = double (now - b_time prev) in
           if elapsed \<le> 0 then ((0, 0), m')
           else ((rate (safe_delta bytes_in (b_in prev)) elapsed,
                  rate (safe_delta bytes_out (b_out prev)) elapsed), m')))"

definition reset_metrics :: "int option \<Rightarrow> port_metrics \<Rightarrow> port_metrics" where
  "reset_metrics port m = (case port of Some p \<Rightarrow> ddel m p | None \<Rightarrow> [])"

section \<open>SlidingWindowCache\<close>

definition MAX_WINDOW_ENTRIES :: nat where "MAX_WINDOW_ENTRIES = 86400"
definition ACTIVE_PORT_TTL_SECONDS :: time where "ACTIVE_PORT_TTL_SECONDS = 5"

record window_cache =
  w_max :: nat
  w_ports :: "(int, port_snapshot list) dict"

definition new_window :: "nat \<Rightarrow> window_cache" where
  "new_window n = \<lparr>w_max = n, w_ports = []\<rparr>"

definition port_entries :: "int \<Rightarrow> window_cache \<Rightarrow> port_snapshot list" where
  "port_entries port w = (case dget (w_ports w) port of Some dq \<Rightarrow> dq | None \<Rightarrow> [])"

definition add_snapshot :: "port_snapshot \<Rightarrow> window_cache \<Rightarrow> window_cache" where
  "add_snapshot s w =
     w\<lparr>w_ports := dset (w_ports w) (s_port s) (deque_append (w_max w) s (port_entries (s_port s) w))\<rparr>"

definition get_history :: "time \<Rightarrow> int \<Rightarrow> int option \<Rightarrow> window_cache \<Rightarrow> port_snapshot list" where
  "get_history now port seconds w =
     (case seconds of
        None \<Rightarrow> port_entries port w
      | Some n \<Rightarrow> filter (\<lambda>s. now - of_int n \<le> s_time s) (port_entries port w))"

text \<open>
  \<open>evict_stale\<close> visits the ports in order; it pops old snapshots from the left until one
  is recent enough, and deletes a port whose queue is empty.
\<close>

fun evict_ports ::
  "time \<Rightarrow> (int, port_snapshot list) dict \<Rightarrow> nat \<times> (int, port_snapshot list) dict" where
  "evict_ports cutoff [] = (0, [])"
| "evict_ports cutoff ((port, dq) # rest) =
     (let dq' = dropWhile (\<lambda>s. s_time s < cutoff) dq; (n, rest') = evict_ports cutoff rest in
      (length dq - length dq' + n, if dq' = [] then rest' else (port, dq') # rest'))"

definition evict_stale :: "time \<Rightarrow> int \<Rightarrow> window_cache \<Rightarrow> nat \<times> window_cache" where
  "evict_stale now max_age w =
     (case evict_ports (now - of_int max_age) (w_ports w) of (n, d) \<Rightarrow> (n, w\<lparr>w_ports := d\<rparr>))"

definition port_count :: "window_cache \<Rightarrow> nat" where
  "port_count w = length (w_ports w)"

definition total_entries :: "window_cache \<Rightarrow> nat" where
  "total_entries w = (\<Sum>x\<leftarrow>w_ports w. length (snd x))"

definition clear_window :: "window_cache \<Rightarrow> window_cache" where
  "clear_window w = w\<lparr>w_ports := []\<rparr>"

section \<open>TrafficAccumulator\<close>

record 't accumulator =
  ac_metrics :: port_metrics
  ac_cache :: window_cache
  ac_names :: "(int, string \<times> time) dict"
  ac_threat :: "'t option"

definition PID_CACHE_TTL :: time where "PID_CACHE_TTL = 60"
definition PID_CACHE_MAX :: nat where "PID_CACHE_MAX = 500"

definition new_accumulator :: "'t option \<Rightarrow> 't accumulator" where
  "new_accumulator svc =
     \<lparr>ac_metrics = [], ac_cache = new_window MAX_WINDOW_ENTRIES, ac_names = [], ac_threat = svc\<rparr>"

text \<open>
  \<open>proc pid\<close> is the name psutil gives the process, or the exception it raises; three of
  those are caught.
\<close>

definition process_name :: "(int \<Rightarrow> string result) \<Rightarrow> int \<Rightarrow> string result" where
  "process_name proc pid =
     (if pid \<in> {0, 1, 4} then Inr ''System''
      else case proc pid of
             Inr name \<Rightarrow> Inr name
           | Inl err \<Rightarrow> if err \<in> {NoSuchProcess, AccessDenied, ZombieProcess} then Inr ''Unknown'' else Inl err)"

definition cached_name :: "time \<Rightarrow> int \<Rightarrow> (int, string \<times> time) dict \<Rightarrow> string option" where
  "cached_name now pid d =
     (case dget d pid of
        Some (name, at_time) \<Rightarrow> if now - at_time < PID_CACHE_TTL then Some name else None
      | None \<Rightarrow> None)"

definition trim_names :: "time \<Rightarrow> (int, string \<times> time) dict \<Rightarrow> (int, string \<times> time) dict" where
  "trim_names now d =
     (if PID_CACHE_MAX < length d then filter (\<lambda>(k, name, at_time). now - at_time < 300) d else d)"

definition resolve_app_name ::
  "(int \<Rightarrow> string result) \<Rightarrow> time \<Rightarrow> int \<Rightarrow> (int, string \<times> time) dict
     \<Rightarrow> string result \<times> (int, string \<times> time) dict" where
  "resolve_app_name proc now pid d =
     (case cached_name now pid d of
        Some name \<Rightarrow> (Inr name, d)
      | None \<Rightarrow>
          (case process_name proc pid of
             Inl err \<Rightarrow> (Inl err, d)
           | Inr name \<Rightarrow> (Inr name, trim_names now (dset d pid (name, now)))))"

definition default_meta :: meta where
  "default_meta = \<lparr>m_org = ''Unknown'', m_country = ''??'', m_risk = 0, m_city = None, m_geo = None\<rparr>"

definition enrich :: "'t meta_op \<Rightarrow> time \<Rightarrow> time \<Rightarrow> string \<Rightarrow> 't option \<Rightarrow> meta \<times> 't option" where
  "enrich get_meta t1 t2 ip svc =
     (case svc of
        None \<Rightarrow> (default_meta, None)
      | Some s \<Rightarrow> (case get_meta t1 t2 ip s of (m, s') \<Rightarrow> (m, Some s')))"

text \<open>The inputs of one call besides the raw counters.\<close>

record sample_env =
  v_proc :: "int \<Rightarrow> string result"
  v_name_time :: time
  v_meta_time :: time
  v_meta_time' :: time

definition make_snapshot ::
  "int \<Rightarrow> rat \<times> rat \<Rightarrow> int \<Rightarrow> string \<Rightarrow> int \<Rightarrow> time \<Rightarrow> int \<Rightarrow> string \<Rightarrow> meta \<Rightarrow> port_snapshot" where
  "make_snapshot port rates pid app protocol t risk remote m =
     \<lparr>s_time = t, s_port = port, s_pid = pid, s_app = app, s_in = fst rates, s_out = snd rates,
      s_protocol = (if protocol = 0 then ''TCP'' else ''UDP''), s_direction = ''both'',
      s_risk = max risk (m_risk m), s_remote = remote, s_org = m_org m, s_country = m_country m\<rparr>"

definition process_port_data ::
  "'t meta_op \<Rightarrow> sample_env \<Rightarrow> int \<Rightarrow> int \<Rightarrow> int \<Rightarrow> int \<Rightarrow> int \<Rightarrow> time \<Rightarrow> int \<Rightarrow> string
     \<Rightarrow> 't accumulator \<Rightarrow> port_snapshot result \<times> 't accumulator" where
  "process_port_data get_meta v port bytes_in bytes_out pid protocol t risk remote a =
     (case calculate_delta port bytes_in bytes_out t (ac_metrics a) of (rates, ms) \<Rightarrow>
      case resolve_app_name (v_proc v) (v_name_time v) pid (ac_names a) of
        (Inl err, names) \<Rightarrow> (Inl err, a\<lparr>ac_metrics := ms, ac_names := names\<rparr>)
      | (Inr app, names) \<Rightarrow>
          (case enrich get_meta (v_meta_time v) (v_meta_time' v) remote (ac_threat a) of (m, svc) \<Rightarrow>
             (let s = make_snapshot port rates pid app protocol t risk remote m in
              (Inr s, a\<lparr>ac_metrics := ms, ac_names := names, ac_threat := svc,
                        ac_cache := add_snapshot s (ac_cache a)\<rparr>))))"

text \<open>A row of the port table: the snapshot's fields and the sum of both rates.\<close>

record port_row = port_snapshot + r_total :: rat

definition row_of :: "port_snapshot \<Rightarrow> port_row" where
  "row_of s = port_snapshot.extend s \<lparr>r_total = py_round2 (double (s_in s + s_out s))\<rparr>"

definition latest :: "window_cache \<Rightarrow> port_snapshot list" where
  "latest w = map (\<lambda>(port, dq). last dq) (filter (\<lambda>(port, dq). dq \<noteq> []) (w_ports w))"

definition get_port_table :: "time \<Rightarrow> 't accumulator \<Rightarrow> port_row list" where
  "get_port_table now a =
     map row_of (filter (\<lambda>s. now - s_time s \<le> ACTIVE_PORT_TTL_SECONDS) (sort_key s_port (latest (ac_cache a))))"

definition cleanup_accumulator :: "time \<Rightarrow> 't accumulator \<Rightarrow> 't accumulator" where
  "cleanup_accumulator now a = a\<lparr>ac_cache := snd (evict_stale now 86400 (ac_cache a))\<rparr>"

section \<open>Rates\<close>

lemma safe_delta_mod:
  assumes "0 \<le> current" "current < 2 ^ 64" "0 \<le> previous" "previous < 2 ^ 64"
  shows "safe_delta current previous = (current - previous) mod 2 ^ 64"
proof (cases "previous \<le> current")
  case True
  with assms show ?thesis by (simp add: safe_delta_def)
next
  case False
  then have "(current - previous) mod 2 ^ 64 = (current - previous + 2 ^ 64) mod 2 ^ 64" by simp
  also have "\<dots> = current - previous + 2 ^ 64"
    using assms False by (intro mod_pos_pos_trivial) auto
  finally show ?thesis using False by (simp add: safe_delta_def)
qed

text \<open>The wrap of the 64-bit counters does not lose traffic.\<close>

lemma safe_delta_growth:
  assumes "0 \<le> n" and "n < 2 ^ 64"
  shows "safe_delta ((x + n) mod 2 ^ 64) (x mod 2 ^ 64) = n"
proof -
  have "safe_delta ((x + n) mod 2 ^ 64) (x mod 2 ^ 64) = ((x + n) mod 2 ^ 64 - x mod 2 ^ 64) mod 2 ^ 64"
    by (rule safe_delta_mod) simp_all
  also have "\<dots> = (x + n - x) mod 2 ^ 64" by (rule mod_diff_eq)
  finally show ?thesis using assms by simp
qed

lemma rate_nonneg: "0 \<le> d \<Longrightarrow> 0 < e \<Longrightarrow> 0 \<le> rate d e"
  unfolding rate_def by (intro py_round2_nonneg double_nonneg divide_nonneg_nonneg) simp_all

text \<open>
  The rate of a growth over an elapsed time, both rounded to floats before the division, is
  the exact quotient up to half a hundredth and the rounding errors of the float operations.
\<close>

lemma rate_close:
  assumes "0 \<le> d" and "0 < t"
  shows "\<bar>rate d (double t) - of_int d / 1024 / t\<bar> \<le> 1/200 + (of_int d / 1024 / t + 1) / 2 ^ 50"
  unfolding rate_def
proof (rule rounded_close)
  have "\<bar>double (of_int d) / 1024 - of_int d / 1024\<bar> \<le> of_int d / 1024 * (1 / 2 ^ 53)"
  proof -
    have "\<bar>double (of_int d) / 1024 - of_int d / 1024\<bar> = \<bar>double (of_int d) - of_int d\<bar> / 1024"
      by (simp flip: diff_divide_distrib add: abs_divide)
    also have "\<dots> \<le> of_int d / 2 ^ 53 / 1024"
      using double_close [of "of_int d"] assms by (intro divide_right_mono) simp_all
    finally show ?thesis by simp
  qed
  moreover have "\<bar>double t - t\<bar> \<le> t * (1 / 2 ^ 53)" using double_close [of t] assms by simp
  ultimately have "\<bar>double (of_int d) / 1024 / double t - of_int d / 1024 / t\<bar> \<le> 3 * (1 / 2 ^ 53) * (of_int d / 1024 / t)"
    by (rule quotient_close) (use assms in simp_all)
  also have "\<dots> \<le> 4 * (1 / 2 ^ 53) * (of_int d / 1024 / t)" using assms by (intro mult_right_mono) simp_all
  finally show "\<bar>double (of_int d) / 1024 / double t - of_int d / 1024 / t\<bar> \<le> of_int d / 1024 / t / 2 ^ 51" by simp
qed (use assms in simp)

lemma calculate_delta_state: "dget (snd (calculate_delta port i j now m)) q =
    (if q = port then Some \<lparr>b_time = now, b_in = i, b_out = j\<rparr> else dget m q)"
  by (simp add: calculate_delta_def Let_def dict_simps split: option.splits)

section \<open>The window invariant\<close>

definition queue_ok :: "nat \<Rightarrow> int \<times> port_snapshot list \<Rightarrow> bool" where
  "queue_ok n x \<longleftrightarrow> snd x \<noteq> [] \<and> length (snd x) \<le> n \<and> (\<forall>s \<in> set (snd x). s_port s = fst x)"

definition window_ok :: "window_cache \<Rightarrow> bool" where
  "window_ok w \<longleftrightarrow> 0 < w_max w \<and> dict_ok (w_ports w) \<and> (\<forall>x \<in> set (w_ports w). queue_ok (w_max w) x)"

lemma window_ok_new: "0 < n \<Longrightarrow> window_ok (new_window n)"
  by (simp add: window_ok_def new_window_def)

lemma window_ok_clear: "window_ok w \<Longrightarrow> window_ok (clear_window w)"
  by (simp add: window_ok_def clear_window_def)

lemma entries_queue: "window_ok w \<Longrightarrow> port_entries p w \<noteq> [] \<Longrightarrow> queue_ok (w_max w) (p, port_entries p w)"
  by (auto simp: port_entries_def window_ok_def dest!: map_of_SomeD split: option.splits)

lemma queue_ok_append:
  assumes "window_ok w"
  shows "queue_ok (w_max w) (s_port s, deque_append (w_max w) s (port_entries (s_port s) w))"
proof -
  have "\<forall>x \<in> set (port_entries (s_port s) w). s_port x = s_port s"
    using entries_queue [OF assms, of "s_port s"]
    by (cases "port_entries (s_port s) w = []") (auto simp: queue_ok_def)
  then show ?thesis
    using assms set_deque_append [of "w_max w" s "port_entries (s_port s) w"]
    by (auto simp: queue_ok_def window_ok_def length_deque_append deque_append_nonempty)
qed

lemma add_max [simp]: "w_max (add_snapshot s w) = w_max w"
  by (simp add: add_snapshot_def)

lemma window_ok_add: "window_ok w \<Longrightarrow> window_ok (add_snapshot s w)"
  using queue_ok_append [of w s]
    set_dset_subset [of "s_port s" "deque_append (w_max w) s (port_entries (s_port s) w)" "w_ports w"]
  by (auto simp: window_ok_def add_snapshot_def)

lemma entries_add: "port_entries p (add_snapshot s w) =
    (if p = s_port s then deque_append (w_max w) s (port_entries p w) else port_entries p w)"
  by (simp add: port_entries_def add_snapshot_def dict_simps)

subsection \<open>Eviction\<close>

definition keep_fresh :: "time \<Rightarrow> port_snapshot list \<Rightarrow> port_snapshot list" where
  "keep_fresh c dq = dropWhile (\<lambda>s. s_time s < c) dq"

lemma keep_fresh_Nil: "keep_fresh c [] = []"
  by (simp add: keep_fresh_def)

lemma evict_ports_eq:
  "snd (evict_ports c d) = filter (\<lambda>x. snd x \<noteq> []) (map (\<lambda>(p, dq). (p, keep_fresh c dq)) d)"
  by (induction c d rule: evict_ports.induct)
     (simp_all add: Let_def keep_fresh_def case_prod_beta del: dropWhile_eq_Nil_conv)

lemma evict_dict_ok: "dict_ok d \<Longrightarrow> dict_ok (map (\<lambda>(p, dq). (p, keep_fresh c dq)) d)"
  by (simp add: dict_ok_def case_prod_beta comp_def)

lemma evict_get: "dict_ok d \<Longrightarrow> dget (snd (evict_ports c d)) p =
    (case dget d p of None \<Rightarrow> None
     | Some dq \<Rightarrow> if keep_fresh c dq = [] then None else Some (keep_fresh c dq))"
  by (simp add: evict_ports_eq dget_filter evict_dict_ok map_of_map split: option.splits)

lemma keep_fresh_length: "length (keep_fresh c dq) \<le> length dq"
  unfolding keep_fresh_def by (rule length_dropWhile_le)

lemma evict_count: "fst (evict_ports c d) + (\<Sum>x\<leftarrow>snd (evict_ports c d). length (snd x)) = (\<Sum>x\<leftarrow>d. length (snd x))"
proof (induction c d rule: evict_ports.induct)
  case (2 c port dq rest)
  obtain n r where e: "evict_ports c rest = (n, r)" by fastforce
  from 2 [OF refl] e have "n + (\<Sum>x\<leftarrow>r. length (snd x)) = (\<Sum>x\<leftarrow>rest. length (snd x))" by simp
  with e keep_fresh_length [of c dq] show ?case
    by (simp add: Let_def keep_fresh_def del: dropWhile_eq_Nil_conv)
qed simp

lemma evict_stale_eq: "snd (evict_stale now age w) = w\<lparr>w_ports := snd (evict_ports (now - of_int age) (w_ports w))\<rparr>"
  by (simp add: evict_stale_def split: prod.splits)

lemma queue_ok_fresh: "queue_ok n (p, dq) \<Longrightarrow> keep_fresh c dq \<noteq> [] \<Longrightarrow> queue_ok n (p, keep_fresh c dq)"
  using keep_fresh_length [of c dq] by (auto simp: queue_ok_def keep_fresh_def dest: set_dropWhileD)

lemma window_ok_evict: "window_ok w \<Longrightarrow> window_ok (snd (evict_stale now age w))"
  by (auto simp: window_ok_def evict_stale_eq evict_ports_eq evict_dict_ok queue_ok_fresh)

lemma entries_evict: "window_ok w \<Longrightarrow>
    port_entries p (snd (evict_stale now age w)) = keep_fresh (now - of_int age) (port_entries p w)"
  by (auto simp: port_entries_def evict_stale_eq evict_get window_ok_def keep_fresh_Nil split: option.splits)

lemma keep_fresh_sorted: "sorted (map s_time xs) \<Longrightarrow> keep_fresh c xs = filter (\<lambda>s. c \<le> s_time s) xs"
proof (induction xs)
  case (Cons x xs)
  show ?case
  proof (cases "s_time x < c")
    case True
    with Cons show ?thesis by (simp add: keep_fresh_def)
  next
    case False
    with Cons.prems have "\<forall>s \<in> set xs. c \<le> s_time s" by auto
    with False show ?thesis by (simp add: keep_fresh_def)
  qed
qed (simp add: keep_fresh_def)

section \<open>The accumulator\<close>

definition acc_ok :: "'t accumulator \<Rightarrow> bool" where
  "acc_ok a \<longleftrightarrow> window_ok (ac_cache a)"

lemma acc_ok_new: "acc_ok (new_accumulator svc)"
  by (simp add: acc_ok_def new_accumulator_def window_ok_new MAX_WINDOW_ENTRIES_def)

lemma process_cache: "ac_cache (snd (process_port_data gm v port i j pid proto t risk remote a)) =
    (case fst (process_port_data gm v port i j pid proto t risk remote a) of
       Inl _ \<Rightarrow> ac_cache a | Inr s \<Rightarrow> add_snapshot s (ac_cache a))"
  by (auto simp: process_port_data_def Let_def split: prod.splits sum.splits)

lemma process_snapshot: "fst (process_port_data gm v port i j pid proto t risk remote a) = Inr s \<Longrightarrow>
    s_port s = port \<and> s_time s = t \<and> s_pid s = pid \<and> risk \<le> s_risk s
    \<and> (s_in s, s_out s) = fst (calculate_delta port i j t (ac_metrics a))"
  by (auto simp: process_port_data_def make_snapshot_def Let_def split: prod.splits sum.splits)

lemma process_metrics: "ac_metrics (snd (process_port_data gm v port i j pid proto t risk remote a)) =
    snd (calculate_delta port i j t (ac_metrics a))"
  by (auto simp: process_port_data_def Let_def split: prod.splits sum.splits)

lemma acc_ok_process: "acc_ok a \<Longrightarrow> acc_ok (snd (process_port_data gm v port i j pid proto t risk remote a))"
  by (auto simp: acc_ok_def process_cache window_ok_add split: sum.splits)

lemma acc_ok_cleanup: "acc_ok a \<Longrightarrow> acc_ok (cleanup_accumulator now a)"
  by (simp add: acc_ok_def cleanup_accumulator_def window_ok_evict)

lemma cached_name_resolve:
  assumes "cached_name now pid d = Some name"
  shows "resolve_app_name proc now pid d = (Inr name, d)"
  using assms by (simp add: resolve_app_name_def)

text \<open>Any sequence of samples and clean-ups on a new accumulator, of any provider.\<close>

inductive acc_reach :: "'t meta_op \<Rightarrow> 't accumulator \<Rightarrow> bool" for gm where
  acc_start: "acc_reach gm (new_accumulator svc)"
| acc_sample: "acc_reach gm a \<Longrightarrow>
    acc_reach gm (snd (process_port_data gm v port i j pid proto t risk remote a))"
| acc_cleanup: "acc_reach gm a \<Longrightarrow> acc_reach gm (cleanup_accumulator now a)"

lemma acc_reach_ok: "acc_reach gm a \<Longrightarrow> acc_ok a"
  by (induction rule: acc_reach.induct) (simp_all add: acc_ok_new acc_ok_process acc_ok_cleanup)

lemma acc_reach_max: "acc_reach gm a \<Longrightarrow> w_max (ac_cache a) = MAX_WINDOW_ENTRIES"
proof (induction rule: acc_reach.induct)
  case (acc_sample a v port i j pid proto t risk remote)
  then show ?case by (simp add: process_cache split: sum.splits)
qed (simp_all add: new_accumulator_def new_window_def cleanup_accumulator_def evict_stale_eq)

section \<open>The port table\<close>

lemma set_latest: "window_ok w \<Longrightarrow> s \<in> set (latest w) \<longleftrightarrow>
    port_entries (s_port s) w \<noteq> [] \<and> s = last (port_entries (s_port s) w)"
proof
  assume ok: "window_ok w" and "s \<in> set (latest w)"
  then obtain p dq where x: "(p, dq) \<in> set (w_ports w)" "dq \<noteq> []" "s = last dq"
    by (auto simp: latest_def)
  with ok have "dget (w_ports w) p = Some dq" and "queue_ok (w_max w) (p, dq)"
    by (auto simp: window_ok_def dict_ok_item)
  moreover from this x have "s_port s = p" by (simp add: queue_ok_def)
  ultimately show "port_entries (s_port s) w \<noteq> [] \<and> s = last (port_entries (s_port s) w)"
    using x by (simp add: port_entries_def)
next
  assume "port_entries (s_port s) w \<noteq> [] \<and> s = last (port_entries (s_port s) w)"
  then obtain dq where "dget (w_ports w) (s_port s) = Some dq" "dq \<noteq> []" "s = last dq"
    by (auto simp: port_entries_def split: option.splits)
  then show "s \<in> set (latest w)"
    by (force simp: latest_def dest: map_of_SomeD)
qed

lemma ports_latest: "window_ok w \<Longrightarrow> map s_port (latest w) = map fst (w_ports w)"
  unfolding window_ok_def latest_def
  by (auto simp: queue_ok_def case_prod_beta filter_id_conv comp_def intro!: map_cong
      arg_cong [where f = "map fst"] filter_True)

lemma sort_key_strict: "distinct (map f xs) \<Longrightarrow> sorted_wrt (\<lambda>x y. f x < (f y :: int)) (sort_key f xs)"
proof -
  assume d: "distinct (map f xs)"
  have "distinct (map f (sort_key f xs))"
    using d by (metis distinct_map distinct_sort set_sort)
  then have "sorted_wrt (<) (map f (sort_key f xs))"
    by (simp add: strict_sorted_iff)
  then show ?thesis by (simp add: sorted_wrt_map)
qed

lemma key_sorted_distinct: "sorted_wrt (\<lambda>x y. f x < (f y :: int)) xs \<Longrightarrow> distinct (map f xs)"
  by (induction xs) auto

lemma set_port_table: "acc_ok a \<Longrightarrow> r \<in> set (get_port_table now a) \<longleftrightarrow>
    (\<exists>s. port_entries (s_port s) (ac_cache a) \<noteq> [] \<and> s = last (port_entries (s_port s) (ac_cache a))
      \<and> now - s_time s \<le> ACTIVE_PORT_TTL_SECONDS \<and> r = row_of s)"
  using set_latest [of "ac_cache a"] by (auto simp: get_port_table_def acc_ok_def)

lemma s_port_row [simp]: "s_port (row_of s) = s_port s"
  by (simp add: row_of_def port_snapshot.defs)

text \<open>The row that shows a snapshot has all of its fields.\<close>

lemma row_fields [simp]: "s_pid (row_of s) = s_pid s" "s_time (row_of s) = s_time s" "s_remote (row_of s) = s_remote s"
  "s_risk (row_of s) = s_risk s" "s_in (row_of s) = s_in s" "s_out (row_of s) = s_out s" "s_org (row_of s) = s_org s"
  by (simp_all add: row_of_def port_snapshot.defs)

text \<open>The row's port is the key the snapshot is stored under.\<close>

lemma last_entry_port: "window_ok w \<Longrightarrow> port_entries p w \<noteq> [] \<Longrightarrow> s_port (last (port_entries p w)) = p"
  using entries_queue [of w p] by (simp add: queue_ok_def)

lemma table_sorted:
  assumes "acc_ok a"
  shows "sorted_wrt (\<lambda>r r'. s_port r < s_port r') (get_port_table now a)"
proof -
  have "distinct (map s_port (latest (ac_cache a)))"
    using assms by (simp add: ports_latest acc_ok_def window_ok_def dict_ok_def)
  then show ?thesis
    unfolding get_port_table_def
    by (simp add: sorted_wrt_map sorted_wrt_filter sort_key_strict)
qed

section \<open>Properties\<close>

definition no_service :: "unit meta_op" where
  "no_service t1 t2 ip s = (default_meta, s)"

definition sample_env0 :: sample_env where
  "sample_env0 = \<lparr>v_proc = (\<lambda>_. Inl NoSuchProcess), v_name_time = 0, v_meta_time = 0, v_meta_time' = 0\<rparr>"

definition one_sample :: "unit accumulator" where
  "one_sample = snd (process_port_data no_service sample_env0 80 1 1 0 0 1 0 [] (new_accumulator None))"

lemma one_sample_reach: "acc_reach no_service one_sample"
  unfolding one_sample_def by (rule acc_sample [OF acc_start])

lemma one_sample_times: "map s_time (port_entries 80 (ac_cache one_sample)) = [1]"
  by (simp add: one_sample_def process_port_data_def calculate_delta_def resolve_app_name_def cached_name_def
      process_name_def new_accumulator_def Let_def enrich_def add_snapshot_def make_snapshot_def
      new_window_def port_entries_def deque_append_def MAX_WINDOW_ENTRIES_def)

text \<open>
  C17: rates of counters that wrap, in floats. When a port's true byte counts grow by less than
  2^64 between two samples, the second snapshot reports that growth divided by the elapsed time,
  in KB/s, although the shared-memory counters it is computed from are truncated to 64 bits and
  may have wrapped. The conversion of the growth to a float, the difference of the two times, the
  divisions and round(_, 2) all round to double precision (with an unbounded exponent); the rate
  differs from the exact quotient by at most half a hundredth plus the fraction 2^-50 of that
  quotient plus one. It is not negative, and the sample replaces the stored one.
\<close>

theorem rate_of_counter_growth:
  assumes prev: "dget (ac_metrics a) port = Some \<lparr>b_time = t0, b_in = x mod 2 ^ 64, b_out = y mod 2 ^ 64\<rparr>"
    and time: "t0 < t" and n: "0 \<le> n" "n < 2 ^ 64" and k: "0 \<le> k" "k < 2 ^ 64"
    and ran: "process_port_data gm v port ((x + n) mod 2 ^ 64) ((y + k) mod 2 ^ 64) pid proto t risk remote a
      = (Inr s, a')"
  shows "\<bar>s_in s - of_int n / 1024 / (t - t0)\<bar> \<le> 1/200 + (of_int n / 1024 / (t - t0) + 1) / 2 ^ 50 \<and> 0 \<le> s_in s
    \<and> \<bar>s_out s - of_int k / 1024 / (t - t0)\<bar> \<le> 1/200 + (of_int k / 1024 / (t - t0) + 1) / 2 ^ 50 \<and> 0 \<le> s_out s
    \<and> dget (ac_metrics a') port = Some \<lparr>b_time = t, b_in = (x + n) mod 2 ^ 64, b_out = (y + k) mod 2 ^ 64\<rparr>"
proof -
  have pos: "0 < t - t0" "0 < double (t - t0)" using time by (simp_all add: double_pos)
  have "(s_in s, s_out s) = (rate n (double (t - t0)), rate k (double (t - t0)))"
    using process_snapshot [of gm v port "(x + n) mod 2 ^ 64" "(y + k) mod 2 ^ 64" pid proto t risk remote a s]
      ran prev pos(2) by (simp add: calculate_delta_def Let_def safe_delta_growth [OF n, simplified] safe_delta_growth [OF k, simplified])
  moreover have "ac_metrics a' = snd (calculate_delta port ((x + n) mod 2 ^ 64) ((y + k) mod 2 ^ 64) t (ac_metrics a))"
    using process_metrics [of gm v port "(x + n) mod 2 ^ 64" "(y + k) mod 2 ^ 64" pid proto t risk remote a]
    unfolding ran by simp
  ultimately show ?thesis using pos n(1) k(1) rate_close [OF n(1) pos(1)] rate_close [OF k(1) pos(1)]
    by (simp only: prod.inject rate_nonneg calculate_delta_state simp_thms if_True)
qed

definition half_kb_state :: "unit accumulator" where
  "half_kb_state = (new_accumulator None)\<lparr>ac_metrics :=
     [(80, \<lparr>b_time = 1, b_in = (2 ^ 64 - 1000) mod 2 ^ 64, b_out = 0 mod 2 ^ 64\<rparr>)]\<rparr>"

theorem rate_of_counter_growth_witness:
  "\<exists>s a'. process_port_data no_service sample_env0 80 ((2 ^ 64 - 1000 + 1024) mod 2 ^ 64) ((0 + 0) mod 2 ^ 64)
      0 0 3 0 [] half_kb_state = (Inr s, a') \<and> \<bar>s_in s - 1/2\<bar> \<le> 1/100"
proof -
  obtain r a' where ran: "process_port_data no_service sample_env0 80 ((2 ^ 64 - 1000 + 1024) mod 2 ^ 64)
      ((0 + 0) mod 2 ^ 64) 0 0 3 0 [] half_kb_state = (r, a')" by fastforce
  then obtain s where s: "r = Inr s"
    by (auto simp: process_port_data_def resolve_app_name_def cached_name_def process_name_def Let_def
        half_kb_state_def new_accumulator_def split: prod.splits)
  have "dget (ac_metrics half_kb_state) 80 =
      Some \<lparr>b_time = 1, b_in = (2 ^ 64 - 1000) mod 2 ^ 64, b_out = 0 mod 2 ^ 64\<rparr>"
    by (simp add: half_kb_state_def)
  from rate_of_counter_growth [OF this _ _ _ _ _ ran [unfolded s]] have "\<bar>s_in s - 1/2\<bar> \<le> 1/200 + (1/2 + 1) / 2 ^ 50" by simp
  with ran s show ?thesis by (auto intro!: exI [of _ s] exI [of _ a'])
qed

text \<open>
  C28: the history is bounded. Whatever samples and clean-ups an accumulator has gone through,
  each port's queue holds at most 86400 snapshots, all of them of that port; a new sample
  becomes the newest entry of its own port and leaves the other ports' queues alone.
\<close>

theorem history_bounded:
  assumes "acc_reach gm a"
  shows "length (port_entries p (ac_cache a)) \<le> 86400
    \<and> (\<forall>s \<in> set (port_entries p (ac_cache a)). s_port s = p)
    \<and> (case process_port_data gm v port i j pid proto t risk remote a of
         (Inl _, a') \<Rightarrow> ac_cache a' = ac_cache a
       | (Inr s, a') \<Rightarrow> last (port_entries port (ac_cache a')) = s
           \<and> (p \<noteq> port \<longrightarrow> port_entries p (ac_cache a') = port_entries p (ac_cache a)))"
proof -
  have ok: "window_ok (ac_cache a)" and m: "w_max (ac_cache a) = 86400"
    using acc_reach_ok [OF assms] acc_reach_max [OF assms] by (simp_all add: acc_ok_def MAX_WINDOW_ENTRIES_def)
  have "length (port_entries p (ac_cache a)) \<le> 86400 \<and> (\<forall>s \<in> set (port_entries p (ac_cache a)). s_port s = p)"
    using entries_queue [OF ok, of p] m
    by (cases "port_entries p (ac_cache a) = []") (simp_all add: queue_ok_def)
  moreover obtain r a' where ran: "process_port_data gm v port i j pid proto t risk remote a = (r, a')"
    by fastforce
  moreover have "ac_cache a' = (case r of Inl _ \<Rightarrow> ac_cache a | Inr s \<Rightarrow> add_snapshot s (ac_cache a))"
    using process_cache [of gm v port i j pid proto t risk remote a] unfolding ran by simp
  moreover have "s_port s = port" if "r = Inr s" for s
    using process_snapshot [of gm v port i j pid proto t risk remote a s] ran that by simp
  ultimately show ?thesis
    using ok by (auto simp: entries_add last_deque_append window_ok_def split: sum.splits)
qed

theorem history_bounded_witness:
  "length (port_entries 80 (ac_cache one_sample)) \<le> 86400"
  using history_bounded [OF one_sample_reach, of 80] by (rule conjunct1)

text \<open>
  Eviction. The number \<open>evict_stale\<close> returns is exactly the number of snapshots it
  removed, and for a port whose snapshots are in time order it removes exactly those older than
  the cutoff; a port left without snapshots is dropped from the cache.
\<close>

theorem eviction_exact:
  assumes "acc_reach gm a" and "evict_stale now age (ac_cache a) = (n, w)"
    and "sorted (map s_time (port_entries p (ac_cache a)))"
  shows "n + total_entries w = total_entries (ac_cache a)
    \<and> port_entries p w = filter (\<lambda>s. now - of_int age \<le> s_time s) (port_entries p (ac_cache a))
    \<and> (dmem p (w_ports w) \<longleftrightarrow> (\<exists>s \<in> set (port_entries p (ac_cache a)). now - of_int age \<le> s_time s))"
proof -
  have ok: "window_ok (ac_cache a)" using acc_reach_ok [OF assms(1)] by (simp add: acc_ok_def)
  have w: "w = snd (evict_stale now age (ac_cache a))" using assms(2) by simp
  have n: "n = fst (evict_ports (now - of_int age) (w_ports (ac_cache a)))"
    using assms(2) by (simp add: evict_stale_def split: prod.splits)
  have keep: "port_entries p w = filter (\<lambda>s. now - of_int age \<le> s_time s) (port_entries p (ac_cache a))"
    unfolding w entries_evict [OF ok] by (rule keep_fresh_sorted [OF assms(3)])
  have "window_ok w" unfolding w by (rule window_ok_evict [OF ok])
  then have "dmem p (w_ports w) \<longleftrightarrow> port_entries p w \<noteq> []"
    by (auto simp: dmem_def port_entries_def window_ok_def queue_ok_def dest!: map_of_SomeD split: option.splits)
  moreover have "n + total_entries w = total_entries (ac_cache a)"
    using evict_count [of "now - of_int age" "w_ports (ac_cache a)"]
    by (simp add: n w total_entries_def evict_stale_eq)
  ultimately show ?thesis unfolding keep filter_empty_conv by auto
qed

theorem eviction_exact_witness:
  "port_entries 80 (snd (evict_stale 100000 86400 (ac_cache one_sample))) = []"
proof -
  obtain n w where e: "evict_stale 100000 86400 (ac_cache one_sample) = (n, w)" by fastforce
  have "filter (\<lambda>s. 100000 - of_int 86400 \<le> s_time s) (port_entries 80 (ac_cache one_sample)) = []"
    using one_sample_times by (auto simp: filter_empty_conv map_eq_Cons_conv)
  with eviction_exact [OF one_sample_reach e, of 80] one_sample_times e show ?thesis by simp
qed



text \<open>
  Process names are cached. For a minute after a process name has been resolved, the same
  name is returned for that process and psutil is not asked, whatever it would answer.
\<close>

theorem process_name_cached:
  assumes "resolve_app_name proc now pid d = (Inr name, d')" and "cached_name now pid d = None"
    and "dict_ok d" and "now' - now < 60"
  shows "resolve_app_name proc' now' pid d' = (Inr name, d')"
proof -
  have d': "d' = trim_names now (dset d pid (name, now))"
    using assms(1,2) by (auto simp: resolve_app_name_def split: sum.splits)
  have "dget d' pid = Some (name, now)"
    using assms(3) unfolding d' by (simp add: trim_names_def dict_simps)
  then show ?thesis using assms(4)
    by (intro cached_name_resolve) (simp add: cached_name_def PID_CACHE_TTL_def)
qed

theorem process_name_cached_witness:
  "resolve_app_name (\<lambda>_. Inl ValueError) 59 77 [(77, ''sshd'', 0)] = (Inr ''sshd'', [(77, ''sshd'', 0)])"
  by (rule process_name_cached [of "\<lambda>_. Inr ''sshd''" 0 77 "[]"])
     (simp_all add: resolve_app_name_def cached_name_def process_name_def trim_names_def PID_CACHE_MAX_def)

end
