(* ===== verification/Os_Bridge.thy ===== *)
theory Os_Bridge
  imports Interfaces Metrics
begin

text \<open>
  What the three platform bridges of \<open>os_adapters\<close> share. \<open>subprocess.run\<close> is a parameter
  \<open>run\<close>: given the argument list and the state of the operating system it returns the exit
  status and the standard output, or the exception it raises, and the new state.
\<close>

type_synonym 'k runner = "string list \<Rightarrow> 'k \<Rightarrow> (int \<times> string) result \<times> 'k"

section \<open>Connections and processes\<close>

record os_conn =
  oc_port :: "int option"
  oc_pid :: "int option"
  oc_tcp :: bool
  oc_status :: "string option"

record port_map_row =
  pr_port :: int
  pr_pid :: int
  pr_app :: string
  pr_protocol :: string
  pr_status :: string

definition resolve_pid_name :: "int set \<Rightarrow> (int \<Rightarrow> string result) \<Rightarrow> int \<Rightarrow> string result" where
  "resolve_pid_name protected proc pid =
     (if pid \<in> protected then Inr ''System''
      else case proc pid of
             Inr name \<Rightarrow> Inr name
           | Inl err \<Rightarrow> if err \<in> {NoSuchProcess, AccessDenied, ZombieProcess} then Inr ''Unknown'' else Inl err)"

definition conn_row :: "string \<Rightarrow> os_conn \<Rightarrow> int \<Rightarrow> port_map_row" where
  "conn_row app c port = \<lparr>pr_port = port, pr_pid = (case oc_pid c of Some p \<Rightarrow> p | None \<Rightarrow> 0), pr_app = app,
     pr_protocol = (if oc_tcp c then ''TCP'' else ''UDP''),
     pr_status = (case oc_status c of Some s \<Rightarrow> s | None \<Rightarrow> ''UNKNOWN'')\<rparr>"

text \<open>
  One row for the first connection of each local port; an exception of the process lookup ends
  the loop, with the rows found so far.
\<close>

fun port_rows ::
  "int set \<Rightarrow> (int \<Rightarrow> string result) \<Rightarrow> int set \<Rightarrow> os_conn list \<Rightarrow> port_map_row list \<times> exc option" where
  "port_rows protected proc seen [] = ([], None)"
| "port_rows protected proc seen (c # cs) =
     (case oc_port c of
        None \<Rightarrow> port_rows protected proc seen cs
      | Some port \<Rightarrow>
          if port = 0 \<or> port \<in> seen then port_rows protected proc seen cs
          else (case resolve_pid_name protected proc (case oc_pid c of Some p \<Rightarrow> p | None \<Rightarrow> 0) of
                  Inl err \<Rightarrow> ([], Some err)
                | Inr app \<Rightarrow>
                    (case port_rows protected proc (insert port seen) cs of
                       (rows, e) \<Rightarrow> (conn_row app c port # rows, e))))"

text \<open>
  The psutil loop of all three bridges: a denied access yields the rows found so far, any other
  exception leaves the method.
\<close>

definition denied :: "exc \<Rightarrow> bool" where
  "denied err \<longleftrightarrow> err \<in> {AccessDenied, PermissionError}"

definition psutil_port_map ::
  "int set \<Rightarrow> (int \<Rightarrow> string result) \<Rightarrow> int set \<Rightarrow> os_conn list result \<Rightarrow> port_map_row list result" where
  "psutil_port_map protected proc seen conns =
     (case conns of
        Inl err \<Rightarrow> if denied err then Inr [] else Inl err
      | Inr cs \<Rightarrow>
          (case port_rows protected proc seen cs of
             (rows, None) \<Rightarrow> Inr rows
           | (rows, Some err) \<Rightarrow> if denied err then Inr rows else Inl err))"

record process_info =
  pi_pid :: int
  pi_name :: string
  pi_status :: string
  pi_details :: "(rat \<times> rat \<times> time \<times> nat) option"

text \<open>
  \<open>get_process_info\<close>: psutil's readings (name, status, CPU share, resident bytes, creation time,
  number of connections) or its exception; \<open>psutil.ZombieProcess\<close> is a subclass of
  \<open>psutil.NoSuchProcess\<close>, so the clause catches it too.
\<close>

definition get_process_info ::
  "(int \<Rightarrow> (string \<times> string \<times> rat \<times> nat \<times> time \<times> nat) result) \<Rightarrow> int \<Rightarrow> process_info result" where
  "get_process_info proc pid =
     (case proc pid of
        Inr (name, status, cpu, rss, created, n) \<Rightarrow>
          Inr \<lparr>pi_pid = pid, pi_name = name, pi_status = status,
               pi_details = Some (cpu, py_round2 (double (of_nat rss / (1024 * 1024))), created, n)\<rparr>
      | Inl err \<Rightarrow>
          if err \<in> {NoSuchProcess, ZombieProcess, AccessDenied}
          then Inr \<lparr>pi_pid = pid, pi_name = ''Unknown'', pi_status = ''not_found'', pi_details = None\<rparr>
          else Inl err)"

text \<open>\<open>hasattr(os, "geteuid") and os.geteuid() == 0\<close>; the platform may lack the call.\<close>

definition root_user :: "int option \<Rightarrow> bool" where
  "root_user euid \<longleftrightarrow> euid = Some 0"

section \<open>Lemmas\<close>

lemma port_rows_ports: "port_rows protected proc seen cs = (rows, e) \<Longrightarrow>
    distinct (map pr_port rows) \<and> (\<forall>r \<in> set rows. pr_port r \<notin> seen \<and> pr_port r \<noteq> 0)"
proof (induction cs arbitrary: seen rows e)
  case (Cons c cs)
  show ?case
  proof (cases "oc_port c")
    case None
    with Cons show ?thesis by simp
  next
    case (Some port)
    show ?thesis
    proof (cases "port = 0 \<or> port \<in> seen")
      case True
      with Cons Some show ?thesis by simp
    next
      case False
      obtain rows' e' where r: "port_rows protected proc (insert port seen) cs = (rows', e')" by fastforce
      from Cons.IH [OF r] Cons.prems Some False r show ?thesis
        by (auto simp: conn_row_def split: sum.splits)
    qed
  qed
qed simp

text \<open>Without a failing lookup every port with a connection has its row.\<close>

lemma port_rows_complete: "port_rows protected proc seen cs = (rows, None) \<Longrightarrow>
    pr_port ` set rows = {p. \<exists>c \<in> set cs. oc_port c = Some p} - seen - {0}"
proof (induction cs arbitrary: seen rows)
  case (Cons c cs)
  show ?case
  proof (cases "oc_port c")
    case None
    with Cons.prems have "port_rows protected proc seen cs = (rows, None)" by simp
    from Cons.IH [OF this] None show ?thesis by auto
  next
    case (Some port)
    show ?thesis
    proof (cases "port = 0 \<or> port \<in> seen")
      case True
      with Cons.prems Some have "port_rows protected proc seen cs = (rows, None)" by simp
      from Cons.IH [OF this] Some True show ?thesis by auto
    next
      case False
      obtain rows' e' where r: "port_rows protected proc (insert port seen) cs = (rows', e')" by fastforce
      with Cons.prems Some False obtain app where e: "e' = None" and rows: "rows = conn_row app c port # rows'"
        by (auto split: sum.splits)
      from Cons.IH [OF r [unfolded e]] Some False rows show ?thesis by (auto simp: conn_row_def)
    qed
  qed
qed simp

end
