(* ===== verification/Windows_Bridge.thy ===== *)
theory Windows_Bridge
  imports Os_Bridge
begin

text \<open>
  \<open>os_adapters/win32_bridge.py\<close>: firewall rules through \<open>netsh advfirewall\<close>, which is the
  parameter \<open>run\<close>. A block is two rules, one for each direction; a clean-up finds the rules by
  the regular expression \<open>Rule Name:\s+((Vigilant|Sentinel)_\S+)\<close> in the listing.
\<close>

section \<open>The bridge\<close>

definition netsh :: "string list \<Rightarrow> string list" where
  "netsh args = [''netsh'', ''advfirewall'', ''firewall''] @ args"

definition win_rule_name :: "string \<Rightarrow> string \<Rightarrow> int \<Rightarrow> string" where
  "win_rule_name pre label port = pre @ ''_Block_'' @ label @ ''_'' @ show_int port"

definition win_add_cmd :: "string \<Rightarrow> string \<Rightarrow> int \<Rightarrow> string \<Rightarrow> string list" where
  "win_add_cmd dir label port proto = netsh [''add'', ''rule'', ''name='' @ win_rule_name ''Vigilant'' label port,
     ''dir='' @ dir, ''action=block'', ''protocol='' @ proto, ''localport='' @ show_int port]"

fun win_add_rules :: "'k runner \<Rightarrow> (string \<times> string) list \<Rightarrow> int \<Rightarrow> string \<Rightarrow> 'k \<Rightarrow> bool result \<times> 'k" where
  "win_add_rules run [] port proto k = (Inr True, k)"
| "win_add_rules run ((dir, label) # ds) port proto k =
     (case run (win_add_cmd dir label port proto) k of
        (Inl _, k') \<Rightarrow> (Inl FirewallRuleError, k')
      | (Inr (rc, _), k') \<Rightarrow>
          if rc \<noteq> 0 then (Inl FirewallRuleError, k') else win_add_rules run ds port proto k')"

text \<open>\<open>admin\<close> is what \<open>IsUserAnAdmin\<close> returns, or raises off Windows.\<close>

definition win_compatible :: "string \<Rightarrow> bool" where
  "win_compatible system \<longleftrightarrow> system = ''Windows''"

definition win_elevated :: "int result \<Rightarrow> bool" where
  "win_elevated admin = (case admin of Inl err \<Rightarrow> False | Inr n \<Rightarrow> n \<noteq> 0)"

definition win_process_info ::
  "(int \<Rightarrow> (string \<times> string \<times> rat \<times> nat \<times> time \<times> nat) result) \<Rightarrow> int \<Rightarrow> process_info result" where
  "win_process_info = get_process_info"

definition win_block_port :: "'k runner \<Rightarrow> string \<Rightarrow> int \<Rightarrow> string \<Rightarrow> 'k \<Rightarrow> bool result \<times> 'k" where
  "win_block_port run system port protocol k =
     (if \<not> win_compatible system then (Inl FirewallRuleError, k)
      else if \<not> (1 \<le> port \<and> port \<le> 65535) then (Inl FirewallRuleError, k)
      else if str_upper protocol \<notin> {''TCP'', ''UDP''} then (Inl FirewallRuleError, k)
      else win_add_rules run [(''out'', ''Out''), (''in'', ''In'')] port (str_upper protocol) k)"

definition win_delete_cmd :: "string \<Rightarrow> string list" where
  "win_delete_cmd name = netsh [''delete'', ''rule'', ''name='' @ name]"

definition win_unblock_names :: "int \<Rightarrow> string list" where
  "win_unblock_names port = [win_rule_name ''Vigilant'' ''Out'' port, win_rule_name ''Sentinel'' ''Out'' port,
     win_rule_name ''Vigilant'' ''In'' port, win_rule_name ''Sentinel'' ''In'' port]"

definition win_unblock_port :: "'k runner \<Rightarrow> string \<Rightarrow> int \<Rightarrow> 'k \<Rightarrow> bool result \<times> 'k" where
  "win_unblock_port run system port k =
     (if \<not> win_compatible system then (Inr False, k)
      else if \<not> (1 \<le> port \<and> port \<le> 65535) then (Inr False, k)
      else (Inr True, fold (\<lambda>name k. snd (run (win_delete_cmd name) k)) (win_unblock_names port) k))"

text \<open>
  \<open>re.findall\<close>: from left to right, without overlaps; the white space is followed by a
  non-blank, so the greedy \<open>\s+\<close> and \<open>\S+\<close> never give anything back.
\<close>

definition rule_match :: "string \<Rightarrow> (string \<times> string) option" where
  "rule_match s =
     (if startswith s ''Rule Name:'' then
        let t = drop 10 s; u = dropWhile is_space t; v = drop 9 u; name = takeWhile (\<lambda>c. \<not> is_space c) v in
        if u \<noteq> t \<and> (startswith u ''Vigilant_'' \<or> startswith u ''Sentinel_'') \<and> name \<noteq> []
        then Some (take 9 u @ name, drop (length name) v) else None
      else None)"

lemma rule_match_shorter: "rule_match s = Some (name, rest) \<Longrightarrow> length rest < length s"
proof -
  assume m: "rule_match s = Some (name, rest)"
  then have "length rest \<le> length (dropWhile is_space (drop 10 s))" and "startswith s ''Rule Name:''"
    by (auto simp: rule_match_def Let_def split: if_splits)
  moreover have "length (dropWhile is_space (drop 10 s)) \<le> length (drop 10 s)" by (rule length_dropWhile_le)
  ultimately show ?thesis using prefix_length_le [of "''Rule Name:''" s] by simp
qed

function find_rule_names :: "string \<Rightarrow> string list" where
  "find_rule_names [] = []"
| "find_rule_names (c # cs) =
     (case rule_match (c # cs) of
        Some (name, rest) \<Rightarrow> name # find_rule_names rest
      | None \<Rightarrow> find_rule_names cs)"
  by pat_completeness auto
termination
  by (relation "measure length") (auto dest: rule_match_shorter)

fun win_delete_all :: "'k runner \<Rightarrow> string list \<Rightarrow> nat \<Rightarrow> 'k \<Rightarrow> nat \<times> 'k" where
  "win_delete_all run [] removed k = (removed, k)"
| "win_delete_all run (name # names) removed k =
     (case run (win_delete_cmd name) k of
        (Inl _, k') \<Rightarrow> win_delete_all run names removed k'
      | (Inr _, k') \<Rightarrow> win_delete_all run names (Suc removed) k')"

text \<open>The return code of a deletion is not looked at: every deletion that returns counts.\<close>

definition win_cleanup_all_rules :: "'k runner \<Rightarrow> string \<Rightarrow> 'k \<Rightarrow> nat result \<times> 'k" where
  "win_cleanup_all_rules run system k =
     (if \<not> win_compatible system then (Inr 0, k)
      else case run (netsh [''show'', ''rule'', ''name=all'']) k of
             (Inl _, k1) \<Rightarrow> (Inl CleanupError, k1)
           | (Inr (rc, out), k1) \<Rightarrow>
               (case win_delete_all run (find_rule_names out) 0 k1 of (n, k2) \<Rightarrow> (Inr n, k2)))"

definition PROTECTED_PIDS_WIN :: "int set" where "PROTECTED_PIDS_WIN = {0, 4}"

definition win_resolve_pid_name :: "(int \<Rightarrow> string result) \<Rightarrow> int \<Rightarrow> string result" where
  "win_resolve_pid_name = resolve_pid_name PROTECTED_PIDS_WIN"

text \<open>
  The port map: when psutil denies access, the fallback asks psutil again, without dropping
  repeated ports, and keeps what it has found when an exception ends it.
\<close>

fun all_port_rows :: "(int \<Rightarrow> string result) \<Rightarrow> os_conn list \<Rightarrow> port_map_row list" where
  "all_port_rows proc [] = []"
| "all_port_rows proc (c # cs) =
     (case oc_port c of
        None \<Rightarrow> all_port_rows proc cs
      | Some port \<Rightarrow>
          if port = 0 then all_port_rows proc cs
          else (case win_resolve_pid_name proc (case oc_pid c of Some p \<Rightarrow> p | None \<Rightarrow> 0) of
                  Inl err \<Rightarrow> []
                | Inr app \<Rightarrow> conn_row app c port # all_port_rows proc cs))"

definition win_port_pid_map ::
  "(int \<Rightarrow> string result) \<Rightarrow> os_conn list result \<Rightarrow> os_conn list result \<Rightarrow> port_map_row list result" where
  "win_port_pid_map proc conns conns' =
     (let fallback = Inr (case conns' of Inl _ \<Rightarrow> [] | Inr cs \<Rightarrow> all_port_rows proc cs) in
      case conns of
        Inl err \<Rightarrow> if denied err then fallback else Inl err
      | Inr cs \<Rightarrow>
          (case port_rows PROTECTED_PIDS_WIN proc {} cs of
             (rows, None) \<Rightarrow> Inr rows
           | (rows, Some err) \<Rightarrow> if denied err then fallback else Inl err))"

section \<open>The contract\<close>

lemma win_add_outcome: "win_add_rules run ds port proto k = (r, k') \<Longrightarrow> r = Inr True \<or> r = Inl FirewallRuleError"
  by (induction ds arbitrary: k) (auto split: prod.splits sum.splits if_splits)

interpretation win_fw: firewall_adapter "win_block_port run system" "win_unblock_port run system"
    "win_cleanup_all_rules run system" for run system
proof unfold_locales
  fix p proto k r k'
  show "win_block_port run system p proto k = (r, k') \<Longrightarrow> r = Inr True \<or> r = Inl FirewallRuleError"
    using win_add_outcome [of run "[(''out'', ''Out''), (''in'', ''In'')]" p "str_upper proto" k r k']
    by (auto simp: win_compatible_def win_block_port_def simp del: win_add_rules.simps split: if_splits)
next
  fix p proto k
  show "\<not> (valid_port p \<and> valid_protocol proto) \<Longrightarrow> win_block_port run system p proto k = (Inl FirewallRuleError, k)"
    using upper_protocol [of proto] by (auto simp: win_compatible_def win_block_port_def valid_port_def)
next
  fix p k r k'
  show "win_unblock_port run system p k = (r, k') \<Longrightarrow> \<exists>b. r = Inr b"
    by (auto simp: win_unblock_port_def split: if_splits)
next
  fix k r k'
  show "win_cleanup_all_rules run system k = (r, k') \<Longrightarrow> (\<exists>n. r = Inr n) \<or> r = Inl CleanupError"
    by (auto simp: win_cleanup_all_rules_def split: if_splits prod.splits sum.splits)
qed

section \<open>Rule names in a listing\<close>

text \<open>A line of the listing that names one of our rules, after any text without the label.\<close>

definition rule_line :: "string \<Rightarrow> string" where
  "rule_line name = ''Rule Name:                            '' @ name"

lemma rule_match_line:
  assumes "list_all (\<lambda>c. \<not> is_space c) body" and "body \<noteq> []" and "pre \<in> {''Vigilant_'', ''Sentinel_''}"
    and "is_space sep"
  shows "rule_match (rule_line (pre @ body) @ sep # rest) = Some (pre @ body, sep # rest)"
proof -
  have body: "takeWhile (\<lambda>c. \<not> is_space c) (body @ sep # rest) = body"
    using assms(1,4) by (simp add: takeWhile_append list_all_iff)
  have sp: "is_space CHR '' ''" "\<not> is_space CHR ''V''" "\<not> is_space CHR ''S''" by (simp_all add: is_space_def)
  have len: "length pre = 9" "startswith pre ''Vigilant_'' \<or> startswith pre ''Sentinel_''" "pre \<noteq> []"
    "\<not> is_space (hd pre)" using assms(3) sp by auto
  define s where "s = pre @ body @ sep # rest"
  have u: "dropWhile is_space s = s" using len by (cases pre) (auto simp: s_def)
  have "dropWhile is_space (replicate 28 (CHR '' '') @ s) = s" using sp(1) u by (subst dropWhile_append2) auto
  moreover have "rule_line (pre @ body) @ sep # rest = ''Rule Name:'' @ replicate 28 (CHR '' '') @ s"
    by (simp add: rule_line_def s_def numeral_eq_Suc)
  moreover have "startswith s ''Vigilant_'' \<or> startswith s ''Sentinel_''"
    using len(2) by (auto simp: s_def)
  moreover have "drop 9 s = body @ sep # rest" "take 9 s = pre" using len(1) by (simp_all add: s_def)
  ultimately show ?thesis using body assms(2) by (simp add: rule_match_def Let_def)
qed

section \<open>Properties\<close>

text \<open>
  A Windows block is not atomic. The outbound rule is created first; when the command for the
  inbound rule then fails, \<open>block_port\<close> raises, and the state it leaves is the one in which the
  outbound rule has been added: no command is issued to take it back.
\<close>

theorem windows_block_leaves_half_rule:
  assumes "valid_port p" and "valid_protocol proto"
    and "run (win_add_cmd ''out'' ''Out'' p (str_upper proto)) k = (Inr (0, out), k1)"
    and "run (win_add_cmd ''in'' ''In'' p (str_upper proto)) k1 = (Inr (rc, out'), k2)" and "rc \<noteq> 0"
  shows "win_block_port run ''Windows'' p proto k = (Inl FirewallRuleError, k2)"
  using assms upper_protocol [of proto] by (simp add: win_compatible_def win_block_port_def valid_port_def)

definition half_netsh :: "string list list runner" where
  "half_netsh cmd k = (if cmd ! 6 = ''dir=in'' then (Inr (1, []), k) else (Inr (0, []), k @ [cmd]))"

theorem windows_block_leaves_half_rule_witness:
  "win_block_port half_netsh ''Windows'' 445 ''tcp'' [] =
     (Inl FirewallRuleError, [win_add_cmd ''out'' ''Out'' 445 (str_upper ''tcp'')])"
proof -
  have "valid_port 445" by (simp add: valid_port_def)
  moreover have "valid_protocol ''tcp''" by code_simp
  ultimately show ?thesis
    by (rule windows_block_leaves_half_rule [where ?k1.0 = "[win_add_cmd ''out'' ''Out'' 445 (str_upper ''tcp'')]"
          and out = "[]" and rc = 1 and out' = "[]"])
       (simp_all add: half_netsh_def win_add_cmd_def netsh_def)
qed

end
