(* ===== verification/Darwin_Bridge.thy ===== *)
theory Darwin_Bridge
  imports Os_Bridge
begin

text \<open>
  \<open>os_adapters/darwin_bridge.py\<close>: rules for the packet filter, kept in a module-level
  dictionary, written to a rules file and loaded into an anchor with \<open>pfctl\<close>. The file is part
  of the state; what a write leaves in it is a parameter, since a failing write is only logged.
\<close>

section \<open>State\<close>

record 'k darwin =
  dw_rules :: "(int, string) dict"
  dw_file :: "string option"
  dw_os :: 'k

text \<open>
  \<open>run file\<close> runs a command while the rules file is \<open>file\<close>; \<open>write new old\<close> is the content of the
  file after the attempt to write \<open>new\<close>; \<open>readable\<close> tells whether reading it succeeds.
\<close>

record 'k darwin_env =
  de_run :: "string option \<Rightarrow> 'k runner"
  de_write :: "string \<Rightarrow> string option \<Rightarrow> string option"
  de_readable :: bool

definition DNL :: char where "DNL = char_of (10 :: nat)"

definition pf_rule :: "string \<Rightarrow> string \<Rightarrow> int \<Rightarrow> string" where
  "pf_rule iface proto port =
     ''block drop on '' @ iface @ '' proto '' @ proto @ '' from any to any port '' @ show_int port"

definition rules_text :: "string list \<Rightarrow> string" where
  "rules_text rules = concat (map (\<lambda>r. r @ [DNL]) rules)"

definition write_pf_rules :: "'k darwin_env \<Rightarrow> 'k darwin \<Rightarrow> 'k darwin" where
  "write_pf_rules v s = s\<lparr>dw_file := de_write v (rules_text (map snd (dw_rules s))) (dw_file s)\<rparr>"

definition pfctl_load :: "string list" where
  "pfctl_load = [''sudo'', ''pfctl'', ''-a'', ''com.vigilant'', ''-f'', ''vigilant_pf_rules.conf'']"

definition pfctl_flush :: "string list" where
  "pfctl_flush = [''sudo'', ''pfctl'', ''-a'', ''com.vigilant'', ''-Fr'']"

definition pfctl_enable :: "string list" where
  "pfctl_enable = [''sudo'', ''pfctl'', ''-e'']"

definition reload_pf :: "'k darwin_env \<Rightarrow> 'k darwin \<Rightarrow> 'k darwin" where
  "reload_pf v s = s\<lparr>dw_os := snd (de_run v (dw_file s) pfctl_load (dw_os s))\<rparr>"

section \<open>Operations\<close>

definition mac_compatible :: "string \<Rightarrow> bool" where
  "mac_compatible system \<longleftrightarrow> system = ''Darwin''"

definition mac_elevated :: "int option \<Rightarrow> bool" where
  "mac_elevated = root_user"

definition is_alnum :: "char \<Rightarrow> bool" where
  "is_alnum c \<longleftrightarrow> is_digit c \<or> (65 \<le> (of_char c :: nat) \<and> (of_char c :: nat) \<le> 90)
     \<or> (97 \<le> (of_char c :: nat) \<and> (of_char c :: nat) \<le> 122)"

text \<open>The pattern \<open>^[a-zA-Z0-9]+$\<close>; the dollar also matches before a final newline.\<close>

definition iface_ok :: "string \<Rightarrow> bool" where
  "iface_ok s = (let t = (if s \<noteq> [] \<and> last s = DNL then butlast s else s) in t \<noteq> [] \<and> list_all is_alnum t)"

text \<open>The return codes of \<open>pfctl\<close> are not looked at.\<close>

definition mac_block_port ::
  "'k darwin_env \<Rightarrow> string \<Rightarrow> string \<Rightarrow> int \<Rightarrow> string \<Rightarrow> 'k darwin \<Rightarrow> bool result \<times> 'k darwin" where
  "mac_block_port v system iface port protocol s =
     (if \<not> mac_compatible system then (Inl FirewallRuleError, s)
      else if \<not> (1 \<le> port \<and> port \<le> 65535) then (Inl FirewallRuleError, s)
      else if str_lower protocol \<notin> {''tcp'', ''udp''} then (Inl FirewallRuleError, s)
      else if \<not> iface_ok iface then (Inl FirewallRuleError, s)
      else
        let s1 = write_pf_rules v (s\<lparr>dw_rules := dset (dw_rules s) port (pf_rule iface (str_lower protocol) port)\<rparr>) in
        case de_run v (dw_file s1) pfctl_load (dw_os s1) of
          (Inl _, k) \<Rightarrow> (Inl FirewallRuleError, s1\<lparr>dw_os := k\<rparr>)
        | (Inr _, k) \<Rightarrow>
            (case de_run v (dw_file s1) pfctl_enable k of
               (Inl _, k') \<Rightarrow> (Inl FirewallRuleError, s1\<lparr>dw_os := k'\<rparr>)
             | (Inr _, k') \<Rightarrow> (Inr True, s1\<lparr>dw_os := k'\<rparr>)))"

text \<open>
  The pattern \<open>port\s+(\d+)\s*$\<close> on a stripped line: the digits at its end, with \<open>port\<close> and at
  least one blank before them.
\<close>

definition parse_pf_line :: "string \<Rightarrow> int option" where
  "parse_pf_line line =
     (let r = rev line; ds = takeWhile is_digit r; t = dropWhile is_digit r; u = dropWhile is_space t in
      if ds \<noteq> [] \<and> u \<noteq> t \<and> prefix (rev ''port'') u then Some (int (parse_nat (rev ds))) else None)"

text \<open>The lines a file iterates over: a final newline does not start another line.\<close>

definition file_lines :: "string \<Rightarrow> string list" where
  "file_lines text = (let ls = split_on DNL text in if last ls = [] then butlast ls else ls)"

definition load_rules :: "string \<Rightarrow> (int, string) dict \<Rightarrow> (int, string) dict" where
  "load_rules text rules =
     fold (\<lambda>line d. case parse_pf_line (str_strip line) of
                      Some p \<Rightarrow> dset d p (str_strip line) | None \<Rightarrow> d) (file_lines text) rules"

definition mac_unblock_port :: "'k darwin_env \<Rightarrow> int \<Rightarrow> 'k darwin \<Rightarrow> bool result \<times> 'k darwin" where
  "mac_unblock_port v port s =
     (let rules = (case dw_file s of
            Some text \<Rightarrow> if \<not> dmem port (dw_rules s) \<and> de_readable v then load_rules text (dw_rules s) else dw_rules s
          | None \<Rightarrow> dw_rules s) in
      if dmem port rules
      then (Inr True, reload_pf v (write_pf_rules v (s\<lparr>dw_rules := ddel rules port\<rparr>)))
      else (Inr True, s\<lparr>dw_rules := rules\<rparr>))"

text \<open>\<open>os.remove\<close> is taken to succeed on a file that exists.\<close>

definition mac_cleanup_all_rules :: "'k darwin_env \<Rightarrow> 'k darwin \<Rightarrow> nat result \<times> 'k darwin" where
  "mac_cleanup_all_rules v s =
     (let removed = length (dw_rules s); s1 = s\<lparr>dw_rules := []\<rparr> in
      case de_run v (dw_file s1) pfctl_flush (dw_os s1) of
        (Inl _, k) \<Rightarrow> (Inl CleanupError, s1\<lparr>dw_os := k\<rparr>)
      | (Inr _, k) \<Rightarrow> (Inr removed, s1\<lparr>dw_os := k, dw_file := None\<rparr>))"

section \<open>The port map from lsof\<close>

text \<open>\<open>addr.rsplit(':', 1)[1]\<close>.\<close>

definition last_field :: "string \<Rightarrow> string" where
  "last_field addr = last (split_on CHR '':'' addr)"

definition lsof_row :: "int \<Rightarrow> int \<Rightarrow> string \<Rightarrow> port_map_row" where
  "lsof_row port pid app = \<lparr>pr_port = port, pr_pid = pid, pr_app = app, pr_protocol = ''TCP'', pr_status = ''ESTABLISHED''\<rparr>"

fun lsof_lines :: "int \<Rightarrow> string \<Rightarrow> int set \<Rightarrow> string list \<Rightarrow> port_map_row list" where
  "lsof_lines pid app seen [] = []"
| "lsof_lines pid app seen (line # ls) =
     (case line of
        [] \<Rightarrow> lsof_lines pid app seen ls
      | c # rest \<Rightarrow>
          if c = CHR ''p'' then lsof_lines (case py_int rest of Some n \<Rightarrow> n | None \<Rightarrow> 0) app seen ls
          else if c = CHR ''c'' then lsof_lines pid rest seen ls
          else if c = CHR ''n'' \<and> CHR '':'' \<in> set rest then
            (case py_int (last_field rest) of
               Some port \<Rightarrow>
                 if port \<in> seen then lsof_lines pid app seen ls
                 else lsof_row port pid app # lsof_lines pid app (insert port seen) ls
             | None \<Rightarrow> lsof_lines pid app seen ls)
          else lsof_lines pid app seen ls)"

definition parse_lsof_output :: "string \<Rightarrow> port_map_row list" where
  "parse_lsof_output stdout = lsof_lines 0 ''Unknown'' {} (split_on DNL (str_strip stdout))"

definition PROTECTED_PIDS_MAC :: "int set" where "PROTECTED_PIDS_MAC = {0, 1}"

definition mac_resolve_pid_name :: "(int \<Rightarrow> string result) \<Rightarrow> int \<Rightarrow> string result" where
  "mac_resolve_pid_name = resolve_pid_name PROTECTED_PIDS_MAC"

definition mac_ports_psutil :: "(int \<Rightarrow> string result) \<Rightarrow> int set \<Rightarrow> os_conn list result \<Rightarrow> port_map_row list result" where
  "mac_ports_psutil = psutil_port_map PROTECTED_PIDS_MAC"

definition mac_process_info ::
  "(int \<Rightarrow> (string \<times> string \<times> rat \<times> nat \<times> time \<times> nat) result) \<Rightarrow> int \<Rightarrow> process_info result" where
  "mac_process_info = get_process_info"

text \<open>
  \<open>lsof\<close> first, psutil when it is missing, slow or unsuccessful; any other exception leaves the
  method.
\<close>

definition mac_port_pid_map ::
  "'k runner \<Rightarrow> (int \<Rightarrow> string result) \<Rightarrow> os_conn list result \<Rightarrow> 'k \<Rightarrow> port_map_row list result \<times> 'k" where
  "mac_port_pid_map run proc conns k =
     (case run [''lsof'', ''-iTCP'', ''-iUDP'', ''-n'', ''-P'', ''-F'', ''pcn''] k of
        (Inr (rc, out), k') \<Rightarrow>
          (if rc = 0 then Inr (parse_lsof_output out) else mac_ports_psutil proc {} conns, k')
      | (Inl err, k') \<Rightarrow>
          (if err \<in> {FileNotFoundError, TimeoutExpired} then mac_ports_psutil proc {} conns
           else Inl err, k'))"

section \<open>The contract\<close>

interpretation mac_fw: firewall_adapter "mac_block_port v system ''en0''" "mac_unblock_port v" "mac_cleanup_all_rules v"
  for v system
proof unfold_locales
  fix p proto s r s'
  show "mac_block_port v system ''en0'' p proto s = (r, s') \<Longrightarrow> r = Inr True \<or> r = Inl FirewallRuleError"
    by (auto simp: mac_block_port_def Let_def split: if_splits prod.splits sum.splits)
next
  fix p proto s
  show "\<not> (valid_port p \<and> valid_protocol proto) \<Longrightarrow>
      mac_block_port v system ''en0'' p proto s = (Inl FirewallRuleError, s)"
    by (auto simp: mac_block_port_def valid_port_def valid_protocol_def)
next
  fix p s r s'
  show "mac_unblock_port v p s = (r, s') \<Longrightarrow> \<exists>b. r = Inr b"
    by (auto simp: mac_unblock_port_def Let_def split: if_splits)
next
  fix s r s'
  show "mac_cleanup_all_rules v s = (r, s') \<Longrightarrow> (\<exists>n. r = Inr n) \<or> r = Inl CleanupError"
    by (auto simp: mac_cleanup_all_rules_def Let_def split: prod.splits sum.splits)
qed

section \<open>Rules survive a restart\<close>

lemma show_int_pos: "valid_port p \<Longrightarrow> show_int p = show_nat (nat p)"
  by (simp add: show_int_def valid_port_def)

lemma parse_pf_rule:
  assumes "valid_port p"
  shows "parse_pf_line (pf_rule iface proto p) = Some p"
proof -
  define head where "head = ''block drop on '' @ iface @ '' proto '' @ proto @ '' from any to any''"
  have rule: "pf_rule iface proto p = head @ '' port '' @ show_nat (nat p)"
    by (simp add: pf_rule_def head_def show_int_pos [OF assms])
  have d: "list_all is_digit (rev (show_nat (nat p)))"
    using show_nat_digits [of "nat p"] by (simp add: list_all_iff)
  have sp: "\<not> is_digit CHR '' ''" "is_space CHR '' ''" "\<not> is_space CHR ''t''" by (simp_all add: is_digit_def is_space_def)
  let ?r = "rev (show_nat (nat p)) @ CHR '' '' # ''trop'' @ CHR '' '' # rev head"
  have "takeWhile is_digit ?r = rev (show_nat (nat p))" "dropWhile is_digit ?r = CHR '' '' # ''trop'' @ CHR '' '' # rev head"
    using d sp(1) unfolding list_all_iff by (subst takeWhile_append2 dropWhile_append2; simp)+
  moreover have "rev (pf_rule iface proto p) = ?r" by (simp add: rule)
  moreover have "rev ''port'' = ''trop''" by simp
  ultimately show ?thesis
    using assms sp by (simp add: parse_pf_line_def Let_def parse_show_nat valid_port_def)
qed

lemma split_rules: "\<forall>r \<in> set rs. DNL \<notin> set r \<Longrightarrow> split_on DNL (rules_text rs) = rs @ [[]]"
proof (induction rs)
  case (Cons r rs)
  then have "rules_text (r # rs) = r @ DNL # rules_text rs" by (simp add: rules_text_def)
  with Cons show ?case by (simp add: split_on_append split_on_none)
qed (simp add: rules_text_def)

lemma file_lines_rules: "\<forall>r \<in> set rs. DNL \<notin> set r \<Longrightarrow> file_lines (rules_text rs) = rs"
  by (simp add: file_lines_def split_rules Let_def)

lemma strip_rule: "s \<noteq> [] \<Longrightarrow> \<not> is_space (hd s) \<Longrightarrow> \<not> is_space (last s) \<Longrightarrow> str_strip s = s"
proof -
  assume s: "s \<noteq> []" "\<not> is_space (hd s)" "\<not> is_space (last s)"
  have "dropWhile is_space s = s" using s by (cases s) auto
  moreover have "dropWhile is_space (rev s) = rev s" using s by (cases s rule: rev_cases) auto
  ultimately show ?thesis by (simp add: str_strip_def)
qed

lemma strip_pf_rule: "valid_port p \<Longrightarrow> str_strip (pf_rule iface proto p) = pf_rule iface proto p"
proof (rule strip_rule)
  assume p: "valid_port p"
  have "list_all is_digit (show_nat (nat p))" by (rule show_nat_digits)
  then have "is_digit (last (show_nat (nat p)))" by (simp add: list_all_iff)
  then show "\<not> is_space (last (pf_rule iface proto p))"
    by (simp add: pf_rule_def show_int_pos [OF p] digit_not_space)
qed (simp_all add: pf_rule_def is_space_def)

text \<open>A dictionary of rules as blocks create them.\<close>

definition rules_ok :: "(int, string) dict \<Rightarrow> bool" where
  "rules_ok d \<longleftrightarrow> dict_ok d
     \<and> (\<forall>(p, r) \<in> set d. valid_port p \<and> DNL \<notin> set r \<and> (\<exists>iface proto. r = pf_rule iface proto p))"

lemma load_saved:
  assumes "rules_ok d"
  shows "load_rules (rules_text (map snd d)) [] = d"
proof -
  let ?add = "\<lambda>line d. case parse_pf_line (str_strip line) of Some p \<Rightarrow> dset d p (str_strip line) | None \<Rightarrow> d"
  have new: "k \<notin> fst ` set d0 \<Longrightarrow> dset d0 k v = d0 @ [(k, v)]" for k :: int and v :: string and d0
    by (induction d0) auto
  have "rules_ok (d0 @ xs) \<Longrightarrow> fold ?add (map snd xs) d0 = d0 @ xs" for xs d0
  proof (induction xs arbitrary: d0)
    case (Cons x xs)
    obtain p r where x: "x = (p, r)" by (cases x)
    with Cons.prems obtain iface proto where r: "r = pf_rule iface proto p" "valid_port p" "p \<notin> fst ` set d0"
      by (auto simp: rules_ok_def dict_ok_def)
    then have "?add r d0 = d0 @ [(p, r)]" by (simp add: strip_pf_rule parse_pf_rule new)
    with Cons.IH [of "d0 @ [(p, r)]"] Cons.prems x show ?case by simp
  qed simp
  from this [of "[]" d] assms have "fold ?add (map snd d) [] = d" by simp
  moreover have "file_lines (rules_text (map snd d)) = map snd d"
    using assms by (intro file_lines_rules) (auto simp: rules_ok_def)
  ultimately show ?thesis by (simp add: load_rules_def)
qed

lemma pf_rule_clean: "DNL \<notin> set iface \<Longrightarrow> DNL \<notin> set proto \<Longrightarrow> valid_port p \<Longrightarrow> DNL \<notin> set (pf_rule iface proto p)"
proof -
  assume a: "DNL \<notin> set iface" "DNL \<notin> set proto" and p: "valid_port p"
  have "DNL \<notin> set (show_int p)"
    using show_nat_digits [of "nat p"] by (auto simp: show_int_pos [OF p] list_all_iff is_digit_def DNL_def)
  moreover have "DNL \<notin> set ''block drop on ''" "DNL \<notin> set '' proto ''" "DNL \<notin> set '' from any to any port ''" by code_simp+
  ultimately show ?thesis using a by (simp only: pf_rule_def set_append Un_iff de_Morgan_disj simp_thms)
qed

lemma rules_ok_dset: "rules_ok d \<Longrightarrow> valid_port p \<Longrightarrow> DNL \<notin> set (pf_rule iface proto p) \<Longrightarrow> rules_ok (dset d p (pf_rule iface proto p))"
proof -
  assume a: "rules_ok d" "valid_port p" "DNL \<notin> set (pf_rule iface proto p)"
  have "set (dset d p r) \<subseteq> insert (p, r) (set d)" for r by (induction d) auto
  with a show ?thesis unfolding rules_ok_def by (fastforce simp: dict_ok_dset)
qed

section \<open>The life of one process\<close>

text \<open>A run of \<open>block_port\<close> calls: interface, port and protocol of each.\<close>

definition mac_blocks :: "'k darwin_env \<Rightarrow> (string \<times> int \<times> string) list \<Rightarrow> 'k darwin \<Rightarrow> 'k darwin" where
  "mac_blocks v calls s = fold (\<lambda>(iface, p, proto) s. snd (mac_block_port v ''Darwin'' iface p proto s)) calls s"

text \<open>The calls that pass the guards, and the rules they make; of two for a port the later one counts.\<close>

definition admitted :: "string \<times> int \<times> string \<Rightarrow> bool" where
  "admitted c \<longleftrightarrow> (case c of (iface, p, proto) \<Rightarrow> valid_port p \<and> valid_protocol proto \<and> iface_ok iface)"

definition rule_of_call :: "string \<times> int \<times> string \<Rightarrow> int \<times> string" where
  "rule_of_call c = (case c of (iface, p, proto) \<Rightarrow> (p, pf_rule iface (str_lower proto) p))"

text \<open>A new process: the dictionary is empty, the file and the packet filter are as they were.\<close>

definition restarted :: "'k darwin \<Rightarrow> 'k darwin" where
  "restarted s = s\<lparr>dw_rules := []\<rparr>"

text \<open>Whether \<open>pfctl\<close> answers or not, an admitted call enters its rule into the dictionary and the file.\<close>

lemma mac_block_saves:
  assumes "\<forall>new old. de_write v new old = Some new"
  shows "dw_rules (snd (mac_block_port v ''Darwin'' iface p proto s)) =
      (if admitted (iface, p, proto) then dset (dw_rules s) p (pf_rule iface (str_lower proto) p) else dw_rules s)
    \<and> dw_file (snd (mac_block_port v ''Darwin'' iface p proto s)) =
      (if admitted (iface, p, proto) then Some (rules_text (map snd (dset (dw_rules s) p (pf_rule iface (str_lower proto) p)))) else dw_file s)"
  using assms
  by (auto simp: mac_block_port_def mac_compatible_def write_pf_rules_def admitted_def valid_port_def valid_protocol_def Let_def
      split: prod.splits sum.splits)

lemma mac_blocks_save:
  assumes "\<forall>new old. de_write v new old = Some new" and "list_all (\<lambda>(iface, p, proto). DNL \<notin> set iface) calls"
  shows "dw_rules s = [] \<Longrightarrow> rules_ok (dw_rules (mac_blocks v calls s))
    \<and> (dw_rules (mac_blocks v calls s) \<noteq> [] \<longrightarrow> dw_file (mac_blocks v calls s) = Some (rules_text (map snd (dw_rules (mac_blocks v calls s)))))
    \<and> dget (dw_rules (mac_blocks v calls s)) q = map_of (rev (map rule_of_call (filter admitted calls))) q"
  using assms(2)
proof (induction calls rule: rev_induct)
  case Nil
  then show ?case by (simp add: mac_blocks_def rules_ok_def)
next
  case (snoc c calls)
  obtain iface p proto where c: "c = (iface, p, proto)" by (cases c)
  let ?s = "mac_blocks v calls s"
  have step: "mac_blocks v (calls @ [c]) s = snd (mac_block_port v ''Darwin'' iface p proto ?s)" by (simp add: mac_blocks_def c)
  note saves = mac_block_saves [OF assms(1), of iface p proto ?s]
  show ?case
  proof (cases "admitted c")
    case False
    with snoc step saves show ?thesis by (simp add: c)
  next
    case True
    then have p: "valid_port p" and pr: "str_lower proto \<in> {''tcp'', ''udp''}" by (simp_all add: c admitted_def valid_protocol_def)
    have "DNL \<notin> set ''tcp''" "DNL \<notin> set ''udp''" by code_simp+
    with pr have "DNL \<notin> set (str_lower proto)" by auto
    moreover have "DNL \<notin> set iface" using snoc.prems(2) by (simp add: c)
    ultimately have "rules_ok (dset (dw_rules ?s) p (pf_rule iface (str_lower proto) p))"
      using snoc p by (intro rules_ok_dset pf_rule_clean) simp_all
    with True snoc saves show ?thesis unfolding step by (simp add: c dget_dset rule_of_call_def)
  qed
qed

section \<open>Properties\<close>

text \<open>
  C39: rules survive a restart of the backend. A process starts with an empty dictionary and blocks
  ports, whatever \<open>pfctl\<close> answers; its dictionary then holds, for each port of a valid call, the rule
  of the last such call. After a restart an unblock of one of these ports reads the rules file these
  blocks have written, recovers every rule from its line, drops exactly the rule of that port and
  loads the rewritten file. Relied on: the file can be written and read, and no interface name holds
  a line feed, which the pattern of the bridge lets pass at its end (\<open>newline_breaks_rule\<close>).
\<close>

theorem pf_rules_survive_restart:
  assumes "\<forall>new old. de_write v new old = Some new" and "de_readable v"
    and "list_all (\<lambda>(iface, p, proto). DNL \<notin> set iface) calls"
    and "dw_rules s0 = []" and "mac_blocks v calls s0 = s" and "\<exists>c \<in> set calls. admitted c \<and> fst (snd c) = p"
  shows "(\<forall>q. dget (dw_rules s) q = map_of (rev (map rule_of_call (filter admitted calls))) q)
    \<and> (\<exists>s'. mac_unblock_port v p (restarted s) = (Inr True, s') \<and> dw_rules s' = ddel (dw_rules s) p
         \<and> dw_file s' = Some (rules_text (map snd (ddel (dw_rules s) p)))
         \<and> dw_os s' = snd (de_run v (dw_file s') pfctl_load (dw_os s)))"
proof -
  note saved = mac_blocks_save [OF assms(1,3,4), unfolded assms(5)]
  obtain c where c: "c \<in> set calls" "admitted c" "fst (snd c) = p" using assms(6) by blast
  have "p \<in> fst ` set (rev (map rule_of_call (filter admitted calls)))"
  proof -
    have "rule_of_call c \<in> set (rev (map rule_of_call (filter admitted calls)))" using c(1,2) by simp
    moreover have "fst (rule_of_call c) = p" using c(3) by (cases c) (simp add: rule_of_call_def)
    ultimately show ?thesis by (metis image_eqI)
  qed
  then have "dget (dw_rules s) p \<noteq> None" using saved [of p] by (simp add: map_of_eq_None_iff)
  then have mem: "dmem p (dw_rules s)" by (simp add: dmem_def)
  then have "dw_rules s \<noteq> []" by (auto simp: dmem_def)
  with saved have ok: "rules_ok (dw_rules s)" and saved_text: "dw_file s = Some (rules_text (map snd (dw_rules s)))" by simp_all
  have "\<exists>s'. mac_unblock_port v p (restarted s) = (Inr True, s') \<and> dw_rules s' = ddel (dw_rules s) p
         \<and> dw_file s' = Some (rules_text (map snd (ddel (dw_rules s) p)))
         \<and> dw_os s' = snd (de_run v (dw_file s') pfctl_load (dw_os s))"
    using mem assms(1,2)
    by (simp add: restarted_def mac_unblock_port_def saved_text load_saved [OF ok] write_pf_rules_def reload_pf_def dmem_def [of p "[]"] Let_def)
  with saved show ?thesis by blast
qed

definition mac_env :: "nat darwin_env" where
  "mac_env = \<lparr>de_run = (\<lambda>file cmd k. (Inr (0, []), Suc k)), de_write = (\<lambda>new old. Some new), de_readable = True\<rparr>"

definition two_pf_rules :: "(int, string) dict" where
  "two_pf_rules = [(22, pf_rule ''en0'' ''tcp'' 22), (53, pf_rule ''en0'' ''udp'' 53)]"

definition empty_mac :: "nat darwin" where
  "empty_mac = \<lparr>dw_rules = [], dw_file = None, dw_os = 0\<rparr>"

theorem pf_rules_survive_restart_witness:
  "\<exists>s'. mac_unblock_port mac_env 22 (restarted (mac_blocks mac_env [(''en0'', 22, ''tcp''), (''en0'', 53, ''UDP'')] empty_mac)) = (Inr True, s')
     \<and> dget (dw_rules s') 22 = None \<and> dget (dw_rules s') 53 = Some (pf_rule ''en0'' ''udp'' 53)"
proof -
  let ?calls = "[(''en0'', 22, ''tcp''), (''en0'', 53, ''UDP'')]"
  have f: "admitted (''en0'', 22, ''tcp'')" "admitted (''en0'', 53, ''UDP'')" "str_lower ''tcp'' = ''tcp''" "str_lower ''UDP'' = ''udp''"
    "DNL \<notin> set ''en0''" by code_simp+
  then have clean: "list_all (\<lambda>(iface, p, proto). DNL \<notin> set iface) ?calls" by simp
  have ex: "\<exists>c \<in> set ?calls. admitted c \<and> fst (snd c) = 22" using f(1) by (intro bexI [of _ "(''en0'', 22, ''tcp'')"]) simp_all
  have w: "\<forall>new old. de_write mac_env new old = Some new" "de_readable mac_env" "dw_rules empty_mac = []"
    by (simp_all add: mac_env_def empty_mac_def)
  let ?s = "mac_blocks mac_env ?calls empty_mac"
  from pf_rules_survive_restart [OF w(1,2) clean w(3) refl ex] obtain s' where
    s': "mac_unblock_port mac_env 22 (restarted ?s) = (Inr True, s')" "dw_rules s' = ddel (dw_rules ?s) 22"
    and q: "\<forall>q. dget (dw_rules ?s) q = map_of (rev (map rule_of_call (filter admitted ?calls))) q" by blast
  from q have "dget (dw_rules ?s) 53 = Some (pf_rule ''en0'' ''udp'' 53)" by (simp add: f rule_of_call_def)
  then have "dget (dw_rules s') 22 = None" "dget (dw_rules s') 53 = Some (pf_rule ''en0'' ''udp'' 53)"
    by (simp_all add: s'(2) dict_simps)
  with s'(1) show ?thesis by blast
qed

text \<open>
  An interface name with a line feed at its end passes the check. Its rule takes two lines of the
  file; after a restart only the second one is read back, which is no rule any more.
\<close>

lemma newline_breaks_rule:
  "iface_ok (''en0'' @ [DNL])
   \<and> load_rules (rules_text [pf_rule (''en0'' @ [DNL]) ''tcp'' 22]) [] = [(22, ''proto tcp from any to any port 22'')]"
  by code_simp

text \<open>
  A block after a restart loses the rules of the last life. Unlike an unblock, \<open>block_port\<close> does
  not read the rules file: in a new process, whose dictionary is empty, the file is rewritten with
  the new rule alone, whatever rules it held, and it is this file that is loaded into the anchor.
\<close>

lemma mac_block_forgets_saved_rules:
  assumes "mac_block_port v ''Darwin'' iface p proto s = (Inr True, s')" and "dw_rules s = []"
    and "\<forall>new old. de_write v new old = Some new"
  shows "dw_file s' = Some (rules_text [pf_rule iface (str_lower proto) p])"
  using assms by (auto simp: mac_block_port_def mac_compatible_def write_pf_rules_def Let_def split: if_splits prod.splits sum.splits)

lemma mac_block_forgets_example:
  "dw_file (snd (mac_block_port mac_env ''Darwin'' ''en0'' 80 ''tcp''
     \<lparr>dw_rules = [], dw_file = Some (rules_text (map snd two_pf_rules)), dw_os = 0\<rparr>)) =
   Some (rules_text [pf_rule ''en0'' ''tcp'' 80])"
proof -
  have l: "str_lower ''tcp'' = ''tcp''" "iface_ok ''en0''" by code_simp+
  let ?s = "\<lparr>dw_rules = [], dw_file = Some (rules_text (map snd two_pf_rules)), dw_os = 0\<rparr> :: nat darwin"
  obtain s' where "mac_block_port mac_env ''Darwin'' ''en0'' 80 ''tcp'' ?s = (Inr True, s')"
    by (simp add: mac_block_port_def mac_compatible_def l mac_env_def Let_def)
  with mac_block_forgets_saved_rules [OF this] l(1) show ?thesis by (simp add: mac_env_def)
qed

end
