(* ===== verification/Database.thy ===== *)
theory Database
  imports Interfaces Metrics "HOL-Library.Multiset"
begin

text \<open>
  The database adapter \<open>core/db.py\<close> over the tables of \<open>core/models.py\<close>, and the
  repository \<open>infrastructure/database/repository.py\<close> that passes every call through to it.
  A table is the list of its rows. What SQLAlchemy and the SQL engine leave open is a parameter
  \<open>sql\<close>: the order in which a query without (or with a partial) \<open>ORDER BY\<close> returns rows,
  the identifiers given to new rows, and which calls fail. The \<open>n\<close>-th call of the database's
  life fails with the exception \<open>sq_fault n\<close>, if there is one, before it changes anything.
\<close>

section \<open>Tables (core/models.py)\<close>

record traffic_history =
  th_id :: int
  th_time :: time
  th_port :: int
  th_pid :: int
  th_app :: string
  th_in :: rat
  th_out :: rat
  th_protocol :: string
  th_direction :: string
  th_risk :: int

record process_map =
  pm_pid :: int
  pm_app :: string
  pm_first :: time
  pm_last :: time

record config_cache =
  cc_key :: string
  cc_value :: string
  cc_updated :: time

record blocked_port =
  bp_port :: int
  bp_type :: string
  bp_at :: time
  bp_reason :: string

record audit_log =
  lg_id :: int
  lg_time :: time
  lg_event_type :: string
  lg_app :: "string option"
  lg_port :: "int option"
  lg_pid :: "int option"
  lg_severity :: string
  lg_message :: string
  lg_details :: "string option"

record analyst_approval =
  ap_id :: int
  ap_created :: time
  ap_action :: string
  ap_target :: string
  ap_reason :: string
  ap_status :: string
  ap_risk :: int
  ap_resolved_at :: "time option"
  ap_resolved_by :: "string option"

record dashboard_layout =
  dl_id :: int
  dl_name :: string
  dl_json :: string
  dl_updated :: time

record user_preference =
  up_id :: int
  up_key :: string
  up_value :: string

definition PENDING :: string where "PENDING = ''pending''"

record db =
  t_traffic :: "traffic_history list"
  t_process :: "process_map list"
  t_config :: "config_cache list"
  t_blocked :: "blocked_port list"
  t_audit :: "audit_log list"
  t_approvals :: "analyst_approval list"
  t_layouts :: "dashboard_layout list"
  t_prefs :: "user_preference list"
  db_calls :: nat

definition empty_db :: db where
  "empty_db = \<lparr>t_traffic = [], t_process = [], t_config = [], t_blocked = [], t_audit = [],
     t_approvals = [], t_layouts = [], t_prefs = [], db_calls = 0\<rparr>"

record sql =
  sq_fault :: "nat \<Rightarrow> exc option"
  sq_next :: "int list \<Rightarrow> int"
  sq_traffic :: "traffic_history list \<Rightarrow> traffic_history list"
  sq_audit :: "audit_log list \<Rightarrow> audit_log list"
  sq_approvals :: "analyst_approval list \<Rightarrow> analyst_approval list"
  sq_prefs :: "user_preference list \<Rightarrow> user_preference list"
  sq_groups :: "(string \<times> rat \<times> int) list \<Rightarrow> (string \<times> rat \<times> int) list"

text \<open>What SQL promises: scans return the rows in some order, new identifiers are new.\<close>

definition sql_ok :: "sql \<Rightarrow> bool" where
  "sql_ok q \<longleftrightarrow> (\<forall>ids. sq_next q ids \<notin> set ids)
     \<and> (\<forall>xs. mset (sq_traffic q xs) = mset xs) \<and> (\<forall>xs. mset (sq_audit q xs) = mset xs)
     \<and> (\<forall>xs. mset (sq_approvals q xs) = mset xs) \<and> (\<forall>xs. mset (sq_prefs q xs) = mset xs)
     \<and> (\<forall>xs. mset (sq_groups q xs) = mset xs)"

text \<open>One session: it either fails before any change or runs to its commit.\<close>

definition session :: "sql \<Rightarrow> (db \<Rightarrow> 'a result \<times> db) \<Rightarrow> db \<Rightarrow> 'a result \<times> db" where
  "session q f d =
     (let d' = d\<lparr>db_calls := Suc (db_calls d)\<rparr> in
      case sq_fault q (db_calls d) of Some err \<Rightarrow> (Inl err, d') | None \<Rightarrow> f d')"

text \<open>
  The pattern of four tables: \<open>filter(...).first()\<close> on a unique column, then an update of the
  row found or an insert.
\<close>

definition upsert :: "('r \<Rightarrow> 'k) \<Rightarrow> 'k \<Rightarrow> ('r \<Rightarrow> 'r) \<Rightarrow> 'r \<Rightarrow> 'r list \<Rightarrow> 'r list" where
  "upsert key k upd new xs =
     (if k \<in> key ` set xs then map (\<lambda>r. if key r = k then upd r else r) xs else xs @ [new])"

section \<open>Connection\<close>

definition connect_url :: "string option \<Rightarrow> string \<Rightarrow> string" where
  "connect_url vigilant_env url =
     (if startswith url ''sqlite'' then url
      else if str_lower (case vigilant_env of Some v \<Rightarrow> v | None \<Rightarrow> ''production'') = ''production'' then
        (if CHR ''?'' \<in> set url then (if contains url ''sslmode='' then url else url @ ''&sslmode=require'')
         else url @ ''?sslmode=require'')
      else url)"

definition safe_url :: "string \<Rightarrow> string" where
  "safe_url url = (if CHR ''@'' \<in> set url then ''***@'' @ last (split_on CHR ''@'' url) else url)"

section \<open>Traffic history\<close>

text \<open>The dictionary of one record, each field optional.\<close>

record traffic_record =
  tr_time :: "time option"
  tr_port :: "int option"
  tr_pid :: "int option"
  tr_app :: "string option"
  tr_in :: "rat option"
  tr_out :: "rat option"
  tr_protocol :: "string option"
  tr_direction :: "string option"
  tr_risk :: "int option"

definition opt :: "'a \<Rightarrow> 'a option \<Rightarrow> 'a" where
  "opt x y = (case y of Some z \<Rightarrow> z | None \<Rightarrow> x)"

definition traffic_of :: "time \<Rightarrow> int \<Rightarrow> traffic_record \<Rightarrow> traffic_history" where
  "traffic_of now i r = \<lparr>th_id = i, th_time = opt now (tr_time r), th_port = opt 0 (tr_port r), th_pid = opt 0 (tr_pid r),
     th_app = opt ''Unknown'' (tr_app r), th_in = opt 0 (tr_in r), th_out = opt 0 (tr_out r),
     th_protocol = opt ''TCP'' (tr_protocol r), th_direction = opt ''both'' (tr_direction r),
     th_risk = opt 0 (tr_risk r)\<rparr>"

fun add_traffic :: "sql \<Rightarrow> time \<Rightarrow> traffic_record list \<Rightarrow> traffic_history list \<Rightarrow> traffic_history list" where
  "add_traffic q now [] t = t"
| "add_traffic q now (r # rs) t = add_traffic q now rs (t @ [traffic_of now (sq_next q (map th_id t)) r])"

definition insert_traffic :: "sql \<Rightarrow> time \<Rightarrow> traffic_record list \<Rightarrow> db \<Rightarrow> unit result \<times> db" where
  "insert_traffic q now rs d =
     (if rs = [] then (Inr (), d)
      else session q (\<lambda>d. (Inr (), d\<lparr>t_traffic := add_traffic q now rs (t_traffic d)\<rparr>)) d)"

definition traffic_cutoff :: "time \<Rightarrow> int \<Rightarrow> time" where
  "traffic_cutoff now hours = now - of_int (hours * 3600)"

definition get_traffic_history :: "sql \<Rightarrow> time \<Rightarrow> int \<Rightarrow> int \<Rightarrow> db \<Rightarrow> traffic_history list result \<times> db" where
  "get_traffic_history q now port hours =
     session q (\<lambda>d. (Inr (sort_key th_time (sq_traffic q
       (filter (\<lambda>r. th_port r = port \<and> traffic_cutoff now hours \<le> th_time r) (t_traffic d)))), d))"

definition prune_old_traffic :: "sql \<Rightarrow> time \<Rightarrow> int \<Rightarrow> db \<Rightarrow> nat result \<times> db" where
  "prune_old_traffic q now max_age =
     session q (\<lambda>d.
       (let old = (\<lambda>r. th_time r < traffic_cutoff now max_age) in
        (Inr (length (filter old (t_traffic d))), d\<lparr>t_traffic := filter (\<lambda>r. \<not> old r) (t_traffic d)\<rparr>)))"

section \<open>Process map and configuration\<close>

definition upsert_process :: "sql \<Rightarrow> time \<Rightarrow> int \<Rightarrow> string \<Rightarrow> db \<Rightarrow> unit result \<times> db" where
  "upsert_process q now pid app =
     session q (\<lambda>d. (Inr (), d\<lparr>t_process :=
       upsert pm_pid pid (\<lambda>r. r\<lparr>pm_app := app, pm_last := now\<rparr>)
         \<lparr>pm_pid = pid, pm_app = app, pm_first = now, pm_last = now\<rparr> (t_process d)\<rparr>))"

definition get_process_name :: "sql \<Rightarrow> int \<Rightarrow> db \<Rightarrow> string option result \<times> db" where
  "get_process_name q pid =
     session q (\<lambda>d. (Inr (map_option pm_app (List.find (\<lambda>r. pm_pid r = pid) (t_process d))), d))"

definition set_config :: "sql \<Rightarrow> time \<Rightarrow> string \<Rightarrow> string \<Rightarrow> db \<Rightarrow> unit result \<times> db" where
  "set_config q now key v =
     session q (\<lambda>d. (Inr (), d\<lparr>t_config :=
       upsert cc_key key (\<lambda>r. r\<lparr>cc_value := v, cc_updated := now\<rparr>)
         \<lparr>cc_key = key, cc_value = v, cc_updated = now\<rparr> (t_config d)\<rparr>))"

definition get_config :: "sql \<Rightarrow> string \<Rightarrow> string option \<Rightarrow> db \<Rightarrow> string option result \<times> db" where
  "get_config q key dflt =
     session q (\<lambda>d. (Inr (case List.find (\<lambda>r. cc_key r = key) (t_config d) of
                             Some r \<Rightarrow> Some (cc_value r) | None \<Rightarrow> dflt), d))"

section \<open>Blocked ports\<close>

definition add_blocked_port :: "sql \<Rightarrow> time \<Rightarrow> int \<Rightarrow> string \<Rightarrow> string \<Rightarrow> db \<Rightarrow> unit result \<times> db" where
  "add_blocked_port q now port btype reason =
     session q (\<lambda>d. (Inr (), d\<lparr>t_blocked :=
       upsert bp_port port (\<lambda>r. r\<lparr>bp_type := btype, bp_at := now, bp_reason := reason\<rparr>)
         \<lparr>bp_port = port, bp_type = btype, bp_at = now, bp_reason = reason\<rparr> (t_blocked d)\<rparr>))"

definition remove_blocked_port :: "sql \<Rightarrow> int \<Rightarrow> db \<Rightarrow> unit result \<times> db" where
  "remove_blocked_port q port =
     session q (\<lambda>d. (Inr (), d\<lparr>t_blocked := filter (\<lambda>r. bp_port r \<noteq> port) (t_blocked d)\<rparr>))"

definition get_blocked_ports :: "sql \<Rightarrow> db \<Rightarrow> blocked_port list result \<times> db" where
  "get_blocked_ports q = session q (\<lambda>d. (Inr (sort_key bp_port (t_blocked d)), d))"

definition clear_blocked_ports :: "sql \<Rightarrow> db \<Rightarrow> nat result \<times> db" where
  "clear_blocked_ports q = session q (\<lambda>d. (Inr (length (t_blocked d)), d\<lparr>t_blocked := []\<rparr>))"

section \<open>Audit log\<close>

text \<open>The keyword arguments of \<open>insert_audit_log\<close>.\<close>

record audit_entry =
  ae_event_type :: string
  ae_message :: string
  ae_app :: "string option"
  ae_port :: "int option"
  ae_pid :: "int option"
  ae_severity :: string
  ae_details :: "string option"

definition insert_audit_log :: "sql \<Rightarrow> time \<Rightarrow> audit_entry \<Rightarrow> db \<Rightarrow> unit result \<times> db" where
  "insert_audit_log q now e =
     session q (\<lambda>d. (Inr (), d\<lparr>t_audit := t_audit d @
       [\<lparr>lg_id = sq_next q (map lg_id (t_audit d)), lg_time = now, lg_event_type = ae_event_type e,
         lg_app = ae_app e, lg_port = ae_port e, lg_pid = ae_pid e, lg_severity = ae_severity e,
         lg_message = ae_message e, lg_details = ae_details e\<rparr>]\<rparr>))"

definition get_audit_logs :: "sql \<Rightarrow> nat \<Rightarrow> db \<Rightarrow> audit_log list result \<times> db" where
  "get_audit_logs q limit =
     session q (\<lambda>d. (Inr (take limit (sort_key (\<lambda>r. - lg_time r) (sq_audit q (t_audit d)))), d))"

section \<open>Analyst approvals\<close>

definition create_analyst_approval ::
  "sql \<Rightarrow> time \<Rightarrow> string \<Rightarrow> string \<Rightarrow> string \<Rightarrow> int \<Rightarrow> db \<Rightarrow> int result \<times> db" where
  "create_analyst_approval q now action target reason risk =
     session q (\<lambda>d.
       (let i = sq_next q (map ap_id (t_approvals d)) in
        (Inr i, d\<lparr>t_approvals := t_approvals d @
           [\<lparr>ap_id = i, ap_created = now, ap_action = action, ap_target = target, ap_reason = reason,
             ap_status = PENDING, ap_risk = risk, ap_resolved_at = None, ap_resolved_by = None\<rparr>]\<rparr>)))"

definition update_approval_status :: "sql \<Rightarrow> time \<Rightarrow> int \<Rightarrow> string \<Rightarrow> string \<Rightarrow> db \<Rightarrow> bool result \<times> db" where
  "update_approval_status q now i status who =
     session q (\<lambda>d.
       (if i \<in> ap_id ` set (t_approvals d)
        then (Inr True, d\<lparr>t_approvals :=
               map (\<lambda>r. if ap_id r = i
                        then r\<lparr>ap_status := status, ap_resolved_by := Some who, ap_resolved_at := Some now\<rparr> else r)
                 (t_approvals d)\<rparr>)
        else (Inr False, d)))"

definition get_pending_approvals :: "sql \<Rightarrow> db \<Rightarrow> analyst_approval list result \<times> db" where
  "get_pending_approvals q =
     session q (\<lambda>d. (Inr (sort_key (\<lambda>r. - ap_risk r)
       (sq_approvals q (filter (\<lambda>r. ap_status r = PENDING) (t_approvals d)))), d))"

section \<open>Layouts and preferences\<close>

text \<open>
  \<open>save_dashboard_layout\<close> filters on \<open>DashboardLayout.user_id\<close>, an attribute the model
  class does not have: building the query raises.
\<close>

definition save_dashboard_layout :: "sql \<Rightarrow> time \<Rightarrow> int \<Rightarrow> string \<Rightarrow> string \<Rightarrow> db \<Rightarrow> unit result \<times> db" where
  "save_dashboard_layout q now user layout name = session q (\<lambda>d. (Inl AttributeError, d))"

definition get_dashboard_layout :: "sql \<Rightarrow> string \<Rightarrow> db \<Rightarrow> string option result \<times> db" where
  "get_dashboard_layout q name =
     session q (\<lambda>d. (Inr (map_option dl_json (List.find (\<lambda>r. dl_name r = name) (t_layouts d))), d))"

definition set_user_preference :: "sql \<Rightarrow> string \<Rightarrow> string \<Rightarrow> db \<Rightarrow> unit result \<times> db" where
  "set_user_preference q key v =
     session q (\<lambda>d. (Inr (), d\<lparr>t_prefs :=
       upsert up_key key (\<lambda>r. r\<lparr>up_value := v\<rparr>)
         \<lparr>up_id = sq_next q (map up_id (t_prefs d)), up_key = key, up_value = v\<rparr> (t_prefs d)\<rparr>))"

definition get_user_preferences :: "sql \<Rightarrow> db \<Rightarrow> (string, string) dict result \<times> db" where
  "get_user_preferences q =
     session q (\<lambda>d. (Inr (fold (\<lambda>r m. dset m (up_key r) (up_value r)) (sq_prefs q (t_prefs d)) []), d))"

fun set_preferences :: "sql \<Rightarrow> (string \<times> string) list \<Rightarrow> db \<Rightarrow> unit result \<times> db" where
  "set_preferences q [] d = (Inr (), d)"
| "set_preferences q ((k, v) # xs) d =
     (case set_user_preference q k v d of
        (Inl err, d') \<Rightarrow> (Inl err, d')
      | (Inr _, d') \<Rightarrow> set_preferences q xs d')"

section \<open>Analytics\<close>

definition talker_groups :: "traffic_history list \<Rightarrow> (string \<times> rat \<times> int) list" where
  "talker_groups rs =
     map (\<lambda>app. let g = filter (\<lambda>r. th_app r = app) rs in
            (app, \<Sum>r\<leftarrow>g. th_in r + th_out r, foldl max (th_risk (hd g)) (map th_risk g)))
       (remdups (map th_app rs))"

definition get_top_talkers :: "sql \<Rightarrow> time \<Rightarrow> int \<Rightarrow> nat \<Rightarrow> db \<Rightarrow> (string \<times> rat \<times> int) list result \<times> db" where
  "get_top_talkers q now hours limit =
     session q (\<lambda>d. (Inr (take limit (sort_key (\<lambda>(app, kb, risk). - kb)
       (sq_groups q (talker_groups (filter (\<lambda>r. traffic_cutoff now hours \<le> th_time r) (t_traffic d)))))), d))"

definition get_global_traffic_stats :: "sql \<Rightarrow> time \<Rightarrow> int \<Rightarrow> db \<Rightarrow> (rat \<times> rat) result \<times> db" where
  "get_global_traffic_stats q now hours =
     session q (\<lambda>d.
       (let rs = filter (\<lambda>r. traffic_cutoff now hours \<le> th_time r) (t_traffic d) in
        (Inr (py_round2 ((\<Sum>r\<leftarrow>rs. th_in r) / 1024), py_round2 ((\<Sum>r\<leftarrow>rs. th_out r) / 1024)), d)))"

section \<open>Sessions and keyed tables\<close>

lemma session_cases: "session q f d = (r, d') \<Longrightarrow>
    (\<exists>err. sq_fault q (db_calls d) = Some err \<and> r = Inl err \<and> d' = d\<lparr>db_calls := Suc (db_calls d)\<rparr>)
    \<or> (sq_fault q (db_calls d) = None \<and> f (d\<lparr>db_calls := Suc (db_calls d)\<rparr>) = (r, d'))"
  by (auto simp: session_def Let_def split: option.splits)

lemma upsert_keys:
  assumes "key new = k" and "\<And>r. key (upd r) = key r"
  shows "map key (upsert key k upd new xs) = (if k \<in> key ` set xs then map key xs else map key xs @ [k])"
  using assms by (auto simp: upsert_def)

lemma upsert_distinct:
  assumes "key new = k" and "\<And>r. key (upd r) = key r" and "distinct (map key xs)"
  shows "distinct (map key (upsert key k upd new xs))"
  using assms(3) upsert_keys [of key new k upd xs, OF assms(1,2)] by auto

text \<open>A table with a unique column is a map, and \<open>upsert\<close> is its update.\<close>

definition table_map :: "('r \<Rightarrow> 'k) \<Rightarrow> ('r \<Rightarrow> 'v) \<Rightarrow> 'r list \<Rightarrow> 'k \<Rightarrow> 'v option" where
  "table_map key val xs = map_of (map (\<lambda>r. (key r, val r)) xs)"

lemma table_map_Some: "distinct (map key xs) \<Longrightarrow>
    table_map key val xs k = Some v \<longleftrightarrow> (\<exists>r \<in> set xs. key r = k \<and> val r = v)"
  unfolding table_map_def by (subst map_of_eq_Some_iff) (auto simp: comp_def)

lemma table_map_None: "table_map key val xs k = None \<longleftrightarrow> k \<notin> key ` set xs"
  by (auto simp: table_map_def map_of_eq_None_iff image_iff)

lemma table_map_append: "key new \<notin> key ` set xs \<Longrightarrow>
    table_map key val (xs @ [new]) = (table_map key val xs)(key new \<mapsto> val new)"
  by (induction xs) (auto simp: table_map_def)

lemma table_map_update:
  assumes "\<And>r. key (upd r) = key r" and "\<And>r. val (upd r) = v" and "k \<in> key ` set xs"
  shows "table_map key val (map (\<lambda>r. if key r = k then upd r else r) xs) = (table_map key val xs)(k \<mapsto> v)"
proof
  fix j
  have other: "j \<noteq> k \<Longrightarrow> table_map key val (map (\<lambda>r. if key r = k then upd r else r) ys) j = table_map key val ys j"
    for ys using assms(1) by (induction ys) (auto simp: table_map_def)
  have "k \<in> key ` set ys \<Longrightarrow> table_map key val (map (\<lambda>r. if key r = k then upd r else r) ys) k = Some v"
    for ys using assms(1,2) by (induction ys) (auto simp: table_map_def)
  with other assms(3) show "table_map key val (map (\<lambda>r. if key r = k then upd r else r) xs) j = ((table_map key val xs)(k \<mapsto> v)) j"
    by auto
qed

lemma table_map_upsert:
  assumes "key new = k" and "\<And>r. key (upd r) = key r" and "\<And>r. val (upd r) = v" and "val new = v"
  shows "table_map key val (upsert key k upd new xs) = (table_map key val xs)(k \<mapsto> v)"
  using assms table_map_update [of key upd val v k xs] by (simp add: upsert_def table_map_append)

lemma table_map_filter: "table_map key val (filter (\<lambda>r. key r \<noteq> k) xs) = (table_map key val xs)(k := None)"
  by (induction xs) (auto simp: table_map_def)

lemma table_map_same_rows:
  assumes "mset xs = mset ys" and "distinct (map key ys)"
  shows "table_map key val xs = table_map key val ys"
proof -
  have "distinct (map key xs)" using assms by (metis distinct_map mset_eq_imp_distinct_iff mset_eq_setD)
  moreover have "set xs = set ys" using assms(1) by (rule mset_eq_setD)
  ultimately show ?thesis
    using assms(2) unfolding table_map_def by (subst map_of_inject_set) (simp_all add: comp_def)
qed

lemma find_table_map: "distinct (map key xs) \<Longrightarrow>
    map_option val (List.find (\<lambda>r. key r = k) xs) = table_map key val xs k"
  by (induction xs) (auto simp: table_map_def)

section \<open>Blocked ports as a map\<close>

definition bp_info :: "blocked_port \<Rightarrow> string \<times> time \<times> string" where
  "bp_info r = (bp_type r, bp_at r, bp_reason r)"

definition bp_row :: "blocked_port \<Rightarrow> int \<times> string \<times> time \<times> string" where
  "bp_row r = (bp_port r, bp_info r)"

definition blocked_view :: "db \<Rightarrow> int \<Rightarrow> (string \<times> time \<times> string) option" where
  "blocked_view d = table_map bp_port bp_info (t_blocked d)"

definition blocked_ok :: "db \<Rightarrow> bool" where
  "blocked_ok d \<longleftrightarrow> distinct (map bp_port (t_blocked d))"

lemma blocked_frame [simp]: "blocked_ok (d\<lparr>db_calls := n\<rparr>) = blocked_ok d"
  "blocked_view (d\<lparr>db_calls := n\<rparr>) = blocked_view d"
  by (simp_all add: blocked_ok_def blocked_view_def)

lemma add_blocked_law:
  assumes "blocked_ok d" and "add_blocked_port q now p btype reason d = (r, d')"
  shows "blocked_ok d' \<and> blocked_view d' = (if r = Inr () then (blocked_view d)(p \<mapsto> (btype, now, reason)) else blocked_view d)"
  using session_cases [OF assms(2) [unfolded add_blocked_port_def]] assms(1)
  by (auto simp: blocked_ok_def blocked_view_def bp_info_def upsert_distinct table_map_upsert)

lemma remove_blocked_law:
  assumes "blocked_ok d" and "remove_blocked_port q p d = (r, d')"
  shows "blocked_ok d' \<and> blocked_view d' = (if r = Inr () then (blocked_view d)(p := None) else blocked_view d)"
  using session_cases [OF assms(2) [unfolded remove_blocked_port_def]] assms(1)
  by (auto simp: blocked_ok_def blocked_view_def table_map_filter distinct_map inj_on_def)

lemma sort_key_distinct: "distinct (map f xs) \<Longrightarrow> sorted_wrt (\<lambda>x y. f x < (f y :: int)) (sort_key f xs)"
  by (rule sort_key_strict)

lemma list_blocked_law:
  assumes "blocked_ok d" and "get_blocked_ports q d = (r, d')"
  shows "blocked_ok d' \<and> blocked_view d' = blocked_view d
    \<and> (\<forall>rs. r = Inr rs \<longrightarrow> sorted_wrt (\<lambda>x y. fst (bp_row x) < fst (bp_row y)) rs
         \<and> blocked_view d = map_of (map bp_row rs))"
proof -
  have "map_of (map bp_row (sort_key bp_port (t_blocked d))) = blocked_view d"
    using table_map_same_rows [of "sort_key bp_port (t_blocked d)" "t_blocked d" bp_port bp_info] assms(1)
    by (simp add: blocked_view_def blocked_ok_def table_map_def bp_row_def [abs_def])
  then show ?thesis
    using session_cases [OF assms(2) [unfolded get_blocked_ports_def]] assms(1)
    by (auto simp: bp_row_def sort_key_distinct blocked_ok_def)
qed

interpretation ports_repo: port_repository "add_blocked_port q" "remove_blocked_port q" "get_blocked_ports q"
    bp_row blocked_view blocked_ok for q
proof unfold_locales
qed (rule add_blocked_law remove_blocked_law list_blocked_law; assumption)+

section \<open>Approvals as a map\<close>

definition approval_status :: "db \<Rightarrow> int \<Rightarrow> string option" where
  "approval_status d = table_map ap_id ap_status (t_approvals d)"

definition approvals_ok :: "sql \<Rightarrow> db \<Rightarrow> bool" where
  "approvals_ok q d \<longleftrightarrow> sql_ok q \<and> distinct (map ap_id (t_approvals d))"

lemma approvals_frame [simp]: "approvals_ok q (d\<lparr>db_calls := n\<rparr>) = approvals_ok q d"
  "approval_status (d\<lparr>db_calls := n\<rparr>) = approval_status d"
  by (simp_all add: approvals_ok_def approval_status_def)

lemma fresh_id: "sql_ok q \<Longrightarrow> sq_next q (map f xs) \<notin> f ` set xs"
  unfolding sql_ok_def by (metis set_map)

lemma create_approval_law:
  assumes "approvals_ok q d" and "create_analyst_approval q now act target reason risk d = (r, d')"
  shows "approvals_ok q d' \<and> (case r of Inl _ \<Rightarrow> approval_status d' = approval_status d
    | Inr i \<Rightarrow> approval_status d i = None \<and> approval_status d' = (approval_status d)(i \<mapsto> ''pending''))"
  using session_cases [OF assms(2) [unfolded create_analyst_approval_def]] assms(1)
  by (auto simp: approvals_ok_def approval_status_def Let_def fresh_id table_map_append table_map_None PENDING_def)

lemma update_approval_law:
  assumes "approvals_ok q d" and "update_approval_status q now i st who d = (r, d')"
  shows "approvals_ok q d' \<and> (case r of Inl _ \<Rightarrow> approval_status d' = approval_status d
    | Inr found \<Rightarrow> (found \<longleftrightarrow> approval_status d i \<noteq> None)
        \<and> approval_status d' = (if found then (approval_status d)(i \<mapsto> st) else approval_status d))"
proof -
  let ?up = "\<lambda>r. r\<lparr>ap_status := st, ap_resolved_by := Some who, ap_resolved_at := Some now\<rparr>"
  have "map ap_id (map (\<lambda>r. if ap_id r = i then ?up r else r) xs) = map ap_id xs" for xs :: "analyst_approval list"
    by (induction xs) auto
  then show ?thesis
    using session_cases [OF assms(2) [unfolded update_approval_status_def]] assms(1)
    by (auto simp: approvals_ok_def approval_status_def table_map_None table_map_update simp del: map_map
        split: if_splits)
qed

lemma pending_law:
  assumes "approvals_ok q d" and "get_pending_approvals q d = (r, d')"
  shows "approvals_ok q d' \<and> approval_status d' = approval_status d
    \<and> (\<forall>rs. r = Inr rs \<longrightarrow> distinct (map ap_id rs)
         \<and> set (map ap_id rs) = {i. approval_status d i = Some ''pending''})"
proof -
  let ?p = "filter (\<lambda>r. ap_status r = PENDING) (t_approvals d)"
  let ?rs = "sort_key (\<lambda>r. - ap_risk r) (sq_approvals q ?p)"
  have m: "mset ?rs = mset ?p" using assms(1) by (simp add: approvals_ok_def sql_ok_def)
  have "distinct (map ap_id ?p)" using assms(1) by (simp add: approvals_ok_def distinct_map inj_on_def)
  then have "distinct (map ap_id ?rs)"
    using m by (metis mset_eq_imp_distinct_iff mset_map)
  moreover have "set (map ap_id ?rs) = {i. approval_status d i = Some ''pending''}"
  proof -
    have "set ?rs = set ?p" using m by (rule mset_eq_setD)
    then have "set (map ap_id ?rs) = ap_id ` set ?p" by (simp only: set_map)
    also have "\<dots> = {i. approval_status d i = Some ''pending''}"
      using assms(1) by (auto simp: approval_status_def table_map_Some approvals_ok_def PENDING_def)
    finally show ?thesis .
  qed
  ultimately show ?thesis
    using session_cases [OF assms(2) [unfolded get_pending_approvals_def]] assms(1)
    by (auto simp del: set_map set_sort)
qed

interpretation approvals_repo: approval_repository "create_analyst_approval q" "update_approval_status q"
    "get_pending_approvals q" ap_id approval_status "approvals_ok q" for q
proof unfold_locales
qed (rule create_approval_law update_approval_law pending_law; assumption)+

section \<open>Sequences of blocked-port operations\<close>

datatype blocked_op = BlockOp time int string string | UnblockOp int | ClearOp

fun blocked_step :: "sql \<Rightarrow> blocked_op \<Rightarrow> db \<Rightarrow> bool \<times> db" where
  "blocked_step q (BlockOp now p btype reason) d =
     (case add_blocked_port q now p btype reason d of (Inl _, d') \<Rightarrow> (False, d') | (Inr _, d') \<Rightarrow> (True, d'))"
| "blocked_step q (UnblockOp p) d =
     (case remove_blocked_port q p d of (Inl _, d') \<Rightarrow> (False, d') | (Inr _, d') \<Rightarrow> (True, d'))"
| "blocked_step q ClearOp d =
     (case clear_blocked_ports q d of (Inl _, d') \<Rightarrow> (False, d') | (Inr _, d') \<Rightarrow> (True, d'))"

text \<open>The abstract effect: an update of a map. \<open>run_blocked\<close> applies it for the calls that succeed.\<close>

type_synonym block_map = "int \<Rightarrow> (string \<times> time \<times> string) option"

fun blocked_effect :: "blocked_op \<Rightarrow> block_map \<Rightarrow> block_map" where
  "blocked_effect (BlockOp now p btype reason) m = m(p \<mapsto> (btype, now, reason))"
| "blocked_effect (UnblockOp p) m = m(p := None)"
| "blocked_effect ClearOp m = Map.empty"

fun run_blocked :: "sql \<Rightarrow> blocked_op list \<Rightarrow> db \<Rightarrow> block_map \<Rightarrow> db \<times> block_map" where
  "run_blocked q [] d m = (d, m)"
| "run_blocked q (x # xs) d m =
     (case blocked_step q x d of (ok, d') \<Rightarrow> run_blocked q xs d' (if ok then blocked_effect x m else m))"

lemma clear_blocked_law:
  assumes "blocked_ok d" and "clear_blocked_ports q d = (r, d')"
  shows "blocked_ok d' \<and> blocked_view d' = (case r of Inr _ \<Rightarrow> Map.empty | Inl _ \<Rightarrow> blocked_view d)"
  using session_cases [OF assms(2) [unfolded clear_blocked_ports_def]] assms(1)
  by (auto simp: blocked_ok_def blocked_view_def table_map_def)

lemma blocked_step_law:
  assumes ok: "blocked_ok d" and "blocked_step q x d = (b, d')"
  shows "blocked_ok d' \<and> blocked_view d' = (if b then blocked_effect x (blocked_view d) else blocked_view d)"
proof (cases x)
  case (BlockOp now p btype reason)
  obtain r d1 where "add_blocked_port q now p btype reason d = (r, d1)" by fastforce
  with assms(2) BlockOp ports_repo.add_law [OF ok this] show ?thesis by (auto split: sum.splits)
next
  case (UnblockOp p)
  obtain r d1 where "remove_blocked_port q p d = (r, d1)" by fastforce
  with assms(2) UnblockOp ports_repo.remove_law [OF ok this] show ?thesis by (auto split: sum.splits)
next
  case ClearOp
  obtain r d1 where "clear_blocked_ports q d = (r, d1)" by fastforce
  with assms(2) ClearOp clear_blocked_law [OF ok this] show ?thesis by (auto split: sum.splits)
qed

lemma run_blocked_law:
  "blocked_ok d \<Longrightarrow> m = blocked_view d \<Longrightarrow> run_blocked q xs d m = (d', m') \<Longrightarrow>
     blocked_ok d' \<and> blocked_view d' = m'"
proof (induction xs arbitrary: d m)
  case (Cons x xs)
  obtain b d1 where st: "blocked_step q x d = (b, d1)" by fastforce
  from blocked_step_law [OF Cons.prems(1) st] Cons.prems(2) have "blocked_ok d1"
    and "(if b then blocked_effect x m else m) = blocked_view d1" by auto
  from Cons.IH [OF this] Cons.prems(3) st show ?case by simp
qed simp

section \<open>Traffic\<close>

lemma prune_rows: "prune_old_traffic q now age d = (Inr n, d') \<Longrightarrow>
    t_traffic d' = filter (\<lambda>r. traffic_cutoff now age \<le> th_time r) (t_traffic d)
    \<and> n + length (t_traffic d') = length (t_traffic d)"
  using sum_length_filter_compl [of "\<lambda>r. th_time r < traffic_cutoff now age" "t_traffic d"]
  by (auto simp: session_def prune_old_traffic_def Let_def not_less split: option.splits)

lemma history_rows: "get_traffic_history q now port hours d = (Inr rs, d') \<Longrightarrow>
    rs = sort_key th_time (sq_traffic q
      (filter (\<lambda>r. th_port r = port \<and> traffic_cutoff now hours \<le> th_time r) (t_traffic d)))"
  by (auto simp: session_def get_traffic_history_def Let_def split: option.splits)

lemma traffic_cutoff_mono: "now \<le> now' \<Longrightarrow> hours \<le> age \<Longrightarrow> traffic_cutoff now age \<le> traffic_cutoff now' hours"
proof -
  assume "now \<le> now'" and "hours \<le> age"
  moreover from this have "(of_int (hours * 3600) :: rat) \<le> of_int (age * 3600)"
    by (simp only: of_int_le_iff)
  ultimately show ?thesis unfolding traffic_cutoff_def by linarith
qed

lemma foldl_max: "foldl max a xs = Max (insert a (set xs))" for a :: int
proof -
  have "(\<lambda>x s :: int. max s x) = max" by (intro ext) (rule max.commute)
  then show ?thesis using Max.set_eq_fold [of a xs] by (simp add: foldl_conv_fold)
qed

lemma talker_group:
  assumes "(app, kb, risk) \<in> set (talker_groups rs)"
  shows "kb = (\<Sum>r\<leftarrow>filter (\<lambda>r. th_app r = app) rs. th_in r + th_out r)
    \<and> risk = Max (th_risk ` {r \<in> set rs. th_app r = app}) \<and> app \<in> th_app ` set rs"
proof -
  let ?g = "filter (\<lambda>r. th_app r = app) rs"
  from assms have app: "app \<in> th_app ` set rs" and kb: "kb = (\<Sum>r\<leftarrow>?g. th_in r + th_out r)"
    and risk: "risk = foldl max (th_risk (hd ?g)) (map th_risk ?g)"
    by (auto simp: talker_groups_def Let_def)
  from app have "?g \<noteq> []" by (auto simp: filter_empty_conv)
  then have "th_risk (hd ?g) \<in> th_risk ` set ?g" by (intro imageI) (rule hd_in_set)
  then have "risk = Max (th_risk ` set ?g)" unfolding risk foldl_max by (simp add: insert_absorb del: set_filter)
  moreover have "set ?g = {r \<in> set rs. th_app r = app}" by simp
  ultimately show ?thesis using app kb by (simp only: simp_thms)
qed

lemma talker_apps: "map fst (talker_groups rs) = remdups (map th_app rs)"
  by (simp add: talker_groups_def comp_def Let_def)

lemma take_sorted_max:
  assumes "sorted (map f xs)" and "x \<in> set (take n xs)" and "y \<in> set xs" and "y \<notin> set (take n xs)"
  shows "f x \<le> f y"
proof -
  have "y \<in> set (drop n xs)" using assms(3,4) by (metis append_take_drop_id in_set_conv_decomp set_append Un_iff)
  moreover have "sorted (map f (take n xs @ drop n xs))" using assms(1) by simp
  ultimately show ?thesis using assms(2) unfolding map_append sorted_append by auto
qed

lemma talkers_query:
  assumes "sql_ok q" and "get_top_talkers q now hours limit d = (Inr ts, d')"
  shows "\<exists>g. mset g = mset (talker_groups (filter (\<lambda>r. traffic_cutoff now hours \<le> th_time r) (t_traffic d)))
    \<and> sorted (map (\<lambda>x. - fst (snd x)) g) \<and> ts = take limit g"
proof -
  let ?rows = "filter (\<lambda>r. traffic_cutoff now hours \<le> th_time r) (t_traffic d)"
  let ?g = "sort_key (\<lambda>x. - fst (snd x)) (sq_groups q (talker_groups ?rows))"
  have key: "(\<lambda>(app, kb, risk). - kb) = (\<lambda>x :: string \<times> rat \<times> int. - fst (snd x))"
    by (rule ext) (simp add: case_prod_beta)
  have "ts = take limit ?g"
    using assms(2) by (auto simp: get_top_talkers_def session_def Let_def key split: option.splits)
  moreover have "mset ?g = mset (talker_groups ?rows)"
    using assms(1) by (simp add: sql_ok_def)
  moreover have "sorted (map (\<lambda>x. - fst (snd x)) ?g)" by (rule sorted_sort_key)
  ultimately show ?thesis by blast
qed

section \<open>Preferences\<close>

definition prefs_view :: "db \<Rightarrow> string \<Rightarrow> string option" where
  "prefs_view d = table_map up_key up_value (t_prefs d)"

definition prefs_ok :: "db \<Rightarrow> bool" where
  "prefs_ok d \<longleftrightarrow> distinct (map up_key (t_prefs d))"

lemma set_preferences_law:
  "prefs_ok d \<Longrightarrow> set_preferences q xs d = (Inr (), d') \<Longrightarrow>
     prefs_ok d' \<and> prefs_view d' = prefs_view d ++ map_of (rev xs)"
proof (induction q xs d rule: set_preferences.induct)
  case (2 q k v xs d)
  obtain r d1 where s: "set_user_preference q k v d = (r, d1)" by fastforce
  with 2(3) have r: "r = Inr ()" and rest: "set_preferences q xs d1 = (Inr (), d')"
    by (auto split: sum.splits)
  have "prefs_ok d1 \<and> prefs_view d1 = (prefs_view d)(k \<mapsto> v)"
    using session_cases [OF s [unfolded set_user_preference_def]] 2(2) r
    by (auto simp: prefs_ok_def prefs_view_def upsert_distinct table_map_upsert)
  with 2(1) [OF s [unfolded r, symmetric] refl _ rest] show ?case by (simp add: map_add_def fun_eq_iff split: option.splits)
qed simp

lemma fold_prefs: "fold (\<lambda>r m. dset m (up_key r) (up_value r)) rs m0 = m \<Longrightarrow> dict_ok m0 \<Longrightarrow> distinct (map up_key rs) \<Longrightarrow>
    dict_ok m \<and> dget m = dget m0 ++ table_map up_key up_value rs"
proof (induction rs arbitrary: m0)
  case (Cons r rs)
  then have new: "up_key r \<notin> up_key ` set rs" by auto
  from Cons.IH [of "dset m0 (up_key r) (up_value r)"] Cons.prems
  have "dict_ok m \<and> dget m = dget (dset m0 (up_key r) (up_value r)) ++ table_map up_key up_value rs" by simp
  moreover have "table_map up_key up_value rs (up_key r) = None"
    using new by (simp add: table_map_None)
  then have "table_map up_key up_value (r # rs) = [up_key r \<mapsto> up_value r] ++ table_map up_key up_value rs"
    by (auto simp: table_map_def fun_eq_iff map_add_def split: option.splits)
  ultimately show ?case by (simp add: update_conv' fun_eq_iff map_add_def split: option.splits)
qed (simp add: table_map_def)

section \<open>Properties\<close>

definition plain_sql :: sql where
  "plain_sql = \<lparr>sq_fault = (\<lambda>_. None), sq_next = (\<lambda>ids. foldr max ids 0 + 1), sq_traffic = (\<lambda>xs. xs),
     sq_audit = (\<lambda>xs. xs), sq_approvals = (\<lambda>xs. xs), sq_prefs = (\<lambda>xs. xs), sq_groups = (\<lambda>xs. xs)\<rparr>"

lemma plain_sql_ok: "sql_ok plain_sql"
proof -
  have "i \<in> set ids \<Longrightarrow> i \<le> foldr max ids 0" for i :: int and ids by (induction ids) auto
  then show ?thesis by (force simp: sql_ok_def plain_sql_def)
qed

text \<open>
  C20: the blocked-port table refines a finite map. After any sequence of blocks, unblocks and
  clears on a new database, any of which may fail at any point, the listing has one row per port
  in increasing port order and its rows are exactly the map one gets by applying the successful
  operations to the empty map: a second block of a port replaces the first.
\<close>

theorem blocked_ports_refine_map:
  assumes "run_blocked q ops empty_db Map.empty = (d, m)" and "get_blocked_ports q d = (Inr rs, d')"
  shows "sorted_wrt (\<lambda>x y. bp_port x < bp_port y) rs \<and> map_of (map bp_row rs) = m"
proof -
  have "blocked_ok empty_db" and "Map.empty = blocked_view empty_db"
    by (simp_all add: blocked_ok_def blocked_view_def empty_db_def table_map_def fun_eq_iff)
  from run_blocked_law [OF this assms(1)] have "blocked_ok d" "blocked_view d = m" by auto
  with ports_repo.listing_law [OF _ assms(2)] show ?thesis by (auto simp: bp_row_def)
qed

theorem blocked_ports_refine_map_witness:
  "case get_blocked_ports plain_sql (fst (run_blocked plain_sql
       [BlockOp 1 443 ''hard'' ''a'', BlockOp 2 80 ''hard'' ''b'', BlockOp 3 443 ''soft'' ''c''] empty_db Map.empty)) of
     (Inr rs, _) \<Rightarrow> map_of (map bp_row rs) 443 = Some (''soft'', 3, ''c'') | _ \<Rightarrow> False"
proof -
  obtain d m where run: "run_blocked plain_sql [BlockOp 1 443 ''hard'' ''a'', BlockOp 2 80 ''hard'' ''b'',
      BlockOp 3 443 ''soft'' ''c''] empty_db Map.empty = (d, m)" by fastforce
  then have m: "m 443 = Some (''soft'', 3, ''c'')"
    by (auto simp: add_blocked_port_def session_def plain_sql_def empty_db_def Let_def)
  obtain rs d' where "get_blocked_ports plain_sql d = (Inr rs, d')"
    by (simp add: get_blocked_ports_def session_def plain_sql_def Let_def)
  with blocked_ports_refine_map [OF run this] m run show ?thesis by simp
qed

text \<open>
  The life of an approval. Creating one returns an identifier no approval had, and it is
  listed as pending; resolving it takes exactly it off the pending list; the status of every
  other approval stays what it was.
\<close>

theorem approval_lifecycle:
  assumes "approvals_ok q d" and "create_analyst_approval q now act target reason risk d = (Inr i, d1)"
    and "update_approval_status q now' i st who d1 = (Inr ok, d2)" and "st \<noteq> ''pending''"
    and "get_pending_approvals q d2 = (Inr rs, d3)"
  shows "approval_status d i = None \<and> ok
    \<and> approval_status d2 = (approval_status d)(i \<mapsto> st)
    \<and> set (map ap_id rs) = {j. approval_status d j = Some ''pending''}"
proof -
  from approvals_repo.create_law [OF assms(1,2)] have c: "approvals_ok q d1" "approval_status d i = None"
    "approval_status d1 = (approval_status d)(i \<mapsto> ''pending'')" by auto
  from approvals_repo.update_law [OF c(1) assms(3)] c have ok: "ok"
    and st: "approval_status d2 = (approval_status d)(i \<mapsto> st)" by auto
  from approvals_repo.resolved_not_pending [OF c(1) assms(3) [unfolded eqTrueI [OF ok]] assms(4,5)] c ok
  have "set (map ap_id rs) = {j. approval_status d j = Some ''pending''}" by auto
  with c(2) ok st show ?thesis by simp
qed

theorem approval_lifecycle_witness:
  "case create_analyst_approval plain_sql 1 ''suspend_process'' ''42'' ''r'' 0 empty_db of
     (Inr i, d1) \<Rightarrow> (case update_approval_status plain_sql 2 i ''approved'' ''system'' d1 of
        (Inr ok, d2) \<Rightarrow> ok \<and> approval_status d2 i = Some ''approved'' | _ \<Rightarrow> False) | _ \<Rightarrow> False"
proof -
  have ok: "approvals_ok plain_sql empty_db" by (simp add: approvals_ok_def plain_sql_ok empty_db_def)
  obtain i d1 where c: "create_analyst_approval plain_sql 1 ''suspend_process'' ''42'' ''r'' 0 empty_db = (Inr i, d1)"
    by (simp add: create_analyst_approval_def session_def plain_sql_def Let_def)
  obtain b d2 where u: "update_approval_status plain_sql 2 i ''approved'' ''system'' d1 = (Inr b, d2)"
    by (cases "i \<in> ap_id ` set (t_approvals d1)")
       (simp_all add: update_approval_status_def session_def plain_sql_def Let_def)
  obtain rs d3 where p: "get_pending_approvals plain_sql d2 = (Inr rs, d3)"
    by (simp add: get_pending_approvals_def session_def plain_sql_def Let_def)
  from approval_lifecycle [OF ok c u _ p] show ?thesis using c u by simp
qed

text \<open>
  A resolved approval can be resolved again. The update asks only whether the identifier
  exists, not whether the approval is still pending, so a rejected request can be turned into an
  approved one, and the first resolver's name is overwritten.
\<close>

theorem resolved_approval_can_be_flipped:
  assumes "approvals_ok q d" and "update_approval_status q t1 i st1 who1 d = (Inr True, d1)"
    and "update_approval_status q t2 i st2 who2 d1 = (Inr ok, d2)"
  shows "ok \<and> approval_status d1 i = Some st1 \<and> approval_status d2 i = Some st2"
proof -
  have d1: "approvals_ok q d1" "approval_status d1 = (approval_status d)(i \<mapsto> st1)"
    using approvals_repo.update_law [OF assms(1,2)] by auto
  with approvals_repo.update_law [OF d1(1) assms(3)] show ?thesis by auto
qed

definition one_approval :: db where
  "one_approval = empty_db\<lparr>t_approvals := [\<lparr>ap_id = 1, ap_created = 0, ap_action = [], ap_target = ''7'', ap_reason = [],
     ap_status = ''pending'', ap_risk = 0, ap_resolved_at = None, ap_resolved_by = None\<rparr>]\<rparr>"

theorem resolved_approval_can_be_flipped_witness:
  "case update_approval_status plain_sql 1 1 ''rejected'' ''a'' one_approval of
     (Inr _, d1) \<Rightarrow> (case update_approval_status plain_sql 2 1 ''approved'' ''b'' d1 of
        (Inr _, d2) \<Rightarrow> approval_status d1 1 = Some ''rejected'' \<and> approval_status d2 1 = Some ''approved'' | _ \<Rightarrow> False)
   | _ \<Rightarrow> False"
proof -
  have ok: "approvals_ok plain_sql one_approval" by (simp add: approvals_ok_def plain_sql_ok one_approval_def)
  obtain d1 where u: "update_approval_status plain_sql 1 1 ''rejected'' ''a'' one_approval = (Inr True, d1)"
    by (simp add: update_approval_status_def session_def plain_sql_def one_approval_def empty_db_def Let_def)
  obtain b d2 where v: "update_approval_status plain_sql 2 1 ''approved'' ''b'' d1 = (Inr b, d2)"
    by (cases "1 \<in> ap_id ` set (t_approvals d1)")
       (simp_all add: update_approval_status_def session_def plain_sql_def Let_def)
  from resolved_approval_can_be_flipped [OF ok u v] show ?thesis using u v by simp
qed

text \<open>
  Retention. A pruning run reports exactly how many rows it deleted, and it never loses
  data a history query inside the retention period can see: a later query for at most that many
  hours returns exactly the rows of the unpruned table in its window, in time order.
\<close>

theorem prune_keeps_recent_history:
  assumes "sql_ok q" and "prune_old_traffic q now age d = (Inr n, d1)" and "now \<le> now'" and "hours \<le> age"
    and "get_traffic_history q now' port hours d1 = (Inr rs, d2)"
  shows "n = length (t_traffic d) - length (t_traffic d1) \<and> sorted (map th_time rs)
    \<and> mset rs = mset (filter (\<lambda>r. th_port r = port \<and> traffic_cutoff now' hours \<le> th_time r) (t_traffic d))"
proof -
  from prune_rows [OF assms(2)] have n: "n + length (t_traffic d1) = length (t_traffic d)"
    and d1: "t_traffic d1 = filter (\<lambda>r. traffic_cutoff now age \<le> th_time r) (t_traffic d)" by auto
  have "filter (\<lambda>r. th_port r = port \<and> traffic_cutoff now' hours \<le> th_time r) (t_traffic d1)
      = filter (\<lambda>r. th_port r = port \<and> traffic_cutoff now' hours \<le> th_time r) (t_traffic d)"
    using traffic_cutoff_mono [OF assms(3,4)] unfolding d1 filter_filter
    by (intro filter_cong) auto
  with history_rows [OF assms(5)] assms(1) n show ?thesis by (simp add: sql_ok_def)
qed

definition two_rows :: db where
  "two_rows = empty_db\<lparr>t_traffic :=
     [traffic_of 200000 1 \<lparr>tr_time = Some 199000, tr_port = Some 80, tr_pid = None, tr_app = Some ''nginx'', tr_in = Some 2,
        tr_out = Some 1, tr_protocol = None, tr_direction = None, tr_risk = Some 3\<rparr>,
      traffic_of 200000 2 \<lparr>tr_time = Some 100, tr_port = Some 80, tr_pid = None, tr_app = Some ''nginx'', tr_in = Some 5,
        tr_out = Some 5, tr_protocol = None, tr_direction = None, tr_risk = Some 9\<rparr>]\<rparr>"

theorem prune_keeps_recent_history_witness:
  "\<exists>d1. prune_old_traffic plain_sql 200000 24 two_rows = (Inr 1, d1)
     \<and> (\<exists>rs d2. get_traffic_history plain_sql 200000 80 24 d1 = (Inr rs, d2) \<and> size (mset rs) = 1)"
proof -
  obtain d1 where p: "prune_old_traffic plain_sql 200000 24 two_rows = (Inr 1, d1)"
    by (simp add: prune_old_traffic_def session_def plain_sql_def two_rows_def traffic_of_def opt_def
        traffic_cutoff_def Let_def)
  obtain rs d2 where h: "get_traffic_history plain_sql 200000 80 24 d1 = (Inr rs, d2)"
    by (simp add: get_traffic_history_def session_def plain_sql_def Let_def)
  have "mset rs = mset (filter (\<lambda>r. th_port r = 80 \<and> traffic_cutoff 200000 24 \<le> th_time r) (t_traffic two_rows))"
    using prune_keeps_recent_history [OF plain_sql_ok p _ _ h] by simp
  then have "size (mset rs) = 1"
    by (simp add: two_rows_def traffic_of_def opt_def traffic_cutoff_def)
  with p h show ?thesis by blast
qed



text \<open>
  Credentials stay out of the log. What \<open>connect\<close> logs of a database address depends only
  on the text after its last at sign, so two addresses that differ in their credentials are
  logged alike, even when the password itself contains at signs.
\<close>

theorem logged_url_hides_credentials:
  assumes "CHR ''@'' \<notin> set host"
  shows "safe_url (credentials @ ''@'' @ host) = ''***@'' @ host
    \<and> safe_url (credentials' @ ''@'' @ host) = safe_url (credentials @ ''@'' @ host)"
  using assms by (simp add: safe_url_def split_on_last)

theorem logged_url_hides_credentials_witness:
  "safe_url ''postgresql://admin:p@ss@db.local/vigilant'' = ''***@db.local/vigilant''"
  using logged_url_hides_credentials [of "''db.local/vigilant''" "''postgresql://admin:p@ss''"] by simp

text \<open>
  Preferences round trip. After \<open>set_preferences\<close> has stored a dictionary, reading the
  preferences gives every stored value back and leaves the preferences it did not mention as
  they were.
\<close>

theorem preferences_roundtrip:
  assumes "sql_ok q" and "prefs_ok d" and "set_preferences q kvs d = (Inr (), d1)"
    and "get_user_preferences q d1 = (Inr m, d2)"
  shows "dict_ok m \<and> dget m = prefs_view d ++ map_of (rev kvs)"
proof -
  from set_preferences_law [OF assms(2,3)] have d1: "prefs_ok d1" "prefs_view d1 = prefs_view d ++ map_of (rev kvs)" by auto
  let ?rs = "sq_prefs q (t_prefs d1)"
  have mset: "mset ?rs = mset (t_prefs d1)" using assms(1) by (simp add: sql_ok_def)
  then have "distinct (map up_key ?rs)"
    using d1(1) unfolding prefs_ok_def by (metis mset_eq_imp_distinct_iff mset_map)
  moreover have "m = fold (\<lambda>r m. dset m (up_key r) (up_value r)) ?rs []"
    using assms(4) by (auto simp: get_user_preferences_def session_def Let_def split: option.splits)
  ultimately have "dict_ok m \<and> dget m = table_map up_key up_value ?rs"
    using fold_prefs [of ?rs "[]" m] by simp
  moreover have "table_map up_key up_value ?rs = prefs_view d1"
    unfolding prefs_view_def using mset d1(1) by (intro table_map_same_rows) (simp_all add: prefs_ok_def)
  ultimately show ?thesis using d1(2) by simp
qed

theorem preferences_roundtrip_witness:
  "\<exists>d1 m d2. set_preferences plain_sql [(''theme'', ''dark'')] empty_db = (Inr (), d1)
     \<and> get_user_preferences plain_sql d1 = (Inr m, d2) \<and> dget m ''theme'' = Some ''dark''"
proof -
  obtain d1 where s: "set_preferences plain_sql [(''theme'', ''dark'')] empty_db = (Inr (), d1)"
    by (simp add: set_user_preference_def session_def plain_sql_def Let_def)
  obtain m d2 where g: "get_user_preferences plain_sql d1 = (Inr m, d2)"
    by (simp add: get_user_preferences_def session_def plain_sql_def Let_def)
  have "prefs_ok empty_db" by (simp add: prefs_ok_def empty_db_def)
  from preferences_roundtrip [OF plain_sql_ok this s g] s g show ?thesis by auto
qed

end
