(* ===== verification/Repository.thy ===== *)
theory Repository
  imports Database
begin

text \<open>
  The repository \<open>infrastructure/database/repository.py\<close>: the object the container hands to the
  commands, queries and jobs, which passes every call to the database adapter. Its role is to meet
  the contracts of \<open>domain/interfaces/repositories.py\<close>; the ones for histories, settings and
  audit logs are stated here as locales, and all of them are discharged for the repository's own
  operations. \<open>None\<close> stands for an argument left to its default.
\<close>

section \<open>Operations\<close>

definition repo_add_blocked_port ::
  "sql \<Rightarrow> time \<Rightarrow> int \<Rightarrow> string option \<Rightarrow> string option \<Rightarrow> db \<Rightarrow> unit result \<times> db" where
  "repo_add_blocked_port q now port btype reason = add_blocked_port q now port (opt ''hard'' btype) (opt [] reason)"

definition repo_remove_blocked_port :: "sql \<Rightarrow> int \<Rightarrow> db \<Rightarrow> unit result \<times> db" where
  "repo_remove_blocked_port q port = remove_blocked_port q port"

definition repo_get_blocked_ports :: "sql \<Rightarrow> db \<Rightarrow> blocked_port list result \<times> db" where
  "repo_get_blocked_ports q = get_blocked_ports q"

definition repo_clear_blocked_ports :: "sql \<Rightarrow> db \<Rightarrow> nat result \<times> db" where
  "repo_clear_blocked_ports q = clear_blocked_ports q"

definition repo_insert_traffic :: "sql \<Rightarrow> time \<Rightarrow> traffic_record list \<Rightarrow> db \<Rightarrow> unit result \<times> db" where
  "repo_insert_traffic q now rs = insert_traffic q now rs"

definition repo_get_traffic_history :: "sql \<Rightarrow> time \<Rightarrow> int \<Rightarrow> int option \<Rightarrow> db \<Rightarrow> traffic_history list result \<times> db" where
  "repo_get_traffic_history q now port hours = get_traffic_history q now port (opt 24 hours)"

definition repo_prune_old_traffic :: "sql \<Rightarrow> time \<Rightarrow> int option \<Rightarrow> db \<Rightarrow> nat result \<times> db" where
  "repo_prune_old_traffic q now age = prune_old_traffic q now (opt 24 age)"

definition repo_get_top_talkers ::
  "sql \<Rightarrow> time \<Rightarrow> int option \<Rightarrow> nat option \<Rightarrow> db \<Rightarrow> (string \<times> rat \<times> int) list result \<times> db" where
  "repo_get_top_talkers q now hours limit = get_top_talkers q now (opt 24 hours) (opt 10 limit)"

definition repo_get_global_traffic_stats :: "sql \<Rightarrow> time \<Rightarrow> int option \<Rightarrow> db \<Rightarrow> (rat \<times> rat) result \<times> db" where
  "repo_get_global_traffic_stats q now hours = get_global_traffic_stats q now (opt 24 hours)"

text \<open>The optional arguments of the audit log, in the order of the signature.\<close>

definition repo_insert_audit_log ::
  "sql \<Rightarrow> time \<Rightarrow> string \<Rightarrow> string \<Rightarrow> string option \<Rightarrow> int option \<Rightarrow> int option \<Rightarrow> string option \<Rightarrow> string option
     \<Rightarrow> db \<Rightarrow> unit result \<times> db" where
  "repo_insert_audit_log q now event_type msg app port pid severity details = insert_audit_log q now
     \<lparr>ae_event_type = event_type, ae_message = msg, ae_app = app, ae_port = port, ae_pid = pid,
      ae_severity = opt ''info'' severity, ae_details = details\<rparr>"

definition repo_get_audit_logs :: "sql \<Rightarrow> nat option \<Rightarrow> db \<Rightarrow> audit_log list result \<times> db" where
  "repo_get_audit_logs q limit = get_audit_logs q (opt 100 limit)"

definition repo_create_analyst_approval ::
  "sql \<Rightarrow> time \<Rightarrow> string \<Rightarrow> string \<Rightarrow> string \<Rightarrow> int option \<Rightarrow> db \<Rightarrow> int result \<times> db" where
  "repo_create_analyst_approval q now action target reason risk =
     create_analyst_approval q now action target reason (opt 0 risk)"

definition repo_update_approval_status :: "sql \<Rightarrow> time \<Rightarrow> int \<Rightarrow> string \<Rightarrow> string \<Rightarrow> db \<Rightarrow> bool result \<times> db" where
  "repo_update_approval_status q now i status who = update_approval_status q now i status who"

definition repo_get_pending_approvals :: "sql \<Rightarrow> db \<Rightarrow> analyst_approval list result \<times> db" where
  "repo_get_pending_approvals q = get_pending_approvals q"

definition repo_set_config :: "sql \<Rightarrow> time \<Rightarrow> string \<Rightarrow> string \<Rightarrow> db \<Rightarrow> unit result \<times> db" where
  "repo_set_config q now key v = set_config q now key v"

definition repo_get_config :: "sql \<Rightarrow> string \<Rightarrow> string option \<Rightarrow> db \<Rightarrow> string option result \<times> db" where
  "repo_get_config q key dflt = get_config q key dflt"

definition repo_set_user_preference :: "sql \<Rightarrow> string \<Rightarrow> string \<Rightarrow> db \<Rightarrow> unit result \<times> db" where
  "repo_set_user_preference q key v = set_user_preference q key v"

definition repo_get_user_preferences :: "sql \<Rightarrow> db \<Rightarrow> (string, string) dict result \<times> db" where
  "repo_get_user_preferences q = get_user_preferences q"

definition repo_save_dashboard_layout ::
  "sql \<Rightarrow> time \<Rightarrow> int \<Rightarrow> string \<Rightarrow> string option \<Rightarrow> db \<Rightarrow> unit result \<times> db" where
  "repo_save_dashboard_layout q now user layout name = save_dashboard_layout q now user layout (opt ''default'' name)"

definition repo_get_dashboard_layout :: "sql \<Rightarrow> string option \<Rightarrow> db \<Rightarrow> string option result \<times> db" where
  "repo_get_dashboard_layout q name = get_dashboard_layout q (opt ''default'' name)"

text \<open>\<open>SQLiteDB\<close> has no attribute \<open>session_factory\<close>, so reading the property raises.\<close>

definition repo_session_factory :: "db \<Rightarrow> unit result" where
  "repo_session_factory d = Inl AttributeError"

lemmas repo_simps = repo_add_blocked_port_def repo_remove_blocked_port_def repo_get_blocked_ports_def
  repo_insert_traffic_def repo_get_traffic_history_def repo_prune_old_traffic_def repo_set_config_def
  repo_get_config_def repo_insert_audit_log_def repo_get_audit_logs_def repo_create_analyst_approval_def
  repo_update_approval_status_def repo_get_pending_approvals_def

section \<open>IHistoryRepository\<close>

lemma filter_mset_later: "a \<le> c \<Longrightarrow>
    filter_mset (\<lambda>x. c \<le> f x) (filter_mset (\<lambda>x. a \<le> f x) M) = filter_mset (\<lambda>x. c \<le> f x) M" for c :: "'a :: linorder"
  unfolding filter_filter_mset by (rule filter_mset_cong) auto

text \<open>What the application does to a history over time.\<close>

datatype 'r history_op = InsertOp time "'r list" | PruneOp time "int option"

text \<open>
  A run of insertions and prunings, each of which may fail, next to the samples of the insertions
  that succeeded.
\<close>

fun run_history :: "(time \<Rightarrow> 'r list \<Rightarrow> 'd \<Rightarrow> unit result \<times> 'd) \<Rightarrow> (time \<Rightarrow> int option \<Rightarrow> 'd \<Rightarrow> nat result \<times> 'd)
    \<Rightarrow> (time \<Rightarrow> 'r \<Rightarrow> 'x) \<Rightarrow> 'r history_op list \<Rightarrow> 'd \<Rightarrow> 'x multiset \<Rightarrow> 'd \<times> 'x multiset" where
  "run_history ins prune payload [] d m = (d, m)"
| "run_history ins prune payload (InsertOp now rs # ops) d m =
     (case ins now rs d of (r, d') \<Rightarrow>
        run_history ins prune payload ops d' (if r = Inr () then m + image_mset (payload now) (mset rs) else m))"
| "run_history ins prune payload (PruneOp now age # ops) d m =
     run_history ins prune payload ops (snd (prune now age d)) m"

text \<open>
  A history is a multiset of samples, each with a port and a time. A successful insertion adds the
  payload of its records, a query returns the samples of a port in a window in time order, and
  pruning removes exactly the samples before its cut-off.
\<close>

locale history_repository =
  fixes ins :: "time \<Rightarrow> 'r list \<Rightarrow> 'd \<Rightarrow> unit result \<times> 'd"
    and hist :: "time \<Rightarrow> int \<Rightarrow> int option \<Rightarrow> 'd \<Rightarrow> 'h list result \<times> 'd"
    and prune :: "time \<Rightarrow> int option \<Rightarrow> 'd \<Rightarrow> nat result \<times> 'd"
    and payload :: "time \<Rightarrow> 'r \<Rightarrow> 'x"
    and content :: "'h \<Rightarrow> 'x"
    and port_of :: "'x \<Rightarrow> int"
    and time_of :: "'x \<Rightarrow> time"
    and samples :: "'d \<Rightarrow> 'x multiset"
    and hist_inv :: "'d \<Rightarrow> bool"
  assumes ins_law: "hist_inv d \<Longrightarrow> ins now rs d = (r, d') \<Longrightarrow> hist_inv d' \<and>
      samples d' = (if r = Inr () then samples d + image_mset (payload now) (mset rs) else samples d)"
    and hist_law: "hist_inv d \<Longrightarrow> hist now p hours d = (rl, d') \<Longrightarrow> hist_inv d' \<and> samples d' = samples d
      \<and> (\<forall>hs. rl = Inr hs \<longrightarrow> sorted (map (time_of \<circ> content) hs)
           \<and> image_mset content (mset hs) =
               filter_mset (\<lambda>x. port_of x = p \<and> traffic_cutoff now (opt 24 hours) \<le> time_of x) (samples d))"
    and prune_law: "hist_inv d \<Longrightarrow> prune now hours d = (rn, d') \<Longrightarrow> hist_inv d' \<and> (case rn of Inl _ \<Rightarrow> samples d' = samples d
      | Inr n \<Rightarrow> n + size (samples d') = size (samples d)
          \<and> samples d' = filter_mset (\<lambda>x. traffic_cutoff now (opt 24 hours) \<le> time_of x) (samples d))"
begin

text \<open>What was inserted within the window is returned, with what was there before.\<close>

lemma inserted_is_returned:
  assumes "hist_inv d" and "ins now rs d = (Inr (), d1)" and "hist now' p hours d1 = (Inr hs, d2)"
  shows "image_mset content (mset hs) =
    filter_mset (\<lambda>x. port_of x = p \<and> traffic_cutoff now' (opt 24 hours) \<le> time_of x) (samples d)
    + filter_mset (\<lambda>x. port_of x = p \<and> traffic_cutoff now' (opt 24 hours) \<le> time_of x) (image_mset (payload now) (mset rs))"
proof -
  have d1: "hist_inv d1" "samples d1 = samples d + image_mset (payload now) (mset rs)"
    using ins_law [OF assms(1,2)] by auto
  with hist_law [OF d1(1) assms(3)] show ?thesis by simp
qed

text \<open>Pruning does not change what later queries inside the retention period return.\<close>

lemma prune_is_invisible:
  assumes "hist_inv d" and "prune now age d = (Inr n, d1)" and "now \<le> now'" and "opt 24 hours \<le> opt 24 age"
    and "hist now' p hours d1 = (Inr hs, d2)" and "hist now' p hours d = (Inr hs', d3)"
  shows "image_mset content (mset hs) = image_mset content (mset hs')"
proof -
  have le: "traffic_cutoff now (opt 24 age) \<le> traffic_cutoff now' (opt 24 hours)"
    using assms(3,4) by (rule traffic_cutoff_mono)
  have d1: "hist_inv d1" "samples d1 = filter_mset (\<lambda>x. traffic_cutoff now (opt 24 age) \<le> time_of x) (samples d)"
    using prune_law [OF assms(1,2)] by auto
  from hist_law [OF d1(1) assms(5)] hist_law [OF assms(1,6)] d1(2) le show ?thesis
    by (auto simp: filter_filter_mset intro!: filter_mset_cong)
qed

lemma prune_again:
  assumes "hist_inv d" and "prune now age d = (Inr n, d1)" and "prune now age d1 = (Inr n', d2)"
  shows "n' = 0"
proof -
  have d1: "hist_inv d1" "samples d1 = filter_mset (\<lambda>x. traffic_cutoff now (opt 24 age) \<le> time_of x) (samples d)"
    using prune_law [OF assms(1,2)] by auto
  from prune_law [OF d1(1) assms(3)] d1(2) show ?thesis by (auto simp: filter_filter_mset)
qed

text \<open>As long as no pruning reaches past a time, nothing from that time on is lost.\<close>

lemma run_history_complete:
  "hist_inv d \<Longrightarrow> filter_mset (\<lambda>x. c \<le> time_of x) (samples d) = filter_mset (\<lambda>x. c \<le> time_of x) m \<Longrightarrow>
    \<forall>now age. PruneOp now age \<in> set ops \<longrightarrow> traffic_cutoff now (opt 24 age) \<le> c \<Longrightarrow>
    run_history ins prune payload ops d m = (d', m') \<Longrightarrow>
    hist_inv d' \<and> filter_mset (\<lambda>x. c \<le> time_of x) (samples d') = filter_mset (\<lambda>x. c \<le> time_of x) m'"
proof (induction ops arbitrary: d m)
  case (Cons x ops)
  show ?case
  proof (cases x)
    case (InsertOp now rs)
    obtain r d1 where i: "ins now rs d = (r, d1)" by (cases "ins now rs d")
    let ?m = "if r = Inr () then m + image_mset (payload now) (mset rs) else m"
    from ins_law [OF Cons.prems(1) i] Cons.prems(2) have "hist_inv d1" and
      "filter_mset (\<lambda>x. c \<le> time_of x) (samples d1) = filter_mset (\<lambda>x. c \<le> time_of x) ?m" by auto
    from Cons.IH [OF this] Cons.prems(3,4) i InsertOp show ?thesis by simp
  next
    case (PruneOp now age)
    obtain rn d1 where p: "prune now age d = (rn, d1)" by (cases "prune now age d")
    have le: "traffic_cutoff now (opt 24 age) \<le> c" using Cons.prems(3) PruneOp by simp
    from prune_law [OF Cons.prems(1) p] have d1: "hist_inv d1" and kept: "samples d1 = samples d \<or>
        samples d1 = filter_mset (\<lambda>x. traffic_cutoff now (opt 24 age) \<le> time_of x) (samples d)"
      by (auto split: sum.splits)
    from kept le have "filter_mset (\<lambda>x. c \<le> time_of x) (samples d1) = filter_mset (\<lambda>x. c \<le> time_of x) (samples d)"
      by (auto simp: filter_mset_later)
    from Cons.IH [OF d1 trans [OF this Cons.prems(2)]] Cons.prems(3,4) p PruneOp show ?thesis by simp
  qed
qed simp

end

text \<open>A stored row without its identifier.\<close>

definition row_content :: "traffic_history \<Rightarrow> traffic_history" where
  "row_content h = h\<lparr>th_id := 0\<rparr>"

definition traffic_samples :: "db \<Rightarrow> traffic_history multiset" where
  "traffic_samples d = image_mset row_content (mset (t_traffic d))"

lemma row_content_simps [simp]: "th_time (row_content h) = th_time h" "th_port (row_content h) = th_port h"
  "row_content (traffic_of now i r) = traffic_of now 0 r"
  by (simp_all add: row_content_def traffic_of_def)

lemma add_traffic_mset: "image_mset row_content (mset (add_traffic q now rs t)) =
    image_mset row_content (mset t) + image_mset (traffic_of now 0) (mset rs)"
  by (induction rs arbitrary: t) (simp_all add: ac_simps)

lemma samples_frame [simp]: "traffic_samples (d\<lparr>db_calls := n\<rparr>) = traffic_samples d"
  by (simp add: traffic_samples_def)

lemma samples_insert: "traffic_samples (d\<lparr>t_traffic := add_traffic q now rs (t_traffic d)\<rparr>) =
    traffic_samples d + image_mset (traffic_of now 0) (mset rs)"
  by (simp add: traffic_samples_def add_traffic_mset)

lemma samples_filter: "image_mset row_content (mset (filter (\<lambda>r. P (th_port r) (th_time r)) (t_traffic d))) =
    filter_mset (\<lambda>r. P (th_port r) (th_time r)) (traffic_samples d)"
  by (simp add: traffic_samples_def filter_mset_image_mset)

lemma size_samples: "size (traffic_samples d) = length (t_traffic d)"
  by (simp add: traffic_samples_def)

lemma read_session: "session q (\<lambda>d. (Inr (f d), d)) d = (r, d') \<Longrightarrow>
    d' = d\<lparr>db_calls := Suc (db_calls d)\<rparr> \<and> (\<forall>x. r = Inr x \<longrightarrow> x = f (d\<lparr>db_calls := Suc (db_calls d)\<rparr>))"
  by (auto simp: session_def Let_def split: option.splits)

text \<open>The choices of the SQL engine are fixed for the life of the database.\<close>

lemma history_ins_law:
  assumes "sql_ok q" and ins: "repo_insert_traffic q now rs d = (r, d')"
  shows "sql_ok q \<and> traffic_samples d' =
    (if r = Inr () then traffic_samples d + image_mset (traffic_of now 0) (mset rs) else traffic_samples d)"
proof (cases "rs = []")
  case True
  with ins assms(1) show ?thesis by (auto simp: repo_insert_traffic_def insert_traffic_def)
next
  case False
  then have "session q (\<lambda>d. (Inr (), d\<lparr>t_traffic := add_traffic q now rs (t_traffic d)\<rparr>)) d = (r, d')"
    using ins by (simp add: repo_insert_traffic_def insert_traffic_def)
  from session_cases [OF this] assms(1) show ?thesis
    by (elim disjE exE conjE) (auto simp: traffic_samples_def add_traffic_mset)
qed

lemma history_query_law:
  assumes "sql_ok q" and query: "repo_get_traffic_history q now p hours d = (rl, d')"
  shows "sql_ok q \<and> traffic_samples d' = traffic_samples d
    \<and> (\<forall>hs. rl = Inr hs \<longrightarrow> sorted (map (th_time \<circ> row_content) hs) \<and> image_mset row_content (mset hs) =
        filter_mset (\<lambda>x. th_port x = p \<and> traffic_cutoff now (opt 24 hours) \<le> th_time x) (traffic_samples d))"
proof -
  let ?rows = "filter (\<lambda>r. th_port r = p \<and> traffic_cutoff now (opt 24 hours) \<le> th_time r) (t_traffic d)"
  let ?hs = "sort_key th_time (sq_traffic q ?rows)"
  have "mset ?hs = mset ?rows" using assms(1) by (simp add: sql_ok_def)
  then have rows: "image_mset row_content (mset ?hs) =
      filter_mset (\<lambda>x. th_port x = p \<and> traffic_cutoff now (opt 24 hours) \<le> th_time x) (traffic_samples d)"
    using samples_filter [of "\<lambda>p' time. p' = p \<and> traffic_cutoff now (opt 24 hours) \<le> time" d] by simp
  have sorted: "sorted (map (th_time \<circ> row_content) ?hs)" by (simp add: comp_def)
  have run: "d' = d\<lparr>db_calls := Suc (db_calls d)\<rparr>" "rl = Inr hs \<Longrightarrow> hs = ?hs" for hs
    using read_session [OF query [unfolded repo_get_traffic_history_def get_traffic_history_def]] by simp_all
  show ?thesis
  proof (intro conjI allI impI)
    fix hs
    assume "rl = Inr hs"
    from run(2) [OF this] sorted rows show "sorted (map (th_time \<circ> row_content) hs)"
      and "image_mset row_content (mset hs) =
        filter_mset (\<lambda>x. th_port x = p \<and> traffic_cutoff now (opt 24 hours) \<le> th_time x) (traffic_samples d)"
      by (simp_all only:)
  qed (simp_all add: run(1) assms(1))
qed

lemma history_prune_law:
  assumes "sql_ok q" and prune: "repo_prune_old_traffic q now age d = (rn, d')"
  shows "sql_ok q \<and> (case rn of Inl _ \<Rightarrow> traffic_samples d' = traffic_samples d
    | Inr n \<Rightarrow> n + size (traffic_samples d') = size (traffic_samples d)
        \<and> traffic_samples d' = filter_mset (\<lambda>x. traffic_cutoff now (opt 24 age) \<le> th_time x) (traffic_samples d))"
proof (cases rn)
  case (Inl err)
  with session_cases [OF prune [unfolded repo_prune_old_traffic_def prune_old_traffic_def]] assms(1) show ?thesis
    by (elim disjE exE conjE) (simp_all add: Let_def)
next
  case (Inr n)
  from prune_rows [OF prune [unfolded Inr repo_prune_old_traffic_def]] have
    rows: "t_traffic d' = filter (\<lambda>r. traffic_cutoff now (opt 24 age) \<le> th_time r) (t_traffic d)" and
    n: "n + length (t_traffic d') = length (t_traffic d)" by auto
  have "traffic_samples d' = filter_mset (\<lambda>x. traffic_cutoff now (opt 24 age) \<le> th_time x) (traffic_samples d)"
    using samples_filter [of "\<lambda>_ time. traffic_cutoff now (opt 24 age) \<le> time" d] rows by (simp add: traffic_samples_def)
  with n Inr assms(1) show ?thesis by (simp add: size_samples [symmetric])
qed

interpretation history_repo: history_repository "repo_insert_traffic q" "repo_get_traffic_history q"
    "repo_prune_old_traffic q" "\<lambda>now. traffic_of now 0" row_content th_port th_time traffic_samples "\<lambda>_. sql_ok q" for q
proof unfold_locales
qed (rule history_ins_law history_query_law history_prune_law; assumption)+

section \<open>IConfigRepository\<close>

text \<open>Settings and preferences behave as a map from keys to values.\<close>

locale key_value_store =
  fixes put :: "time \<Rightarrow> string \<Rightarrow> string \<Rightarrow> 'd \<Rightarrow> unit result \<times> 'd"
    and lookup :: "string \<Rightarrow> string option \<Rightarrow> 'd \<Rightarrow> string option result \<times> 'd"
    and entries :: "'d \<Rightarrow> string \<Rightarrow> string option"
    and store_inv :: "'d \<Rightarrow> bool"
  assumes put_law: "store_inv d \<Longrightarrow> put now k v d = (r, d') \<Longrightarrow>
      store_inv d' \<and> entries d' = (if r = Inr () then (entries d)(k \<mapsto> v) else entries d)"
    and lookup_law: "store_inv d \<Longrightarrow> lookup k dflt d = (ro, d') \<Longrightarrow> store_inv d' \<and> entries d' = entries d
      \<and> (\<forall>x. ro = Inr x \<longrightarrow> x = (case entries d k of Some v \<Rightarrow> Some v | None \<Rightarrow> dflt))"
begin

lemma lookup_after_put: "store_inv d \<Longrightarrow> put now k v d = (Inr (), d1) \<Longrightarrow> lookup k' dflt d1 = (Inr x, d2) \<Longrightarrow>
    x = (if k' = k then Some v else case entries d k' of Some u \<Rightarrow> Some u | None \<Rightarrow> dflt)"
  using put_law [of d now k v "Inr ()" d1] lookup_law [of d1 k' dflt "Inr x" d2] by auto

lemma put_overwrites: "store_inv d \<Longrightarrow> put t1 k v d = (Inr (), d1) \<Longrightarrow> put t2 k u d1 = (Inr (), d2) \<Longrightarrow>
    entries d2 = (entries d)(k \<mapsto> u)"
  using put_law [of d t1 k v "Inr ()" d1] put_law [of d1 t2 k u "Inr ()" d2] by simp

end

definition config_view :: "db \<Rightarrow> string \<Rightarrow> string option" where
  "config_view d = table_map cc_key cc_value (t_config d)"

definition config_ok :: "db \<Rightarrow> bool" where
  "config_ok d \<longleftrightarrow> distinct (map cc_key (t_config d))"

lemma config_put_law:
  assumes "config_ok d" and "repo_set_config q now k v d = (r, d')"
  shows "config_ok d' \<and> config_view d' = (if r = Inr () then (config_view d)(k \<mapsto> v) else config_view d)"
  using session_cases [OF assms(2) [unfolded repo_set_config_def set_config_def]] assms(1)
  by (auto simp: config_ok_def config_view_def upsert_distinct table_map_upsert)

lemma config_lookup_law:
  assumes "config_ok d" and "repo_get_config q k dflt d = (r, d')"
  shows "config_ok d' \<and> config_view d' = config_view d
    \<and> (\<forall>x. r = Inr x \<longrightarrow> x = (case config_view d k of Some v \<Rightarrow> Some v | None \<Rightarrow> dflt))"
  using session_cases [OF assms(2) [unfolded repo_get_config_def get_config_def]] assms(1)
  by (auto simp: config_ok_def config_view_def find_table_map [symmetric] split: option.splits)

interpretation config_repo: key_value_store "repo_set_config q" "repo_get_config q" config_view config_ok for q
proof unfold_locales
qed (rule config_put_law config_lookup_law; assumption)+

section \<open>IPortRepository and IApprovalRepository\<close>

lemma repo_passes_through:
  "(\<lambda>now p btype reason. repo_add_blocked_port q now p (Some btype) (Some reason)) = add_blocked_port q"
  "repo_remove_blocked_port q = remove_blocked_port q" "repo_get_blocked_ports q = get_blocked_ports q"
  "(\<lambda>now act target reason risk. repo_create_analyst_approval q now act target reason (Some risk)) =
     create_analyst_approval q"
  "repo_update_approval_status q = update_approval_status q" "repo_get_pending_approvals q = get_pending_approvals q"
  by (intro ext; simp add: repo_add_blocked_port_def repo_remove_blocked_port_def repo_get_blocked_ports_def
    repo_create_analyst_approval_def repo_update_approval_status_def repo_get_pending_approvals_def opt_def)+

interpretation repo_ports: port_repository "\<lambda>now p btype reason. repo_add_blocked_port q now p (Some btype) (Some reason)"
    "repo_remove_blocked_port q" "repo_get_blocked_ports q" bp_row blocked_view blocked_ok for q
  unfolding repo_passes_through by (rule ports_repo.port_repository_axioms)

interpretation repo_approvals: approval_repository
    "\<lambda>now act target reason risk. repo_create_analyst_approval q now act target reason (Some risk)"
    "repo_update_approval_status q" "repo_get_pending_approvals q" ap_id approval_status "approvals_ok q" for q
  unfolding repo_passes_through by (rule approvals_repo.approval_repository_axioms)

section \<open>IAuditRepository\<close>

text \<open>
  An audit log only grows: a successful insertion adds exactly one entry, and a query returns at
  most the asked number of entries, newest first, none of which is older than one it leaves out.
\<close>

locale audit_repository =
  fixes log :: "time \<Rightarrow> 'e \<Rightarrow> 'd \<Rightarrow> unit result \<times> 'd"
    and recent :: "nat option \<Rightarrow> 'd \<Rightarrow> 'l list result \<times> 'd"
    and stamp :: "'l \<Rightarrow> time"
    and entry :: "time \<Rightarrow> 'e \<Rightarrow> 'l \<Rightarrow> bool"
    and trail :: "'d \<Rightarrow> 'l multiset"
    and log_inv :: "'d \<Rightarrow> bool"
  assumes log_law: "log_inv d \<Longrightarrow> log now e d = (r, d') \<Longrightarrow> log_inv d'
      \<and> (if r = Inr () then \<exists>l. entry now e l \<and> stamp l = now \<and> trail d' = add_mset l (trail d) else trail d' = trail d)"
    and recent_law: "log_inv d \<Longrightarrow> recent limit d = (rl, d') \<Longrightarrow> log_inv d' \<and> trail d' = trail d
      \<and> (\<forall>ls. rl = Inr ls \<longrightarrow> sorted_wrt (\<lambda>a b. stamp b \<le> stamp a) ls \<and> mset ls \<subseteq># trail d
           \<and> length ls = min (opt 100 limit) (size (trail d))
           \<and> (\<forall>old \<in># trail d - mset ls. \<forall>l \<in> set ls. stamp old \<le> stamp l))"
begin

lemma trail_grows: "log_inv d \<Longrightarrow> log now e d = (r, d') \<Longrightarrow> trail d \<subseteq># trail d'"
  using log_law [of d now e r d'] by (auto split: if_splits)

text \<open>An entry newer than every other one is at the head of the next query.\<close>

lemma newest_first:
  assumes "log_inv d" and "log now e d = (Inr (), d1)" and "recent limit d1 = (Inr ls, d2)"
    and new: "\<forall>l \<in># trail d. stamp l < now" and "opt 100 limit \<noteq> 0"
  shows "ls \<noteq> [] \<and> entry now e (hd ls)"
proof -
  obtain l where d1: "log_inv d1" and l: "entry now e l" "stamp l = now" "trail d1 = add_mset l (trail d)"
    using log_law [OF assms(1,2)] by auto
  from recent_law [OF d1 assms(3)] have ls: "mset ls \<subseteq># trail d1"
    "length ls = min (opt 100 limit) (size (trail d1))" "\<forall>old \<in># trail d1 - mset ls. \<forall>l \<in> set ls. stamp old \<le> stamp l"
    "sorted_wrt (\<lambda>a b. stamp b \<le> stamp a) ls" by blast+
  from ls(2) l(3) assms(5) have "ls \<noteq> []" by auto
  then obtain x xs where x: "ls = x # xs" by (cases ls) auto
  have "now \<le> stamp x"
  proof (cases "l \<in> set ls")
    case True
    with ls(4) x l(2) show ?thesis by auto
  next
    case False
    then have "l \<in># trail d1 - mset ls" using l(3) by (simp add: in_diff_count not_in_iff)
    with ls(3) x l(2) show ?thesis by auto
  qed
  moreover have "x \<in># trail d1" using ls(1) x by (auto dest: mset_subset_eqD)
  ultimately have "x = l" using l(3) new by (auto simp: leD)
  with l(1) x show ?thesis by simp
qed

end

definition logged :: "time \<Rightarrow> audit_entry \<Rightarrow> audit_log \<Rightarrow> bool" where
  "logged now e l \<longleftrightarrow> lg_time l = now \<and> lg_event_type l = ae_event_type e \<and> lg_message l = ae_message e
     \<and> lg_app l = ae_app e \<and> lg_port l = ae_port e \<and> lg_pid l = ae_pid e \<and> lg_severity l = ae_severity e
     \<and> lg_details l = ae_details e"

definition audit_trail :: "db \<Rightarrow> audit_log multiset" where
  "audit_trail d = mset (t_audit d)"

lemma audit_log_law:
  assumes "sql_ok q" and "insert_audit_log q now e d = (r, d')"
  shows "sql_ok q \<and> (if r = Inr () then \<exists>l. logged now e l \<and> lg_time l = now \<and> audit_trail d' = add_mset l (audit_trail d)
    else audit_trail d' = audit_trail d)"
  using session_cases [OF assms(2) [unfolded insert_audit_log_def]] assms(1)
  by (elim disjE exE conjE) (simp_all add: audit_trail_def, force simp: logged_def)

lemma sorted_desc: "sorted_wrt (\<lambda>a b. f b \<le> f a) (sort_key (\<lambda>r. - f r) xs)" for f :: "'a \<Rightarrow> rat"
  using sorted_sort_key [of "\<lambda>r. - f r" xs] unfolding sorted_map neg_le_iff_le .

lemma audit_recent_law:
  assumes "sql_ok q" and "repo_get_audit_logs q limit d = (r, d')"
  shows "sql_ok q \<and> audit_trail d' = audit_trail d
    \<and> (\<forall>ls. r = Inr ls \<longrightarrow> sorted_wrt (\<lambda>a b. lg_time b \<le> lg_time a) ls \<and> mset ls \<subseteq># audit_trail d
         \<and> length ls = min (opt 100 limit) (size (audit_trail d))
         \<and> (\<forall>old \<in># audit_trail d - mset ls. \<forall>l \<in> set ls. lg_time old \<le> lg_time l))"
proof -
  let ?s = "sort_key (\<lambda>r. - lg_time r) (sq_audit q (t_audit d))"
  let ?n = "opt 100 limit"
  have trail: "audit_trail d = mset (take ?n ?s) + mset (drop ?n ?s)"
    using assms(1) unfolding audit_trail_def by (simp add: sql_ok_def flip: mset_append)
  then have "size (audit_trail d) = length ?s" by (simp flip: mset_append)
  moreover have "sorted_wrt (\<lambda>a b. lg_time b \<le> lg_time a) (take ?n ?s @ drop ?n ?s)" by (simp add: sorted_desc)
  then have "sorted_wrt (\<lambda>a b. lg_time b \<le> lg_time a) (take ?n ?s)"
    and "\<forall>old \<in> set (drop ?n ?s). \<forall>l \<in> set (take ?n ?s). lg_time old \<le> lg_time l"
    unfolding sorted_wrt_append by blast+
  moreover have "audit_trail d' = audit_trail d \<and> (\<forall>ls. r = Inr ls \<longrightarrow> ls = take ?n ?s)"
    using read_session [OF assms(2) [unfolded repo_get_audit_logs_def get_audit_logs_def]] by (simp add: audit_trail_def)
  ultimately show ?thesis using assms(1) trail by (auto simp: min.commute)
qed

interpretation audit_repo: audit_repository "insert_audit_log q" "repo_get_audit_logs q" lg_time logged audit_trail
    "\<lambda>_. sql_ok q" for q
proof unfold_locales
qed (rule audit_log_law audit_recent_law; assumption)+

section \<open>Properties\<close>

text \<open>
  C21: the traffic history keeps everything inside the retention period. Run any sequence of
  insertions and prunings, any of which may fail, on a new database: a history query for the last
  \<open>hours\<close> hours returns, in time order, exactly the records of the successful insertions for
  that port in that window, provided that no pruning ran with a cut-off inside the window.
\<close>

theorem history_is_complete:
  assumes "sql_ok q"
    and "run_history (repo_insert_traffic q) (repo_prune_old_traffic q) (\<lambda>now. traffic_of now 0) ops empty_db {#} = (d, m)"
    and "\<forall>t age. PruneOp t age \<in> set ops \<longrightarrow> traffic_cutoff t (opt 24 age) \<le> traffic_cutoff now (opt 24 hours)"
    and "repo_get_traffic_history q now port hours d = (Inr hs, d')"
  shows "sorted (map th_time hs) \<and> image_mset row_content (mset hs) =
    filter_mset (\<lambda>x. th_port x = port \<and> traffic_cutoff now (opt 24 hours) \<le> th_time x) m"
proof -
  let ?c = "traffic_cutoff now (opt 24 hours)"
  have "filter_mset (\<lambda>x. ?c \<le> th_time x) (traffic_samples empty_db) = filter_mset (\<lambda>x. ?c \<le> th_time x) {#}"
    by (simp add: traffic_samples_def empty_db_def)
  from history_repo.run_history_complete [OF assms(1) this assms(3,2)]
  have "filter_mset (\<lambda>x. ?c \<le> th_time x) (traffic_samples d) = filter_mset (\<lambda>x. ?c \<le> th_time x) m" by blast
  then have "filter_mset (\<lambda>x. th_port x = port) (filter_mset (\<lambda>x. ?c \<le> th_time x) (traffic_samples d)) =
      filter_mset (\<lambda>x. th_port x = port) (filter_mset (\<lambda>x. ?c \<le> th_time x) m)" by simp
  with history_repo.hist_law [OF assms(1,4)] show ?thesis by (simp add: filter_filter_mset comp_def conj_commute)
qed

definition sample :: "int \<Rightarrow> rat \<Rightarrow> traffic_record" where
  "sample port kb = \<lparr>tr_time = None, tr_port = Some port, tr_pid = None, tr_app = None, tr_in = Some kb,
     tr_out = None, tr_protocol = None, tr_direction = None, tr_risk = None\<rparr>"

theorem history_is_complete_witness:
  "\<exists>d m hs d'. run_history (repo_insert_traffic plain_sql) (repo_prune_old_traffic plain_sql) (\<lambda>now. traffic_of now 0)
       [InsertOp 1000 [sample 80 1, sample 443 2], PruneOp 5000 None, InsertOp 6000 [sample 80 3]] empty_db {#} = (d, m)
     \<and> repo_get_traffic_history plain_sql 7000 80 (Some 1) d = (Inr hs, d') \<and> map th_in hs = [3]"
proof -
  let ?ops = "[InsertOp 1000 [sample 80 1, sample 443 2], PruneOp 5000 None, InsertOp 6000 [sample 80 3]]"
  obtain d m where r: "run_history (repo_insert_traffic plain_sql) (repo_prune_old_traffic plain_sql)
      (\<lambda>now. traffic_of now 0) ?ops empty_db {#} = (d, m)" by fastforce
  then have m: "m = {#traffic_of 1000 0 (sample 80 1), traffic_of 1000 0 (sample 443 2), traffic_of 6000 0 (sample 80 3)#}"
    by (auto simp: repo_insert_traffic_def insert_traffic_def session_def plain_sql_def Let_def)
  obtain hs d' where h: "repo_get_traffic_history plain_sql 7000 80 (Some 1) d = (Inr hs, d')"
    by (simp add: repo_get_traffic_history_def get_traffic_history_def session_def plain_sql_def Let_def)
  have "\<forall>t age. PruneOp t age \<in> set ?ops \<longrightarrow> traffic_cutoff t (opt 24 age) \<le> traffic_cutoff 7000 (opt 24 (Some 1))"
    by (simp add: traffic_cutoff_def opt_def)
  from history_is_complete [OF plain_sql_ok r this h]
  have "image_mset row_content (mset hs) = {#traffic_of 6000 0 (sample 80 3)#}"
    unfolding m by (simp add: traffic_of_def sample_def traffic_cutoff_def opt_def)
  then have "image_mset th_in (image_mset row_content (mset hs)) = {#3#}"
    by (simp add: traffic_of_def sample_def opt_def)
  then have "image_mset th_in (mset hs) = {#3#}" by (simp add: multiset.map_comp comp_def row_content_def)
  then have "mset (map th_in hs) = {#3#}" by simp
  then have "map th_in hs = [3]" by (simp only: mset_single_iff)
  with r h show ?thesis by (intro exI conjI)
qed

end
