(* ===== verification/Scheduler.thy ===== *)
theory Scheduler
  imports Py_Prelude
begin

text \<open>
  The background scheduler \<open>application/jobs/scheduler.py\<close>. A job is a function on a world
  that may raise; it is given the clock reading of its own call. The thread's loop is a sequence of
  ticks: a tick is the reading of the clock before the jobs are visited and, for the \<open>i\<close>-th
  visited job, the readings inside and after its call. The loop ends when the stop event is set,
  that is, at the end of the sequence.
\<close>

section \<open>Jobs\<close>

record 'w job =
  j_name :: string
  j_func :: "time \<Rightarrow> 'w \<Rightarrow> exc option \<times> 'w"
  j_interval :: rat
  j_immediately :: bool
  j_last :: time
  j_runs :: nat
  j_errors :: nat

record tick =
  tk_now :: time
  tk_call :: "nat \<Rightarrow> time"
  tk_done :: "nat \<Rightarrow> time"

text \<open>\<open>register\<close> appends; names need not be unique.\<close>

definition new_job :: "string \<Rightarrow> (time \<Rightarrow> 'w \<Rightarrow> exc option \<times> 'w) \<Rightarrow> rat \<Rightarrow> bool \<Rightarrow> 'w job" where
  "new_job name f interval immediately =
     \<lparr>j_name = name, j_func = f, j_interval = interval, j_immediately = immediately, j_last = 0, j_runs = 0,
      j_errors = 0\<rparr>"

definition register_job ::
  "string \<Rightarrow> (time \<Rightarrow> 'w \<Rightarrow> exc option \<times> 'w) \<Rightarrow> rat \<Rightarrow> bool \<Rightarrow> 'w job list \<Rightarrow> 'w job list" where
  "register_job name f interval immediately js = js @ [new_job name f interval immediately]"

definition execute_job :: "time \<Rightarrow> time \<Rightarrow> 'w job \<Rightarrow> 'w \<Rightarrow> 'w job \<times> 'w" where
  "execute_job t t' j w =
     (case j_func j t w of
        (None, w') \<Rightarrow> (j\<lparr>j_last := t', j_runs := Suc (j_runs j)\<rparr>, w')
      | (Some err, w') \<Rightarrow> (j\<lparr>j_errors := Suc (j_errors j)\<rparr>, w'))"

text \<open>The jobs for which a condition holds when they are visited, in the order of registration.\<close>

fun visit_jobs :: "('w job \<Rightarrow> bool) \<Rightarrow> tick \<Rightarrow> nat \<Rightarrow> 'w job list \<Rightarrow> 'w \<Rightarrow> 'w job list \<times> 'w" where
  "visit_jobs P t i [] w = ([], w)"
| "visit_jobs P t i (j # js) w =
     (case (if P j then execute_job (tk_call t i) (tk_done t i) j w else (j, w)) of (j', w') \<Rightarrow>
      case visit_jobs P t (Suc i) js w' of (js', w'') \<Rightarrow> (j' # js', w''))"

definition due :: "time \<Rightarrow> 'w job \<Rightarrow> bool" where
  "due now j \<longleftrightarrow> j_interval j \<le> now - j_last j"

definition run_tick :: "tick \<Rightarrow> 'w job list \<Rightarrow> 'w \<Rightarrow> 'w job list \<times> 'w" where
  "run_tick t js w = visit_jobs (due (tk_now t)) t 0 js w"

fun run_ticks :: "tick list \<Rightarrow> 'w job list \<Rightarrow> 'w \<Rightarrow> 'w job list \<times> 'w" where
  "run_ticks [] js w = (js, w)"
| "run_ticks (t # ts) js w = (case run_tick t js w of (js', w') \<Rightarrow> run_ticks ts js' w')"

text \<open>\<open>_run_loop\<close>: first the immediate jobs, then the ticks.\<close>

definition run_loop :: "tick \<Rightarrow> tick list \<Rightarrow> 'w job list \<Rightarrow> 'w \<Rightarrow> 'w job list \<times> 'w" where
  "run_loop t0 ts js w = (case visit_jobs j_immediately t0 0 js w of (js', w') \<Rightarrow> run_ticks ts js' w')"

record job_status =
  js_name :: string
  js_interval :: rat
  js_runs :: nat
  js_errors :: nat
  js_last :: time

definition get_status :: "'w job list \<Rightarrow> job_status list" where
  "get_status js = map (\<lambda>j. \<lparr>js_name = j_name j, js_interval = j_interval j, js_runs = j_runs j,
     js_errors = j_errors j, js_last = j_last j\<rparr>) js"

section \<open>Starting and stopping\<close>

text \<open>
  \<open>sc_alive\<close> is whether the thread runs. \<open>start\<close> does nothing while it does;
  \<open>stop\<close> sets the event and waits, so the thread has left its loop.
\<close>

record 'w scheduler =
  sc_jobs :: "'w job list"
  sc_stop :: bool
  sc_alive :: bool

definition new_scheduler :: "'w scheduler" where
  "new_scheduler = \<lparr>sc_jobs = [], sc_stop = False, sc_alive = False\<rparr>"

definition start_scheduler :: "'w scheduler \<Rightarrow> 'w scheduler" where
  "start_scheduler s = (if sc_alive s then s else s\<lparr>sc_stop := False, sc_alive := True\<rparr>)"

definition stop_scheduler :: "'w scheduler \<Rightarrow> 'w scheduler" where
  "stop_scheduler s = s\<lparr>sc_stop := True, sc_alive := False\<rparr>"

section \<open>One tick\<close>

text \<open>The effect of the due jobs' functions on the world, and what each call returned.\<close>

fun calls :: "('w job \<Rightarrow> bool) \<Rightarrow> tick \<Rightarrow> nat \<Rightarrow> 'w job list \<Rightarrow> 'w \<Rightarrow> exc option option list \<times> 'w" where
  "calls P t i [] w = ([], w)"
| "calls P t i (j # js) w =
     (if P j then (case j_func j (tk_call t i) w of (r, w') \<Rightarrow>
        case calls P t (Suc i) js w' of (rs, w'') \<Rightarrow> (Some r # rs, w''))
      else (case calls P t (Suc i) js w of (rs, w') \<Rightarrow> (None # rs, w')))"

text \<open>A job after a visit that did not call it, that succeeded, that raised.\<close>

definition job_after :: "time \<Rightarrow> exc option option \<Rightarrow> 'w job \<Rightarrow> 'w job" where
  "job_after t' r j = (case r of None \<Rightarrow> j
     | Some None \<Rightarrow> j\<lparr>j_last := t', j_runs := Suc (j_runs j)\<rparr>
     | Some (Some err) \<Rightarrow> j\<lparr>j_errors := Suc (j_errors j)\<rparr>)"

lemma calls_length [simp]: "length (fst (calls P t i js w)) = length js"
  by (induction js arbitrary: i w) (simp_all add: case_prod_beta)

lemma calls_called: "k < length js \<Longrightarrow> (fst (calls P t i js w) ! k \<noteq> None) = P (js ! k)"
proof (induction js arbitrary: i w k)
  case (Cons j js)
  then show ?case by (cases k) (simp_all add: case_prod_beta)
qed simp

lemma visit_jobs_calls: "snd (visit_jobs P t i js w) = snd (calls P t i js w)
    \<and> length (fst (visit_jobs P t i js w)) = length js
    \<and> (\<forall>k < length js. fst (visit_jobs P t i js w) ! k = job_after (tk_done t (i + k)) (fst (calls P t i js w) ! k) (js ! k))"
proof (induction js arbitrary: i w)
  case (Cons j js)
  let ?w = "if P j then snd (j_func j (tk_call t i) w) else w"
  note ih = Cons [of "Suc i" ?w]
  have head: "(if P j then execute_job (tk_call t i) (tk_done t i) j w else (j, w))
      = (job_after (tk_done t i) (fst (calls P t i (j # js) w) ! 0) j, ?w)"
    by (auto simp: execute_job_def job_after_def case_prod_beta split: option.splits)
  have tl: "snd (calls P t i (j # js) w) = snd (calls P t (Suc i) js ?w)"
    "fst (calls P t i (j # js) w) ! Suc k = fst (calls P t (Suc i) js ?w) ! k" for k
    by (simp_all add: case_prod_beta)
  have "fst (visit_jobs P t i (j # js) w) ! k = job_after (tk_done t (i + k)) (fst (calls P t i (j # js) w) ! k) ((j # js) ! k)"
    if "k < length (j # js)" for k
    using that ih head tl(2) by (cases k) (simp_all add: case_prod_beta del: calls.simps)
  then show ?case using ih head tl(1) by (simp add: case_prod_beta del: calls.simps)
qed simp

lemma job_after_frame [simp]: "j_name (job_after t r j) = j_name j" "j_func (job_after t r j) = j_func j"
  "j_interval (job_after t r j) = j_interval j" "j_immediately (job_after t r j) = j_immediately j"
  by (simp_all add: job_after_def split: option.splits)

text \<open>What one tick does to the job at a position.\<close>

lemma tick_job:
  assumes "run_tick t js w = (js', w')" and "k < length js"
  obtains r where "js' ! k = job_after (tk_done t k) r (js ! k)" and "r \<noteq> None \<longleftrightarrow> due (tk_now t) (js ! k)"
    and "length js' = length js" and "r = fst (calls (due (tk_now t)) t 0 js w) ! k"
  using assms visit_jobs_calls [of "due (tk_now t)" t 0 js w] calls_called [OF assms(2), of "due (tk_now t)" t 0 w]
  unfolding run_tick_def by auto

text \<open>A call returns what the job's function returns in some world.\<close>

lemma calls_result: "k < length js \<Longrightarrow> fst (calls P t i js w) ! k = Some r \<Longrightarrow>
    \<exists>u. r = fst (j_func (js ! k) (tk_call t (i + k)) u)"
proof (induction js arbitrary: i w k)
  case (Cons j js)
  show ?case
  proof (cases k)
    case 0
    with Cons.prems show ?thesis by (auto simp: case_prod_beta split: if_splits)
  next
    case (Suc n)
    with Cons.prems have "fst (calls P t (Suc i) js (if P j then snd (j_func j (tk_call t i) w) else w)) ! n = Some r"
      by (simp add: case_prod_beta split: if_splits)
    from Cons.IH [OF _ this] Cons.prems Suc show ?thesis by simp
  qed
qed simp

lemma ticks_frame: "run_ticks ts js w = (js', w') \<Longrightarrow> k < length js \<Longrightarrow>
    length js' = length js \<and> j_interval (js' ! k) = j_interval (js ! k) \<and> j_func (js' ! k) = j_func (js ! k)"
proof (induction ts arbitrary: js w)
  case (Cons t ts)
  obtain js1 w1 where t: "run_tick t js w = (js1, w1)" by fastforce
  with Cons.prems(1) have rest: "run_ticks ts js1 w1 = (js', w')" by simp
  obtain r where "js1 ! k = job_after (tk_done t k) r (js ! k)" and len: "length js1 = length js"
    by (rule tick_job [OF t Cons.prems(2)])
  with Cons.IH [OF rest] Cons.prems(2) show ?case by simp
qed simp

text \<open>Neither count ever decreases.\<close>

lemma calls_grow: "run_ticks ts js w = (js', w') \<Longrightarrow> k < length js \<Longrightarrow>
    j_runs (js ! k) + j_errors (js ! k) \<le> j_runs (js' ! k) + j_errors (js' ! k)"
proof (induction ts arbitrary: js w)
  case (Cons t ts)
  obtain js1 w1 where t: "run_tick t js w = (js1, w1)" by fastforce
  with Cons.prems(1) have rest: "run_ticks ts js1 w1 = (js', w')" by simp
  obtain r where "js1 ! k = job_after (tk_done t k) r (js ! k)" "length js1 = length js"
    by (rule tick_job [OF t Cons.prems(2)])
  with Cons.IH [OF rest] Cons.prems(2) show ?case
    by (auto simp: job_after_def split: option.splits)
qed simp

section \<open>Invariants of the jobs' world\<close>

text \<open>The contract of a set of jobs that share a world: every call, failing or not, keeps an invariant.\<close>

locale job_set =
  fixes jobs :: "'w job list"
    and job_inv :: "'w \<Rightarrow> bool"
  assumes job_keeps: "j \<in> set jobs \<Longrightarrow> job_inv w \<Longrightarrow> job_inv (snd (j_func j t w))"
begin

lemma visit_keeps: "j_func ` set js \<subseteq> j_func ` set jobs \<Longrightarrow> job_inv w \<Longrightarrow>
    job_inv (snd (visit_jobs P t i js w)) \<and> map j_func (fst (visit_jobs P t i js w)) = map j_func js"
proof (induction js arbitrary: i w)
  case (Cons j js)
  let ?e = "if P j then execute_job (tk_call t i) (tk_done t i) j w else (j, w)"
  obtain k where "k \<in> set jobs" "j_func k = j_func j" using Cons.prems(1) by fastforce
  then have "job_inv (snd (j_func j (tk_call t i) w))" using job_keeps Cons.prems(2) by metis
  then have "job_inv (snd ?e)" "j_func (fst ?e) = j_func j"
    using Cons.prems(2) by (auto simp: execute_job_def split: prod.splits option.splits)
  with Cons.IH [of "snd ?e" "Suc i"] Cons.prems(1) show ?case by (simp add: case_prod_beta)
qed simp

lemma ticks_keep: "j_func ` set js \<subseteq> j_func ` set jobs \<Longrightarrow> job_inv w \<Longrightarrow> job_inv (snd (run_ticks ts js w))"
proof (induction ts arbitrary: js w)
  case (Cons t ts)
  note v = visit_keeps [OF Cons.prems, of "due (tk_now t)" t 0]
  then have "j_func ` set (fst (run_tick t js w)) \<subseteq> j_func ` set jobs"
    using Cons.prems(1) by (metis run_tick_def list.set_map)
  with v Cons.IH show ?case by (simp add: case_prod_beta run_tick_def)
qed simp

lemma loop_keeps: "job_inv w \<Longrightarrow> job_inv (snd (run_loop t0 ts jobs w))"
proof -
  assume "job_inv w"
  note v = visit_keeps [OF order_refl this, of j_immediately t0 0]
  then have "j_func ` set (fst (visit_jobs j_immediately t0 0 jobs w)) \<subseteq> j_func ` set jobs"
    by (metis list.set_map order_refl)
  from ticks_keep [OF this] v show ?thesis by (simp add: run_loop_def case_prod_beta)
qed

end

section \<open>Properties\<close>

text \<open>
  C35: no job runs more often than its interval allows. When the clock never reads less after a job
  than at the beginning of the tick, the successful runs of a job during any sequence of ticks,
  times its interval, fit between its last run before and its last run after the sequence. Failed
  runs do not move the last run: when no call of the sequence succeeds, it is what it was.
\<close>

theorem job_rate_bounded:
  assumes "\<forall>t \<in> set ts. \<forall>i. tk_now t \<le> tk_done t i" and "run_ticks ts js w = (js', w')" and "k < length js"
  shows "j_runs (js ! k) \<le> j_runs (js' ! k)
    \<and> of_nat (j_runs (js' ! k) - j_runs (js ! k)) * j_interval (js ! k) \<le> j_last (js' ! k) - j_last (js ! k)
    \<and> (j_runs (js' ! k) = j_runs (js ! k) \<longrightarrow> j_last (js' ! k) = j_last (js ! k))"
  using assms
proof (induction ts arbitrary: js w)
  case (Cons t ts)
  obtain js1 w1 where t: "run_tick t js w = (js1, w1)" by fastforce
  with Cons.prems(2) have rest: "run_ticks ts js1 w1 = (js', w')" by simp
  obtain r where r: "js1 ! k = job_after (tk_done t k) r (js ! k)" "r \<noteq> None \<longleftrightarrow> due (tk_now t) (js ! k)"
    and len: "length js1 = length js"
    by (rule tick_job [OF t Cons.prems(3)])
  have ih: "j_runs (js1 ! k) \<le> j_runs (js' ! k)"
    "of_nat (j_runs (js' ! k) - j_runs (js1 ! k)) * j_interval (js ! k) \<le> j_last (js' ! k) - j_last (js1 ! k)"
    "j_runs (js' ! k) = j_runs (js1 ! k) \<longrightarrow> j_last (js' ! k) = j_last (js1 ! k)"
    using Cons.IH [OF _ rest] Cons.prems(1,3) len r(1) by auto
  show ?case
  proof (cases "r = Some None")
    case True
    then have j: "j_runs (js1 ! k) = Suc (j_runs (js ! k))" "j_last (js1 ! k) = tk_done t k"
      using r(1) by (simp_all add: job_after_def)
    have "j_interval (js ! k) \<le> tk_done t k - j_last (js ! k)"
      using True r(2) Cons.prems(1) by (auto simp: due_def intro: order_trans)
    moreover have "j_runs (js' ! k) - j_runs (js ! k) = Suc (j_runs (js' ! k) - j_runs (js1 ! k))"
      using ih(1) j(1) by simp
    ultimately show ?thesis using ih j by (simp add: algebra_simps)
  next
    case False
    then have "j_runs (js1 ! k) = j_runs (js ! k)" "j_last (js1 ! k) = j_last (js ! k)"
      using r(1) by (auto simp: job_after_def split: option.splits)
    with ih show ?thesis by simp
  qed
qed simp

definition every_second :: "nat \<Rightarrow> tick" where
  "every_second n = \<lparr>tk_now = of_nat n, tk_call = (\<lambda>_. of_nat n), tk_done = (\<lambda>_. of_nat n)\<rparr>"

definition count_job :: "time \<Rightarrow> nat \<Rightarrow> exc option \<times> nat" where
  "count_job t n = (None, Suc n)"

theorem job_rate_bounded_witness:
  "snd (run_ticks (map every_second [30, 31, 60]) [new_job ''traffic_flush'' count_job 30 False] 0) = 2
     \<and> (\<exists>j. fst (run_ticks (map every_second [30, 31, 60]) [new_job ''traffic_flush'' count_job 30 False] 0) = [j]
          \<and> of_nat (j_runs j) * 30 \<le> j_last j)"
proof -
  let ?r = "run_ticks (map every_second [30, 31, 60]) [new_job ''traffic_flush'' count_job 30 False] 0"
  have mono: "\<forall>t \<in> set (map every_second [30, 31, 60]). \<forall>i. tk_now t \<le> tk_done t i"
    by (simp add: every_second_def)
  have run: "snd ?r = 2" "length (fst ?r) = 1"
    by (simp_all add: run_tick_def due_def new_job_def every_second_def execute_job_def count_job_def)
  from job_rate_bounded [OF mono surjective_pairing [of ?r], of 0] run show ?thesis
    by (cases "fst ?r") (auto simp: new_job_def)
qed

text \<open>
  A failing job is isolated but never backs off. A job that raises whenever it is called, and
  that is due, is called in every tick, each time adding one to its error count; its last run does
  not move, so it stays due however long its interval is; the other due jobs are called as before.
\<close>

theorem failing_job_retried:
  assumes "\<forall>t \<in> set ts. due (tk_now t) (js ! k)" and "\<And>t u. fst (j_func (js ! k) t u) \<noteq> None"
    and "run_ticks ts js w = (js', w')" and "k < length js"
  shows "j_errors (js' ! k) = j_errors (js ! k) + length ts \<and> j_last (js' ! k) = j_last (js ! k)
    \<and> j_runs (js' ! k) = j_runs (js ! k)"
  using assms
proof (induction ts arbitrary: js w)
  case (Cons t ts)
  obtain js1 w1 where t: "run_tick t js w = (js1, w1)" by fastforce
  with Cons.prems(3) have rest: "run_ticks ts js1 w1 = (js', w')" by simp
  obtain r where r: "js1 ! k = job_after (tk_done t k) r (js ! k)" "r \<noteq> None" "length js1 = length js"
    "r = fst (calls (due (tk_now t)) t 0 js w) ! k"
    using tick_job [OF t Cons.prems(4)] Cons.prems(1) by (metis list.set_intros(1))
  with calls_result [of k js "due (tk_now t)" t 0 w] Cons.prems(2,4) obtain err where "r = Some (Some err)"
    by (metis option.exhaust)
  with r(1) have j: "js1 ! k = (js ! k)\<lparr>j_errors := Suc (j_errors (js ! k))\<rparr>" by (simp add: job_after_def)
  then have "\<forall>t \<in> set ts. due (tk_now t) (js1 ! k)" "\<And>t u. fst (j_func (js1 ! k) t u) \<noteq> None"
    using Cons.prems(1,2) by (simp_all add: due_def)
  from Cons.IH [OF this rest] r(3) Cons.prems(4) j show ?case by simp
qed simp

theorem failing_job_retried_witness:
  "\<exists>j. fst (run_ticks (map every_second [3600, 3601, 3602]) [new_job ''traffic_prune'' (\<lambda>t n. (Some ValueError, n)) 3600 False] (0 :: nat)) = [j]
     \<and> j_errors j = 3 \<and> j_last j = 0"
proof -
  let ?js = "[new_job ''traffic_prune'' (\<lambda>t n. (Some ValueError, n)) 3600 False] :: nat job list"
  let ?r = "run_ticks (map every_second [3600, 3601, 3602]) ?js 0"
  have "\<forall>t \<in> set (map every_second [3600, 3601, 3602]). due (tk_now t) (?js ! 0)"
    "\<And>t u. fst (j_func (?js ! 0) t u) \<noteq> None"
    by (simp_all add: every_second_def due_def new_job_def)
  from failing_job_retried [OF this surjective_pairing [of ?r]] ticks_frame [OF surjective_pairing [of ?r], of 0]
  show ?thesis by (cases "fst ?r") (auto simp: new_job_def)
qed

text \<open>
  C36: a job whose interval has passed is called. If in some tick of the sequence the clock has
  advanced by the interval of a job beyond its last run as it was before the sequence, the job is
  called at least once during the sequence, whatever the other jobs do and whether they fail.
\<close>

theorem due_job_is_called:
  assumes "run_ticks ts js w = (js', w')" and "k < length js" and "t \<in> set ts" and "due (tk_now t) (js ! k)"
  shows "j_runs (js ! k) + j_errors (js ! k) < j_runs (js' ! k) + j_errors (js' ! k)"
  using assms
proof (induction ts arbitrary: js w)
  case (Cons u ts)
  obtain js1 w1 where u: "run_tick u js w = (js1, w1)" by fastforce
  with Cons.prems(1) have rest: "run_ticks ts js1 w1 = (js', w')" by simp
  obtain r where r: "js1 ! k = job_after (tk_done u k) r (js ! k)" "r \<noteq> None \<longleftrightarrow> due (tk_now u) (js ! k)"
    and len: "length js1 = length js"
    by (rule tick_job [OF u Cons.prems(2)])
  show ?case
  proof (cases "r = None")
    case True
    then have same: "js1 ! k = js ! k" using r(1) by (simp add: job_after_def)
    with True r(2) Cons.prems(3,4) have "t \<in> set ts" by auto
    from Cons.IH [OF rest _ this] len Cons.prems(2,4) same show ?thesis by simp
  next
    case False
    then have "j_runs (js1 ! k) + j_errors (js1 ! k) = Suc (j_runs (js ! k) + j_errors (js ! k))"
      using r(1) by (auto simp: job_after_def split: option.splits)
    moreover have "j_runs (js1 ! k) + j_errors (js1 ! k) \<le> j_runs (js' ! k) + j_errors (js' ! k)"
      using calls_grow [OF rest] len Cons.prems(2) by simp
    ultimately show ?thesis by simp
  qed
qed simp

theorem due_job_is_called_witness:
  "0 < (case fst (run_ticks (map every_second [10, 40]) [new_job ''traffic_flush'' count_job 30 False] 0) of
          j # _ \<Rightarrow> j_runs j + j_errors j)"
proof -
  let ?r = "run_ticks (map every_second [10, 40]) [new_job ''traffic_flush'' count_job 30 False] 0"
  have "due (tk_now (every_second 40)) ([new_job ''traffic_flush'' count_job 30 False] ! 0)"
    by (simp add: due_def new_job_def every_second_def)
  from due_job_is_called [OF surjective_pairing [of ?r] _ _ this] ticks_frame [OF surjective_pairing [of ?r], of 0]
  show ?thesis by (cases "fst ?r") (auto simp: new_job_def)
qed

text \<open>
  A job registered without \<open>run_immediately\<close> is called in the first tick all the same: its
  last run is zero and the clock counts from 1970.
\<close>

lemma first_tick_runs_all:
  assumes "run_tick t js w = (js', w')" and "k < length js" and "js ! k = new_job name f interval False"
    and "interval \<le> tk_now t"
  shows "j_runs (js' ! k) + j_errors (js' ! k) = 1"
proof -
  obtain r where "js' ! k = job_after (tk_done t k) r (js ! k)" "r \<noteq> None \<longleftrightarrow> due (tk_now t) (js ! k)"
    by (rule tick_job [OF assms(1,2)])
  with assms(3,4) show ?thesis by (auto simp: due_def new_job_def job_after_def split: option.splits)
qed

end
