(* ===== verification/Plugins.thy ===== *)
theory Plugins
  imports Py_Prelude
begin

text \<open>
  The plugin base class and registry (\<open>plugins/base.py\<close>, \<open>plugins/registry.py\<close>). A
  plugin's \<open>start\<close> and \<open>stop\<close> are functions on a world that may raise. What
  \<open>importlib\<close> and \<open>dir\<close> find in the package is an argument of \<open>discover\<close>.
\<close>

section \<open>Plugins\<close>

record 'w plugin =
  pl_name :: string
  pl_description :: string
  pl_version :: string
  pl_enabled :: bool
  pl_started :: bool
  pl_start :: "'w \<Rightarrow> exc option \<times> 'w"
  pl_stop :: "'w \<Rightarrow> exc option \<times> 'w"

type_synonym 'w registry = "(string, 'w plugin) dict"

text \<open>\<open>BaseMonitorPlugin.__init__\<close> with the default version.\<close>

definition new_plugin :: "string \<Rightarrow> string \<Rightarrow> ('w \<Rightarrow> exc option \<times> 'w) \<Rightarrow> ('w \<Rightarrow> exc option \<times> 'w) \<Rightarrow> 'w plugin" where
  "new_plugin name description start stop =
     \<lparr>pl_name = name, pl_description = description, pl_version = ''1.0.0'', pl_enabled = True, pl_started = False,
      pl_start = start, pl_stop = stop\<rparr>"

definition health_check :: "'w plugin \<Rightarrow> bool" where
  "health_check p = pl_started p"

definition set_enabled :: "bool \<Rightarrow> 'w plugin \<Rightarrow> 'w plugin" where
  "set_enabled v p = p\<lparr>pl_enabled := v\<rparr>"

section \<open>Registry\<close>

definition register_plugin :: "'w plugin \<Rightarrow> 'w registry \<Rightarrow> 'w registry" where
  "register_plugin p reg = (if dmem (pl_name p) reg then reg else dset reg (pl_name p) p)"

text \<open>An attribute of a module: anything else, the base class, or a plugin class with what its call gives.\<close>

datatype 'w attr = OtherAttr | BaseClass | PluginClass "'w plugin result"

fun load_attrs :: "'w attr list \<Rightarrow> nat \<Rightarrow> 'w registry \<Rightarrow> nat \<times> 'w registry" where
  "load_attrs [] n reg = (n, reg)"
| "load_attrs (PluginClass (Inr p) # xs) n reg = load_attrs xs (Suc n) (register_plugin p reg)"
| "load_attrs (PluginClass (Inl err) # xs) n reg = (n, reg)"
| "load_attrs (_ # xs) n reg = load_attrs xs n reg"

definition skipped_module :: "string \<Rightarrow> bool" where
  "skipped_module name \<longleftrightarrow> startswith name ''_'' \<or> name \<in> {''base'', ''registry''}"

text \<open>A module whose import or whose class raises is logged; the count keeps what came before.\<close>

fun load_modules :: "(string \<times> 'w attr list result) list \<Rightarrow> nat \<Rightarrow> 'w registry \<Rightarrow> nat \<times> 'w registry" where
  "load_modules [] n reg = (n, reg)"
| "load_modules ((name, m) # ms) n reg =
     (if skipped_module name then load_modules ms n reg
      else case m of
             Inl err \<Rightarrow> load_modules ms n reg
           | Inr attrs \<Rightarrow> (case load_attrs attrs n reg of (n', reg') \<Rightarrow> load_modules ms n' reg'))"

definition discover :: "(string \<times> 'w attr list result) list \<Rightarrow> 'w registry \<Rightarrow> nat \<times> 'w registry" where
  "discover ms reg = load_modules ms 0 reg"

fun start_all :: "'w registry \<Rightarrow> 'w \<Rightarrow> 'w registry \<times> 'w" where
  "start_all [] w = ([], w)"
| "start_all ((name, p) # reg) w =
     (if pl_enabled p then
        (case pl_start p w of
           (None, w') \<Rightarrow> (case start_all reg w' of (reg', w'') \<Rightarrow> ((name, p\<lparr>pl_started := True\<rparr>) # reg', w''))
         | (Some err, w') \<Rightarrow> (case start_all reg w' of (reg', w'') \<Rightarrow> ((name, p) # reg', w'')))
      else (case start_all reg w of (reg', w') \<Rightarrow> ((name, p) # reg', w')))"

fun stop_all :: "'w registry \<Rightarrow> 'w \<Rightarrow> 'w registry \<times> 'w" where
  "stop_all [] w = ([], w)"
| "stop_all ((name, p) # reg) w =
     (if pl_started p then
        (case pl_stop p w of
           (None, w') \<Rightarrow> (case stop_all reg w' of (reg', w'') \<Rightarrow> ((name, p\<lparr>pl_started := False\<rparr>) # reg', w''))
         | (Some err, w') \<Rightarrow> (case stop_all reg w' of (reg', w'') \<Rightarrow> ((name, p) # reg', w'')))
      else (case stop_all reg w of (reg', w') \<Rightarrow> ((name, p) # reg', w')))"

definition get_plugin :: "string \<Rightarrow> 'w registry \<Rightarrow> 'w plugin option" where
  "get_plugin name reg = dget reg name"

record plugin_status =
  ps_name :: string
  ps_description :: string
  ps_version :: string
  ps_enabled :: bool
  ps_running :: bool
  ps_healthy :: bool

definition list_plugins :: "'w registry \<Rightarrow> plugin_status list" where
  "list_plugins reg = map (\<lambda>(k, p). \<lparr>ps_name = pl_name p, ps_description = pl_description p, ps_version = pl_version p,
     ps_enabled = pl_enabled p, ps_running = pl_started p, ps_healthy = health_check p\<rparr>) reg"

definition plugin_count :: "'w registry \<Rightarrow> nat" where
  "plugin_count reg = length reg"

section \<open>Registration\<close>

text \<open>Each plugin is stored once, under its own name.\<close>

definition registry_ok :: "'w registry \<Rightarrow> bool" where
  "registry_ok reg \<longleftrightarrow> dict_ok reg \<and> (\<forall>(k, p) \<in> set reg. pl_name p = k)"

lemma registry_ok_register: "registry_ok reg \<Longrightarrow> registry_ok (register_plugin p reg)"
  using set_dset_subset [of "pl_name p" p reg] by (auto simp: registry_ok_def register_plugin_def)

text \<open>The first plugin registered under a name stays.\<close>

lemma get_register: "get_plugin name (register_plugin p reg) =
    (case get_plugin name reg of Some q \<Rightarrow> Some q | None \<Rightarrow> if name = pl_name p then Some p else None)"
proof (cases "dget reg (pl_name p)")
  case None
  then have "\<not> dmem (pl_name p) reg" by (simp add: dmem_iff map_of_eq_None_iff)
  with None show ?thesis by (auto simp: get_plugin_def register_plugin_def dict_simps split: option.splits)
next
  case (Some q)
  then have "dmem (pl_name p) reg" by (metis dmem_iff map_of_eq_None_iff option.distinct(1))
  with Some show ?thesis by (auto simp: get_plugin_def register_plugin_def split: option.splits)
qed

lemma count_register: "plugin_count reg \<le> plugin_count (register_plugin p reg)
    \<and> plugin_count (register_plugin p reg) \<le> Suc (plugin_count reg)"
  by (simp add: plugin_count_def register_plugin_def length_dset)

lemma load_attrs_ok: "registry_ok reg \<Longrightarrow> load_attrs xs n reg = (n', reg') \<Longrightarrow>
    registry_ok reg' \<and> plugin_count reg \<le> plugin_count reg' \<and> plugin_count reg' + n \<le> plugin_count reg + n'
    \<and> (\<forall>name q. get_plugin name reg = Some q \<longrightarrow> get_plugin name reg' = Some q)"
proof (induction xs n reg rule: load_attrs.induct)
  case (2 p xs n reg)
  have "registry_ok (register_plugin p reg)" using 2(2) by (rule registry_ok_register)
  with 2(1) 2(3) count_register [of reg p] show ?case by (fastforce simp: get_register)
qed auto

lemma load_modules_ok: "registry_ok reg \<Longrightarrow> load_modules ms n reg = (n', reg') \<Longrightarrow>
    registry_ok reg' \<and> plugin_count reg \<le> plugin_count reg' \<and> plugin_count reg' + n \<le> plugin_count reg + n'
    \<and> (\<forall>name q. get_plugin name reg = Some q \<longrightarrow> get_plugin name reg' = Some q)"
proof (induction ms arbitrary: n reg)
  case (Cons m ms)
  obtain name body where m: "m = (name, body)" by (cases m)
  show ?case
  proof (cases "skipped_module name")
    case False
    show ?thesis
    proof (cases body)
      case (Inr attrs)
      obtain n1 reg1 where l: "load_attrs attrs n reg = (n1, reg1)" by fastforce
      note h = load_attrs_ok [OF Cons.prems(1) l]
      with Cons.IH [of reg1 n1] Cons.prems(2) m False Inr l show ?thesis by fastforce
    qed (use Cons m False in simp)
  qed (use Cons m in simp)
qed simp

section \<open>Starting and stopping\<close>

definition started_plugins :: "'w registry \<Rightarrow> 'w plugin list" where
  "started_plugins reg = filter pl_started (map snd reg)"

lemma started_simps [simp]: "started_plugins [] = []"
  "started_plugins (x # reg) = (if pl_started (snd x) then snd x # started_plugins reg else started_plugins reg)"
  by (simp_all add: started_plugins_def)

lemma start_all_spec: "start_all reg w = (reg', w') \<Longrightarrow>
    map fst reg' = map fst reg \<and> map (\<lambda>x. pl_stop (snd x)) reg' = map (\<lambda>x. pl_stop (snd x)) reg
    \<and> w' = fold (\<lambda>p u. snd (pl_start p u)) (filter pl_enabled (map snd reg)) w
    \<and> (\<forall>p' \<in> set (started_plugins reg'). pl_enabled p' \<or> p' \<in> set (started_plugins reg))"
proof (induction reg w arbitrary: reg' w' rule: start_all.induct)
  case (2 name p reg w)
  show ?case
  proof (cases "pl_enabled p")
    case True
    obtain r u where c: "pl_start p w = (r, u)" by fastforce
    obtain reg1 w1 where s: "start_all reg u = (reg1, w1)" by fastforce
    have "map fst reg1 = map fst reg \<and> map (\<lambda>x. pl_stop (snd x)) reg1 = map (\<lambda>x. pl_stop (snd x)) reg
      \<and> w1 = fold (\<lambda>p u. snd (pl_start p u)) (filter pl_enabled (map snd reg)) u
      \<and> (\<forall>p' \<in> set (started_plugins reg1). pl_enabled p' \<or> p' \<in> set (started_plugins reg))"
    proof (cases r)
      case None
      from 2(1) [OF True c [symmetric, unfolded None] refl s] show ?thesis by (simp add: None)
    next
      case (Some err)
      from 2(2) [OF True c [symmetric, unfolded Some] refl s] show ?thesis by (simp add: Some)
    qed
    with 2(4) True c s show ?thesis by (cases r) auto
  next
    case False
    obtain reg1 w1 where s: "start_all reg w = (reg1, w1)" by fastforce
    with 2(3) [OF False s] 2(4) False show ?thesis by auto
  qed
qed simp

text \<open>\<open>stop_all\<close> stops exactly the started plugins; only one whose \<open>stop\<close> raised stays started.\<close>

lemma stop_all_spec: "stop_all reg w = (reg', w') \<Longrightarrow>
    map fst reg' = map fst reg
    \<and> w' = fold (\<lambda>p u. snd (pl_stop p u)) (started_plugins reg) w
    \<and> (\<forall>p' \<in> set (started_plugins reg'). p' \<in> set (started_plugins reg) \<and> (\<exists>u. fst (pl_stop p' u) \<noteq> None))"
proof (induction reg w arbitrary: reg' w' rule: stop_all.induct)
  case (2 name p reg w)
  show ?case
  proof (cases "pl_started p")
    case True
    obtain r u where c: "pl_stop p w = (r, u)" by fastforce
    obtain reg1 w1 where s: "stop_all reg u = (reg1, w1)" by fastforce
    have ih: "map fst reg1 = map fst reg \<and> w1 = fold (\<lambda>p u. snd (pl_stop p u)) (started_plugins reg) u
      \<and> (\<forall>p' \<in> set (started_plugins reg1). p' \<in> set (started_plugins reg) \<and> (\<exists>u. fst (pl_stop p' u) \<noteq> None))"
    proof (cases r)
      case None
      from 2(1) [OF True c [symmetric, unfolded None] refl s] show ?thesis by (simp add: None)
    next
      case (Some err)
      from 2(2) [OF True c [symmetric, unfolded Some] refl s] show ?thesis by (simp add: Some)
    qed
    have "r \<noteq> None \<Longrightarrow> \<exists>u. fst (pl_stop p u) \<noteq> None" using c by (metis fst_conv)
    moreover have "reg' = (name, if r = None then p\<lparr>pl_started := False\<rparr> else p) # reg1" "w' = w1"
      using 2(4) True c s by (cases r; simp)+
    ultimately show ?thesis using ih True c by (cases r) auto
  next
    case False
    obtain reg1 w1 where s: "stop_all reg w = (reg1, w1)" by fastforce
    with 2(3) [OF False s] 2(4) False show ?thesis by auto
  qed
qed simp

section \<open>Properties\<close>

text \<open>
  The plugin life cycle. Discovery keeps one plugin per name, never replaces a registered one
  and reports at least as many plugins as it added. Starting a registry in which nothing runs calls
  the start of every enabled plugin, whether or not others fail; stopping it then calls the stop of
  exactly the plugins that started, and none is left running unless its own stop raised.
\<close>

theorem plugin_lifecycle:
  assumes "registry_ok reg" and "discover ms reg = (n, reg1)" and "started_plugins reg1 = []"
    and "start_all reg1 w = (reg2, w2)" and "stop_all reg2 w2 = (reg3, w3)"
  shows "registry_ok reg1 \<and> (\<forall>name q. get_plugin name reg = Some q \<longrightarrow> get_plugin name reg1 = Some q)
    \<and> plugin_count reg1 - plugin_count reg \<le> n
    \<and> map fst reg3 = map fst reg1
    \<and> w2 = fold (\<lambda>p u. snd (pl_start p u)) (filter pl_enabled (map snd reg1)) w
    \<and> (\<forall>p \<in> set (started_plugins reg2). pl_enabled p)
    \<and> w3 = fold (\<lambda>p u. snd (pl_stop p u)) (started_plugins reg2) w2
    \<and> (\<forall>p \<in> set (started_plugins reg3). \<exists>u. fst (pl_stop p u) \<noteq> None)"
proof -
  note d = load_modules_ok [OF assms(1) assms(2) [unfolded discover_def]]
  note s = start_all_spec [OF assms(4)]
  note t = stop_all_spec [OF assms(5)]
  from d have "plugin_count reg1 - plugin_count reg \<le> n" by linarith
  with d s t assms(3) show ?thesis by simp
qed

definition demo_plugin :: "string \<Rightarrow> nat plugin" where
  "demo_plugin name = new_plugin name ''demo'' (\<lambda>n. (None, n + 1)) (\<lambda>n. (None, n + 10))"

definition bad_plugin :: "string \<Rightarrow> nat plugin" where
  "bad_plugin name = new_plugin name ''demo'' (\<lambda>n. (Some AccessDenied, n + 100)) (\<lambda>n. (None, n + 1000))"

theorem plugin_lifecycle_witness:
  "\<exists>reg1 reg2 reg3. discover [(''dns'', Inr [BaseClass, PluginClass (Inr (demo_plugin ''dns''))]),
        (''usb'', Inr [PluginClass (Inr (bad_plugin ''usb''))]), (''base'', Inl ValueError)] [] = (2, reg1)
     \<and> start_all reg1 0 = (reg2, 101) \<and> stop_all reg2 101 = (reg3, 111) \<and> map fst reg3 = map fst reg1"
proof -
  let ?ms = "[(''dns'', Inr [BaseClass, PluginClass (Inr (demo_plugin ''dns''))]),
        (''usb'', Inr [PluginClass (Inr (bad_plugin ''usb''))]), (''base'', Inl ValueError)]"
  obtain reg1 where d: "discover ?ms [] = (2, reg1)" "reg1 = [(''dns'', demo_plugin ''dns''), (''usb'', bad_plugin ''usb'')]"
    by (simp add: discover_def skipped_module_def register_plugin_def dmem_iff demo_plugin_def bad_plugin_def new_plugin_def)
  obtain reg2 where s: "start_all reg1 0 = (reg2, 101)" "reg2 = [(''dns'', (demo_plugin ''dns'')\<lparr>pl_started := True\<rparr>), (''usb'', bad_plugin ''usb'')]"
    by (simp add: d(2) demo_plugin_def bad_plugin_def new_plugin_def)
  obtain reg3 where t: "stop_all reg2 101 = (reg3, 111)"
    by (simp add: s(2) demo_plugin_def bad_plugin_def new_plugin_def)
  have "registry_ok []" and "started_plugins reg1 = []"
    by (simp_all add: registry_ok_def d(2) started_plugins_def demo_plugin_def bad_plugin_def new_plugin_def)
  from plugin_lifecycle [OF this(1) d(1) this(2) s(1) t] d(1) s(1) t show ?thesis by auto
qed

end
