(* ===== verification/Settings.thy ===== *)
theory Settings
  imports Py_Prelude
begin

text \<open>
  The configuration (\<open>infrastructure/config/settings.py\<close>) and the watchdog
  (\<open>core/watchdog.py\<close>), which hands a restarted process a reduced environment. The environment is a
  map of variables; \<open>float\<close> on a text and the random key are arguments.
\<close>

section \<open>Settings\<close>

type_synonym environ = "string \<Rightarrow> string option"

record settings =
  st_host :: string
  st_port :: int
  st_reload :: bool
  st_db_url :: string
  st_emit :: rat
  st_flush :: rat
  st_evict :: rat
  st_shm_name :: string
  st_hmac_key :: string
  st_origins :: "string list"
  st_influx_url :: string
  st_influx_token :: string
  st_influx_org :: string
  st_influx_bucket :: string

definition getenv :: "environ \<Rightarrow> string \<Rightarrow> string \<Rightarrow> string" where
  "getenv env k d = (case env k of Some v \<Rightarrow> v | None \<Rightarrow> d)"

definition default_origins :: string where
  "default_origins = ''http://localhost:3000,http://localhost:5173,http://localhost:5174''"

definition parse_origins :: "string \<Rightarrow> string list" where
  "parse_origins s = map str_strip (split_on CHR '','' s)"

definition influx_enabled :: "settings \<Rightarrow> bool" where
  "influx_enabled s \<longleftrightarrow> st_influx_url s \<noteq> [] \<and> st_influx_token s \<noteq> []"

text \<open>The conversions are evaluated in the order of the fields; each may raise \<open>ValueError\<close>.\<close>

definition load_settings :: "(string \<Rightarrow> rat option) \<Rightarrow> string \<Rightarrow> environ \<Rightarrow> settings result" where
  "load_settings py_float token env =
     (case py_int (getenv env ''PORT'' ''8600'') of
        None \<Rightarrow> Inl ValueError
      | Some port \<Rightarrow>
     (case py_float (getenv env ''EMIT_INTERVAL'' ''1.0'') of
        None \<Rightarrow> Inl ValueError
      | Some emit \<Rightarrow>
     (case py_float (getenv env ''DB_FLUSH_INTERVAL'' ''30.0'') of
        None \<Rightarrow> Inl ValueError
      | Some flush \<Rightarrow>
     (case py_float (getenv env ''CACHE_EVICT_INTERVAL'' ''3600.0'') of
        None \<Rightarrow> Inl ValueError
      | Some evict \<Rightarrow>
          Inr \<lparr>st_host = getenv env ''HOST'' ''0.0.0.0'', st_port = port,
               st_reload = (str_lower (getenv env ''RELOAD'' ''false'') = ''true''),
               st_db_url = getenv env ''DATABASE_URL'' ''sqlite:///vigilant_data.db'',
               st_emit = emit, st_flush = flush, st_evict = evict,
               st_shm_name = getenv env ''SENTINEL_SHM_NAME'' ''VigilantCapture'',
               st_hmac_key = getenv env ''SENTINEL_HMAC_KEY'' token,
               st_origins = parse_origins (getenv env ''ALLOWED_ORIGINS'' default_origins),
               st_influx_url = getenv env ''INFLUX_URL'' [], st_influx_token = getenv env ''INFLUX_TOKEN'' [],
               st_influx_org = getenv env ''INFLUX_ORG'' [], st_influx_bucket = getenv env ''INFLUX_BUCKET'' []\<rparr>))))"

section \<open>Watchdog\<close>

definition safe_keys :: "string list" where
  "safe_keys = [''PATH'', ''PYTHONPATH'', ''HOST'', ''PORT'', ''DATABASE_URL'', ''VIGILANT_JWT_SECRET'',
     ''VIGILANT_CORS_ORIGINS'', ''INFLUXDB_URL'', ''INFLUXDB_TOKEN'', ''INFLUXDB_ORG'', ''INFLUXDB_BUCKET'',
     ''POSTGRES_USER'', ''POSTGRES_PASSWORD'', ''POSTGRES_DB'']"

text \<open>The environment \<open>_restart_sentinel\<close> passes on.\<close>

definition restart_env :: "environ \<Rightarrow> int \<Rightarrow> environ" where
  "restart_env env n =
     (\<lambda>k. if k = ''SENTINEL_RESTARTS'' then Some (show_int n) else if k \<in> set safe_keys then env k else None)"

text \<open>
  One turn of the monitor: \<open>alive\<close> is what \<open>pid_exists\<close> answers. \<open>Restarting\<close> carries
  the seconds slept and the environment given to the new process. Whether the process can then be
  started, and that the monitor ends as well when it cannot, is in \<open>Watchdog\<close> (\<open>watchdog_run\<close>).
\<close>

datatype watch = Watching | WatchError | GaveUp | Restarting rat environ

definition watch_turn :: "environ \<Rightarrow> bool result \<Rightarrow> watch" where
  "watch_turn env alive =
     (case alive of
        Inl err \<Rightarrow> WatchError
      | Inr True \<Rightarrow> Watching
      | Inr False \<Rightarrow>
          (case py_int (getenv env ''SENTINEL_RESTARTS'' ''0'') of
             None \<Rightarrow> WatchError
           | Some restarts \<Rightarrow>
               if 5 \<le> restarts then GaveUp
               else Restarting (min 60 (2 powi restarts)) (restart_env env (restarts + 1))))"

text \<open>The loop goes on after a living process or an error and ends with the other two outcomes.\<close>

fun watch_loop :: "environ \<Rightarrow> bool result list \<Rightarrow> watch option" where
  "watch_loop env [] = None"
| "watch_loop env (o' # os) =
     (case watch_turn env o' of Watching \<Rightarrow> watch_loop env os | WatchError \<Rightarrow> watch_loop env os | x \<Rightarrow> Some x)"

section \<open>Lemmas\<close>

lemma getenv_restart: "k \<notin> set safe_keys \<Longrightarrow> k \<noteq> ''SENTINEL_RESTARTS'' \<Longrightarrow> getenv (restart_env env n) k d = d"
  by (simp add: getenv_def restart_env_def)

lemma getenv_restarts: "0 \<le> n \<Longrightarrow> py_int (getenv (restart_env env n) ''SENTINEL_RESTARTS'' d) = Some n"
  by (simp add: getenv_def restart_env_def show_int_def str_simps)

text \<open>The environments of the first process and of those restarted from it.\<close>

fun generation :: "environ \<Rightarrow> nat \<Rightarrow> environ" where
  "generation env 0 = env"
| "generation env (Suc n) = restart_env (generation env n) (int (Suc n))"

lemma generation_count: "env ''SENTINEL_RESTARTS'' = None \<Longrightarrow>
    py_int (getenv (generation env n) ''SENTINEL_RESTARTS'' ''0'') = Some (int n)"
proof (cases n)
  case 0
  have "py_int ''0'' = Some 0" using py_int_show_nat [of 0] by simp
  moreover assume "env ''SENTINEL_RESTARTS'' = None"
  ultimately show ?thesis using 0 by (simp add: getenv_def)
qed (simp add: getenv_restarts)

text \<open>Loading succeeds exactly when the port is an integer and the three intervals are numbers.\<close>

lemma load_settings_total:
  "(\<exists>s. load_settings py_float token env = Inr s) \<longleftrightarrow>
     py_int (getenv env ''PORT'' ''8600'') \<noteq> None \<and> py_float (getenv env ''EMIT_INTERVAL'' ''1.0'') \<noteq> None
     \<and> py_float (getenv env ''DB_FLUSH_INTERVAL'' ''30.0'') \<noteq> None
     \<and> py_float (getenv env ''CACHE_EVICT_INTERVAL'' ''3600.0'') \<noteq> None"
  by (auto simp: load_settings_def split: option.splits)

lemma load_settings_error: "load_settings py_float token env = Inl err \<Longrightarrow> err = ValueError"
  by (auto simp: load_settings_def split: option.splits)

text \<open>No origin contains the separator.\<close>

lemma origins_no_comma: "x \<in> set (parse_origins s) \<Longrightarrow> CHR '','' \<notin> set x"
  by (auto simp: parse_origins_def str_strip_def dest!: split_on_no_sep set_dropWhileD)

section \<open>Properties\<close>

text \<open>
  A watchdog restart loses configuration. The settings loaded by a process the watchdog
  started never have InfluxDB enabled, whatever the original environment said, and carry the default
  origins, segment name and intervals and a new random key, because the allowlist names variables
  the settings do not read.
\<close>

theorem restart_loses_settings:
  assumes "load_settings py_float token (restart_env env n) = Inr s"
  shows "\<not> influx_enabled s \<and> st_origins s = parse_origins default_origins \<and> st_shm_name s = ''VigilantCapture''
    \<and> st_hmac_key s = token \<and> py_float ''1.0'' = Some (st_emit s) \<and> py_float ''30.0'' = Some (st_flush s)
    \<and> py_float ''3600.0'' = Some (st_evict s)"
  using assms by (auto simp: load_settings_def influx_enabled_def getenv_restart safe_keys_def split: option.splits)

definition float_table :: "string \<Rightarrow> rat option" where
  "float_table s = map_of [(''1.0'', 1), (''30.0'', 30), (''3600.0'', 3600)] s"

definition influx_env :: environ where
  "influx_env = map_of [(''INFLUX_URL'', ''http://db:8086''), (''INFLUX_TOKEN'', ''t0k3n'')]"

theorem restart_loses_settings_witness:
  "\<exists>s s'. load_settings float_table ''k'' influx_env = Inr s \<and> influx_enabled s
     \<and> load_settings float_table ''k'' (restart_env influx_env 1) = Inr s' \<and> \<not> influx_enabled s'"
proof -
  have port: "py_int ''8600'' = Some 8600"
    by (simp add: py_int_def str_strip_def is_space_def is_digit_def digit_val_def)
  obtain s where s: "load_settings float_table ''k'' influx_env = Inr s" "influx_enabled s"
    by (simp add: load_settings_def getenv_def influx_env_def port float_table_def influx_enabled_def)
  obtain s' where s': "load_settings float_table ''k'' (restart_env influx_env 1) = Inr s'"
    by (simp add: load_settings_def getenv_def restart_env_def safe_keys_def influx_env_def port float_table_def)
  from restart_loses_settings [OF s'] s s' show ?thesis by auto
qed

text \<open>
  C40: at most five restarts. From a process started without a count, the n-th generation whose
  main process is lost is replaced after \<open>2^n\<close> seconds for n below five, and the sixth one is not; the
  delays add up to 31 seconds, so the limit of 60 seconds is never reached.
\<close>

theorem restarts_bounded:
  assumes "env ''SENTINEL_RESTARTS'' = None"
  shows "(\<forall>n < 5. watch_turn (generation env n) (Inr False) = Restarting (2 ^ n) (generation env (Suc n)))
    \<and> watch_turn (generation env 5) (Inr False) = GaveUp"
proof -
  note c = generation_count [of env, OF assms]
  have "min 60 ((2 :: rat) ^ n) = 2 ^ n" if "n < 5" for n :: nat
  proof -
    have "(2 :: rat) ^ n \<le> 2 ^ 4" using that by (intro power_increasing) auto
    then show ?thesis by (simp add: min_def)
  qed
  then have "watch_turn (generation env n) (Inr False) = Restarting (2 ^ n) (generation env (Suc n))" if "n < 5" for n
    using that c [of n] by (simp add: watch_turn_def add.commute)
  moreover have "watch_turn (generation env 5) (Inr False) = GaveUp" using c [of 5] by (simp add: watch_turn_def)
  ultimately show ?thesis by blast
qed

theorem restarts_bounded_witness:
  "watch_turn (generation influx_env 5) (Inr False) = GaveUp"
  using restarts_bounded [of influx_env] by (simp add: influx_env_def)

text \<open>An environment with an unusable count never leads to a restart: the error is logged for ever.\<close>

lemma bad_count_never_restarts: "py_int (getenv env ''SENTINEL_RESTARTS'' ''0'') = None \<Longrightarrow> watch_loop env os = None"
  by (induction os) (auto simp: watch_turn_def split: sum.splits bool.splits)

end
