(* ===== verification/Events.thy ===== *)
theory Events
  imports Interfaces
begin

text \<open>
  The domain events (\<open>domain/events/events.py\<close>) and the event bus
  (\<open>application/events/bus.py\<close>). A handler is a value of an arbitrary type; what running it
  does to the world is a parameter of \<open>publish\<close>, and so is whether the callable has a
  \<open>__name__\<close>, which the bus reads when the handler fails.
\<close>

section \<open>Domain events\<close>

record port_detected =
  pd_port :: int
  pd_pid :: int
  pd_app :: string
  pd_protocol :: string
  pd_in :: rat
  pd_out :: rat
  pd_remote :: string
  pd_risk :: int

record threat_analyzed =
  ta_ip :: string
  ta_port :: int
  ta_risk :: int
  ta_org :: string
  ta_country :: string
  ta_malicious :: bool

record policy_evaluated =
  pv_id :: string
  pv_name :: string
  pv_action :: string
  pv_port :: int
  pv_pid :: int
  pv_app :: string
  pv_risk :: int

record firewall_updated =
  fu_port :: int
  fu_action :: string
  fu_protocol :: string
  fu_reason :: string
  fu_success :: bool

record approval_requested =
  aq_id :: int
  aq_action_type :: string
  aq_target :: string
  aq_reason :: string
  aq_risk :: int

record approval_resolved =
  as_id :: int
  as_status :: string
  as_by :: string

record audit_logged =
  al_event_type :: string
  al_message :: string
  al_severity :: string
  al_app :: "string option"
  al_port :: "int option"
  al_pid :: "int option"
  al_details :: "string option"

text \<open>The identifier and the time stamp every event draws are not read by any handler.\<close>

datatype event =
    PortDetected port_detected
  | ThreatAnalyzed threat_analyzed
  | PolicyEvaluated policy_evaluated
  | FirewallUpdated firewall_updated
  | ApprovalRequested approval_requested
  | ApprovalResolved approval_resolved
  | AuditLogged audit_logged

datatype event_class =
    C_PortDetected
  | C_ThreatAnalyzed
  | C_PolicyEvaluated
  | C_FirewallUpdated
  | C_ApprovalRequested
  | C_ApprovalResolved
  | C_AuditLogged

fun class_of :: "event \<Rightarrow> event_class" where
  "class_of (PortDetected _) = C_PortDetected"
| "class_of (ThreatAnalyzed _) = C_ThreatAnalyzed"
| "class_of (PolicyEvaluated _) = C_PolicyEvaluated"
| "class_of (FirewallUpdated _) = C_FirewallUpdated"
| "class_of (ApprovalRequested _) = C_ApprovalRequested"
| "class_of (ApprovalResolved _) = C_ApprovalResolved"
| "class_of (AuditLogged _) = C_AuditLogged"

section \<open>The bus\<close>

record 'h bus =
  bus_sync :: "(event_class, 'h list) dict"
  bus_async :: "(event_class, 'h list) dict"

definition new_bus :: "'h bus" where
  "new_bus = \<lparr>bus_sync = [], bus_async = []\<rparr>"

definition handlers_of :: "(event_class, 'h list) dict \<Rightarrow> event_class \<Rightarrow> 'h list" where
  "handlers_of d c = (case dget d c of Some hs \<Rightarrow> hs | None \<Rightarrow> [])"

text \<open>Handlers run in order; the clause that logs a failure reads the handler's name.\<close>

fun run_handlers ::
  "('h \<Rightarrow> event \<Rightarrow> 'w \<Rightarrow> exc option \<times> 'w) \<Rightarrow> ('h \<Rightarrow> bool) \<Rightarrow> 'h list \<Rightarrow> event \<Rightarrow> 'w \<Rightarrow> exc option \<times> 'w" where
  "run_handlers run named [] ev w = (None, w)"
| "run_handlers run named (h # hs) ev w =
     (case run h ev w of
        (None, w') \<Rightarrow> run_handlers run named hs ev w'
      | (Some err, w') \<Rightarrow>
          if named h then run_handlers run named hs ev w' else (Some AttributeError, w'))"

definition publish ::
  "('h \<Rightarrow> event \<Rightarrow> 'w \<Rightarrow> exc option \<times> 'w) \<Rightarrow> ('h \<Rightarrow> bool) \<Rightarrow> 'h bus \<Rightarrow> event \<Rightarrow> 'w \<Rightarrow> exc option \<times> 'w" where
  "publish run named b ev w = run_handlers run named (handlers_of (bus_sync b) (class_of ev)) ev w"

definition publish_async ::
  "('h \<Rightarrow> event \<Rightarrow> 'w \<Rightarrow> exc option \<times> 'w) \<Rightarrow> ('h \<Rightarrow> bool) \<Rightarrow> 'h bus \<Rightarrow> event \<Rightarrow> 'w \<Rightarrow> exc option \<times> 'w" where
  "publish_async run named b ev w =
     (case run_handlers run named (handlers_of (bus_sync b) (class_of ev)) ev w of
        (Some err, w') \<Rightarrow> (Some err, w')
      | (None, w') \<Rightarrow> run_handlers run named (handlers_of (bus_async b) (class_of ev)) ev w')"

definition add_handler :: "event_class \<Rightarrow> 'h \<Rightarrow> (event_class, 'h list) dict \<Rightarrow> (event_class, 'h list) dict" where
  "add_handler c h d =
     (let hs = handlers_of d c in dset d c (if h \<in> set hs then hs else hs @ [h]))"

definition subscribe :: "event_class \<Rightarrow> 'h \<Rightarrow> 'h bus \<Rightarrow> 'h bus" where
  "subscribe c h b = b\<lparr>bus_sync := add_handler c h (bus_sync b)\<rparr>"

definition subscribe_async :: "event_class \<Rightarrow> 'h \<Rightarrow> 'h bus \<Rightarrow> 'h bus" where
  "subscribe_async c h b = b\<lparr>bus_async := add_handler c h (bus_async b)\<rparr>"

definition remove_handler :: "event_class \<Rightarrow> 'h \<Rightarrow> (event_class, 'h list) dict \<Rightarrow> (event_class, 'h list) dict" where
  "remove_handler c h d =
     (case dget d c of Some hs \<Rightarrow> (if h \<in> set hs then dset d c (remove1 h hs) else d) | None \<Rightarrow> d)"

definition unsubscribe :: "event_class \<Rightarrow> 'h \<Rightarrow> 'h bus \<Rightarrow> 'h bus" where
  "unsubscribe c h b =
     b\<lparr>bus_sync := remove_handler c h (bus_sync b), bus_async := remove_handler c h (bus_async b)\<rparr>"

definition clear_bus :: "'h bus \<Rightarrow> 'h bus" where
  "clear_bus b = b\<lparr>bus_sync := [], bus_async := []\<rparr>"

definition handler_count :: "'h bus \<Rightarrow> nat" where
  "handler_count b = (\<Sum>x\<leftarrow>bus_sync b. length (snd x)) + (\<Sum>x\<leftarrow>bus_async b. length (snd x))"

section \<open>Subscriptions\<close>

lemma handlers_of_add: "handlers_of (add_handler c h d) c' =
    (if c' = c then (if h \<in> set (handlers_of d c) then handlers_of d c else handlers_of d c @ [h])
     else handlers_of d c')"
  by (cases "dget d c") (simp_all add: handlers_of_def add_handler_def Let_def dict_simps)

lemma handlers_of_remove: "handlers_of (remove_handler c h d) c' =
    (if c' = c then remove1 h (handlers_of d c) else handlers_of d c')"
  by (cases "dget d c") (auto simp: handlers_of_def remove_handler_def dict_simps remove1_idem)

definition bus_ok :: "'h bus \<Rightarrow> bool" where
  "bus_ok b \<longleftrightarrow> dict_ok (bus_sync b) \<and> dict_ok (bus_async b)
     \<and> (\<forall>c. distinct (handlers_of (bus_sync b) c) \<and> distinct (handlers_of (bus_async b) c))"

lemma bus_ok_new: "bus_ok new_bus"
  by (simp add: bus_ok_def new_bus_def handlers_of_def)

lemma dict_ok_handler: "dict_ok d \<Longrightarrow> dict_ok (add_handler c h d) \<and> dict_ok (remove_handler c h d)"
  by (simp add: add_handler_def remove_handler_def Let_def split: option.splits)

lemma bus_ok_ops: "bus_ok b \<Longrightarrow> bus_ok (subscribe c h b)" "bus_ok b \<Longrightarrow> bus_ok (subscribe_async c h b)"
  "bus_ok b \<Longrightarrow> bus_ok (unsubscribe c h b)" "bus_ok b \<Longrightarrow> bus_ok (clear_bus b)"
  by (simp_all add: bus_ok_def subscribe_def subscribe_async_def unsubscribe_def clear_bus_def
      dict_ok_handler handlers_of_add handlers_of_remove handlers_of_def [of "[]"] distinct_remove1)

lemma bus_ok_distinct: "bus_ok b \<Longrightarrow> distinct (handlers_of (bus_sync b) c)"
  by (simp add: bus_ok_def)

lemma handlers_of_subscribe: "handlers_of (bus_sync (subscribe c h b)) c' =
    (if c' = c \<and> h \<notin> set (handlers_of (bus_sync b) c) then handlers_of (bus_sync b) c @ [h]
     else handlers_of (bus_sync b) c')"
  by (simp add: subscribe_def handlers_of_add)

lemma handlers_of_unsubscribe: "handlers_of (bus_sync (unsubscribe c h b)) c' =
    (if c' = c then remove1 h (handlers_of (bus_sync b) c) else handlers_of (bus_sync b) c')"
  by (simp add: unsubscribe_def handlers_of_remove)

text \<open>Any sequence of subscriptions and removals.\<close>

inductive bus_reach :: "'h bus \<Rightarrow> bool" where
  bus_new: "bus_reach new_bus"
| bus_sub: "bus_reach b \<Longrightarrow> bus_reach (subscribe c h b)"
| bus_sub_async: "bus_reach b \<Longrightarrow> bus_reach (subscribe_async c h b)"
| bus_unsub: "bus_reach b \<Longrightarrow> bus_reach (unsubscribe c h b)"
| bus_clear: "bus_reach b \<Longrightarrow> bus_reach (clear_bus b)"

lemma bus_reach_ok: "bus_reach b \<Longrightarrow> bus_ok b"
  by (induction rule: bus_reach.induct) (simp_all add: bus_ok_new bus_ok_ops)

section \<open>Delivery\<close>

text \<open>The effect of running all of a list of handlers, whatever each of them returns.\<close>

definition deliver_all :: "('h \<Rightarrow> event \<Rightarrow> 'w \<Rightarrow> exc option \<times> 'w) \<Rightarrow> 'h list \<Rightarrow> event \<Rightarrow> 'w \<Rightarrow> 'w" where
  "deliver_all run hs ev w = fold (\<lambda>h w. snd (run h ev w)) hs w"

lemma run_handlers_all:
  "list_all named hs \<Longrightarrow> run_handlers run named hs ev w = (None, deliver_all run hs ev w)"
  by (induction hs arbitrary: w) (auto simp: deliver_all_def split: prod.splits option.splits)

lemma run_handlers_append: "run_handlers run named (hs @ hs') ev w =
    (case run_handlers run named hs ev w of
       (Some err, w') \<Rightarrow> (Some err, w') | (None, w') \<Rightarrow> run_handlers run named hs' ev w')"
  by (induction hs arbitrary: w) (auto split: prod.splits option.splits)

section \<open>The interface\<close>

interpretation sync_bus: subscriptions subscribe unsubscribe "\<lambda>b. handlers_of (bus_sync b)" bus_ok
  by unfold_locales
     (auto simp: handlers_of_subscribe handlers_of_unsubscribe bus_ok_ops bus_ok_distinct)

section \<open>Properties\<close>

text \<open>
  C23: delivery and isolation. When the registered callables carry a name, publishing an event
  never raises and runs every handler subscribed for exactly the event's class, once each and
  in order of registration, whether or not handlers before it raise; the asynchronous variant
  runs the synchronous handlers first and then the asynchronous ones.
\<close>

theorem publish_isolates_failures:
  assumes "\<forall>h. named h"
  shows "publish run named b ev w = (None, deliver_all run (handlers_of (bus_sync b) (class_of ev)) ev w)
    \<and> publish_async run named b ev w =
        (None, deliver_all run (handlers_of (bus_sync b) (class_of ev)
                 @ handlers_of (bus_async b) (class_of ev)) ev w)"
  using assms
  by (simp add: publish_def publish_async_def run_handlers_all list_all_iff deliver_all_def)

definition log_event :: "nat \<Rightarrow> event \<Rightarrow> nat list \<Rightarrow> exc option \<times> nat list" where
  "log_event h ev w = (if h = 1 then Some ValueError else None, w @ [h])"

definition some_event :: event where
  "some_event = AuditLogged \<lparr>al_event_type = ''x'', al_message = [], al_severity = ''info'', al_app = None,
     al_port = None, al_pid = None, al_details = None\<rparr>"

theorem publish_isolates_failures_witness:
  "publish log_event (\<lambda>_. True) (subscribe C_AuditLogged 2 (subscribe C_AuditLogged 1 new_bus)) some_event []
     = (None, [1, 2])"
  using publish_isolates_failures [of "\<lambda>_. True" log_event
      "subscribe C_AuditLogged 2 (subscribe C_AuditLogged 1 new_bus)" some_event "[]"]
  by (simp add: subscribe_def new_bus_def handlers_of_add handlers_of_def [of "[]"] some_event_def
      deliver_all_def log_event_def)

text \<open>
  A failing handler without a name defeats the isolation. The clause that logs the failure
  reads \<open>handler.__name__\<close>; for a callable that has none (a partial application, an object
  with \<open>__call__\<close>) that raises in turn, so \<open>publish\<close> raises \<open>AttributeError\<close> and the
  handlers after it do not run.
\<close>

theorem unnamed_handler_breaks_isolation:
  assumes "handlers_of (bus_sync b) (class_of ev) = hs @ h # hs'" and "list_all named hs"
    and "\<not> named h" and "fst (run h ev (deliver_all run hs ev w)) \<noteq> None"
  shows "publish run named b ev w = (Some AttributeError, deliver_all run (hs @ [h]) ev w)"
  using assms
  by (auto simp: publish_def run_handlers_append run_handlers_all deliver_all_def split: prod.splits option.splits)

theorem unnamed_handler_breaks_isolation_witness:
  "publish log_event (\<lambda>h. h \<noteq> 1) (subscribe C_AuditLogged 2 (subscribe C_AuditLogged 1 new_bus)) some_event []
     = (Some AttributeError, [1])"
  using unnamed_handler_breaks_isolation [of "subscribe C_AuditLogged 2 (subscribe C_AuditLogged 1 new_bus)"
      some_event "[]" 1 "[2]" "\<lambda>h. h \<noteq> 1" log_event "[]"]
  by (simp add: subscribe_def new_bus_def handlers_of_add handlers_of_def [of "[]"] some_event_def
      deliver_all_def log_event_def)

text \<open>
  Subscriptions. After any sequence of operations a handler is registered at most once per
  event class; subscribing one that is registered changes nothing, unsubscribing removes it, a
  subscription that is withdrawn leaves the delivery order as it was, and no operation affects
  the other classes.
\<close>

theorem subscription_laws:
  assumes "bus_reach b"
  shows "distinct (handlers_of (bus_sync b) c)
    \<and> (h \<in> set (handlers_of (bus_sync b) c) \<longrightarrow>
        handlers_of (bus_sync (subscribe c h b)) = handlers_of (bus_sync b))
    \<and> h \<notin> set (handlers_of (bus_sync (unsubscribe c h b)) c)
    \<and> (h \<notin> set (handlers_of (bus_sync b) c) \<longrightarrow>
        handlers_of (bus_sync (unsubscribe c h (subscribe c h b))) = handlers_of (bus_sync b))
    \<and> (c' \<noteq> c \<longrightarrow> handlers_of (bus_sync (unsubscribe c h b)) c' = handlers_of (bus_sync b) c'
        \<and> handlers_of (bus_sync (subscribe c h b)) c' = handlers_of (bus_sync b) c')"
  using bus_reach_ok [OF assms] sync_bus.inv_distinct [of b c] sync_bus.sub_again [of h b c]
    sync_bus.unsub_gone [of b h c] sync_bus.unsub_sub [of b h c]
  by (simp add: sync_bus.listed_sub sync_bus.listed_unsub)

theorem subscription_laws_witness:
  "distinct (handlers_of (bus_sync (subscribe C_AuditLogged (1 :: nat) (subscribe C_AuditLogged 1 new_bus))) C_AuditLogged)"
  using subscription_laws [OF bus_sub [OF bus_sub [OF bus_new]], of C_AuditLogged "1 :: nat" C_AuditLogged 1]
  by (rule conjunct1)

end
