(* ===== verification/Policy.thy ===== *)
theory Policy
  imports Events Metrics
begin

text \<open>
  Policy rules (\<open>domain/entities/rule.py\<close>) and the engine that evaluates them against
  snapshots (\<open>domain/policies/engine.py\<close>). The clock is read once for each enabled rule
  that is visited; \<open>clk i\<close> is the reading for the i-th rule.
\<close>

section \<open>PolicyRule\<close>

record policy_rule =
  r_id :: string
  r_name :: string
  r_description :: string
  r_enabled :: bool
  r_min_kb_s :: rat
  r_min_risk :: int
  r_target_app :: "string option"
  r_exclude_apps :: "string list"
  r_action :: string

text \<open>An empty target name counts as no target.\<close>

definition matches_app :: "policy_rule \<Rightarrow> string \<Rightarrow> bool" where
  "matches_app r app =
     (if str_lower app \<in> set (map str_lower (r_exclude_apps r)) then False
      else case r_target_app r of
             Some t \<Rightarrow> (if t \<noteq> [] \<and> str_lower app \<noteq> str_lower t then False else True)
           | None \<Rightarrow> True)"

definition matches_traffic :: "policy_rule \<Rightarrow> rat \<Rightarrow> bool" where
  "matches_traffic r kb = (r_min_kb_s r \<le> kb)"

definition matches_risk :: "policy_rule \<Rightarrow> int \<Rightarrow> bool" where
  "matches_risk r risk = (r_min_risk r \<le> risk)"

section \<open>PolicyEngine\<close>

record policy_engine =
  pe_policies :: "policy_rule list"
  pe_last :: "(string, time) dict"
  pe_cooldown :: int

definition new_policy_engine :: policy_engine where
  "new_policy_engine = \<lparr>pe_policies = [], pe_last = [], pe_cooldown = 60\<rparr>"

definition trigger_key :: "string \<Rightarrow> int \<Rightarrow> string" where
  "trigger_key rule_id port = rule_id @ '':'' @ show_int port"

definition cooling :: "policy_engine \<Rightarrow> time \<Rightarrow> policy_rule \<Rightarrow> int \<Rightarrow> bool" where
  "cooling e now r port =
     (now - (case dget (pe_last e) (trigger_key (r_id r) port) of Some t \<Rightarrow> t | None \<Rightarrow> 0)
        < of_int (pe_cooldown e))"

definition policy_event :: "policy_rule \<Rightarrow> port_snapshot \<Rightarrow> policy_evaluated" where
  "policy_event r s = \<lparr>pv_id = r_id r, pv_name = r_name r, pv_action = r_action r, pv_port = s_port s,
     pv_pid = s_pid s, pv_app = s_app s, pv_risk = s_risk s\<rparr>"

definition conditions :: "policy_rule \<Rightarrow> port_snapshot \<Rightarrow> bool" where
  "conditions r s \<longleftrightarrow> matches_risk r (s_risk s) \<and> matches_traffic r (s_in s + s_out s)
     \<and> matches_app r (s_app s)"

fun eval_rules ::
  "(nat \<Rightarrow> time) \<Rightarrow> nat \<Rightarrow> policy_rule list \<Rightarrow> port_snapshot \<Rightarrow> policy_engine
     \<Rightarrow> policy_evaluated option \<times> policy_engine" where
  "eval_rules clk i [] s e = (None, e)"
| "eval_rules clk i (r # rs) s e =
     (if \<not> r_enabled r then eval_rules clk (Suc i) rs s e
      else if cooling e (clk i) r (s_port s) then eval_rules clk (Suc i) rs s e
      else if \<not> matches_risk r (s_risk s) then eval_rules clk (Suc i) rs s e
      else if \<not> matches_traffic r (s_in s + s_out s) then eval_rules clk (Suc i) rs s e
      else if \<not> matches_app r (s_app s) then eval_rules clk (Suc i) rs s e
      else (Some (policy_event r s),
            e\<lparr>pe_last := dset (pe_last e) (trigger_key (r_id r) (s_port s)) (clk i)\<rparr>))"

definition evaluate :: "(nat \<Rightarrow> time) \<Rightarrow> port_snapshot \<Rightarrow> policy_engine \<Rightarrow> policy_evaluated option \<times> policy_engine" where
  "evaluate clk s e = eval_rules clk 0 (pe_policies e) s e"

text \<open>
  With an \<open>on_trigger\<close> callback: it is called after the trigger time has been recorded and
  what it raises leaves \<open>evaluate\<close>.
\<close>

definition evaluate_with ::
  "(policy_evaluated \<Rightarrow> 'w \<Rightarrow> exc option \<times> 'w) option \<Rightarrow> (nat \<Rightarrow> time) \<Rightarrow> port_snapshot \<Rightarrow> policy_engine \<Rightarrow> 'w
     \<Rightarrow> policy_evaluated option result \<times> policy_engine \<times> 'w" where
  "evaluate_with on_trigger clk s e w =
     (case evaluate clk s e of
        (None, e') \<Rightarrow> (Inr None, e', w)
      | (Some ev, e') \<Rightarrow>
          (case on_trigger of
             None \<Rightarrow> (Inr (Some ev), e', w)
           | Some cb \<Rightarrow>
               (case cb ev w of
                  (None, w') \<Rightarrow> (Inr (Some ev), e', w')
                | (Some err, w') \<Rightarrow> (Inl err, e', w'))))"

definition add_policy :: "policy_rule \<Rightarrow> policy_engine \<Rightarrow> policy_engine" where
  "add_policy r e = e\<lparr>pe_policies := pe_policies e @ [r]\<rparr>"

definition remove_policy :: "string \<Rightarrow> policy_engine \<Rightarrow> bool \<times> policy_engine" where
  "remove_policy rule_id e =
     (let ps = filter (\<lambda>p. r_id p \<noteq> rule_id) (pe_policies e) in
      (length ps < length (pe_policies e), e\<lparr>pe_policies := ps\<rparr>))"

definition set_cooldown :: "int \<Rightarrow> policy_engine \<Rightarrow> policy_engine" where
  "set_cooldown seconds e = e\<lparr>pe_cooldown := max 1 seconds\<rparr>"

section \<open>Lemmas\<close>

text \<open>The key of a rule and a port determines both: a printed integer has no colon.\<close>

lemma trigger_key_inj: "trigger_key i p = trigger_key j q \<longleftrightarrow> i = j \<and> p = q"
proof
  assume eq: "trigger_key i p = trigger_key j q"
  then have "last (split_on CHR '':'' (trigger_key i p)) = last (split_on CHR '':'' (trigger_key j q))" by simp
  then have "p = q" by (simp add: trigger_key_def split_on_last show_int_no_colon)
  with eq show "i = j \<and> p = q" by (simp add: trigger_key_def)
qed simp

text \<open>The first rule of the list that is enabled, not cooling down and satisfied.\<close>

definition ready :: "policy_engine \<Rightarrow> time \<Rightarrow> port_snapshot \<Rightarrow> policy_rule \<Rightarrow> bool" where
  "ready e now s r \<longleftrightarrow> r_enabled r \<and> \<not> cooling e now r (s_port s) \<and> conditions r s"

lemma eval_rules_first:
  "eval_rules clk k rs s e =
     (case List.find (\<lambda>i. ready e (clk (k + i)) s (rs ! i)) [0..<length rs] of
        None \<Rightarrow> (None, e)
      | Some i \<Rightarrow> (Some (policy_event (rs ! i) s),
          e\<lparr>pe_last := dset (pe_last e) (trigger_key (r_id (rs ! i)) (s_port s)) (clk (k + i))\<rparr>))"
proof (induction rs arbitrary: k)
  case Nil
  then show ?case by simp
next
  case (Cons r rs)
  have shift: "List.find P (map Suc xs) = map_option Suc (List.find (\<lambda>i. P (Suc i)) xs)" for P xs
    by (induction xs) auto
  have "[0..<length (r # rs)] = 0 # map Suc [0..<length rs]"
    by (simp add: map_Suc_upt upt_conv_Cons del: upt_Suc)
  then show ?case
    using Cons.IH [of "Suc k"]
    by (simp add: shift ready_def conditions_def split: option.splits del: upt_Suc)
qed

lemma find_Some_upt: "List.find P [0..<n] = Some i \<longleftrightarrow> i < n \<and> P i \<and> (\<forall>j < i. \<not> P j)"
proof -
  have "i < n \<and> P i \<and> (\<forall>j < i. \<not> P j) \<longleftrightarrow>
      (\<exists>m < length [0..<n]. P ([0..<n] ! m) \<and> i = [0..<n] ! m \<and> (\<forall>j < m. \<not> P ([0..<n] ! j)))"
    by auto
  then show ?thesis by (simp add: find_Some_iff)
qed

lemma evaluate_Some: "evaluate clk s e = (Some ev, e') \<longleftrightarrow>
    (\<exists>i < length (pe_policies e). ready e (clk i) s (pe_policies e ! i)
       \<and> (\<forall>j < i. \<not> ready e (clk j) s (pe_policies e ! j))
       \<and> ev = policy_event (pe_policies e ! i) s
       \<and> e' = e\<lparr>pe_last := dset (pe_last e) (trigger_key (r_id (pe_policies e ! i)) (s_port s)) (clk i)\<rparr>)"
proof -
  have "evaluate clk s e = (Some ev, e') \<longleftrightarrow>
      (\<exists>i. List.find (\<lambda>i. ready e (clk i) s (pe_policies e ! i)) [0..<length (pe_policies e)] = Some i
        \<and> ev = policy_event (pe_policies e ! i) s
        \<and> e' = e\<lparr>pe_last := dset (pe_last e) (trigger_key (r_id (pe_policies e ! i)) (s_port s)) (clk i)\<rparr>)"
    unfolding evaluate_def eval_rules_first by (auto split: option.splits)
  then show ?thesis unfolding find_Some_upt by (simp only: conj_assoc)
qed

lemma evaluate_None: "evaluate clk s e = (None, e') \<longleftrightarrow>
    e' = e \<and> (\<forall>i < length (pe_policies e). \<not> ready e (clk i) s (pe_policies e ! i))"
  unfolding evaluate_def eval_rules_first
  by (auto simp: find_Some_upt find_None_iff split: option.splits)

lemma evaluate_frame: "evaluate clk s e = (r, e') \<Longrightarrow> pe_policies e' = pe_policies e \<and> pe_cooldown e' = pe_cooldown e"
  by (cases r) (auto simp: evaluate_None evaluate_Some)

text \<open>A run of evaluations, each with its own clock readings and snapshot.\<close>

fun run_evals :: "((nat \<Rightarrow> time) \<times> port_snapshot) list \<Rightarrow> policy_engine
     \<Rightarrow> policy_evaluated option list \<times> policy_engine" where
  "run_evals [] e = ([], e)"
| "run_evals ((clk, s) # xs) e =
     (case evaluate clk s e of (r, e') \<Rightarrow> (case run_evals xs e' of (rs, e'') \<Rightarrow> (r # rs, e'')))"

text \<open>While a key cools down it is neither triggered nor overwritten.\<close>

lemma cooling_kept:
  assumes last: "dget (pe_last e) (trigger_key rid port) = Some t"
    and clk: "\<forall>i. clk i < t + of_int (pe_cooldown e)"
    and ev: "evaluate clk s e = (r, e')"
  shows "dget (pe_last e') (trigger_key rid port) = Some t
    \<and> (\<forall>ev. r = Some ev \<longrightarrow> \<not> (pv_id ev = rid \<and> pv_port ev = port))"
proof (cases r)
  case None
  with ev last show ?thesis by (simp add: evaluate_None)
next
  case (Some x)
  with ev obtain i where i: "ready e (clk i) s (pe_policies e ! i)" "x = policy_event (pe_policies e ! i) s"
    "e' = e\<lparr>pe_last := dset (pe_last e) (trigger_key (r_id (pe_policies e ! i)) (s_port s)) (clk i)\<rparr>"
    by (auto simp: evaluate_Some)
  have "clk i - t < of_int (pe_cooldown e)" using clk by (simp add: algebra_simps)
  then have "\<not> (r_id (pe_policies e ! i) = rid \<and> s_port s = port)"
    using i(1) last by (auto simp: ready_def cooling_def)
  with i Some last show ?thesis
    by (auto simp: dict_simps trigger_key_inj policy_event_def)
qed

lemma run_evals_cooling:
  assumes "dget (pe_last e) (trigger_key rid port) = Some t"
    and "\<forall>(clk, s) \<in> set xs. \<forall>i. clk i < t + of_int (pe_cooldown e)"
  shows "\<forall>ev. Some ev \<in> set (fst (run_evals xs e)) \<longrightarrow> \<not> (pv_id ev = rid \<and> pv_port ev = port)"
  using assms
proof (induction xs arbitrary: e)
  case (Cons x xs)
  obtain clk s where x: "x = (clk, s)" by (cases x)
  obtain r e' where ev: "evaluate clk s e = (r, e')" by fastforce
  from Cons.prems x have "\<forall>i. clk i < t + of_int (pe_cooldown e)" by simp
  from cooling_kept [OF Cons.prems(1) this ev] have k: "dget (pe_last e') (trigger_key rid port) = Some t"
    and r: "\<forall>ev. r = Some ev \<longrightarrow> \<not> (pv_id ev = rid \<and> pv_port ev = port)" by auto
  have "\<forall>(clk, s) \<in> set xs. \<forall>i. clk i < t + of_int (pe_cooldown e')"
    using Cons.prems(2) evaluate_frame [OF ev] by simp
  from Cons.IH [OF k this] r x ev show ?case by (auto split: prod.splits)
qed simp

section \<open>Properties\<close>

text \<open>
  C18: which rule fires. \<open>evaluate\<close> reports exactly the first rule of the list that is
  enabled, out of its cooldown for this port and whose risk, traffic and application conditions
  the snapshot meets; it records the trigger time of that rule and port and nothing else, and
  without such a rule it changes nothing.
\<close>

theorem first_ready_rule_fires:
  "(evaluate clk s e = (Some ev, e') \<longleftrightarrow>
    (\<exists>i < length (pe_policies e). ready e (clk i) s (pe_policies e ! i)
       \<and> (\<forall>j < i. \<not> ready e (clk j) s (pe_policies e ! j))
       \<and> ev = policy_event (pe_policies e ! i) s
       \<and> e' = e\<lparr>pe_last := dset (pe_last e) (trigger_key (r_id (pe_policies e ! i)) (s_port s)) (clk i)\<rparr>))
    \<and> (evaluate clk s e = (None, e') \<longleftrightarrow>
      e' = e \<and> (\<forall>i < length (pe_policies e). \<not> ready e (clk i) s (pe_policies e ! i)))"
  by (rule conjI [OF evaluate_Some evaluate_None])

definition sample_rule :: policy_rule where
  "sample_rule = \<lparr>r_id = ''exfil'', r_name = ''High upload'', r_description = [], r_enabled = True, r_min_kb_s = 100,
     r_min_risk = 0, r_target_app = None, r_exclude_apps = [''Chrome''], r_action = ''block''\<rparr>"

definition sample_engine :: policy_engine where
  "sample_engine = add_policy sample_rule new_policy_engine"

definition sample_snapshot :: port_snapshot where
  "sample_snapshot = make_snapshot 8080 (150, 0) 42 ''nc'' 0 1000 0 ''8.8.8.8'' default_meta"

lemma sample_fires: "evaluate (\<lambda>_. 1000) sample_snapshot sample_engine =
    (Some (policy_event sample_rule sample_snapshot),
     sample_engine\<lparr>pe_last := [(trigger_key ''exfil'' 8080, 1000)]\<rparr>)"
  by (simp add: evaluate_def sample_engine_def add_policy_def new_policy_engine_def sample_rule_def
      sample_snapshot_def make_snapshot_def default_meta_def cooling_def matches_risk_def matches_traffic_def
      matches_app_def str_lower_def lower_char_def)

theorem first_ready_rule_fires_witness:
  "\<exists>i < length (pe_policies sample_engine). ready sample_engine 1000 sample_snapshot (pe_policies sample_engine ! i)"
  using first_ready_rule_fires [of "\<lambda>_. 1000" sample_snapshot sample_engine] sample_fires by blast

text \<open>
  C19: the cooldown. When a rule has triggered on a port, at the clock reading made for that rule,
  no later evaluation whose own readings lie less than the cooldown after it triggers a rule of the
  same identifier on the same port again, whatever snapshots are evaluated in between and however
  many other rules or ports trigger: the key of a rule and a port is never overwritten by another
  pair's. The clock is read anew for every rule, and the readings of one evaluation may differ.
\<close>

theorem cooldown_prevents_retrigger:
  assumes "evaluate clk s e = (Some ev, e1)"
  shows "\<exists>i < length (pe_policies e). ready e (clk i) s (pe_policies e ! i) \<and> ev = policy_event (pe_policies e ! i) s
    \<and> (\<forall>xs. (\<forall>(clk', s') \<in> set xs. \<forall>j. clk' j < clk i + of_int (pe_cooldown e)) \<longrightarrow>
         (\<forall>ev'. Some ev' \<in> set (fst (run_evals xs e1)) \<longrightarrow> \<not> (pv_id ev' = pv_id ev \<and> pv_port ev' = pv_port ev)))"
proof -
  from assms obtain i where i: "i < length (pe_policies e)" "ready e (clk i) s (pe_policies e ! i)"
    and ev: "ev = policy_event (pe_policies e ! i) s"
    and e1: "e1 = e\<lparr>pe_last := dset (pe_last e) (trigger_key (r_id (pe_policies e ! i)) (s_port s)) (clk i)\<rparr>"
    by (auto simp: evaluate_Some)
  have k: "dget (pe_last e1) (trigger_key (pv_id ev) (pv_port ev)) = Some (clk i)"
    by (simp add: e1 ev policy_event_def dict_simps)
  have c: "pe_cooldown e1 = pe_cooldown e" by (simp add: e1)
  show ?thesis
    using i ev run_evals_cooling [OF k, unfolded c] by (intro exI [of _ i]) blast
qed

theorem cooldown_prevents_retrigger_witness:
  "fst (run_evals [(\<lambda>_. 1059, sample_snapshot)] (snd (evaluate (\<lambda>_. 1000) sample_snapshot sample_engine)))
     \<noteq> [Some (policy_event sample_rule sample_snapshot)]"
proof
  let ?r = "fst (run_evals [(\<lambda>_. 1059, sample_snapshot)]
    (sample_engine\<lparr>pe_last := [(trigger_key ''exfil'' 8080, 1000)]\<rparr>))"
  assume "fst (run_evals [(\<lambda>_. 1059, sample_snapshot)] (snd (evaluate (\<lambda>_. 1000) sample_snapshot sample_engine)))
     = [Some (policy_event sample_rule sample_snapshot)]"
  then have "Some (policy_event sample_rule sample_snapshot) \<in> set ?r"
    by (simp add: sample_fires)
  moreover have "\<forall>(clk', s') \<in> set [(\<lambda>_ :: nat. 1059 :: time, sample_snapshot)]. \<forall>i. clk' i < 1000 + of_int (pe_cooldown sample_engine)"
    by (simp add: sample_engine_def add_policy_def new_policy_engine_def)
  ultimately show False
    using cooldown_prevents_retrigger [OF sample_fires] by blast
qed

text \<open>
  Adding and removing rules. \<open>remove_policy\<close> tells whether a rule of that identifier was
  present; afterwards no rule of that identifier fires, and every event it could not have caused
  is unaffected: the remaining rules keep their order.
\<close>

theorem removed_rule_never_fires:
  assumes "remove_policy rid e = (found, e1)"
  shows "(found \<longleftrightarrow> (\<exists>r \<in> set (pe_policies e). r_id r = rid))
    \<and> (\<forall>clk s ev e2. evaluate clk s e1 = (Some ev, e2) \<longrightarrow> pv_id ev \<noteq> rid)
    \<and> snd (remove_policy rid (add_policy r e)) = (if r_id r = rid then e1 else add_policy r e1)"
proof -
  have e1: "e1 = e\<lparr>pe_policies := filter (\<lambda>p. r_id p \<noteq> rid) (pe_policies e)\<rparr>"
    and f: "found = (length (filter (\<lambda>p. r_id p \<noteq> rid) (pe_policies e)) < length (pe_policies e))"
    using assms by (auto simp: remove_policy_def Let_def)
  have "found \<longleftrightarrow> (\<exists>r \<in> set (pe_policies e). r_id r = rid)"
    unfolding f using length_filter_less [of _ "pe_policies e" "\<lambda>p. r_id p \<noteq> rid"]
    by (metis (mono_tags, lifting) filter_True nat_less_le)
  moreover have "pv_id ev \<noteq> rid" if ev: "evaluate clk s e1 = (Some ev, e2)" for clk s ev e2
  proof -
    from ev obtain i where "i < length (pe_policies e1)" and "ev = policy_event (pe_policies e1 ! i) s"
      by (auto simp: evaluate_Some)
    then show ?thesis using nth_mem [of i "pe_policies e1"] by (auto simp: e1 policy_event_def)
  qed
  ultimately show ?thesis by (auto simp: remove_policy_def add_policy_def Let_def e1)
qed

theorem removed_rule_never_fires_witness:
  "fst (remove_policy ''exfil'' sample_engine)
   \<and> fst (evaluate (\<lambda>_. 1000) sample_snapshot (snd (remove_policy ''exfil'' sample_engine)))
       \<noteq> Some (policy_event sample_rule sample_snapshot)"
proof -
  obtain found e1 where r: "remove_policy ''exfil'' sample_engine = (found, e1)" by fastforce
  obtain res e2 where v: "evaluate (\<lambda>_. 1000) sample_snapshot e1 = (res, e2)" by fastforce
  have "\<exists>r \<in> set (pe_policies sample_engine). r_id r = ''exfil''"
    by (simp add: sample_engine_def add_policy_def new_policy_engine_def sample_rule_def)
  moreover have "pv_id (policy_event sample_rule sample_snapshot) = ''exfil''"
    by (simp add: policy_event_def sample_rule_def)
  ultimately show ?thesis
    using removed_rule_never_fires [OF r, of sample_rule] r v by (metis fst_conv snd_conv)
qed

end
