(* ===== verification/Threat_Intel.thy ===== *)
theory Threat_Intel
  imports Net_Addr Interfaces
begin

text \<open>
  \<open>backend/core/threat_intel.py\<close>: the reputation set, the metadata cache with its time to
  live and its size limit, and the background fetches. The metadata service \<open>ipinfo.io\<close> is
  outside the repository: what a fetch brings back is an argument (\<open>fetch\<close>), as is
  \<open>float\<close> on the text of a coordinate.
\<close>

section \<open>State\<close>

definition MAX_CACHE_SIZE :: nat where "MAX_CACHE_SIZE = 10000"
definition CACHE_TTL :: time where "CACHE_TTL = 3600"

text \<open>\<open>ti_pending\<close> holds the jobs submitted to the executor and not finished yet.\<close>

record threat_intel =
  ti_malicious :: "string list"
  ti_cache :: "(string, meta) dict"
  ti_stamps :: "(string, time) dict"
  ti_pending :: "string list"

text \<open>\<open>__init__\<close> followed by \<open>_bootstrap_list\<close>, which empties the reputation set.\<close>

definition bootstrap_list :: "threat_intel \<Rightarrow> threat_intel" where
  "bootstrap_list s = s\<lparr>ti_malicious := []\<rparr>"

definition init_threat_intel :: threat_intel where
  "init_threat_intel =
     bootstrap_list \<lparr>ti_malicious = [], ti_cache = [], ti_stamps = [], ti_pending = []\<rparr>"

section \<open>Operations\<close>

definition is_malicious :: "threat_intel \<Rightarrow> string \<Rightarrow> bool" where
  "is_malicious s ip \<longleftrightarrow> ip \<in> set (ti_malicious s)"

definition get_risk_score :: "threat_intel \<Rightarrow> string \<Rightarrow> int" where
  "get_risk_score s ip = (if ip \<in> set (ti_malicious s) then 10 else 0)"

definition is_local :: "string \<Rightarrow> bool" where
  "is_local ip \<longleftrightarrow> ip = [] \<or> startswith ip ''127.'' \<or> startswith ip ''192.168.'' \<or> startswith ip ''10.''"

definition local_meta :: meta where
  "local_meta = \<lparr>m_org = ''Local Network'', m_country = ''LOCAL'', m_risk = 0, m_city = None, m_geo = None\<rparr>"

definition invalid_meta :: meta where
  "invalid_meta = \<lparr>m_org = ''Invalid IP'', m_country = ''??'', m_risk = 0, m_city = None, m_geo = None\<rparr>"

definition resolving_meta :: meta where
  "resolving_meta =
     \<lparr>m_org = ''Resolving...'', m_country = ''??'', m_risk = 0, m_city = None, m_geo = Some (0, 0)\<rparr>"

text \<open>The first critical section: a fresh entry is returned, an expired one is dropped.\<close>

definition check_cache :: "time \<Rightarrow> string \<Rightarrow> threat_intel \<Rightarrow> meta option \<times> threat_intel" where
  "check_cache now ip s =
     (case dget (ti_cache s) ip of
        None \<Rightarrow> (None, s)
      | Some m \<Rightarrow>
          if now - (case dget (ti_stamps s) ip of Some t \<Rightarrow> t | None \<Rightarrow> 0) < CACHE_TTL
          then (Some m, s\<lparr>ti_cache := dmove_to_end (ti_cache s) ip\<rparr>)
          else (None, s\<lparr>ti_cache := ddel (ti_cache s) ip, ti_stamps := ddel (ti_stamps s) ip\<rparr>))"

text \<open>The second critical section: a placeholder, then the job is submitted.\<close>

definition mark_pending :: "time \<Rightarrow> string \<Rightarrow> threat_intel \<Rightarrow> threat_intel" where
  "mark_pending now ip s =
     s\<lparr>ti_cache := dset (ti_cache s) ip resolving_meta, ti_stamps := dset (ti_stamps s) ip now,
       ti_pending := ti_pending s @ [ip]\<rparr>"

definition get_ip_metadata :: "threat_intel meta_op" where
  "get_ip_metadata now now' ip s =
     (if is_local ip then (local_meta, s)
      else if \<not> ip_address_ok ip then (invalid_meta, s)
      else case check_cache now ip s of
             (Some m, s') \<Rightarrow> (m, s')
           | (None, s') \<Rightarrow> (resolving_meta, mark_pending now' ip s'))"

text \<open>
  What the request brought back: an exception or a status other than 200 (\<open>FetchFailed\<close>),
  or the fields of the JSON document, each possibly absent.
\<close>

record ipinfo =
  i_loc :: "string option"
  i_org :: "string option"
  i_city :: "string option"
  i_country :: "string option"

datatype fetch = FetchFailed | FetchOk ipinfo

definition or_else :: "'a \<Rightarrow> 'a option \<Rightarrow> 'a" where
  "or_else d x = (case x of Some v \<Rightarrow> v | None \<Rightarrow> d)"

definition parse_loc :: "(string \<Rightarrow> rat option) \<Rightarrow> string \<Rightarrow> rat \<times> rat" where
  "parse_loc py_float loc =
     (if CHR '','' \<in> set loc then
        let lat_part = takeWhile (\<lambda>c. c \<noteq> CHR '','') loc; lon_part = drop (Suc (length lat_part)) loc in
        (case py_float (str_strip lat_part) of
           None \<Rightarrow> (0, 0)
         | Some lat \<Rightarrow> (case py_float (str_strip lon_part) of None \<Rightarrow> (lat, 0) | Some lon \<Rightarrow> (lat, lon)))
      else (0, 0))"

definition fetched_meta :: "(string \<Rightarrow> rat option) \<Rightarrow> threat_intel \<Rightarrow> string \<Rightarrow> ipinfo \<Rightarrow> meta" where
  "fetched_meta py_float s ip data =
     \<lparr>m_org = or_else ''Unknown Provider'' (i_org data), m_country = or_else ''??'' (i_country data),
      m_risk = (if is_malicious s ip then 10 else 0), m_city = Some (or_else ''Unknown'' (i_city data)),
      m_geo = Some (parse_loc py_float (or_else [] (i_loc data)))\<rparr>"

definition evict_oldest :: "threat_intel \<Rightarrow> threat_intel" where
  "evict_oldest s =
     (if MAX_CACHE_SIZE < length (ti_cache s)
      then s\<lparr>ti_cache := tl (ti_cache s), ti_stamps := ddel (ti_stamps s) (fst (hd (ti_cache s)))\<rparr>
      else s)"

text \<open>One run of the job \<open>_fetch_background\<close> for an address.\<close>

definition fetch_background ::
  "(string \<Rightarrow> rat option) \<Rightarrow> time \<Rightarrow> string \<Rightarrow> fetch \<Rightarrow> threat_intel \<Rightarrow> threat_intel" where
  "fetch_background py_float now ip res s =
     (let s' = s\<lparr>ti_pending := remove1 ip (ti_pending s)\<rparr> in
      case res of
        FetchFailed \<Rightarrow> s'
      | FetchOk data \<Rightarrow>
          evict_oldest (s'\<lparr>ti_cache := dset (ti_cache s) ip (fetched_meta py_float s ip data),
                           ti_stamps := dset (ti_stamps s) ip now\<rparr>))"

section \<open>Invariant\<close>

text \<open>
  The cache and the time stamps have the same keys, each once, every cached risk lies in
  \<open>0..10\<close>.
\<close>

definition ti_ok :: "threat_intel \<Rightarrow> bool" where
  "ti_ok s \<longleftrightarrow> dict_ok (ti_cache s) \<and> dict_ok (ti_stamps s)
     \<and> set (dkeys (ti_stamps s)) = set (dkeys (ti_cache s))
     \<and> (\<forall>ip m. dget (ti_cache s) ip = Some m \<longrightarrow> m_risk m \<in> {0..10})"

lemma ti_ok_init: "ti_ok init_threat_intel"
  by (simp add: ti_ok_def init_threat_intel_def bootstrap_list_def)

lemma ti_ok_pending [simp]: "ti_ok (s\<lparr>ti_pending := x\<rparr>) = ti_ok s"
  by (simp add: ti_ok_def)

lemma ti_ok_check: "ti_ok s \<Longrightarrow> ti_ok (snd (check_cache now ip s))"
  by (auto simp: ti_ok_def check_cache_def dict_simps split: option.splits)

lemma ti_ok_mark: "ti_ok s \<Longrightarrow> ti_ok (mark_pending now ip s)"
  by (auto simp: ti_ok_def mark_pending_def dict_simps resolving_meta_def)

lemma ti_ok_put: "ti_ok s \<Longrightarrow> m_risk m \<in> {0..10} \<Longrightarrow>
    ti_ok (s\<lparr>ti_cache := dset (ti_cache s) ip m, ti_stamps := dset (ti_stamps s) ip now\<rparr>)"
  by (auto simp: ti_ok_def dict_simps)

lemma ti_ok_evict: "ti_ok s \<Longrightarrow> ti_ok (evict_oldest s)"
proof (cases "ti_cache s")
  case (Cons x d)
  obtain k v where x: "x = (k, v)" by (cases x)
  assume ok: "ti_ok s"
  then have "k \<notin> fst ` set d" and "dict_ok d"
    using Cons x by (auto simp: ti_ok_def dict_ok_def)
  moreover have "m_risk m \<in> {0..10}" if d: "dget d ip = Some m" for ip m
  proof -
    from d \<open>k \<notin> fst ` set d\<close> have "dget (ti_cache s) ip = Some m"
      using Cons x by (metis dmem_def dmem_iff map_of_Cons_code(2) option.distinct(1))
    with ok show ?thesis by (simp add: ti_ok_def)
  qed
  ultimately show ?thesis
    using ok Cons x by (simp add: ti_ok_def evict_oldest_def dict_simps)
qed (simp add: evict_oldest_def)

lemma ti_ok_fetch: "ti_ok s \<Longrightarrow> ti_ok (fetch_background py_float now ip res s)"
proof (cases res)
  case (FetchOk data)
  assume "ti_ok s"
  then have "ti_ok (s\<lparr>ti_pending := remove1 ip (ti_pending s)\<rparr>)" by simp
  from ti_ok_put [OF this] have "ti_ok (s\<lparr>ti_pending := remove1 ip (ti_pending s),
      ti_cache := dset (ti_cache s) ip (fetched_meta py_float s ip data),
      ti_stamps := dset (ti_stamps s) ip now\<rparr>)"
    by (simp add: fetched_meta_def)
  from ti_ok_evict [OF this] FetchOk show ?thesis by (simp add: fetch_background_def Let_def)
qed (simp add: fetch_background_def)

lemma ti_ok_get: "ti_ok s \<Longrightarrow> ti_ok (snd (get_ip_metadata now now' ip s))"
  using ti_ok_check [of s now ip]
  by (auto simp: get_ip_metadata_def ti_ok_mark split: prod.splits option.splits)

lemma malicious_get [simp]: "ti_malicious (snd (get_ip_metadata now now' ip s)) = ti_malicious s"
  by (auto simp: get_ip_metadata_def check_cache_def mark_pending_def split: option.splits)

lemma malicious_fetch [simp]: "ti_malicious (fetch_background py_float now ip res s) = ti_malicious s"
  by (auto simp: fetch_background_def evict_oldest_def Let_def split: fetch.splits)

lemma get_meta_risk: "ti_ok s \<Longrightarrow> m_risk (fst (get_ip_metadata now now' ip s)) \<in> {0..10}"
  by (auto simp: get_ip_metadata_def check_cache_def ti_ok_def local_meta_def invalid_meta_def
      resolving_meta_def split: option.splits)

text \<open>The cache is the threat-intelligence provider of the accumulator and of the queries.\<close>

interpretation ti: threat_provider get_ip_metadata get_risk_score ti_ok
  proof unfold_locales
  show "get_risk_score s ip \<in> {0..10}" for s ip
    by (simp add: get_risk_score_def)
qed (simp_all add: ti_ok_get get_meta_risk get_risk_score_def del: atLeastAtMost_iff)

section \<open>Runs\<close>

text \<open>Lookups and finished jobs in any order, from a fresh service.\<close>

inductive ti_reach :: "threat_intel \<Rightarrow> bool" where
  ti_start: "ti_reach init_threat_intel"
| ti_lookup: "ti_reach s \<Longrightarrow> ti_reach (snd (get_ip_metadata now now' ip s))"
| ti_fetched: "ti_reach s \<Longrightarrow> ip \<in> set (ti_pending s) \<Longrightarrow>
     ti_reach (fetch_background py_float now ip res s)"

lemma reach_malicious: "ti_reach s \<Longrightarrow> ti_malicious s = []"
  by (induction rule: ti_reach.induct) (simp_all add: init_threat_intel_def bootstrap_list_def)

definition risk_free :: "threat_intel \<Rightarrow> bool" where
  "risk_free s \<longleftrightarrow> (\<forall>x \<in> set (ti_cache s). m_risk (snd x) = 0)"

lemma risk_free_sub: "risk_free s \<Longrightarrow> set (ti_cache s') \<subseteq> set (ti_cache s) \<Longrightarrow> risk_free s'"
  by (auto simp: risk_free_def)

lemma risk_free_put: "risk_free s \<Longrightarrow> m_risk m = 0 \<Longrightarrow> ti_cache s' = dset (ti_cache s) ip m \<Longrightarrow> risk_free s'"
  using set_dset_subset [of ip m "ti_cache s"] by (fastforce simp: risk_free_def)

lemma risk_free_check: "risk_free s \<Longrightarrow> risk_free (snd (check_cache now ip s))"
  by (erule risk_free_sub)
     (auto simp: check_cache_def dest: dict_subsets [THEN subsetD] split: option.splits)

lemma risk_free_get: "risk_free s \<Longrightarrow> risk_free (snd (get_ip_metadata now now' ip s))
    \<and> m_risk (fst (get_ip_metadata now now' ip s)) = 0"
proof -
  assume ok: "risk_free s"
  have "m_risk m = 0" if "fst (check_cache now ip s) = Some m" for m
    using ok that map_of_SomeD [of "ti_cache s" ip m]
    by (auto simp: check_cache_def risk_free_def split: option.splits if_splits)
  moreover have "risk_free (mark_pending t ip (snd (check_cache now ip s)))" for t
    by (rule risk_free_put [OF risk_free_check [OF ok, of now ip], of resolving_meta _ ip])
       (simp_all add: mark_pending_def resolving_meta_def)
  ultimately show ?thesis
    using ok risk_free_check [OF ok, of now ip]
    by (auto simp: get_ip_metadata_def local_meta_def invalid_meta_def resolving_meta_def
        split: prod.splits option.splits)
qed

lemma risk_free_evict: "risk_free s \<Longrightarrow> risk_free (evict_oldest s)"
  by (auto simp: risk_free_def evict_oldest_def dest: list.set_sel(2) [rotated])

lemma reach_risk_free: "ti_reach s \<Longrightarrow> risk_free s"
proof (induction rule: ti_reach.induct)
  case ti_start
  then show ?case by (simp add: risk_free_def init_threat_intel_def bootstrap_list_def)
next
  case (ti_lookup s now now' ip)
  then show ?case using risk_free_get by blast
next
  case (ti_fetched s ip py_float now res)
  then have "m_risk (fetched_meta py_float s ip data) = 0" for data
    by (simp add: fetched_meta_def is_malicious_def reach_malicious)
  then have "risk_free (s\<lparr>ti_pending := p, ti_cache := dset (ti_cache s) ip (fetched_meta py_float s ip data),
      ti_stamps := t\<rparr>)" for p t data
    by (rule risk_free_put [OF ti_fetched(3)]) simp
  moreover have "risk_free (s\<lparr>ti_pending := p\<rparr>)" for p
    using ti_fetched(3) by (simp add: risk_free_def)
  ultimately show ?case
    by (cases res) (simp_all add: fetch_background_def Let_def risk_free_evict)
qed

lemma get_metadata_simps:
  assumes "\<not> is_local ip" and "ip_address_ok ip"
  shows "get_ip_metadata now now' ip s =
     (case check_cache now ip s of
        (Some m, s') \<Rightarrow> (m, s') | (None, s') \<Rightarrow> (resolving_meta, mark_pending now' ip s'))"
  using assms by (simp add: get_ip_metadata_def)

lemma length_check: "ti_ok s \<Longrightarrow> length (ti_cache (snd (check_cache now ip s))) \<le> length (ti_cache s)"
  using length_ddel [of "ti_cache s" ip]
  by (auto simp: check_cache_def ti_ok_def length_dmove_to_end dmem_def split: option.splits)

lemma length_evict: "length (ti_cache s) \<le> Suc MAX_CACHE_SIZE \<Longrightarrow>
    length (ti_cache (evict_oldest s)) \<le> MAX_CACHE_SIZE"
  by (auto simp: evict_oldest_def)

text \<open>A round: one lookup and, when it submitted a job, that job with an answer.\<close>

definition lookup_round ::
  "(string \<Rightarrow> rat option) \<Rightarrow> time \<times> time \<times> time \<times> string \<times> fetch \<Rightarrow> threat_intel \<Rightarrow> threat_intel" where
  "lookup_round py_float q s =
     (case q of (now, now', t, ip, res) \<Rightarrow>
        let s' = snd (get_ip_metadata now now' ip s) in
        if length (ti_pending s) < length (ti_pending s') then fetch_background py_float t ip res s' else s')"

lemma check_cache_frame: "check_cache now ip s = (r, s') \<Longrightarrow>
    ti_pending s' = ti_pending s \<and> (ti_ok s \<longrightarrow> length (ti_cache s') \<le> length (ti_cache s))"
  using length_check [of s now ip] by (auto simp: check_cache_def split: option.splits if_splits)

lemma pending_get: "ti_pending (snd (get_ip_metadata now now' ip s)) = ti_pending s
    \<or> ti_pending (snd (get_ip_metadata now now' ip s)) = ti_pending s @ [ip]"
  by (auto simp: get_ip_metadata_def mark_pending_def dest: check_cache_frame
      split: prod.splits option.splits)

lemma lookup_round_ok: "ti_ok s \<Longrightarrow> ti_ok (lookup_round py_float q s)"
  by (auto simp: lookup_round_def Let_def ti_ok_get ti_ok_fetch split: prod.splits)

lemma length_get: "ti_ok s \<Longrightarrow> length (ti_cache (snd (get_ip_metadata now now' ip s))) \<le> Suc (length (ti_cache s))
    \<and> (ti_pending (snd (get_ip_metadata now now' ip s)) = ti_pending s \<longrightarrow>
        length (ti_cache (snd (get_ip_metadata now now' ip s))) \<le> length (ti_cache s))
    \<and> (ti_pending (snd (get_ip_metadata now now' ip s)) \<noteq> ti_pending s \<longrightarrow>
        dmem ip (ti_cache (snd (get_ip_metadata now now' ip s))))"
  by (auto simp: get_ip_metadata_def mark_pending_def length_dset dmem_iff dict_simps
      dest: check_cache_frame split: prod.splits option.splits)

lemma lookup_round_bound:
  assumes ok: "ti_ok s" and le: "length (ti_cache s) \<le> MAX_CACHE_SIZE"
  shows "length (ti_cache (lookup_round py_float (now, now', t, ip, FetchOk data) s)) \<le> MAX_CACHE_SIZE"
proof -
  let ?s = "snd (get_ip_metadata now now' ip s)"
  note len = length_get [OF ok, of now now' ip]
  show ?thesis
  proof (cases "ti_pending ?s = ti_pending s")
    case True
    with len le show ?thesis by (simp add: lookup_round_def)
  next
    case False
    then have "ti_pending ?s = ti_pending s @ [ip]" using pending_get [of now now' ip s] by simp
    moreover have "length (dset (ti_cache ?s) ip m) \<le> Suc MAX_CACHE_SIZE" for m
      using len le False by (simp add: length_dset)
    ultimately show ?thesis
      by (auto simp: lookup_round_def fetch_background_def Let_def intro!: length_evict)
  qed
qed

section \<open>Addresses that are valid and not local\<close>

text \<open>The address \<open>11.0.a.b\<close> for \<open>n = 256 a + b\<close>: as many public addresses as a run needs.\<close>

definition public_ip :: "nat \<Rightarrow> string" where
  "public_ip n = inet_ntoa [11, 0, word_of_nat (n div 256), word_of_nat (n mod 256)]"

lemma octet_ok_byte: "n < 256 \<Longrightarrow> octet_ok (show_nat n)"
  using length_show_nat [of n 2] hd_show_nat [of n] str_isdigit_show_nat [of n] parse_show_nat [of n]
  by (cases "n = 0") (auto simp: octet_ok_def)

lemma split_show_nat: "split_on CHR ''.'' (show_nat n) = [show_nat n]"
  by (rule split_on_none [OF digit_not_dot [OF show_nat_digits]])

lemma ipv4_ok_ntoa: "ipv4_ok (inet_ntoa [a, b, c, d])"
proof -
  have "unat (x :: byte) < 256" for x using unsigned_less [of x] by simp
  then show ?thesis
    by (simp add: ipv4_ok_def Let_def inet_ntoa_def split_on_append split_show_nat octet_ok_byte)
qed

lemma public_ip_valid: "ip_address_ok (public_ip n)"
  by (simp add: ip_address_ok_def public_ip_def ipv4_ok_ntoa)

lemma public_ip_not_local: "\<not> is_local (public_ip n)"
proof -
  have "show_nat 11 = ''11''" and "show_nat 0 = ''0''" by code_simp+
  then show ?thesis by (simp add: is_local_def public_ip_def inet_ntoa_def)
qed

lemma public_ip_inj: "m < 65536 \<Longrightarrow> n < 65536 \<Longrightarrow> public_ip m = public_ip n \<Longrightarrow> m = n"
proof -
  assume m: "m < 65536" and n: "n < 65536" and eq: "public_ip m = public_ip n"
  let ?b = "\<lambda>n. [11, 0, word_of_nat (n div 256), word_of_nat (n mod 256)] :: byte list"
  have "inet_aton (public_ip m) = Some (?b m)" and "inet_aton (public_ip n) = Some (?b n)"
    by (simp_all add: public_ip_def inet_aton_ntoa)
  with eq have "(word_of_nat (m div 256) :: byte) = word_of_nat (n div 256)"
    and "(word_of_nat (m mod 256) :: byte) = word_of_nat (n mod 256)" by simp_all
  then have "unat (word_of_nat (m div 256) :: byte) = unat (word_of_nat (n div 256) :: byte)"
    and "unat (word_of_nat (m mod 256) :: byte) = unat (word_of_nat (n mod 256) :: byte)" by simp_all
  with m n have "m div 256 = n div 256" and "m mod 256 = n mod 256"
    by (simp_all add: unat_of_nat)
  then show "m = n" by (metis div_mult_mod_eq)
qed

section \<open>Properties\<close>

text \<open>
  C32: a metadata lookup of a public address. A cached entry younger than the time to live is
  returned unchanged, nothing is fetched, no entry changes and the address becomes the most
  recently used one; in every other case the placeholder is returned and stored with the
  current time, exactly one fetch job is submitted, and no other address is touched: the entries
  and the time stamps of all others are what they were. The reputation set never changes.
\<close>

theorem metadata_lookup_spec:
  assumes ok: "ti_ok s" and pub: "\<not> is_local ip" "ip_address_ok ip"
    and get: "get_ip_metadata now now' ip s = (m, s')"
  shows "ti_malicious s' = ti_malicious s \<and> (if \<exists>c t. dget (ti_cache s) ip = Some c \<and> dget (ti_stamps s) ip = Some t \<and> now - t < CACHE_TTL
    then dget (ti_cache s) ip = Some m \<and> ti_pending s' = ti_pending s
      \<and> (\<forall>k. dget (ti_cache s') k = dget (ti_cache s) k) \<and> ti_stamps s' = ti_stamps s \<and> last (ti_cache s') = (ip, m)
    else m = resolving_meta \<and> ti_pending s' = ti_pending s @ [ip]
      \<and> dget (ti_cache s') ip = Some resolving_meta \<and> dget (ti_stamps s') ip = Some now'
      \<and> (\<forall>k. k \<noteq> ip \<longrightarrow> dget (ti_cache s') k = dget (ti_cache s) k \<and> dget (ti_stamps s') k = dget (ti_stamps s) k))"
proof -
  have dom: "dget (ti_cache s) ip \<noteq> None \<longleftrightarrow> dget (ti_stamps s) ip \<noteq> None"
  proof -
    have "dmem ip (ti_cache s) \<longleftrightarrow> dmem ip (ti_stamps s)"
      using ok by (simp add: ti_ok_def dmem_iff)
    then show ?thesis by (simp add: dmem_def)
  qed
  from get show ?thesis
    unfolding get_metadata_simps [OF pub]
  proof (cases "dget (ti_cache s) ip")
    case None
    with get dom show ?thesis
      by (auto simp: get_metadata_simps [OF pub] check_cache_def mark_pending_def dict_simps)
  next
    case (Some c)
    with dom obtain t where t: "dget (ti_stamps s) ip = Some t" by auto
    show ?thesis
    proof (cases "now - t < CACHE_TTL")
      case True
      with get Some t have "m = c" "s' = s\<lparr>ti_cache := dmove_to_end (ti_cache s) ip\<rparr>"
        by (simp_all add: get_metadata_simps [OF pub] check_cache_def)
      with True Some t show ?thesis
        by (simp add: dict_simps) (simp add: dmove_to_end_def)
    next
      case False
      with get Some t show ?thesis
        by (auto simp: get_metadata_simps [OF pub] check_cache_def mark_pending_def dict_simps)
    qed
  qed
qed

theorem metadata_lookup_spec_witness:
  "fst (get_ip_metadata 5 5 (public_ip 1) init_threat_intel) = resolving_meta
   \<and> ti_pending (snd (get_ip_metadata 5 5 (public_ip 1) init_threat_intel)) = [public_ip 1]"
  using metadata_lookup_spec [OF ti_ok_init public_ip_not_local [of 1] public_ip_valid [of 1], of 5 5,
      OF surjective_pairing]
  by (simp add: init_threat_intel_def bootstrap_list_def)

text \<open>
  No address is ever scored. The reputation set is emptied at start and nothing adds to it,
  so after any run of lookups and fetches every risk score is 0 and every returned metadata
  record has risk 0.
\<close>

theorem reputation_never_flags:
  assumes "ti_reach s"
  shows "get_risk_score s ip = 0 \<and> \<not> is_malicious s ip
    \<and> m_risk (fst (get_ip_metadata now now' ip' s)) = 0"
  using risk_free_get [OF reach_risk_free [OF assms]]
  by (simp add: get_risk_score_def is_malicious_def reach_malicious [OF assms])

theorem reputation_never_flags_witness:
  "get_risk_score (snd (get_ip_metadata 1 1 ''185.220.101.5'' init_threat_intel)) ''185.220.101.5'' = 0"
  using reputation_never_flags [OF ti_lookup [OF ti_start, of 1 1 "''185.220.101.5''"], of "''185.220.101.5''"]
  by simp

text \<open>
  While every submitted fetch is answered with a document before the next lookup, the
  metadata cache never holds more than \<open>MAX_CACHE_SIZE\<close> entries.
\<close>

theorem cache_bounded_when_answered:
  assumes "\<forall>q \<in> set qs. \<exists>now now' t ip data. q = (now, now', t, ip, FetchOk data)"
  shows "length (ti_cache (fold (lookup_round py_float) qs init_threat_intel)) \<le> MAX_CACHE_SIZE"
proof -
  have "ti_ok s \<and> length (ti_cache s) \<le> MAX_CACHE_SIZE \<Longrightarrow>
      length (ti_cache (fold (lookup_round py_float) qs s)) \<le> MAX_CACHE_SIZE" for s
    using assms
  proof (induction qs arbitrary: s)
    case Nil
    then show ?case by simp
  next
    case (Cons q qs)
    from Cons.prems(2) obtain now now' t ip data where q: "q = (now, now', t, ip, FetchOk data)" by auto
    from Cons.prems(1) have "ti_ok (lookup_round py_float q s)
        \<and> length (ti_cache (lookup_round py_float q s)) \<le> MAX_CACHE_SIZE"
      unfolding q by (simp add: lookup_round_ok lookup_round_bound)
    with Cons.IH Cons.prems(2) show ?case by simp
  qed
  then show ?thesis
    using ti_ok_init by (simp add: init_threat_intel_def bootstrap_list_def)
qed

theorem cache_bounded_when_answered_witness:
  "length (ti_cache (fold (lookup_round (\<lambda>_. None))
     [(1, 1, 2, ''8.8.8.8'', FetchOk \<lparr>i_loc = None, i_org = None, i_city = None, i_country = None\<rparr>)]
     init_threat_intel)) \<le> MAX_CACHE_SIZE"
  by (rule cache_bounded_when_answered) simp

text \<open>
  The limit is not enforced when fetches fail. The placeholder is stored without a size
  check and only a successful fetch evicts, so without connectivity (or over the service's
  quota) the cache grows with every new address: there is a run that ends with no job
  outstanding and any number of entries up to the 65536 addresses considered here, well past
  \<open>MAX_CACHE_SIZE\<close>.
\<close>

theorem cache_unbounded_when_fetches_fail:
  assumes "n \<le> 65536"
  shows "\<exists>s. ti_reach s \<and> ti_pending s = [] \<and> length (ti_cache s) = n"
proof -
  have "\<exists>s. ti_reach s \<and> ti_ok s \<and> ti_pending s = [] \<and> length (ti_cache s) = n
      \<and> fst ` set (ti_cache s) = public_ip ` {..<n}"
    using assms
  proof (induction n)
    case 0
    then show ?case
      using ti_start ti_ok_init by (auto simp: init_threat_intel_def bootstrap_list_def)
  next
    case (Suc n)
    then obtain s where s: "ti_reach s" "ti_ok s" "ti_pending s = []" "length (ti_cache s) = n"
      and keys: "fst ` set (ti_cache s) = public_ip ` {..<n}" by auto
    let ?t = "snd (get_ip_metadata 0 0 (public_ip n) s)"
    let ?u = "fetch_background (\<lambda>_. None) 0 (public_ip n) FetchFailed ?t"
    have "public_ip n \<noteq> public_ip x" if "x < n" for x
      using public_ip_inj [of n x] that Suc.prems by auto
    then have new: "\<not> dmem (public_ip n) (ti_cache s)"
      by (auto simp: dmem_iff keys)
    then have t: "?t = mark_pending 0 (public_ip n) s"
      by (simp add: get_metadata_simps public_ip_not_local public_ip_valid check_cache_def dmem_def)
    from s t have "ti_reach ?u"
      by (intro ti_fetched ti_lookup) (simp_all add: mark_pending_def)
    moreover from s have "ti_ok ?u" by (intro ti_ok_fetch ti_ok_get)
    moreover have "ti_pending ?u = []" and "length (ti_cache ?u) = Suc n"
      and "fst ` set (ti_cache ?u) = public_ip ` {..<Suc n}"
      unfolding t using s new keys
      by (simp_all add: fetch_background_def mark_pending_def length_dset dict_simps lessThan_Suc)
    ultimately show ?case by blast
  qed
  then show ?thesis by blast
qed

theorem cache_unbounded_when_fetches_fail_witness:
  "\<exists>s. ti_reach s \<and> ti_pending s = [] \<and> length (ti_cache s) = 50000 \<and> MAX_CACHE_SIZE < length (ti_cache s)"
  using cache_unbounded_when_fetches_fail [of 50000] by (auto simp: MAX_CACHE_SIZE_def)

text \<open>
  The placeholder does not prevent duplicate fetches of concurrent lookups. The check and
  the placeholder are two separate critical sections, so two threads that look up the same
  uncached address with the sections interleaved both submit a job for it.
\<close>

theorem concurrent_lookups_fetch_twice:
  assumes "dget (ti_cache s) ip = None"
  shows "fst (check_cache t1 ip s) = None \<and> fst (check_cache t2 ip (snd (check_cache t1 ip s))) = None
    \<and> ti_pending (mark_pending t4 ip (mark_pending t3 ip (snd (check_cache t2 ip (snd (check_cache t1 ip s))))))
        = ti_pending s @ [ip, ip]"
  using assms by (simp add: check_cache_def mark_pending_def)

theorem concurrent_lookups_fetch_twice_witness:
  "ti_pending (mark_pending 4 ''8.8.8.8'' (mark_pending 3 ''8.8.8.8''
     (snd (check_cache 2 ''8.8.8.8'' (snd (check_cache 1 ''8.8.8.8'' init_threat_intel)))))) = [''8.8.8.8'', ''8.8.8.8'']"
  using concurrent_lookups_fetch_twice [of init_threat_intel "''8.8.8.8''" 1 2 4 3]
  by (simp add: init_threat_intel_def bootstrap_list_def)

end
