(* ===== verification/Linux_Bridge.thy ===== *)
theory Linux_Bridge
  imports Os_Bridge
begin

text \<open>
  \<open>os_adapters/linux_bridge.py\<close>: firewall rules through \<open>iptables\<close>. The bridge itself keeps
  only what it detected at start; the rules live in the kernel, which the parameter \<open>run\<close>
  stands for. What the properties assume of \<open>iptables\<close> is the predicate \<open>iptables_ok\<close> below;
  a small simulator shows that it can hold.
\<close>

section \<open>The bridge\<close>

record linux_bridge =
  lx_system :: string
  lx_sudo :: bool
  lx_fw :: string

definition detect_firewall :: "(string \<Rightarrow> bool) \<Rightarrow> string" where
  "detect_firewall which =
     (if which ''iptables'' then ''iptables'' else if which ''nft'' then ''nft'' else ''iptables'')"

text \<open>\<open>euid\<close> is absent where \<open>os.geteuid\<close> is.\<close>

definition new_linux_bridge :: "string \<Rightarrow> int option \<Rightarrow> (string \<Rightarrow> bool) \<Rightarrow> linux_bridge" where
  "new_linux_bridge system euid which =
     \<lparr>lx_system = system, lx_sudo = (case euid of Some u \<Rightarrow> u \<noteq> 0 | None \<Rightarrow> True), lx_fw = detect_firewall which\<rparr>"

definition fw_cmd :: "linux_bridge \<Rightarrow> string list \<Rightarrow> string list" where
  "fw_cmd b args = (let cmd = [lx_fw b] @ args in if lx_sudo b then [''sudo''] @ cmd else cmd)"

definition lx_compatible :: "linux_bridge \<Rightarrow> bool" where
  "lx_compatible b \<longleftrightarrow> lx_system b = ''Linux''"

definition lx_elevated :: "int option \<Rightarrow> bool" where
  "lx_elevated = root_user"

definition block_comment :: "string \<Rightarrow> int \<Rightarrow> string \<Rightarrow> string" where
  "block_comment pre port proto = pre @ ''_Block_'' @ show_int port @ ''_'' @ proto"

definition rule_spec :: "string \<Rightarrow> int \<Rightarrow> string \<Rightarrow> string list" where
  "rule_spec pre port proto = [''-p'', proto, ''--dport'', show_int port, ''-j'', ''DROP'', ''-m'', ''comment'',
     ''--comment'', block_comment pre port proto]"

text \<open>Every exception inside the \<open>try\<close> leaves the method as \<open>FirewallRuleError\<close>.\<close>

definition lx_block_port :: "'k runner \<Rightarrow> linux_bridge \<Rightarrow> int \<Rightarrow> string \<Rightarrow> 'k \<Rightarrow> bool result \<times> 'k" where
  "lx_block_port run b port protocol k =
     (if \<not> lx_compatible b then (Inl FirewallRuleError, k)
      else if \<not> (1 \<le> port \<and> port \<le> 65535) then (Inl FirewallRuleError, k)
      else if str_lower protocol \<notin> {''tcp'', ''udp''} then (Inl FirewallRuleError, k)
      else
        let spec = rule_spec ''Vigilant'' port (str_lower protocol) in
        case run (fw_cmd b ([''-C'', ''INPUT''] @ spec)) k of
          (Inl _, k1) \<Rightarrow> (Inl FirewallRuleError, k1)
        | (Inr (rc, _), k1) \<Rightarrow>
            if rc = 0 then (Inr True, k1)
            else (case run (fw_cmd b ([''-I'', ''INPUT'', ''1''] @ spec)) k1 of
                    (Inl _, k2) \<Rightarrow> (Inl FirewallRuleError, k2)
                  | (Inr (rc', _), k2) \<Rightarrow> if rc' \<noteq> 0 then (Inl FirewallRuleError, k2) else (Inr True, k2)))"

definition unblock_specs :: "int \<Rightarrow> string list list" where
  "unblock_specs port = [rule_spec ''Vigilant'' port ''tcp'', rule_spec ''Sentinel'' port ''tcp'',
     rule_spec ''Vigilant'' port ''udp'', rule_spec ''Sentinel'' port ''udp'']"

definition lx_unblock_port :: "'k runner \<Rightarrow> linux_bridge \<Rightarrow> int \<Rightarrow> 'k \<Rightarrow> bool result \<times> 'k" where
  "lx_unblock_port run b port k =
     (if \<not> lx_compatible b then (Inr False, k)
      else (Inr True, fold (\<lambda>spec k. snd (run (fw_cmd b ([''-D'', ''INPUT''] @ spec)) k)) (unblock_specs port) k))"

definition is_ours :: "string \<Rightarrow> bool" where
  "is_ours line \<longleftrightarrow> contains line ''Vigilant_Block_'' \<or> contains line ''Sentinel_Block_''"

definition NL :: char where "NL = char_of (10 :: nat)"

definition lines_to_delete :: "string \<Rightarrow> nat list" where
  "lines_to_delete stdout =
     map (\<lambda>line. parse_nat (hd (str_words line)))
       (filter (\<lambda>line. is_ours line \<and> str_words line \<noteq> [] \<and> str_isdigit (hd (str_words line)))
         (split_on NL (str_strip stdout)))"

fun delete_lines :: "'k runner \<Rightarrow> linux_bridge \<Rightarrow> nat list \<Rightarrow> nat \<Rightarrow> 'k \<Rightarrow> nat result \<times> 'k" where
  "delete_lines run b [] removed k = (Inr removed, k)"
| "delete_lines run b (n # ns) removed k =
     (case run (fw_cmd b [''-D'', ''INPUT'', show_nat n]) k of
        (Inl _, k') \<Rightarrow> (Inl CleanupError, k')
      | (Inr (rc, _), k') \<Rightarrow> delete_lines run b ns (if rc = 0 then Suc removed else removed) k')"

definition lx_cleanup_all_rules :: "'k runner \<Rightarrow> linux_bridge \<Rightarrow> 'k \<Rightarrow> nat result \<times> 'k" where
  "lx_cleanup_all_rules run b k =
     (if \<not> lx_compatible b then (Inr 0, k)
      else case run (fw_cmd b [''-L'', ''INPUT'', ''-n'', ''--line-numbers'']) k of
             (Inl _, k1) \<Rightarrow> (Inl CleanupError, k1)
           | (Inr (rc, out), k1) \<Rightarrow>
               if rc \<noteq> 0 then (Inl CleanupError, k1)
               else delete_lines run b (rev (sort (lines_to_delete out))) 0 k1)"

definition PROTECTED_PIDS_LINUX :: "int set" where "PROTECTED_PIDS_LINUX = {0, 1, 2}"

definition lx_port_pid_map :: "(int \<Rightarrow> string result) \<Rightarrow> os_conn list result \<Rightarrow> port_map_row list result" where
  "lx_port_pid_map proc conns = psutil_port_map PROTECTED_PIDS_LINUX proc {} conns"

section \<open>The contract\<close>

lemma delete_lines_outcome: "delete_lines run b ns m k = (r, k') \<Longrightarrow> (\<exists>n. r = Inr n) \<or> r = Inl CleanupError"
  by (induction ns arbitrary: m k) (auto split: prod.splits sum.splits)

interpretation linux_fw: firewall_adapter "lx_block_port run b" "lx_unblock_port run b" "lx_cleanup_all_rules run b"
  for run b
proof unfold_locales
  fix p proto k r k'
  show "lx_block_port run b p proto k = (r, k') \<Longrightarrow> r = Inr True \<or> r = Inl FirewallRuleError"
    by (auto simp: lx_block_port_def Let_def split: if_splits prod.splits sum.splits)
next
  fix p proto k
  show "\<not> (valid_port p \<and> valid_protocol proto) \<Longrightarrow> lx_block_port run b p proto k = (Inl FirewallRuleError, k)"
    by (auto simp: lx_block_port_def valid_port_def valid_protocol_def)
next
  fix p k r k'
  show "lx_unblock_port run b p k = (r, k') \<Longrightarrow> \<exists>b. r = Inr b"
    by (auto simp: lx_unblock_port_def split: if_splits)
next
  fix k r k'
  show "lx_cleanup_all_rules run b k = (r, k') \<Longrightarrow> (\<exists>n. r = Inr n) \<or> r = Inl CleanupError"
    using delete_lines_outcome
    by (fastforce simp: lx_cleanup_all_rules_def split: if_splits prod.splits sum.splits)
qed

section \<open>Deleting by line number\<close>

definition del_at :: "nat \<Rightarrow> 'a list \<Rightarrow> 'a list" where
  "del_at n xs = take (n - 1) xs @ drop n xs"

definition positions :: "('a \<Rightarrow> bool) \<Rightarrow> 'a list \<Rightarrow> nat list" where
  "positions P xs = map fst (filter (\<lambda>x. P (snd x)) (enumerate 1 xs))"

lemma positions_snoc: "positions P (xs @ [x]) = positions P xs @ (if P x then [Suc (length xs)] else [])"
  by (simp add: positions_def enumerate_append_eq)

lemma positions_bound: "n \<in> set (positions P xs) \<Longrightarrow> 1 \<le> n \<and> n \<le> length xs"
  by (auto simp: positions_def in_set_enumerate_eq)

lemma sorted_positions: "sorted (positions P xs)"
  by (induction xs rule: rev_induct) (auto simp: positions_snoc positions_def [of P "[]"] sorted_append
      dest!: positions_bound)

text \<open>
  From the last position to the first, no deletion moves a line that is still to be deleted.
\<close>

lemma delete_positions: "fold del_at (rev (positions P xs)) (xs @ ys) = filter (\<lambda>x. \<not> P x) xs @ ys"
proof (induction xs arbitrary: ys rule: rev_induct)
  case Nil
  then show ?case by (simp add: positions_def)
next
  case (snoc x xs)
  have "del_at (Suc (length xs)) (xs @ x # ys) = xs @ ys" by (simp add: del_at_def)
  with snoc [of ys] snoc [of "x # ys"] show ?case by (simp add: positions_snoc)
qed

lemma positions_length: "length (positions P xs) = length (filter P xs)"
proof -
  have "map snd (filter (\<lambda>x. P (snd x)) (enumerate n xs)) = filter P xs" for n
    by (induction xs arbitrary: n) auto
  then show ?thesis unfolding positions_def by (metis length_map)
qed

section \<open>The listing\<close>

text \<open>A marker is found in a numbered line exactly if it is in the text after the number.\<close>

lemma sublist_skip: "p \<noteq> [] \<Longrightarrow> hd p \<notin> set xs \<Longrightarrow> sublist p (xs @ ys) \<longleftrightarrow> sublist p ys"
proof (induction xs)
  case (Cons x xs)
  then have "\<not> prefix p (x # xs @ ys)" by (cases p) auto
  with Cons show ?case by (auto simp: sublist_Cons_right)
qed simp

lemma digits_no_marker: "list_all is_digit s \<Longrightarrow> CHR ''V'' \<notin> set s \<and> CHR ''S'' \<notin> set s"
  by (induction s) (auto simp: is_digit_def)

lemma ours_numbered: "is_ours (show_nat n @ CHR '' '' # text) = is_ours text"
proof -
  have "list_all is_digit (show_nat n)" by (rule show_nat_digits)
  from digits_no_marker [OF this] have "CHR ''V'' \<notin> set (show_nat n @ '' '')" "CHR ''S'' \<notin> set (show_nat n @ '' '')"
    by auto
  then have "contains ((show_nat n @ '' '') @ text) ''Vigilant_Block_'' = contains text ''Vigilant_Block_''"
    "contains ((show_nat n @ '' '') @ text) ''Sentinel_Block_'' = contains text ''Sentinel_Block_''"
    by (intro sublist_skip; simp)+
  then show ?thesis by (simp add: is_ours_def)
qed

lemma words_aux_digits: "list_all is_digit s \<Longrightarrow> s \<noteq> [] \<or> w \<noteq> [] \<Longrightarrow>
    words_aux w (s @ CHR '' '' # text) = (rev w @ s) # words_aux [] text"
proof (induction s arbitrary: w)
  case Nil
  then show ?case by (simp add: is_space_def)
next
  case (Cons c s)
  then have "\<not> is_space c" by (simp add: digit_not_space)
  with Cons show ?case by simp
qed

lemma words_numbered: "str_words (show_nat n @ CHR '' '' # text) = show_nat n # str_words text"
  by (simp add: str_words_def words_aux_digits show_nat_digits)

text \<open>The text of a listing: headers, then the numbered rules.\<close>

definition numbered :: "('r \<Rightarrow> string) \<Rightarrow> 'r list \<Rightarrow> string list" where
  "numbered render rs = map (\<lambda>(i, r). show_nat i @ CHR '' '' # render r) (enumerate 1 rs)"

lemma listing_positions:
  assumes "split_on NL (str_strip out) = hdr @ numbered render rs" and "\<forall>h \<in> set hdr. \<not> is_ours h"
  shows "lines_to_delete out = positions (\<lambda>r. is_ours (render r)) rs"
proof -
  let ?sel = "\<lambda>line. is_ours line \<and> str_words line \<noteq> [] \<and> str_isdigit (hd (str_words line))"
  let ?num = "\<lambda>line. parse_nat (hd (str_words line))"
  have "map ?num (filter ?sel (map (\<lambda>(i, r). show_nat i @ CHR '' '' # render r) xs)) =
      map fst (filter (\<lambda>x. is_ours (render (snd x))) xs)" for xs
    by (induction xs) (auto simp: ours_numbered words_numbered str_simps)
  moreover have "filter ?sel hdr = []" using assms(2) by (auto simp: filter_empty_conv)
  ultimately show ?thesis
    unfolding lines_to_delete_def assms(1) by (simp add: numbered_def positions_def)
qed

section \<open>What is relied on of iptables\<close>

text \<open>
  \<open>chain k\<close> lists the rules of the INPUT chain and \<open>render\<close> is the text a listing shows for
  a rule. No command times out; a check (\<open>-C\<close>) succeeds exactly if the rule is there; an insertion
  (\<open>-I INPUT 1\<close>) that succeeds puts the rule first and one that fails changes nothing; a deletion
  removes the first copy of the rule it describes or the rule with the given number; a listing
  numbers the rules from 1 after header lines, and shows the comment of a rule.
\<close>

definition shows_comments :: "(string list \<Rightarrow> string) \<Rightarrow> bool" where
  "shows_comments render \<longleftrightarrow>
     (\<forall>pre port proto. pre \<in> {''Vigilant'', ''Sentinel''} \<longrightarrow> is_ours (render (rule_spec pre port proto)))"

definition iptables_ok ::
  "'k runner \<Rightarrow> linux_bridge \<Rightarrow> ('k \<Rightarrow> string list list) \<Rightarrow> (string list \<Rightarrow> string) \<Rightarrow> bool" where
  "iptables_ok run b chain render \<longleftrightarrow>
     (\<forall>spec k. \<exists>rc out k'. run (fw_cmd b ([''-C'', ''INPUT''] @ spec)) k = (Inr (rc, out), k')
        \<and> chain k' = chain k \<and> (rc = 0 \<longleftrightarrow> spec \<in> set (chain k)))
   \<and> (\<forall>spec k. \<exists>rc out k'. run (fw_cmd b ([''-I'', ''INPUT'', ''1''] @ spec)) k = (Inr (rc, out), k')
        \<and> chain k' = (if rc = 0 then spec # chain k else chain k))
   \<and> (\<forall>spec k. 1 < length spec \<longrightarrow> (\<exists>rc out k'. run (fw_cmd b ([''-D'', ''INPUT''] @ spec)) k = (Inr (rc, out), k')
        \<and> chain k' = remove1 spec (chain k)))
   \<and> (\<forall>n k. 1 \<le> n \<and> n \<le> length (chain k) \<longrightarrow>
        (\<exists>out k'. run (fw_cmd b [''-D'', ''INPUT'', show_nat n]) k = (Inr (0, out), k') \<and> chain k' = del_at n (chain k)))
   \<and> (\<forall>k. \<exists>out k' hdr. run (fw_cmd b [''-L'', ''INPUT'', ''-n'', ''--line-numbers'']) k = (Inr (0, out), k')
        \<and> chain k' = chain k \<and> split_on NL (str_strip out) = hdr @ numbered render (chain k)
        \<and> (\<forall>h \<in> set hdr. \<not> is_ours h))
   \<and> shows_comments render"

lemma iptables_check: "iptables_ok run b chain render \<Longrightarrow>
    \<exists>rc out k'. run (fw_cmd b ([''-C'', ''INPUT''] @ spec)) k = (Inr (rc, out), k')
      \<and> chain k' = chain k \<and> (rc = 0 \<longleftrightarrow> spec \<in> set (chain k))"
  unfolding iptables_ok_def by blast

lemma iptables_insert: "iptables_ok run b chain render \<Longrightarrow>
    \<exists>rc out k'. run (fw_cmd b ([''-I'', ''INPUT'', ''1''] @ spec)) k = (Inr (rc, out), k')
      \<and> chain k' = (if rc = 0 then spec # chain k else chain k)"
  unfolding iptables_ok_def by blast

lemma iptables_delete:
  assumes "iptables_ok run b chain render" and "1 < length spec"
  shows "chain (snd (run (fw_cmd b ([''-D'', ''INPUT''] @ spec)) k)) = remove1 spec (chain k)"
proof -
  have "\<exists>rc out k'. run (fw_cmd b ([''-D'', ''INPUT''] @ spec)) k = (Inr (rc, out), k')
      \<and> chain k' = remove1 spec (chain k)"
    using assms unfolding iptables_ok_def by blast
  then show ?thesis by (elim exE conjE) (simp only: snd_conv)
qed

lemma iptables_delete_line: "iptables_ok run b chain render \<Longrightarrow> 1 \<le> n \<Longrightarrow> n \<le> length (chain k) \<Longrightarrow>
    \<exists>out k'. run (fw_cmd b [''-D'', ''INPUT'', show_nat n]) k = (Inr (0, out), k') \<and> chain k' = del_at n (chain k)"
  unfolding iptables_ok_def by blast

lemma iptables_list: "iptables_ok run b chain render \<Longrightarrow>
    \<exists>out k' hdr. run (fw_cmd b [''-L'', ''INPUT'', ''-n'', ''--line-numbers'']) k = (Inr (0, out), k')
      \<and> chain k' = chain k \<and> split_on NL (str_strip out) = hdr @ numbered render (chain k)
      \<and> (\<forall>h \<in> set hdr. \<not> is_ours h)"
  unfolding iptables_ok_def by blast

lemma iptables_ours: "iptables_ok run b chain render \<Longrightarrow> pre \<in> {''Vigilant'', ''Sentinel''} \<Longrightarrow>
    is_ours (render (rule_spec pre port proto))"
  unfolding iptables_ok_def shows_comments_def by (elim conjE) blast

lemma lx_block_effect:
  assumes ipt: "iptables_ok run b chain render" and "lx_compatible b" and "valid_port p" and "valid_protocol proto"
    and ran: "lx_block_port run b p proto k = (r, k')"
  defines "spec \<equiv> rule_spec ''Vigilant'' p (str_lower proto)"
  shows "chain k' = (if r = Inr True \<and> spec \<notin> set (chain k) then spec # chain k else chain k)"
proof -
  obtain rc out k1 where c: "run (fw_cmd b ([''-C'', ''INPUT''] @ spec)) k = (Inr (rc, out), k1)"
    "chain k1 = chain k" "rc = 0 \<longleftrightarrow> spec \<in> set (chain k)" using iptables_check [OF ipt] by blast
  obtain rc' out' k2 where i: "run (fw_cmd b ([''-I'', ''INPUT'', ''1''] @ spec)) k1 = (Inr (rc', out'), k2)"
    "chain k2 = (if rc' = 0 then spec # chain k1 else chain k1)" using iptables_insert [OF ipt] by blast
  have "lx_block_port run b p proto k =
      (if rc = 0 then (Inr True, k1) else if rc' \<noteq> 0 then (Inl FirewallRuleError, k2) else (Inr True, k2))"
    using c(1) i(1) assms(2-4)
    by (simp add: lx_block_port_def valid_port_def valid_protocol_def Let_def spec_def)
  with ran c i show ?thesis by (auto split: if_splits)
qed

lemma lx_block_found:
  assumes ipt: "iptables_ok run b chain render" and "lx_compatible b" and "valid_port p" and "valid_protocol proto"
    and ran: "lx_block_port run b p proto k = (r, k')" and "rule_spec ''Vigilant'' p (str_lower proto) \<in> set (chain k)"
  shows "r = Inr True"
proof -
  let ?spec = "rule_spec ''Vigilant'' p (str_lower proto)"
  obtain rc out k1 where c: "run (fw_cmd b ([''-C'', ''INPUT''] @ ?spec)) k = (Inr (rc, out), k1)"
    "rc = 0 \<longleftrightarrow> ?spec \<in> set (chain k)" using iptables_check [OF ipt] by blast
  then show ?thesis using assms(2-4,6) ran by (simp add: lx_block_port_def valid_port_def valid_protocol_def Let_def)
qed

text \<open>
  \<open>unblock_port\<close> looks at no return code: when every deletion fails, or times out, the rules stay and
  the answer is \<open>True\<close> all the same.
\<close>

lemma failed_delete_unnoticed:
  assumes "lx_compatible b" and "\<And>args k. snd (run (fw_cmd b ([''-D'', ''INPUT''] @ args)) k) = k"
  shows "lx_unblock_port run b p k = (Inr True, k)"
proof -
  have "fold (\<lambda>spec k. snd (run (fw_cmd b ([''-D'', ''INPUT''] @ spec)) k)) specs k = k" for specs
    by (induction specs) (simp_all only: fold_simps assms(2))
  with assms(1) show ?thesis by (simp only: lx_unblock_port_def if_False not_True_eq_False)
qed

lemma lx_unblock_effect:
  assumes "iptables_ok run b chain render" and "lx_compatible b"
  shows "chain (snd (lx_unblock_port run b p k)) = fold remove1 (unblock_specs p) (chain k)"
proof -
  have "\<forall>spec \<in> set specs. 1 < length spec \<Longrightarrow>
      chain (fold (\<lambda>spec k. snd (run (fw_cmd b ([''-D'', ''INPUT''] @ spec)) k)) specs k) = fold remove1 specs (chain k)"
    for specs by (induction specs arbitrary: k) (simp_all add: iptables_delete [OF assms(1), simplified])
  moreover have "\<forall>spec \<in> set (unblock_specs p). 1 < length spec" by (simp add: unblock_specs_def rule_spec_def)
  ultimately show ?thesis using assms(2) by (simp add: lx_unblock_port_def)
qed

lemma delete_lines_effect:
  assumes "iptables_ok run b chain render"
  shows "\<forall>n \<in> set ns. 1 \<le> n \<Longrightarrow> sorted_wrt (>) ns \<Longrightarrow> \<forall>n \<in> set ns. n \<le> length (chain k) \<Longrightarrow>
    \<exists>k'. delete_lines run b ns m k = (Inr (m + length ns), k') \<and> chain k' = fold del_at ns (chain k)"
proof (induction ns arbitrary: m k)
  case (Cons n ns)
  then obtain out k1 where d: "run (fw_cmd b [''-D'', ''INPUT'', show_nat n]) k = (Inr (0, out), k1)"
    and k1: "chain k1 = del_at n (chain k)" using iptables_delete_line [OF assms, of n k] by auto
  have "\<forall>i \<in> set ns. i \<le> length (chain k1)"
    using Cons.prems by (fastforce simp: k1 del_at_def)
  with Cons.IH [of k1 "Suc m"] Cons.prems d k1 show ?case by auto
qed simp

lemma strict_positions: "sorted_wrt (>) (rev (positions P xs))"
proof -
  have "distinct (positions P xs)"
    by (induction xs rule: rev_induct) (auto simp: positions_snoc positions_def [of P "[]"] dest: positions_bound)
  with sorted_positions [of P xs] have "sorted_wrt (<) (positions P xs)" by (simp add: strict_sorted_iff)
  then show ?thesis by (simp add: sorted_wrt_rev)
qed

section \<open>A simulator\<close>

text \<open>The rules are the state; the listing prints a rule as its words without blanks.\<close>

definition sim_render :: "string list \<Rightarrow> string" where
  "sim_render r = filter (\<lambda>c. \<not> is_space c) (concat r) @ ''.''"

definition join_lines :: "string list \<Rightarrow> string" where
  "join_lines ls = concat (map (\<lambda>l. l @ [NL]) ls)"

definition sim_iptables :: "string list list runner" where
  "sim_iptables cmd k =
     (let op = cmd ! 1; args = drop 3 cmd in
      if op = ''-C'' then (Inr (if args \<in> set k then 0 else 1, []), k)
      else if op = ''-I'' then (Inr (0, []), tl args # k)
      else if op = ''-D'' then
        (if length args = 1
         then (Inr (0, []), del_at (parse_nat (hd args)) k)
         else (Inr (if args \<in> set k then 0 else 1, []), remove1 args k))
      else (Inr (0, join_lines (''num  target'' # numbered sim_render k)), k))"

definition root_bridge :: linux_bridge where
  "root_bridge = new_linux_bridge ''Linux'' (Some 0) (\<lambda>_. True)"

lemma strip_ends: "s \<noteq> [] \<Longrightarrow> \<not> is_space (hd s) \<Longrightarrow> \<not> is_space (last s) \<Longrightarrow> is_space c \<Longrightarrow> str_strip (s @ [c]) = s"
proof -
  assume s: "s \<noteq> []" "\<not> is_space (hd s)" "\<not> is_space (last s)" and c: "is_space c"
  have "dropWhile is_space (s @ [c]) = s @ [c]" using s by (cases s) auto
  moreover have "dropWhile is_space (rev s) = rev s" using s by (cases s rule: rev_cases) auto
  ultimately show ?thesis using c by (simp add: str_strip_def)
qed

lemma split_join: "ls \<noteq> [] \<Longrightarrow> \<forall>l \<in> set ls. NL \<notin> set l \<Longrightarrow> \<exists>s. join_lines ls = s @ [NL] \<and> split_on NL s = ls
    \<and> (hd ls \<noteq> [] \<longrightarrow> s \<noteq> [] \<and> hd s = hd (hd ls)) \<and> (last ls \<noteq> [] \<longrightarrow> s \<noteq> [] \<and> last s = last (last ls))"
proof (induction ls)
  case (Cons l ls)
  show ?case
  proof (cases "ls = []")
    case True
    with Cons show ?thesis by (simp add: join_lines_def split_on_none)
  next
    case False
    with Cons obtain s where s: "join_lines ls = s @ [NL]" "split_on NL s = ls"
      "last ls \<noteq> [] \<longrightarrow> s \<noteq> [] \<and> last s = last (last ls)" by auto
    with Cons.prems False show ?thesis
      by (intro exI [of _ "l @ NL # s"])
         (auto simp: join_lines_def split_on_append split_on_none)
  qed
qed simp

lemma NL_space: "is_space NL"
  by (simp add: is_space_def NL_def)

lemma numbered_clean: "l \<in> set (numbered sim_render k) \<Longrightarrow> NL \<notin> set l \<and> l \<noteq> [] \<and> last l = CHR ''.''"
proof -
  assume "l \<in> set (numbered sim_render k)"
  then obtain i r where l: "l = show_nat i @ CHR '' '' # sim_render r" by (auto simp: numbered_def)
  have "list_all is_digit (show_nat i)" by (rule show_nat_digits)
  then have "\<forall>c \<in> set (show_nat i). \<not> is_space c" by (auto simp: list_all_iff digit_not_space)
  with NL_space have "NL \<notin> set (show_nat i)" by blast
  moreover have "\<forall>c \<in> set (sim_render r). \<not> is_space c" by (auto simp: sim_render_def is_space_def)
  with NL_space have "NL \<notin> set (sim_render r)" by blast
  moreover have "NL \<noteq> CHR '' ''" by code_simp
  ultimately show ?thesis by (simp add: l sim_render_def)
qed

lemma NL_header: "NL \<notin> set ''num  target''"
  by code_simp

lemma sim_listing: "split_on NL (str_strip (join_lines (''num  target'' # numbered sim_render k)))
    = [''num  target''] @ numbered sim_render k"
proof -
  let ?ls = "''num  target'' # numbered sim_render k"
  have clean: "\<forall>l \<in> set ?ls. NL \<notin> set l" using numbered_clean NL_header by auto
  have lst: "last ?ls \<noteq> [] \<and> \<not> is_space (last (last ?ls))"
  proof (cases "numbered sim_render k = []")
    case False
    then have "last ?ls \<in> set (numbered sim_render k)" by simp
    from numbered_clean [OF this] show ?thesis by (simp add: is_space_def)
  qed (simp add: is_space_def)
  from split_join [OF _ clean] obtain s where s: "join_lines ?ls = s @ [NL]" "split_on NL s = ?ls"
    "s \<noteq> []" "hd s = CHR ''n''" "last s = last (last ?ls)" using lst by auto
  have "\<not> is_space CHR ''n''" by (simp add: is_space_def)
  with s lst have "str_strip (s @ [NL]) = s" by (intro strip_ends NL_space) simp_all
  with s(1,2) show ?thesis by simp
qed

lemma sim_shows_comment: "pre \<in> {''Vigilant'', ''Sentinel''} \<Longrightarrow> is_ours (sim_render (rule_spec pre port proto))"
proof -
  assume pre: "pre \<in> {''Vigilant'', ''Sentinel''}"
  have "filter (\<lambda>c. \<not> is_space c) pre = pre" using pre by (auto simp: is_space_def)
  then have "sim_render (rule_spec pre port proto) =
      filter (\<lambda>c. \<not> is_space c) (concat (butlast (rule_spec pre port proto))) @ (pre @ ''_Block_'') @
      filter (\<lambda>c. \<not> is_space c) (show_int port @ ''_'' @ proto) @ ''.''"
    by (simp add: sim_render_def rule_spec_def block_comment_def is_space_def)
  then have "contains (sim_render (rule_spec pre port proto)) (pre @ ''_Block_'')"
    by (auto simp: sublist_def)
  with pre show "is_ours (sim_render (rule_spec pre port proto))" by (auto simp: is_ours_def)
qed

lemma sim_iptables_ok: "iptables_ok sim_iptables root_bridge (\<lambda>k. k) sim_render"
proof -
  have cmd: "fw_cmd root_bridge args = ''iptables'' # args" for args
    by (simp add: fw_cmd_def root_bridge_def new_linux_bridge_def detect_firewall_def)
  have "\<exists>hdr. split_on NL (str_strip (join_lines (''num  target'' # numbered sim_render k)))
      = hdr @ numbered sim_render k \<and> (\<forall>h \<in> set hdr. \<not> is_ours h)" for k
    using sim_listing [of k] by (intro exI [of _ "[''num  target'']"]) (simp add: is_ours_def sublist_code)
  then show ?thesis
    by (auto simp: iptables_ok_def cmd sim_iptables_def Let_def shows_comments_def sim_shows_comment parse_show_nat)
qed

section \<open>Properties\<close>

text \<open>
  C16: blocking and unblocking on Linux. With valid arguments \<open>block_port\<close> succeeds or raises
  \<open>FirewallRuleError\<close>. When the chain already has the drop rule for the port and protocol, it succeeds
  and leaves the chain alone; otherwise it either puts that rule at the top of the chain, or fails
  and leaves the chain alone. When the chain held no rule of ours for the port, unblocking afterwards
  restores it exactly. Insertions may fail; checks and deletions are relied on to work.
\<close>

theorem linux_block_unblock:
  assumes "iptables_ok run b chain render" and "lx_compatible b" and "valid_port p" and "valid_protocol proto"
    and "lx_block_port run b p proto k = (r, k1)"
  shows "(r = Inr True \<or> r = Inl FirewallRuleError)
    \<and> (rule_spec ''Vigilant'' p (str_lower proto) \<in> set (chain k) \<longrightarrow> r = Inr True \<and> chain k1 = chain k)
    \<and> (rule_spec ''Vigilant'' p (str_lower proto) \<notin> set (chain k) \<longrightarrow>
         chain k1 = (if r = Inr True then rule_spec ''Vigilant'' p (str_lower proto) # chain k else chain k))
    \<and> ((\<forall>spec \<in> set (unblock_specs p). spec \<notin> set (chain k)) \<longrightarrow> chain (snd (lx_unblock_port run b p k1)) = chain k)"
proof -
  let ?spec = "rule_spec ''Vigilant'' p (str_lower proto)"
  have mem: "?spec \<in> set (unblock_specs p)"
    using assms(4) by (auto simp: valid_protocol_def unblock_specs_def)
  note k1 = lx_block_effect [OF assms(1-5)]
  have same: "\<forall>spec \<in> set specs. spec \<notin> set xs \<Longrightarrow> fold remove1 specs xs = xs" for specs and xs :: "string list list"
    by (induction specs) (simp_all add: remove1_idem)
  have drop: "\<forall>spec \<in> set specs. spec \<notin> set xs \<Longrightarrow> s \<in> set specs \<Longrightarrow> fold remove1 specs (s # xs) = xs"
    for specs s and xs :: "string list list"
  proof (induction specs)
    case (Cons a specs)
    then show ?case by (cases "a = s") (simp_all add: same remove1_idem)
  qed simp
  have "fold remove1 (unblock_specs p) (chain k1) = chain k" if "\<forall>spec \<in> set (unblock_specs p). spec \<notin> set (chain k)"
    unfolding k1 using drop [OF that mem] same [OF that] by (simp del: fold_simps)
  moreover have "r = Inr True \<or> r = Inl FirewallRuleError" by (rule linux_fw.block_outcome [OF assms(5)])
  moreover have "?spec \<in> set (chain k) \<longrightarrow> r = Inr True" using lx_block_found [OF assms] by blast
  ultimately show ?thesis using k1 by (simp add: lx_unblock_effect [OF assms(1,2)])
qed

theorem linux_block_unblock_witness:
  "snd (lx_unblock_port sim_iptables root_bridge 8080
     (snd (lx_block_port sim_iptables root_bridge 8080 ''TCP'' [[''-j'', ''ACCEPT'']]))) = [[''-j'', ''ACCEPT'']]
   \<and> lx_block_port sim_iptables root_bridge 8080 ''TCP'' [rule_spec ''Vigilant'' 8080 ''tcp'']
       = (Inr True, [rule_spec ''Vigilant'' 8080 ''tcp''])"
proof -
  have c: "lx_compatible root_bridge" "valid_port 8080"
    by (simp_all add: lx_compatible_def root_bridge_def new_linux_bridge_def valid_port_def)
  have v: "valid_protocol ''TCP''" and l: "str_lower ''TCP'' = ''tcp''" by code_simp+
  have "\<forall>spec \<in> set (unblock_specs 8080). spec \<notin> set [[''-j'', ''ACCEPT'']]"
    by (simp add: unblock_specs_def rule_spec_def)
  with linux_block_unblock [OF sim_iptables_ok c v surjective_pairing, of "[[''-j'', ''ACCEPT'']]"]
    linux_block_unblock [OF sim_iptables_ok c v surjective_pairing, of "[rule_spec ''Vigilant'' 8080 ''tcp'']"]
  show ?thesis by (simp add: l prod_eq_iff)
qed

lemma lx_cleanup_effect:
  assumes "iptables_ok run b chain render" and "lx_compatible b"
  shows "\<exists>k'. lx_cleanup_all_rules run b k = (Inr (length (filter (\<lambda>r. is_ours (render r)) (chain k))), k')
    \<and> chain k' = filter (\<lambda>r. \<not> is_ours (render r)) (chain k)
    \<and> rule_spec ''Vigilant'' p proto \<notin> set (chain k')"
proof -
  let ?P = "\<lambda>r. is_ours (render r)"
  obtain out k1 hdr where l: "run (fw_cmd b [''-L'', ''INPUT'', ''-n'', ''--line-numbers'']) k = (Inr (0, out), k1)"
    "chain k1 = chain k" "split_on NL (str_strip out) = hdr @ numbered render (chain k)" "\<forall>h \<in> set hdr. \<not> is_ours h"
    using iptables_list [OF assms(1)] by blast
  have pos: "rev (sort (lines_to_delete out)) = rev (positions ?P (chain k))"
    using listing_positions [OF l(3,4)] by (simp add: sorted_sort_id [OF sorted_positions])
  have "\<exists>k'. delete_lines run b (rev (positions ?P (chain k))) 0 k1 =
      (Inr (0 + length (rev (positions ?P (chain k)))), k') \<and> chain k' = fold del_at (rev (positions ?P (chain k))) (chain k1)"
    by (rule delete_lines_effect [OF assms(1) _ strict_positions]) (auto simp: l(2) dest: positions_bound)
  then obtain k' where d: "delete_lines run b (rev (positions ?P (chain k))) 0 k1 = (Inr (length (filter ?P (chain k))), k')"
    and k': "chain k' = filter (\<lambda>r. \<not> ?P r) (chain k)"
    using delete_positions [of ?P "chain k" "[]"] by (auto simp: positions_length l(2))
  have "lx_cleanup_all_rules run b k = (Inr (length (filter ?P (chain k))), k')"
    using assms(2) l(1) d by (simp add: lx_cleanup_all_rules_def pos)
  with k' iptables_ours [OF assms(1), of "''Vigilant''"] show ?thesis by auto
qed

text \<open>
  C15: the Linux clean-up. \<open>cleanup_all_rules\<close> deletes exactly the rules whose listing line
  carries a marker of ours, leaves every other rule in place and in order, and returns how many
  it deleted: because the line numbers are deleted from the bottom up, none of them is stale by
  the time it is used. In particular no rule a block has created survives.
\<close>

theorem linux_cleanup_exact:
  assumes "iptables_ok run b chain render" and "lx_compatible b"
  shows "\<exists>k'. lx_cleanup_all_rules run b k = (Inr (length (filter (\<lambda>r. is_ours (render r)) (chain k))), k')
    \<and> chain k' = filter (\<lambda>r. \<not> is_ours (render r)) (chain k)
    \<and> rule_spec ''Vigilant'' p proto \<notin> set (chain k')"
  using assms by (rule lx_cleanup_effect)

theorem linux_cleanup_exact_witness:
  "snd (lx_cleanup_all_rules sim_iptables root_bridge
     [rule_spec ''Vigilant'' 22 ''tcp'', [''-j'', ''ACCEPT''], rule_spec ''Vigilant'' 80 ''udp''])
   = filter (\<lambda>r. \<not> is_ours (sim_render r))
       [rule_spec ''Vigilant'' 22 ''tcp'', [''-j'', ''ACCEPT''], rule_spec ''Vigilant'' 80 ''udp'']"
proof -
  have "lx_compatible root_bridge" by (simp add: lx_compatible_def root_bridge_def new_linux_bridge_def)
  from linux_cleanup_exact [OF sim_iptables_ok this] show ?thesis by (metis snd_conv)
qed

end
