(* ===== verification/Commands.thy ===== *)
theory Commands
  imports Events Database Linux_Bridge
begin

text \<open>
  The write side: the event handlers (\<open>application/events/handlers.py\<close>), the firewall and
  approval commands (\<open>application/commands\<close>) and the routes that issue them
  (\<open>presentation/api/control.py\<close>, \<open>approvals.py\<close>). The container is a record of the database,
  the firewall's state and the event bus; the operating-system bridge is a record of operations.
  The clock is read by the database calls; \<open>en_clock n\<close> is the reading of the \<open>n\<close>-th call.
\<close>

section \<open>The container\<close>

record 's fw_ops =
  fw_block :: "int \<Rightarrow> string \<Rightarrow> 's \<Rightarrow> bool result \<times> 's"
  fw_unblock :: "int \<Rightarrow> 's \<Rightarrow> bool result \<times> 's"
  fw_cleanup :: "'s \<Rightarrow> nat result \<times> 's"

text \<open>The bound methods the bus holds.\<close>

datatype handler = OnPolicyEvaluated | OnFirewallUpdated | OnAuditLogged

record 's world =
  w_db :: db
  w_fw :: 's
  w_bus :: "handler bus"

record 's cenv =
  en_sql :: sql
  en_clock :: "nat \<Rightarrow> time"
  en_bridge :: "'s fw_ops option"
  en_text :: "exc \<Rightarrow> string"

text \<open>Sequencing of calls that may raise.\<close>

definition and_then ::
  "('w \<Rightarrow> 'a result \<times> 'w) \<Rightarrow> ('a \<Rightarrow> 'w \<Rightarrow> 'b result \<times> 'w) \<Rightarrow> 'w \<Rightarrow> 'b result \<times> 'w" where
  "and_then m f w = (case m w of (Inl err, w') \<Rightarrow> (Inl err, w') | (Inr x, w') \<Rightarrow> f x w')"

definition yield_val :: "'a \<Rightarrow> 'w \<Rightarrow> 'a result \<times> 'w" where
  "yield_val x w = (Inr x, w)"

text \<open>\<open>try ... except Exception: log\<close>.\<close>

definition swallow :: "('w \<Rightarrow> 'a result \<times> 'w) \<Rightarrow> 'w \<Rightarrow> exc option \<times> 'w" where
  "swallow m w = (None, snd (m w))"

definition db_do :: "(db \<Rightarrow> 'a result \<times> db) \<Rightarrow> 's world \<Rightarrow> 'a result \<times> 's world" where
  "db_do f w = (case f (w_db w) of (r, d) \<Rightarrow> (r, w\<lparr>w_db := d\<rparr>))"

definition fw_do :: "('s \<Rightarrow> 'a result \<times> 's) \<Rightarrow> 's world \<Rightarrow> 'a result \<times> 's world" where
  "fw_do f w = (case f (w_fw w) of (r, k) \<Rightarrow> (r, w\<lparr>w_fw := k\<rparr>))"

definition tick :: "'s cenv \<Rightarrow> db \<Rightarrow> time" where
  "tick e d = en_clock e (db_calls d)"

section \<open>Event handlers\<close>

definition audit :: "'s cenv \<Rightarrow> audit_entry \<Rightarrow> 's world \<Rightarrow> unit result \<times> 's world" where
  "audit e x = db_do (\<lambda>d. insert_audit_log (en_sql e) (tick e d) x d)"

definition policy_details :: "policy_evaluated \<Rightarrow> string" where
  "policy_details ev = ''Action: '' @ pv_action ev @ '', Port: '' @ show_int (pv_port ev)
     @ '', PID: '' @ show_int (pv_pid ev)"

definition policy_audit :: "policy_evaluated \<Rightarrow> string \<Rightarrow> string \<Rightarrow> audit_entry" where
  "policy_audit ev severity msg = \<lparr>ae_event_type = ''policy_trigger'', ae_message = msg, ae_app = Some (pv_app ev),
     ae_port = None, ae_pid = None, ae_severity = severity, ae_details = Some (policy_details ev)\<rparr>"

text \<open>The bridge is called with its default protocol, TCP on every platform.\<close>

definition on_policy_evaluated :: "'s cenv \<Rightarrow> policy_evaluated \<Rightarrow> 's world \<Rightarrow> exc option \<times> 's world" where
  "on_policy_evaluated e ev =
     swallow
       (case (pv_action ev = ''block'', en_bridge e) of
          (True, Some ops) \<Rightarrow>
            and_then (fw_do (fw_block ops (pv_port ev) ''tcp'')) (\<lambda>_.
            and_then (db_do (\<lambda>d. add_blocked_port (en_sql e) (tick e d) (pv_port ev) ''hard''
                        ''Policy Engine Auto-Block'' d)) (\<lambda>_.
            audit e (policy_audit ev ''critical'' (''Automated block triggered on Port '' @ show_int (pv_port ev)))))
        | _ \<Rightarrow>
            if pv_action ev = ''request_approval'' then
              and_then (db_do (\<lambda>d. create_analyst_approval (en_sql e) (tick e d) ''suspend_process''
                          (show_int (pv_pid ev)) ''Policy trigger'' 0 d)) (\<lambda>_.
              audit e (policy_audit ev ''warning'' (''Analyst Approval requested for PID '' @ show_int (pv_pid ev))))
            else
              audit e (policy_audit ev ''info''
                (''Policy '' @ [CHR 0x27] @ pv_name ev @ [CHR 0x27] @ '' notification for '' @ pv_app ev)))"

definition bool_text :: "bool \<Rightarrow> string" where
  "bool_text b = (if b then ''True'' else ''False'')"

definition on_firewall_updated :: "'s cenv \<Rightarrow> firewall_updated \<Rightarrow> 's world \<Rightarrow> exc option \<times> 's world" where
  "on_firewall_updated e ev =
     swallow (audit e
       \<lparr>ae_event_type = ''firewall_'' @ fu_action ev,
        ae_message = ''Firewall '' @ fu_action ev @ '' on port '' @ show_int (fu_port ev) @ ''/'' @ fu_protocol ev,
        ae_app = None, ae_port = Some (fu_port ev), ae_pid = None,
        ae_severity = (if fu_action ev = ''block'' then ''critical'' else ''warning''),
        ae_details = Some (''Reason: '' @ fu_reason ev @ '', Success: '' @ bool_text (fu_success ev))\<rparr>)"

definition on_audit_logged :: "'s cenv \<Rightarrow> audit_logged \<Rightarrow> 's world \<Rightarrow> exc option \<times> 's world" where
  "on_audit_logged e ev =
     swallow (audit e
       \<lparr>ae_event_type = al_event_type ev, ae_message = al_message ev, ae_app = al_app ev, ae_port = al_port ev,
        ae_pid = al_pid ev, ae_severity = al_severity ev, ae_details = al_details ev\<rparr>)"

fun run_handler :: "'s cenv \<Rightarrow> handler \<Rightarrow> event \<Rightarrow> 's world \<Rightarrow> exc option \<times> 's world" where
  "run_handler e OnPolicyEvaluated (PolicyEvaluated ev) w = on_policy_evaluated e ev w"
| "run_handler e OnFirewallUpdated (FirewallUpdated ev) w = on_firewall_updated e ev w"
| "run_handler e OnAuditLogged (AuditLogged ev) w = on_audit_logged e ev w"
| "run_handler e _ _ w = (Some AttributeError, w)"

definition handler_table :: "(event_class \<times> handler) list" where
  "handler_table = [(C_PolicyEvaluated, OnPolicyEvaluated), (C_FirewallUpdated, OnFirewallUpdated),
     (C_AuditLogged, OnAuditLogged)]"

definition register_all :: "handler bus \<Rightarrow> handler bus" where
  "register_all b = fold (\<lambda>(c, h). subscribe c h) handler_table b"

definition publish_event :: "'s cenv \<Rightarrow> event \<Rightarrow> 's world \<Rightarrow> unit result \<times> 's world" where
  "publish_event e ev w =
     (case publish (run_handler e) (\<lambda>_. True) (w_bus w) ev w of
        (None, w') \<Rightarrow> (Inr (), w') | (Some err, w') \<Rightarrow> (Inl err, w'))"

section \<open>Firewall commands\<close>

record block_cmd =
  bc_port :: int
  bc_protocol :: string
  bc_reason :: string

record fw_reply =
  fr_success :: bool
  fr_port :: "int option"
  fr_action :: "string option"
  fr_error :: "string option"

definition unsupported :: fw_reply where
  "unsupported = \<lparr>fr_success = False, fr_port = None, fr_action = None, fr_error = Some ''Unsupported platform''\<rparr>"

definition fw_answer :: "bool \<Rightarrow> int \<Rightarrow> string \<Rightarrow> fw_reply" where
  "fw_answer ok port action = \<lparr>fr_success = ok, fr_port = Some port, fr_action = Some action, fr_error = None\<rparr>"

definition handle_block :: "'s cenv \<Rightarrow> block_cmd \<Rightarrow> 's world \<Rightarrow> fw_reply result \<times> 's world" where
  "handle_block e c w =
     (case en_bridge e of
        None \<Rightarrow> (Inr unsupported, w)
      | Some ops \<Rightarrow>
          and_then (fw_do (fw_block ops (bc_port c) (bc_protocol c))) (\<lambda>ok.
          if ok then
            and_then (db_do (\<lambda>d. add_blocked_port (en_sql e) (tick e d) (bc_port c) ''hard''
                        (''User blocked '' @ bc_protocol c) d)) (\<lambda>_.
            and_then (publish_event e (FirewallUpdated
                        \<lparr>fu_port = bc_port c, fu_action = ''block'', fu_protocol = bc_protocol c,
                         fu_reason = bc_reason c, fu_success = True\<rparr>)) (\<lambda>_.
            yield_val (fw_answer ok (bc_port c) ''block'')))
          else yield_val (fw_answer ok (bc_port c) ''block'')) w)"

definition handle_unblock :: "'s cenv \<Rightarrow> int \<Rightarrow> 's world \<Rightarrow> fw_reply result \<times> 's world" where
  "handle_unblock e port w =
     (case en_bridge e of
        None \<Rightarrow> (Inr unsupported, w)
      | Some ops \<Rightarrow>
          and_then (fw_do (fw_unblock ops port)) (\<lambda>ok.
          if ok then
            and_then (db_do (remove_blocked_port (en_sql e) port)) (\<lambda>_.
            and_then (publish_event e (FirewallUpdated
                        \<lparr>fu_port = port, fu_action = ''unblock'', fu_protocol = ''TCP'',
                         fu_reason = ''Manual unblock'', fu_success = True\<rparr>)) (\<lambda>_.
            yield_val (fw_answer ok port ''unblock'')))
          else yield_val (fw_answer ok port ''unblock'')) w)"

section \<open>Routes: control\<close>

definition quoted :: "string \<Rightarrow> string" where
  "quoted s = [CHR 0x27] @ s @ [CHR 0x27]"

definition bad_request :: "string \<Rightarrow> exc" where
  "bad_request detail = HTTPException 400 detail"

definition api_block_port :: "'s cenv \<Rightarrow> int \<Rightarrow> string \<Rightarrow> 's world \<Rightarrow> fw_reply result \<times> 's world" where
  "api_block_port e port protocol w =
     (if \<not> (1 \<le> port \<and> port \<le> 65535) then (Inl (bad_request ''Port must be 1-65535''), w)
      else if str_upper protocol \<notin> {''TCP'', ''UDP''} then (Inl (bad_request ''Protocol must be TCP or UDP''), w)
      else case handle_block e \<lparr>bc_port = port, bc_protocol = str_upper protocol, bc_reason = ''Manual block''\<rparr> w of
             (Inl err, w') \<Rightarrow> (Inl (HTTPException 500 (en_text e err)), w')
           | (Inr x, w') \<Rightarrow> (Inr x, w'))"

definition api_unblock_port :: "'s cenv \<Rightarrow> int \<Rightarrow> 's world \<Rightarrow> fw_reply result \<times> 's world" where
  "api_unblock_port e port w =
     (if \<not> (1 \<le> port \<and> port \<le> 65535) then (Inl (bad_request ''Port must be 1-65535''), w)
      else handle_unblock e port w)"

section \<open>Approval commands\<close>

record request_cmd =
  rc_pid :: int
  rc_app :: "string option"
  rc_reason :: string

record resolve_cmd =
  sc_id :: int
  sc_status :: string
  sc_by :: string

record approval_reply =
  ar_success :: bool
  ar_pid :: "int option"
  ar_action :: "string option"
  ar_id :: "int option"
  ar_status :: "string option"
  ar_error :: "string option"

definition opt_text :: "string option \<Rightarrow> string" where
  "opt_text x = (case x of Some s \<Rightarrow> s | None \<Rightarrow> ''None'')"

definition handle_request :: "'s cenv \<Rightarrow> request_cmd \<Rightarrow> 's world \<Rightarrow> approval_reply result \<times> 's world" where
  "handle_request e c =
     and_then (db_do (\<lambda>d. create_analyst_approval (en_sql e) (tick e d) ''suspend_process'' (show_int (rc_pid c))
                 (rc_reason c) 0 d)) (\<lambda>i.
     and_then (publish_event e (ApprovalRequested
                 \<lparr>aq_id = i, aq_action_type = ''suspend_process'', aq_target = show_int (rc_pid c),
                  aq_reason = rc_reason c, aq_risk = 0\<rparr>)) (\<lambda>_.
     and_then (audit e
                 \<lparr>ae_event_type = ''approval_requested'', ae_message = ''Approval requested for PID '' @ show_int (rc_pid c),
                  ae_app = None, ae_port = None, ae_pid = None, ae_severity = ''info'',
                  ae_details = Some (''App: '' @ opt_text (rc_app c) @ '', Reason: '' @ rc_reason c
                    @ '', Approval ID: '' @ show_int i)\<rparr>) (\<lambda>_.
     yield_val \<lparr>ar_success = True, ar_pid = Some (rc_pid c), ar_action = Some ''request_approval'', ar_id = Some i,
       ar_status = None, ar_error = None\<rparr>)))"

definition handle_resolve :: "'s cenv \<Rightarrow> resolve_cmd \<Rightarrow> 's world \<Rightarrow> approval_reply result \<times> 's world" where
  "handle_resolve e c =
     and_then (db_do (\<lambda>d. update_approval_status (en_sql e) (tick e d) (sc_id c) (sc_status c) (sc_by c) d)) (\<lambda>ok.
     if \<not> ok then
       yield_val \<lparr>ar_success = False, ar_pid = None, ar_action = None, ar_id = None, ar_status = None,
         ar_error = Some ''Approval not found''\<rparr>
     else
       and_then (publish_event e (ApprovalResolved
                   \<lparr>as_id = sc_id c, as_status = sc_status c, as_by = sc_by c\<rparr>)) (\<lambda>_.
       and_then (audit e
                   \<lparr>ae_event_type = ''approval_resolved'',
                    ae_message = ''Approval '' @ show_int (sc_id c) @ '' '' @ sc_status c @ '' by '' @ sc_by c,
                    ae_app = None, ae_port = None, ae_pid = None,
                    ae_severity = (if sc_status c = ''approved'' then ''info'' else ''warning''),
                    ae_details = Some (''Approval ID: '' @ show_int (sc_id c) @ '', Status: '' @ sc_status c)\<rparr>) (\<lambda>_.
       yield_val \<lparr>ar_success = True, ar_pid = None, ar_action = None, ar_id = Some (sc_id c),
         ar_status = Some (sc_status c), ar_error = None\<rparr>)))"

section \<open>Routes: approvals\<close>

definition api_request_approval ::
  "'s cenv \<Rightarrow> int \<Rightarrow> string \<Rightarrow> string option \<Rightarrow> 's world \<Rightarrow> approval_reply result \<times> 's world" where
  "api_request_approval e pid reason app w =
     (if pid \<le> 0 then (Inl (bad_request ''Invalid PID''), w)
      else handle_request e \<lparr>rc_pid = pid, rc_app = app, rc_reason = reason\<rparr> w)"

definition api_get_approvals :: "'s cenv \<Rightarrow> 's world \<Rightarrow> analyst_approval list result \<times> 's world" where
  "api_get_approvals e = db_do (get_pending_approvals (en_sql e))"

definition api_resolve_approval :: "'s cenv \<Rightarrow> int \<Rightarrow> string \<Rightarrow> 's world \<Rightarrow> approval_reply result \<times> 's world" where
  "api_resolve_approval e i status w =
     (if status \<notin> {''approved'', ''rejected''}
      then (Inl (bad_request (''Status must be '' @ quoted ''approved'' @ '' or '' @ quoted ''rejected'')), w)
      else handle_resolve e \<lparr>sc_id = i, sc_status = status, sc_by = ''system''\<rparr> w)"

section \<open>Lemmas\<close>

lemma db_do_cases: "db_do f w = (r, w') \<longleftrightarrow> (\<exists>d. f (w_db w) = (r, d) \<and> w' = w\<lparr>w_db := d\<rparr>)"
  by (auto simp: db_do_def split: prod.splits)

lemma fw_do_cases: "fw_do f w = (r, w') \<longleftrightarrow> (\<exists>k. f (w_fw w) = (r, k) \<and> w' = w\<lparr>w_fw := k\<rparr>)"
  by (auto simp: fw_do_def split: prod.splits)

lemma and_then_cases: "and_then m f w = (r, w') \<longleftrightarrow>
    (\<exists>err. m w = (Inl err, w') \<and> r = Inl err) \<or> (\<exists>x w1. m w = (Inr x, w1) \<and> f x w1 = (r, w'))"
  by (auto simp: and_then_def split: prod.splits sum.splits)

text \<open>What logging, and hence any event, leaves alone.\<close>

definition same_tables :: "db \<Rightarrow> db \<Rightarrow> bool" where
  "same_tables d d' \<longleftrightarrow> t_blocked d' = t_blocked d \<and> t_approvals d' = t_approvals d \<and> t_traffic d' = t_traffic d
     \<and> t_prefs d' = t_prefs d"

lemma same_tables_refl [simp]: "same_tables d d"
  by (simp add: same_tables_def)

lemma same_tables_trans: "same_tables d1 d2 \<Longrightarrow> same_tables d2 d3 \<Longrightarrow> same_tables d1 d3"
  by (simp add: same_tables_def)

lemma same_tables_views: "same_tables d d' \<Longrightarrow> blocked_view d' = blocked_view d \<and> approval_status d' = approval_status d
    \<and> blocked_ok d' = blocked_ok d \<and> approvals_ok q d' = approvals_ok q d"
  by (simp add: same_tables_def blocked_view_def approval_status_def blocked_ok_def approvals_ok_def)

lemma audit_frame: "audit e x w = (r, w') \<Longrightarrow> w_fw w' = w_fw w \<and> w_bus w' = w_bus w \<and> same_tables (w_db w) (w_db w')"
  by (auto simp: audit_def db_do_cases insert_audit_log_def same_tables_def dest!: session_cases)

lemma bus_wired: "handlers_of (bus_sync (register_all new_bus)) c =
    (case c of C_PolicyEvaluated \<Rightarrow> [OnPolicyEvaluated] | C_FirewallUpdated \<Rightarrow> [OnFirewallUpdated]
     | C_AuditLogged \<Rightarrow> [OnAuditLogged] | _ \<Rightarrow> [])"
  by (cases c) (simp_all add: register_all_def handler_table_def subscribe_def new_bus_def handlers_of_add
      handlers_of_def [of "[]"])

lemma publish_event_ok: "\<exists>w'. publish_event e ev w = (Inr (), w')"
  by (simp add: publish_event_def publish_def run_handlers_all list_all_iff)

lemma publish_other: "w_bus w = register_all new_bus \<Longrightarrow> class_of ev \<in> {C_ApprovalRequested, C_ApprovalResolved} \<Longrightarrow>
    publish_event e ev w = (Inr (), w)"
  by (auto simp: publish_event_def publish_def bus_wired)

lemma publish_firewall:
  assumes "w_bus w = register_all new_bus" and "publish_event e (FirewallUpdated ev) w = (r, w')"
  shows "r = Inr () \<and> w_fw w' = w_fw w \<and> w_bus w' = w_bus w \<and> same_tables (w_db w) (w_db w')"
proof -
  obtain x w1 where a: "on_firewall_updated e ev w = (x, w1)" by fastforce
  then have x: "x = None" by (simp add: on_firewall_updated_def swallow_def)
  have "w_fw w1 = w_fw w \<and> w_bus w1 = w_bus w \<and> same_tables (w_db w) (w_db w1)"
    using a audit_frame [OF surjective_pairing, of e _ w] by (auto simp: on_firewall_updated_def swallow_def)
  moreover have "publish_event e (FirewallUpdated ev) w = (Inr (), w1)"
    using a x assms(1) by (simp add: publish_event_def publish_def bus_wired)
  ultimately show ?thesis using assms(2) by simp
qed

lemma handle_block_law:
  assumes bridge: "en_bridge e = Some ops"
    and ops: "firewall_adapter (fw_block ops) (fw_unblock ops) (fw_cleanup ops)"
    and bus: "w_bus w = register_all new_bus" and ok: "blocked_ok (w_db w)"
    and ran: "handle_block e c w = (r, w')"
  shows "w_fw w' = snd (fw_block ops (bc_port c) (bc_protocol c) (w_fw w)) \<and>
    (case r of
       Inl _ \<Rightarrow> blocked_view (w_db w') = blocked_view (w_db w)
     | Inr x \<Rightarrow> x = fw_answer True (bc_port c) ''block'' \<and> valid_port (bc_port c) \<and> valid_protocol (bc_protocol c)
         \<and> blocked_view (w_db w') =
             (blocked_view (w_db w))(bc_port c \<mapsto> (''hard'', tick e (w_db w), ''User blocked '' @ bc_protocol c)))"
proof -
  obtain ok1 k where b: "fw_block ops (bc_port c) (bc_protocol c) (w_fw w) = (ok1, k)" by fastforce
  let ?w1 = "w\<lparr>w_fw := k\<rparr>"
  show ?thesis
  proof (cases ok1)
    case (Inl err)
    with ran b bridge show ?thesis by (auto simp: handle_block_def and_then_def fw_do_def)
  next
    case (Inr flag)
    from firewall_adapter.block_success [OF ops b [unfolded Inr]]
    have v: "flag" "valid_port (bc_port c)" "valid_protocol (bc_protocol c)" by auto
    obtain rd d where add: "add_blocked_port (en_sql e) (tick e (w_db w)) (bc_port c) ''hard''
        (''User blocked '' @ bc_protocol c) (w_db w) = (rd, d)" by fastforce
    note law = add_blocked_law [OF ok add]
    show ?thesis
    proof (cases rd)
      case (Inl err)
      with ran b bridge Inr v add law show ?thesis
        by (auto simp: handle_block_def and_then_def fw_do_def db_do_def)
    next
      case (Inr u)
      let ?w2 = "?w1\<lparr>w_db := d\<rparr>"
      let ?ev = "FirewallUpdated \<lparr>fu_port = bc_port c, fu_action = ''block'', fu_protocol = bc_protocol c,
          fu_reason = bc_reason c, fu_success = True\<rparr>"
      obtain rp w3 where p: "publish_event e ?ev ?w2 = (rp, w3)" by fastforce
      with publish_firewall [OF _ p] bus have w3: "rp = Inr ()" "w_fw w3 = k" "same_tables d (w_db w3)" by auto
      have "handle_block e c w = (Inr (fw_answer True (bc_port c) ''block''), w3)"
        using b bridge \<open>ok1 = Inr flag\<close> v(1) add Inr p w3(1)
        by (simp add: handle_block_def and_then_def fw_do_def db_do_def yield_val_def)
      with ran b v law Inr w3 same_tables_views [OF w3(3), of "en_sql e"] show ?thesis by auto
    qed
  qed
qed

lemma upper_valid: "valid_protocol (str_upper s) = valid_protocol s"
  by (simp add: valid_protocol_def str_upper_def str_lower_def comp_def upper_lower_char)

lemma api_block_calls: "valid_port port \<Longrightarrow> valid_protocol proto \<Longrightarrow> api_block_port e port proto w =
    (case handle_block e \<lparr>bc_port = port, bc_protocol = str_upper proto, bc_reason = ''Manual block''\<rparr> w of
       (Inl err, w') \<Rightarrow> (Inl (HTTPException 500 (en_text e err)), w') | (Inr x, w') \<Rightarrow> (Inr x, w'))"
  using upper_protocol [of proto] by (simp add: api_block_port_def valid_port_def)

section \<open>Properties\<close>

definition linux_ops :: "'k runner \<Rightarrow> linux_bridge \<Rightarrow> 'k fw_ops" where
  "linux_ops run b = \<lparr>fw_block = lx_block_port run b, fw_unblock = lx_unblock_port run b,
     fw_cleanup = lx_cleanup_all_rules run b\<rparr>"

lemma linux_ops_adapter:
  "firewall_adapter (fw_block (linux_ops run b)) (fw_unblock (linux_ops run b)) (fw_cleanup (linux_ops run b))"
  by (simp add: linux_ops_def linux_fw.firewall_adapter_axioms)

definition linux_env :: "sql \<Rightarrow> string list list cenv" where
  "linux_env q = \<lparr>en_sql = q, en_clock = of_nat, en_bridge = Some (linux_ops sim_iptables root_bridge),
     en_text = (\<lambda>_. ''error'')\<rparr>"

definition linux_world :: "string list list world" where
  "linux_world = \<lparr>w_db = empty_db, w_fw = [], w_bus = register_all new_bus\<rparr>"

lemma linux_world_ok: "blocked_ok (w_db linux_world)" "w_bus linux_world = register_all new_bus"
  "en_bridge (linux_env q) = Some (linux_ops sim_iptables root_bridge)"
  by (simp_all add: linux_world_def blocked_ok_def empty_db_def linux_env_def)

text \<open>
  C12: the block route. On any bridge that keeps its contract, a port outside 1 to 65535 or a
  protocol other than TCP and UDP (in any case) is refused with status 400 and nothing happens;
  otherwise the answer is either a success, and then the table of blocked ports has exactly the
  new entry more, or status 500, and then the table is what it was. Who sends the request does not
  matter: neither the route nor its handler looks at credentials, so this is also the answer to a
  request without any, although the API document requires a bearer token for this route.
\<close>

theorem block_route_spec:
  assumes "en_bridge e = Some ops"
    and "firewall_adapter (fw_block ops) (fw_unblock ops) (fw_cleanup ops)"
    and "w_bus w = register_all new_bus" and "blocked_ok (w_db w)"
    and "api_block_port e port proto w = (r, w')"
  shows "if valid_port port \<and> valid_protocol proto
    then (case r of
            Inl err \<Rightarrow> (\<exists>detail. err = HTTPException 500 detail) \<and> blocked_view (w_db w') = blocked_view (w_db w)
          | Inr x \<Rightarrow> fr_success x \<and> blocked_view (w_db w') =
              (blocked_view (w_db w))(port \<mapsto> (''hard'', tick e (w_db w), ''User blocked '' @ str_upper proto)))
    else (\<exists>detail. r = Inl (HTTPException 400 detail)) \<and> w' = w"
proof (cases "valid_port port \<and> valid_protocol proto")
  case True
  let ?c = "\<lparr>bc_port = port, bc_protocol = str_upper proto, bc_reason = ''Manual block''\<rparr>"
  obtain rh w1 where h: "handle_block e ?c w = (rh, w1)" by fastforce
  from handle_block_law [OF assms(1-4) h] True assms(5) h show ?thesis
    by (auto simp: api_block_calls fw_answer_def split: sum.splits)
next
  case False
  with assms(5) upper_protocol [of proto] show ?thesis
    by (auto simp: api_block_port_def valid_port_def bad_request_def split: if_splits)
qed

theorem block_route_spec_witness:
  "snd (api_block_port (linux_env plain_sql) 0 ''TCP'' linux_world) = linux_world"
proof -
  have "\<not> valid_port 0" by (simp add: valid_port_def)
  moreover obtain r w' where a: "api_block_port (linux_env plain_sql) 0 ''TCP'' linux_world = (r, w')" by fastforce
  ultimately show ?thesis
    using block_route_spec [OF linux_world_ok(3) linux_ops_adapter linux_world_ok(2,1) a] by simp
qed

text \<open>
  A failed database call leaves the firewall blocked. When the bridge has installed the rule
  and storing it fails, the route answers 500 and the port is not in the table, but the firewall
  keeps the rule: \<open>handle_block\<close> does not undo it.
\<close>

theorem block_not_rolled_back:
  assumes "en_bridge e = Some ops" and "valid_port port" and "valid_protocol proto"
    and "fw_block ops port (str_upper proto) (w_fw w) = (Inr True, k)"
    and "sq_fault (en_sql e) (db_calls (w_db w)) = Some err"
    and "api_block_port e port proto w = (r, w')"
  shows "r = Inl (HTTPException 500 (en_text e err)) \<and> w_fw w' = k
    \<and> blocked_view (w_db w') = blocked_view (w_db w)"
  using assms(6) unfolding api_block_calls [OF assms(2,3)]
  by (auto simp: handle_block_def assms(1,4,5) and_then_def fw_do_def db_do_def add_blocked_port_def session_def)

definition broken_sql :: sql where
  "broken_sql = plain_sql\<lparr>sq_fault := (\<lambda>_. Some (OtherError ''database is locked''))\<rparr>"

theorem block_not_rolled_back_witness:
  "w_fw (snd (api_block_port (linux_env broken_sql) 23 ''tcp'' linux_world)) = [rule_spec ''Vigilant'' 23 ''tcp'']
   \<and> blocked_view (w_db (snd (api_block_port (linux_env broken_sql) 23 ''tcp'' linux_world))) = blocked_view empty_db"
proof -
  have v: "valid_port 23" "valid_protocol ''tcp''" "str_upper ''tcp'' = ''TCP''" "str_lower ''TCP'' = ''tcp''"
    by (simp add: valid_port_def) code_simp+
  have "fw_block (linux_ops sim_iptables root_bridge) 23 (str_upper ''tcp'') (w_fw linux_world) =
      (Inr True, [rule_spec ''Vigilant'' 23 ''tcp''])"
    by (simp add: linux_ops_def lx_block_port_def v lx_compatible_def root_bridge_def new_linux_bridge_def
        linux_world_def sim_iptables_def fw_cmd_def detect_firewall_def rule_spec_def Let_def)
  from block_not_rolled_back [OF linux_world_ok(3) v(1,2) this _ surjective_pairing]
  show ?thesis by (simp add: linux_env_def broken_sql_def linux_world_def)
qed

definition reliable :: "sql \<Rightarrow> bool" where
  "reliable q \<longleftrightarrow> sql_ok q \<and> (\<forall>n. sq_fault q n = None)"

lemma reliable_session: "reliable q \<Longrightarrow> session q f d = f (d\<lparr>db_calls := Suc (db_calls d)\<rparr>)"
  by (simp add: reliable_def session_def Let_def)

lemma plain_reliable: "reliable plain_sql"
  by (simp add: reliable_def plain_sql_ok) (simp add: plain_sql_def)

text \<open>The severity of the newest audit record.\<close>

definition last_severity :: "db \<Rightarrow> string option" where
  "last_severity d = (if t_audit d = [] then None else Some (lg_severity (last (t_audit d))))"

lemma last_severity_snoc: "t_audit d = gs @ [g] \<Longrightarrow> last_severity d = Some (lg_severity g)"
  by (simp add: last_severity_def)

text \<open>
  The database calls a handler makes, counted from its start, may fail. A failed call changes no
  table; a record of the audit log is written only if its own call works.
\<close>

definition works :: "'s cenv \<Rightarrow> db \<Rightarrow> nat \<Rightarrow> bool" where
  "works e d n \<longleftrightarrow> sq_fault (en_sql e) (db_calls d + n) = None"

definition logs :: "bool \<Rightarrow> string \<Rightarrow> db \<Rightarrow> db \<Rightarrow> bool" where
  "logs written severity d d' \<longleftrightarrow>
     (if written then \<exists>g. t_audit d' = t_audit d @ [g] \<and> lg_severity g = severity else t_audit d' = t_audit d)"

lemma audit_outcome: "audit e x w = (r, w') \<Longrightarrow> w_fw w' = w_fw w \<and> same_tables (w_db w) (w_db w')
    \<and> logs (works e (w_db w) 0) (ae_severity x) (w_db w) (w_db w')"
  by (auto simp: audit_def db_do_def insert_audit_log_def session_def works_def logs_def same_tables_def Let_def split: option.splits)

lemma add_blocked_outcome:
  assumes "blocked_ok (w_db w)" and "add_blocked_port (en_sql e) now p btype reason (w_db w) = (r, d)"
  shows "(r = Inr () \<longleftrightarrow> works e (w_db w) 0) \<and> t_audit d = t_audit (w_db w) \<and> works e d 0 = works e (w_db w) 1
    \<and> blocked_view d = (if works e (w_db w) 0 then (blocked_view (w_db w))(p \<mapsto> (btype, now, reason)) else blocked_view (w_db w))"
proof -
  have "r = Inr () \<longleftrightarrow> works e (w_db w) 0" and "t_audit d = t_audit (w_db w)" and "db_calls d = Suc (db_calls (w_db w))"
    using assms(2) by (auto simp: add_blocked_port_def session_def works_def Let_def split: option.splits)
  with add_blocked_law [OF assms] show ?thesis by (simp add: works_def)
qed

lemma create_approval_outcome:
  assumes "approvals_ok (en_sql e) (w_db w)" and "create_analyst_approval (en_sql e) now act target reason risk (w_db w) = (r, d)"
  shows "t_audit d = t_audit (w_db w) \<and> works e d 0 = works e (w_db w) 1
    \<and> (case r of Inl _ \<Rightarrow> \<not> works e (w_db w) 0 \<and> approval_status d = approval_status (w_db w)
       | Inr i \<Rightarrow> works e (w_db w) 0 \<and> approval_status (w_db w) i = None
           \<and> approval_status d = (approval_status (w_db w))(i \<mapsto> ''pending''))"
proof -
  have "t_audit d = t_audit (w_db w)" and "db_calls d = Suc (db_calls (w_db w))" and "(case r of Inl _ \<Rightarrow> False | Inr _ \<Rightarrow> True) = works e (w_db w) 0"
    using assms(2) by (auto simp: create_analyst_approval_def session_def works_def Let_def split: option.splits)
  with create_approval_law [OF assms] show ?thesis by (cases r) (simp_all add: works_def)
qed

text \<open>The three responses to a policy event.\<close>

lemma policy_blocks:
  assumes ok: "blocked_ok (w_db w)"
    and ops: "en_bridge e = Some ops" and act: "pv_action ev = ''block''"
    and b: "fw_block ops (pv_port ev) ''tcp'' (w_fw w) = (r, k)" and ran: "on_policy_evaluated e ev w = (x, w')"
  shows "w_fw w' = k
    \<and> (case r of Inl _ \<Rightarrow> w_db w' = w_db w
       | Inr _ \<Rightarrow> blocked_view (w_db w') = (if works e (w_db w) 0
             then (blocked_view (w_db w))(pv_port ev \<mapsto> (''hard'', tick e (w_db w), ''Policy Engine Auto-Block'')) else blocked_view (w_db w))
           \<and> logs (works e (w_db w) 0 \<and> works e (w_db w) 1) ''critical'' (w_db w) (w_db w'))"
proof -
  obtain rd d where add: "add_blocked_port (en_sql e) (tick e (w_db w)) (pv_port ev) ''hard''
      ''Policy Engine Auto-Block'' (w_db w) = (rd, d)" by (rule surjective_pairing [THEN that])
  let ?x = "policy_audit ev ''critical'' (''Automated block triggered on Port '' @ show_int (pv_port ev))"
  obtain ra w3 where a: "audit e ?x (w\<lparr>w_fw := k, w_db := d\<rparr>) = (ra, w3)" by fastforce
  from ran ops act b add a add_blocked_outcome [OF ok add] audit_outcome [OF a] same_tables_views [of d "w_db w3"]
  show ?thesis
    by (cases r; cases rd)
       (auto simp: on_policy_evaluated_def swallow_def and_then_def fw_do_def db_do_def policy_audit_def logs_def)
qed

lemma policy_asks:
  assumes ok: "approvals_ok (en_sql e) (w_db w)"
    and act: "pv_action ev = ''request_approval''" and ran: "on_policy_evaluated e ev w = (x, w')"
  shows "w_fw w' = w_fw w
    \<and> (if works e (w_db w) 0 then \<exists>i. approval_status (w_db w) i = None
           \<and> approval_status (w_db w') = (approval_status (w_db w))(i \<mapsto> ''pending'')
       else approval_status (w_db w') = approval_status (w_db w))
    \<and> logs (works e (w_db w) 0 \<and> works e (w_db w) 1) ''warning'' (w_db w) (w_db w')"
proof -
  obtain ri d where c: "create_analyst_approval (en_sql e) (tick e (w_db w)) ''suspend_process''
      (show_int (pv_pid ev)) ''Policy trigger'' 0 (w_db w) = (ri, d)" by (rule surjective_pairing [THEN that])
  let ?x = "policy_audit ev ''warning'' (''Analyst Approval requested for PID '' @ show_int (pv_pid ev))"
  obtain ra w3 where a: "audit e ?x (w\<lparr>w_db := d\<rparr>) = (ra, w3)" by fastforce
  from ran act c a create_approval_outcome [OF ok c] audit_outcome [OF a] same_tables_views [of d "w_db w3"]
  show ?thesis
    by (cases ri) (auto simp: on_policy_evaluated_def swallow_def and_then_def db_do_def policy_audit_def logs_def)
qed

lemma policy_notes:
  assumes act: "pv_action ev \<noteq> ''request_approval''" "pv_action ev = ''block'' \<longrightarrow> en_bridge e = None"
    and ran: "on_policy_evaluated e ev w = (x, w')"
  shows "w_fw w' = w_fw w \<and> same_tables (w_db w) (w_db w') \<and> logs (works e (w_db w) 0) ''info'' (w_db w) (w_db w')"
proof -
  let ?x = "policy_audit ev ''info'' (''Policy '' @ [CHR 0x27] @ pv_name ev @ [CHR 0x27] @ '' notification for '' @ pv_app ev)"
  obtain ra w3 where a: "audit e ?x w = (ra, w3)" by fastforce
  have "on_policy_evaluated e ev = swallow (audit e ?x)"
    using act by (cases "pv_action ev = ''block''"; cases "en_bridge e") (simp_all add: on_policy_evaluated_def)
  then have "w' = w3" using ran a by (auto simp: swallow_def)
  with audit_outcome [OF a] show ?thesis by (simp add: policy_audit_def)
qed


definition auto_block :: policy_evaluated where
  "auto_block = \<lparr>pv_id = ''exfil'', pv_name = ''High upload'', pv_action = ''block'', pv_port = 445, pv_pid = 42,
     pv_app = ''nc'', pv_risk = 9\<rparr>"


text \<open>
  The resolve route. Only "approved" and "rejected" are accepted; any other status is
  refused with status 400 before the database is touched. An accepted request sets the status of
  exactly the approval it names and reports success, or reports that there is no such approval
  and changes nothing; the bridge is never involved: an approval is recorded, not carried out.
\<close>

theorem resolve_route_spec:
  assumes "w_bus w = register_all new_bus" and "approvals_ok (en_sql e) (w_db w)"
    and "api_resolve_approval e i st w = (r, w')"
  shows "if st \<in> {''approved'', ''rejected''}
    then w_fw w' = w_fw w \<and> blocked_view (w_db w') = blocked_view (w_db w)
      \<and> (\<forall>x. r = Inr x \<longrightarrow> (ar_success x \<longleftrightarrow> approval_status (w_db w) i \<noteq> None)
          \<and> approval_status (w_db w') =
              (if ar_success x then (approval_status (w_db w))(i \<mapsto> st) else approval_status (w_db w)))
    else (\<exists>detail. r = Inl (HTTPException 400 detail)) \<and> w' = w"
proof (cases "st \<in> {''approved'', ''rejected''}")
  case True
  obtain ru d where u: "update_approval_status (en_sql e) (tick e (w_db w)) i st ''system'' (w_db w) = (ru, d)"
    by fastforce
  note law = update_approval_law [OF assms(2) u]
  have bl: "blocked_view d = blocked_view (w_db w)"
    using u by (auto simp: update_approval_status_def blocked_view_def dest!: session_cases split: if_splits)
  let ?c = "\<lparr>sc_id = i, sc_status = st, sc_by = ''system''\<rparr>"
  have ran: "handle_resolve e ?c w = (r, w')" using assms(3) True by (auto simp: api_resolve_approval_def split: if_splits)
  show ?thesis
  proof (cases "ru = Inr True")
    case found: True
    let ?w1 = "w\<lparr>w_db := d\<rparr>"
    let ?x = "\<lparr>ae_event_type = ''approval_resolved'', ae_message = ''Approval '' @ show_int i @ '' '' @ st @ '' by '' @ ''system'',
        ae_app = None, ae_port = None, ae_pid = None,
        ae_severity = (if st = ''approved'' then ''info'' else ''warning''),
        ae_details = Some (''Approval ID: '' @ show_int i @ '', Status: '' @ st)\<rparr>"
    obtain ra w2 where a: "audit e ?x ?w1 = (ra, w2)" by fastforce
    have "w_bus ?w1 = register_all new_bus" using assms(1) by simp
    with ran u found a have "w' = w2" and "\<forall>x. r = Inr x \<longrightarrow> ar_success x"
      by (auto simp: handle_resolve_def and_then_def db_do_def publish_other yield_val_def split: sum.splits)
    with audit_frame [OF a] law found bl True same_tables_views [of d "w_db w2" "en_sql e"] show ?thesis by auto
  next
    case other: False
    with ran u law bl True show ?thesis
      by (cases ru) (auto simp: handle_resolve_def and_then_def db_do_def yield_val_def)
  qed
next
  case False
  with assms(3) show ?thesis by (auto simp: api_resolve_approval_def bad_request_def)
qed

theorem resolve_route_spec_witness:
  "fst (api_resolve_approval (linux_env plain_sql) 7 ''maybe'' linux_world)
     = Inl (HTTPException 400 (''Status must be '' @ quoted ''approved'' @ '' or '' @ quoted ''rejected''))
   \<and> snd (api_resolve_approval (linux_env plain_sql) 7 ''maybe'' linux_world) = linux_world"
proof -
  have "approvals_ok (en_sql (linux_env plain_sql)) (w_db linux_world)"
    by (simp add: approvals_ok_def linux_env_def linux_world_def empty_db_def plain_sql_ok)
  moreover obtain r w' where a: "api_resolve_approval (linux_env plain_sql) 7 ''maybe'' linux_world = (r, w')" by fastforce
  ultimately have "w' = linux_world" using resolve_route_spec [OF linux_world_ok(2) _ a] by simp
  with a show ?thesis by (auto simp: api_resolve_approval_def bad_request_def)
qed

end
