(* ===== verification/Container.thy ===== *)
theory Container
  imports Scheduler Plugins Settings Policy Threat_Intel Commands
begin

text \<open>
  The dependency container (\<open>container.py\<close>), the start-up and shut-down order of
  \<open>app.py\<close>, the background jobs the container registers, and the InfluxDB writer of
  \<open>core/db.py\<close> it may create. The jobs work on the accumulator and the database, which are the
  same objects the rest of the container uses.
\<close>

section \<open>InfluxDB writer\<close>

record influx =
  ix_url :: string
  ix_token :: string
  ix_org :: string
  ix_bucket :: string
  ix_connected :: bool

definition str_or :: "string \<Rightarrow> string \<Rightarrow> string" where
  "str_or s d = (if s = [] then d else s)"

definition new_influx :: "environ \<Rightarrow> string \<Rightarrow> string \<Rightarrow> string \<Rightarrow> string \<Rightarrow> influx" where
  "new_influx env url token org bucket =
     \<lparr>ix_url = str_or url (getenv env ''INFLUXDB_URL'' ''http://localhost:8086''),
      ix_token = str_or token (getenv env ''INFLUXDB_TOKEN'' []), ix_org = str_or org (getenv env ''INFLUXDB_ORG'' ''vigilant''),
      ix_bucket = str_or bucket (getenv env ''INFLUXDB_BUCKET'' ''traffic''), ix_connected = False\<rparr>"

text \<open>\<open>fails\<close> is whether the client library raised; every exception becomes \<open>False\<close>.\<close>

definition influx_connect :: "bool \<Rightarrow> influx \<Rightarrow> bool \<times> influx" where
  "influx_connect fails ix =
     (if ix_token ix = [] then (False, ix)
      else if fails then (False, ix) else (True, ix\<lparr>ix_connected := True\<rparr>))"

record point =
  pt_port :: int
  pt_app :: string
  pt_protocol :: string
  pt_in :: rat
  pt_out :: rat
  pt_pid :: int
  pt_risk :: int
  pt_nanos :: int

text \<open>A record without a port raises \<open>KeyError\<close>, which ends the call like every other exception.\<close>

definition point_of :: "time \<Rightarrow> traffic_record \<Rightarrow> point option" where
  "point_of now r = map_option (\<lambda>p. \<lparr>pt_port = p, pt_app = opt ''Unknown'' (tr_app r), pt_protocol = opt ''TCP'' (tr_protocol r),
     pt_in = opt 0 (tr_in r), pt_out = opt 0 (tr_out r), pt_pid = opt 0 (tr_pid r), pt_risk = opt 0 (tr_risk r),
     pt_nanos = \<lfloor>opt now (tr_time r) * 1000000000\<rfloor>\<rparr>) (tr_port r)"

text \<open>The points handed to the server.\<close>

definition influx_write :: "bool \<Rightarrow> time \<Rightarrow> traffic_record list \<Rightarrow> influx \<Rightarrow> point list" where
  "influx_write fails now rs ix =
     (if \<not> ix_connected ix then []
      else if fails \<or> (\<exists>r \<in> set rs. tr_port r = None) then [] else map (the \<circ> point_of now) rs)"

definition influx_close :: "influx \<Rightarrow> influx" where
  "influx_close ix = ix\<lparr>ix_connected := False\<rparr>"

section \<open>Background jobs\<close>

record 't job_world =
  jw_acc :: "'t accumulator"
  jw_db :: db

text \<open>The dictionary of a port-table row, read by \<open>insert_traffic\<close>.\<close>

definition record_of_row :: "port_row \<Rightarrow> traffic_record" where
  "record_of_row r = \<lparr>tr_time = Some (s_time r), tr_port = Some (s_port r), tr_pid = Some (s_pid r),
     tr_app = Some (s_app r), tr_in = Some (s_in r), tr_out = Some (s_out r), tr_protocol = Some (s_protocol r),
     tr_direction = Some (s_direction r), tr_risk = Some (s_risk r)\<rparr>"

definition of_result :: "'a result \<Rightarrow> exc option" where
  "of_result r = (case r of Inl err \<Rightarrow> Some err | Inr _ \<Rightarrow> None)"

definition flush_traffic :: "sql \<Rightarrow> time \<Rightarrow> 't job_world \<Rightarrow> exc option \<times> 't job_world" where
  "flush_traffic q t w =
     (let table = get_port_table t (jw_acc w) in
      if table = [] then (None, w)
      else case insert_traffic q t (map record_of_row table) (jw_db w) of
             (r, d) \<Rightarrow> (of_result r, w\<lparr>jw_db := d\<rparr>))"

definition cache_evict :: "time \<Rightarrow> 't job_world \<Rightarrow> exc option \<times> 't job_world" where
  "cache_evict t w = (None, w\<lparr>jw_acc := cleanup_accumulator t (jw_acc w)\<rparr>)"

definition traffic_prune :: "sql \<Rightarrow> time \<Rightarrow> 't job_world \<Rightarrow> exc option \<times> 't job_world" where
  "traffic_prune q t w = (case prune_old_traffic q t 24 (jw_db w) of (r, d) \<Rightarrow> (of_result r, w\<lparr>jw_db := d\<rparr>))"

definition register_background_jobs ::
  "sql \<Rightarrow> settings \<Rightarrow> 't job_world scheduler \<Rightarrow> 't job_world scheduler" where
  "register_background_jobs q s sc = sc\<lparr>sc_jobs :=
     register_job ''traffic_prune'' (traffic_prune q) 3600 False
       (register_job ''cache_evict'' cache_evict (st_evict s) False
         (register_job ''traffic_flush'' (flush_traffic q) (st_flush s) False (sc_jobs sc)))\<rparr>"

section \<open>The container\<close>

datatype bridge_kind = Windows_Kind | Linux_Kind | Darwin_Kind

record sniffer_proc =
  sp_shm_name :: string
  sp_hmac_key :: string
  sp_started :: bool
  sp_stopped :: bool

text \<open>
  \<open>k_connected\<close> is whether the database has an engine: it is created by the first call that needs
  a session. The threat service is the one the accumulator holds.
\<close>

record ('t, 's, 'p) container =
  k_settings :: settings
  k_world :: "'s world"
  k_connected :: bool
  k_acc :: "'t accumulator"
  k_engine :: policy_engine
  k_sched :: "'t job_world scheduler"
  k_plugins :: "'p registry"
  k_bridge :: "bridge_kind option"
  k_sniffer :: "sniffer_proc option"
  k_influx :: "influx option"

definition new_container :: "settings \<Rightarrow> db \<Rightarrow> 's \<Rightarrow> ('t, 's, 'p) container" where
  "new_container s d fw =
     \<lparr>k_settings = s, k_world = \<lparr>w_db = d, w_fw = fw, w_bus = new_bus\<rparr>, k_connected = False,
      k_acc = new_accumulator None, k_engine = new_policy_engine, k_sched = new_scheduler, k_plugins = [],
      k_bridge = None, k_sniffer = None, k_influx = None\<rparr>"

definition platform_bridge :: "string \<Rightarrow> bridge_kind option" where
  "platform_bridge system =
     (if system = ''Windows'' then Some Windows_Kind else if system = ''Linux'' then Some Linux_Kind
      else if system = ''Darwin'' then Some Darwin_Kind else None)"

text \<open>
  \<open>init k\<close> is what importing and constructing a bridge raises, if anything; only an
  \<open>ImportError\<close> is caught.
\<close>

definition wire_os_bridge ::
  "string \<Rightarrow> (bridge_kind \<Rightarrow> exc option) \<Rightarrow> ('t, 's, 'p) container \<Rightarrow> exc option \<times> ('t, 's, 'p) container" where
  "wire_os_bridge system init c =
     (case platform_bridge system of
        None \<Rightarrow> (None, c)
      | Some k \<Rightarrow>
          (case init k of
             None \<Rightarrow> (None, c\<lparr>k_bridge := Some k\<rparr>)
           | Some err \<Rightarrow> if err = ImportError then (None, c) else (Some err, c)))"

text \<open>The three other services swallow every exception of their constructors.\<close>

definition wire_threat_service :: "'t result \<Rightarrow> ('t, 's, 'p) container \<Rightarrow> ('t, 's, 'p) container" where
  "wire_threat_service svc c =
     (case svc of Inl err \<Rightarrow> c | Inr t \<Rightarrow> c\<lparr>k_acc := (k_acc c)\<lparr>ac_threat := Some t\<rparr>\<rparr>)"

definition wire_influx :: "environ \<Rightarrow> exc option \<Rightarrow> ('t, 's, 'p) container \<Rightarrow> ('t, 's, 'p) container" where
  "wire_influx env raised c =
     (let s = k_settings c in
      if \<not> influx_enabled s then c
      else case raised of
             Some err \<Rightarrow> c
           | None \<Rightarrow> c\<lparr>k_influx := Some (new_influx env (st_influx_url s) (st_influx_token s) (st_influx_org s)
                        (st_influx_bucket s))\<rparr>)"

definition wire_sniffer :: "exc option \<Rightarrow> ('t, 's, 'p) container \<Rightarrow> ('t, 's, 'p) container" where
  "wire_sniffer raised c =
     (case raised of
        Some err \<Rightarrow> c
      | None \<Rightarrow> c\<lparr>k_sniffer := Some \<lparr>sp_shm_name = st_shm_name (k_settings c), sp_hmac_key = st_hmac_key (k_settings c),
                   sp_started = False, sp_stopped = False\<rparr>\<rparr>)"

section \<open>Start-up and shut-down\<close>

text \<open>What the constructors raise and what the package scan finds.\<close>

record ('t, 'p) startup_env =
  su_system :: string
  su_bridge :: "bridge_kind \<Rightarrow> exc option"
  su_threat :: "'t result"
  su_environ :: environ
  su_influx :: "exc option"
  su_sniffer :: "exc option"
  su_modules :: "(string \<times> 'p attr list result) list"

text \<open>
  The part of \<open>lifespan\<close> before the \<open>yield\<close>; \<open>p\<close> is the plugins' world. An exception of
  the bridge ends the start-up.
\<close>

definition startup ::
  "sql \<Rightarrow> ('t, 'p) startup_env \<Rightarrow> ('t, 's, 'p) container \<Rightarrow> 'p \<Rightarrow> exc option \<times> ('t, 's, 'p) container \<times> 'p" where
  "startup q v c p =
     (case wire_os_bridge (su_system v) (su_bridge v) c of
        (Some err, c1) \<Rightarrow> (Some err, c1, p)
      | (None, c1) \<Rightarrow>
          (let c2 = wire_sniffer (su_sniffer v) (wire_influx (su_environ v) (su_influx v) (wire_threat_service (su_threat v) c1));
               c3 = c2\<lparr>k_world := (k_world c2)\<lparr>w_bus := register_all (w_bus (k_world c2))\<rparr>,
                       k_sched := start_scheduler (register_background_jobs q (k_settings c2) (k_sched c2))\<rparr>;
               (n, reg) = discover (su_modules v) (k_plugins c3); (reg', p') = start_all reg p in
           (None, c3\<lparr>k_plugins := reg', k_sniffer := map_option (sp_started_update (\<lambda>_. True)) (k_sniffer c3)\<rparr>, p')))"

definition close_database :: "bool \<Rightarrow> unit result" where
  "close_database has_engine = (if has_engine then Inr () else Inl AttributeError)"

text \<open>
  \<open>Container.shutdown\<close>: the exceptions of the firewall clean-up are logged, that of
  \<open>engine.dispose()\<close> on a missing engine is not.
\<close>

definition shutdown ::
  "(bridge_kind \<Rightarrow> 's \<Rightarrow> nat result \<times> 's) \<Rightarrow> ('t, 's, 'p) container \<Rightarrow> 'p \<Rightarrow> exc option \<times> ('t, 's, 'p) container \<times> 'p" where
  "shutdown cleanup c p =
     (let (reg, p') = stop_all (k_plugins c) p;
          w = k_world c;
          w' = (case k_bridge c of None \<Rightarrow> w | Some k \<Rightarrow> w\<lparr>w_fw := snd (cleanup k (w_fw w))\<rparr>);
          c1 = c\<lparr>k_sched := stop_scheduler (k_sched c), k_plugins := reg,
                 k_sniffer := map_option (sp_stopped_update (\<lambda>_. True)) (k_sniffer c), k_world := w'\<rparr> in
      case close_database (k_connected c) of
        Inl err \<Rightarrow> (Some err, c1, p')
      | Inr _ \<Rightarrow> (None, c1\<lparr>k_world := w'\<lparr>w_bus := clear_bus (w_bus w')\<rparr>\<rparr>, p'))"

section \<open>Jobs: lemmas\<close>

text \<open>What a stored row takes from the row of the table.\<close>

definition stored_fields :: "traffic_history \<Rightarrow> time \<times> int \<times> int \<times> string \<times> rat \<times> rat \<times> string \<times> string \<times> int" where
  "stored_fields h = (th_time h, th_port h, th_pid h, th_app h, th_in h, th_out h, th_protocol h, th_direction h, th_risk h)"

definition row_fields_of :: "port_row \<Rightarrow> time \<times> int \<times> int \<times> string \<times> rat \<times> rat \<times> string \<times> string \<times> int" where
  "row_fields_of r = (s_time r, s_port r, s_pid r, s_app r, s_in r, s_out r, s_protocol r, s_direction r, s_risk r)"

lemma stored_row [simp]: "stored_fields (traffic_of now i (record_of_row r)) = row_fields_of r"
  by (simp add: stored_fields_def row_fields_of_def traffic_of_def record_of_row_def opt_def)

lemma add_traffic_rows: "\<exists>rows. add_traffic q now (map record_of_row rs) t = t @ rows
    \<and> map stored_fields rows = map row_fields_of rs"
proof (induction rs arbitrary: t)
  case (Cons r rs)
  let ?x = "traffic_of now (sq_next q (map th_id t)) (record_of_row r)"
  obtain rows where "add_traffic q now (map record_of_row rs) (t @ [?x]) = (t @ [?x]) @ rows"
    "map stored_fields rows = map row_fields_of rs" using Cons [of "t @ [?x]"] by blast
  then show ?case by (intro exI [of _ "?x # rows"]) simp
qed simp

lemma add_traffic_ids: "sql_ok q \<Longrightarrow> distinct (map th_id t) \<Longrightarrow> distinct (map th_id (add_traffic q now rs t))"
proof (induction rs arbitrary: t)
  case (Cons r rs)
  have "sq_next q (map th_id t) \<notin> th_id ` set t" using Cons.prems(1) by (rule fresh_id)
  with Cons show ?case by (simp add: traffic_of_def)
qed simp

definition world_ok :: "'t job_world \<Rightarrow> bool" where
  "world_ok w \<longleftrightarrow> acc_ok (jw_acc w) \<and> distinct (map th_id (t_traffic (jw_db w)))"

lemma flush_keeps: "sql_ok q \<Longrightarrow> world_ok w \<Longrightarrow> world_ok (snd (flush_traffic q t w))"
  by (auto simp: flush_traffic_def world_ok_def insert_traffic_def session_def Let_def add_traffic_ids
      split: prod.splits option.splits)

lemma evict_keeps: "world_ok w \<Longrightarrow> world_ok (snd (cache_evict t w))"
  by (simp add: cache_evict_def world_ok_def acc_ok_cleanup)

lemma prune_keeps: "world_ok w \<Longrightarrow> world_ok (snd (traffic_prune q t w))"
  by (auto simp: traffic_prune_def world_ok_def prune_old_traffic_def session_def Let_def distinct_map_filter
      split: prod.splits option.splits)

lemma background_jobs: "sc_jobs (register_background_jobs q s sc) = sc_jobs sc @
    [new_job ''traffic_flush'' (flush_traffic q) (st_flush s) False, new_job ''cache_evict'' cache_evict (st_evict s) False,
     new_job ''traffic_prune'' (traffic_prune q) 3600 False]"
  by (simp add: register_background_jobs_def register_job_def)

lemma background_frame [simp]: "sc_alive (register_background_jobs q s sc) = sc_alive sc"
  "sc_stop (register_background_jobs q s sc) = sc_stop sc"
  by (simp_all add: register_background_jobs_def)

interpretation background: job_set "sc_jobs (register_background_jobs q s new_scheduler)" "\<lambda>w. sql_ok q \<and> world_ok w"
  for q s
  by unfold_locales
     (auto simp: background_jobs new_scheduler_def new_job_def flush_keeps evict_keeps prune_keeps)

section \<open>Wiring: lemmas\<close>

definition wired_bridge :: "string \<Rightarrow> (bridge_kind \<Rightarrow> exc option) \<Rightarrow> bridge_kind option" where
  "wired_bridge system init =
     (case platform_bridge system of None \<Rightarrow> None | Some k \<Rightarrow> if init k = None then Some k else None)"

definition bridge_raises :: "string \<Rightarrow> (bridge_kind \<Rightarrow> exc option) \<Rightarrow> bool" where
  "bridge_raises system init \<longleftrightarrow> (\<exists>k. platform_bridge system = Some k \<and> init k \<notin> {None, Some ImportError})"

lemma wire_bridge_ok: "\<not> bridge_raises system init \<Longrightarrow> k_bridge c = None \<Longrightarrow>
    wire_os_bridge system init c = (None, c\<lparr>k_bridge := wired_bridge system init\<rparr>)"
  by (cases c) (auto simp: wire_os_bridge_def bridge_raises_def wired_bridge_def split: option.splits)

lemma wire_bridge_raises: "bridge_raises system init \<Longrightarrow> \<exists>err. wire_os_bridge system init c = (Some err, c)"
  by (auto simp: wire_os_bridge_def bridge_raises_def split: option.splits)

lemma wire_threat_frame [simp]: "k_world (wire_threat_service t c) = k_world c" "k_sched (wire_threat_service t c) = k_sched c"
  "k_settings (wire_threat_service t c) = k_settings c" "k_plugins (wire_threat_service t c) = k_plugins c"
  "k_bridge (wire_threat_service t c) = k_bridge c" "k_influx (wire_threat_service t c) = k_influx c"
  "k_sniffer (wire_threat_service t c) = k_sniffer c"
  by (simp_all add: wire_threat_service_def split: sum.splits)

lemma wire_influx_frame [simp]: "k_world (wire_influx env x c) = k_world c" "k_sched (wire_influx env x c) = k_sched c"
  "k_settings (wire_influx env x c) = k_settings c" "k_plugins (wire_influx env x c) = k_plugins c"
  "k_bridge (wire_influx env x c) = k_bridge c" "k_sniffer (wire_influx env x c) = k_sniffer c"
  by (simp_all add: wire_influx_def Let_def split: option.splits)

lemma wire_influx_enabled: "k_influx c = None \<Longrightarrow> k_influx (wire_influx env x c) = Some ix \<Longrightarrow>
    influx_enabled (k_settings c) \<and> \<not> ix_connected ix"
  by (auto simp: wire_influx_def Let_def new_influx_def split: if_splits option.splits)

lemma wire_sniffer_frame [simp]: "k_world (wire_sniffer x c) = k_world c" "k_sched (wire_sniffer x c) = k_sched c"
  "k_settings (wire_sniffer x c) = k_settings c" "k_plugins (wire_sniffer x c) = k_plugins c"
  "k_bridge (wire_sniffer x c) = k_bridge c" "k_influx (wire_sniffer x c) = k_influx c"
  by (simp_all add: wire_sniffer_def split: option.splits)

lemma new_container_fields [simp]: "k_bridge (new_container s d fw) = None" "k_settings (new_container s d fw) = s"
  "k_plugins (new_container s d fw) = []" "k_sniffer (new_container s d fw) = None" "k_influx (new_container s d fw) = None"
  "k_sched (new_container s d fw) = new_scheduler" "k_world (new_container s d fw) = \<lparr>w_db = d, w_fw = fw, w_bus = new_bus\<rparr>"
  by (simp_all add: new_container_def)

text \<open>The writer the container creates is never connected, so nothing it is given is written.\<close>

lemma wired_writer_silent: "k_influx c = None \<Longrightarrow> k_influx (wire_influx env x c) = Some ix \<Longrightarrow>
    influx_write fails now rs ix = []"
  by (simp add: wire_influx_enabled influx_write_def)

lemma handlers_registered: "set (handlers_of (bus_sync (register_all new_bus)) cls) = {h. (cls, h) \<in> set handler_table}"
  using sync_bus.registered [of handler_table new_bus cls] by (simp add: register_all_def new_bus_def handlers_of_def)

lemma shutdown_effect:
  assumes "iptables_ok run b chain render" and "lx_compatible b" and "k_bridge c = Some Linux_Kind"
    and "cleanup Linux_Kind = lx_cleanup_all_rules run b" and "shutdown cleanup c p = (r, c', p')"
  shows "chain (w_fw (k_world c')) = filter (\<lambda>x. \<not> is_ours (render x)) (chain (w_fw (k_world c)))"
    and "w_db (k_world c') = w_db (k_world c)" and "r \<noteq> None \<longleftrightarrow> \<not> k_connected c"
    and "w_bus (k_world c') = (if r = None then clear_bus (w_bus (k_world c)) else w_bus (k_world c))"
    and "k_sched c' = stop_scheduler (k_sched c)" and "k_sniffer c' = map_option (sp_stopped_update (\<lambda>_. True)) (k_sniffer c)"
    and "k_plugins c' = fst (stop_all (k_plugins c) p)"
proof -
  obtain reg p1 where st: "stop_all (k_plugins c) p = (reg, p1)" by fastforce
  obtain k' where k: "snd (lx_cleanup_all_rules run b (w_fw (k_world c))) = k'"
    "chain k' = filter (\<lambda>x. \<not> is_ours (render x)) (chain (w_fw (k_world c)))"
    using lx_cleanup_effect [OF assms(1,2), of "w_fw (k_world c)"] by (metis snd_conv)
  have *: "w_fw (k_world c') = k'" "w_db (k_world c') = w_db (k_world c)" "r \<noteq> None \<longleftrightarrow> \<not> k_connected c"
    "w_bus (k_world c') = (if r = None then clear_bus (w_bus (k_world c)) else w_bus (k_world c))"
    "k_sched c' = stop_scheduler (k_sched c)" "k_sniffer c' = map_option (sp_stopped_update (\<lambda>_. True)) (k_sniffer c)"
    "k_plugins c' = fst (stop_all (k_plugins c) p)"
    using assms(3-5) k(1) by (auto simp: shutdown_def Let_def st close_database_def split: if_splits)
  from *(1) k(2) show "chain (w_fw (k_world c')) = filter (\<lambda>x. \<not> is_ours (render x)) (chain (w_fw (k_world c)))" by simp
  from *(2-) show "w_db (k_world c') = w_db (k_world c)" "r \<noteq> None \<longleftrightarrow> \<not> k_connected c"
    "w_bus (k_world c') = (if r = None then clear_bus (w_bus (k_world c)) else w_bus (k_world c))"
    "k_sched c' = stop_scheduler (k_sched c)" "k_sniffer c' = map_option (sp_stopped_update (\<lambda>_. True)) (k_sniffer c)"
    "k_plugins c' = fst (stop_all (k_plugins c) p)" by blast+
qed

section \<open>Properties\<close>

text \<open>
  C34: persistence. A flush that does not raise appends to the traffic history exactly one row for
  every row of the port table at that time, in port order and with the same port, process, rates,
  protocol, risk and time; a flush that raises stores nothing. Either way the accumulator and all
  other tables (blocked ports, approvals, audit log, preferences, configuration) stay as they are:
  only the traffic table and the number of database calls may differ.
\<close>

theorem flush_persists_table:
  assumes "flush_traffic q t w = (r, w')"
  shows "jw_acc w' = jw_acc w
    \<and> jw_db w' = (jw_db w)\<lparr>t_traffic := t_traffic (jw_db w'), db_calls := db_calls (jw_db w')\<rparr>
    \<and> (case r of
         None \<Rightarrow> (\<exists>rows. t_traffic (jw_db w') = t_traffic (jw_db w) @ rows
                   \<and> map stored_fields rows = map row_fields_of (get_port_table t (jw_acc w)))
       | Some err \<Rightarrow> t_traffic (jw_db w') = t_traffic (jw_db w))"
proof (cases "get_port_table t (jw_acc w) = [] \<or> sq_fault q (db_calls (jw_db w)) \<noteq> None")
  case True
  with assms show ?thesis
    by (auto simp: flush_traffic_def insert_traffic_def session_def of_result_def Let_def split: if_splits option.splits)
next
  case False
  obtain rows where rows: "add_traffic q t (map record_of_row (get_port_table t (jw_acc w))) (t_traffic (jw_db w))
      = t_traffic (jw_db w) @ rows" "map stored_fields rows = map row_fields_of (get_port_table t (jw_acc w))"
    using add_traffic_rows by blast
  from False assms have "r = None" and "w' = w\<lparr>jw_db := (jw_db w)\<lparr>db_calls := Suc (db_calls (jw_db w)),
      t_traffic := add_traffic q t (map record_of_row (get_port_table t (jw_acc w))) (t_traffic (jw_db w))\<rparr>\<rparr>"
    by (auto simp: flush_traffic_def insert_traffic_def session_def of_result_def Let_def)
  then show ?thesis using rows by simp
qed

definition seen_world :: "unit job_world" where
  "seen_world = \<lparr>jw_acc = (new_accumulator None)\<lparr>ac_cache := add_snapshot
     (make_snapshot 443 (1, 2) 7 ''nginx'' 0 1000 5 ''8.8.8.8'' default_meta) (new_window 10)\<rparr>, jw_db = empty_db\<rparr>"

theorem flush_persists_table_witness:
  "\<exists>w' rows. flush_traffic plain_sql 1002 seen_world = (None, w') \<and> t_traffic (jw_db w') = rows
     \<and> map stored_fields rows = [(1000, 443, 7, ''nginx'', 1, 2, ''TCP'', ''both'', 5)]"
proof -
  obtain w' where f: "flush_traffic plain_sql 1002 seen_world = (None, w')"
    by (simp add: flush_traffic_def seen_world_def get_port_table_def latest_def add_snapshot_def new_window_def
        new_accumulator_def make_snapshot_def port_entries_def deque_append_def ACTIVE_PORT_TTL_SECONDS_def
        insert_traffic_def session_def plain_sql_def empty_db_def of_result_def)
  have "map row_fields_of (get_port_table 1002 (jw_acc seen_world)) = [(1000, 443, 7, ''nginx'', 1, 2, ''TCP'', ''both'', 5)]"
    by (simp add: seen_world_def get_port_table_def latest_def add_snapshot_def new_window_def
        new_accumulator_def make_snapshot_def port_entries_def deque_append_def ACTIVE_PORT_TTL_SECONDS_def
        row_fields_of_def row_of_def port_snapshot.defs default_meta_def)
  moreover have "t_traffic (jw_db seen_world) = []" by (simp add: seen_world_def empty_db_def)
  ultimately show ?thesis using flush_persists_table [OF f] f by simp
qed

text \<open>
  The background jobs keep the invariants. Whatever the clock reads and whichever database
  calls fail, the scheduler's loop over the three registered jobs keeps the accumulator's invariant
  and the uniqueness of the stored rows' identifiers.
\<close>

theorem background_jobs_keep_invariants:
  assumes "sql_ok q" and "world_ok w"
    and "run_loop t0 ts (sc_jobs (register_background_jobs q s new_scheduler)) w = (js, w')"
  shows "world_ok w'"
  using background.loop_keeps [of q w t0 ts s] assms by simp

definition quiet_settings :: settings where
  "quiet_settings = \<lparr>st_host = [], st_port = 8600, st_reload = False, st_db_url = [], st_emit = 1, st_flush = 30,
     st_evict = 3600, st_shm_name = ''VigilantCapture'', st_hmac_key = [], st_origins = [], st_influx_url = [],
     st_influx_token = [], st_influx_org = [], st_influx_bucket = []\<rparr>"

theorem background_jobs_keep_invariants_witness:
  "world_ok (snd (run_loop (every_second 0) (map every_second [1000, 1030])
     (sc_jobs (register_background_jobs plain_sql quiet_settings new_scheduler)) seen_world))"
proof (rule background_jobs_keep_invariants [OF _ _ surjective_pairing])
  show "sql_ok plain_sql" by (rule plain_sql_ok)
  show "world_ok seen_world"
    by (simp add: seen_world_def world_ok_def acc_ok_def window_ok_add window_ok_new empty_db_def)
qed

text \<open>
  Start-up. It raises exactly when the platform's bridge raises something other than a failed
  import. Otherwise the bridge is the platform's unless its import failed, every event class has
  exactly the handlers of the handler table, the three jobs are registered with the configured
  intervals and the scheduler runs, a sniffer that could be created is started on the configured
  segment with the configured key, and every plugin that runs is enabled or ran before.
\<close>

theorem startup_spec:
  assumes "startup q v (new_container s d fw) p = (r, c, p')"
  shows "(r \<noteq> None \<longleftrightarrow> bridge_raises (su_system v) (su_bridge v))
    \<and> (r = None \<longrightarrow>
        k_bridge c = wired_bridge (su_system v) (su_bridge v)
        \<and> (\<forall>cls h. h \<in> set (handlers_of (bus_sync (w_bus (k_world c))) cls) \<longleftrightarrow> (cls, h) \<in> set handler_table)
        \<and> map (\<lambda>j. (j_name j, j_interval j)) (sc_jobs (k_sched c)) =
            [(''traffic_flush'', st_flush s), (''cache_evict'', st_evict s), (''traffic_prune'', 3600)]
        \<and> sc_alive (k_sched c) \<and> \<not> sc_stop (k_sched c)
        \<and> k_sniffer c = (if su_sniffer v = None then Some \<lparr>sp_shm_name = st_shm_name s, sp_hmac_key = st_hmac_key s,
              sp_started = True, sp_stopped = False\<rparr> else None)
        \<and> (\<forall>x \<in> set (started_plugins (k_plugins c)).
              pl_enabled x \<or> x \<in> set (started_plugins (snd (discover (su_modules v) [])))))"
proof (cases "bridge_raises (su_system v) (su_bridge v)")
  case True
  from wire_bridge_raises [OF this] obtain err where
    "wire_os_bridge (su_system v) (su_bridge v) (new_container s d fw) = (Some err, new_container s d fw :: ('a, 'b, 'c) container)"
    by blast
  with assms have "r = Some err" by (simp add: startup_def)
  with True show ?thesis by simp
next
  case False
  obtain n reg where di: "discover (su_modules v) ([] :: 'c registry) = (n, reg)" by fastforce
  obtain reg' p'' where st: "start_all reg p = (reg', p'')" by fastforce
  have "r = None" "w_bus (k_world c) = register_all new_bus"
    "k_sched c = start_scheduler (register_background_jobs q s new_scheduler)"
    "k_bridge c = wired_bridge (su_system v) (su_bridge v)" "k_plugins c = reg'"
    "k_sniffer c = (if su_sniffer v = None then Some \<lparr>sp_shm_name = st_shm_name s, sp_hmac_key = st_hmac_key s,
              sp_started = True, sp_stopped = False\<rparr> else None)"
    using assms by (auto simp: startup_def wire_bridge_ok [OF False] Let_def di st wire_sniffer_def split: option.splits)
  then show ?thesis
    using False start_all_spec [OF st]
    by (auto simp: background_jobs start_scheduler_def new_scheduler_def new_job_def di handlers_registered)
qed

definition linux_startup :: "(unit, nat) startup_env" where
  "linux_startup = \<lparr>su_system = ''Linux'', su_bridge = (\<lambda>_. None), su_threat = Inl ImportError, su_environ = (\<lambda>_. None),
     su_influx = None, su_sniffer = None, su_modules = [(''dns'', Inr [PluginClass (Inr (demo_plugin ''dns''))])]\<rparr>"

theorem startup_spec_witness:
  "\<exists>c p'. startup plain_sql linux_startup (new_container quiet_settings empty_db ()) 0 = (None, c, p')
     \<and> k_bridge c = Some Linux_Kind \<and> sc_alive (k_sched c)"
proof -
  let ?s = "startup plain_sql linux_startup (new_container quiet_settings empty_db ()) 0"
  obtain r c p' where s: "?s = (r, c, p')" by (cases ?s)
  have ok: "\<not> bridge_raises (su_system linux_startup) (su_bridge linux_startup)"
    "wired_bridge (su_system linux_startup) (su_bridge linux_startup) = Some Linux_Kind"
    by (simp_all add: bridge_raises_def wired_bridge_def linux_startup_def platform_bridge_def)
  from startup_spec [OF s] ok have "r = None" "k_bridge c = Some Linux_Kind" "sc_alive (k_sched c)" by simp_all
  with s show ?thesis by blast
qed

text \<open>
  Shut-down on Linux. It stops the scheduler, stops every started plugin, signals the sniffer
  and removes every firewall rule with a marker of ours, leaving the other rules in place and in
  order, even when closing the database then raises. It does raise exactly when the database was
  never used, and in that case the event bus is not cleared.
\<close>

theorem shutdown_spec:
  assumes "iptables_ok run b chain render" and "lx_compatible b" and "k_bridge c = Some Linux_Kind"
    and "cleanup Linux_Kind = lx_cleanup_all_rules run b" and "shutdown cleanup c p = (r, c', p')"
  shows "chain (w_fw (k_world c')) = filter (\<lambda>x. \<not> is_ours (render x)) (chain (w_fw (k_world c)))
    \<and> sc_stop (k_sched c') \<and> \<not> sc_alive (k_sched c')
    \<and> (\<forall>sp. k_sniffer c' = Some sp \<longrightarrow> sp_stopped sp)
    \<and> (\<forall>x \<in> set (started_plugins (k_plugins c')). \<exists>u. fst (pl_stop x u) \<noteq> None)
    \<and> (r \<noteq> None \<longleftrightarrow> \<not> k_connected c)
    \<and> w_bus (k_world c') = (if r = None then clear_bus (w_bus (k_world c)) else w_bus (k_world c))
    \<and> w_db (k_world c') = w_db (k_world c)"
proof -
  note e = shutdown_effect [OF assms]
  obtain reg p1 where st: "stop_all (k_plugins c) p = (reg, p1)" by (rule surjective_pairing [THEN that])
  with stop_all_spec [OF st] e show ?thesis by (auto simp: stop_scheduler_def)
qed

theorem shutdown_spec_witness:
  "\<exists>r c' p'. shutdown (\<lambda>_. lx_cleanup_all_rules sim_iptables root_bridge)
      ((new_container quiet_settings empty_db [rule_spec ''Vigilant'' 22 ''tcp'', [''-j'', ''ACCEPT'']] ::
        (unit, string list list, nat) container)\<lparr>k_bridge := Some Linux_Kind\<rparr>) 0 = (r, c', p')
     \<and> r \<noteq> None \<and> rule_spec ''Vigilant'' 22 ''tcp'' \<notin> set (w_fw (k_world c'))"
proof -
  let ?c = "(new_container quiet_settings empty_db [rule_spec ''Vigilant'' 22 ''tcp'', [''-j'', ''ACCEPT'']] ::
        (unit, string list list, nat) container)\<lparr>k_bridge := Some Linux_Kind\<rparr>"
  let ?s = "shutdown (\<lambda>_. lx_cleanup_all_rules sim_iptables root_bridge) ?c 0"
  obtain r c' p' where s: "?s = (r, c', p')" by (cases ?s)
  have ok: "lx_compatible root_bridge" by (simp add: lx_compatible_def root_bridge_def new_linux_bridge_def)
  have c: "k_bridge ?c = Some Linux_Kind" "\<not> k_connected ?c" by (simp_all add: new_container_def)
  note h = shutdown_spec [OF sim_iptables_ok ok c(1) refl s]
  then have "w_fw (k_world c') = filter (\<lambda>x. \<not> is_ours (sim_render x)) (w_fw (k_world ?c))" and "r \<noteq> None"
    using c(2) by blast+
  moreover from this(1) have "rule_spec ''Vigilant'' 22 ''tcp'' \<notin> set (w_fw (k_world c'))"
    by (simp only: set_filter mem_Collect_eq sim_shows_comment insertI1 simp_thms)
  ultimately show ?thesis using s by blast
qed

end
