(* ===== verification/Connection.thy ===== *)
theory Connection
  imports Container
begin

text \<open>
  The connection of the database adapter, \<open>core/db.py\<close>: the address it is given, the engine
  \<open>connect\<close> creates with its arguments and the statements run on every new connection, the
  session factory bound to it, \<open>close\<close>, and the accessor of the shared instance. An engine is
  what \<open>create_engine\<close> is called with; creating the tables and the directory of the default file
  is left to SQLAlchemy and the file system.
\<close>

section \<open>State\<close>

text \<open>\<open>check_same_thread\<close> and \<open>timeout\<close>; pool size, overflow and pre-ping; the pragmas.\<close>

record engine =
  eg_url :: string
  eg_connect_args :: "(bool \<times> rat) option"
  eg_pool :: "(nat \<times> nat \<times> bool) option"
  eg_pragmas :: "string list"

record sqlite_db =
  sd_url :: string
  sd_engine :: "engine option"
  sd_session :: "engine option"
  sd_sqlite :: bool

section \<open>Operations\<close>

definition new_sqlite_db :: "(string \<Rightarrow> string option) \<Rightarrow> string \<Rightarrow> string option \<Rightarrow> sqlite_db" where
  "new_sqlite_db env default_path db_url =
     (let url = str_or (case db_url of Some u \<Rightarrow> u | None \<Rightarrow> []) (case env ''DATABASE_URL'' of Some u \<Rightarrow> u | None \<Rightarrow> []);
          url = str_or url (''sqlite:///'' @ default_path) in
      \<lparr>sd_url = url, sd_engine = None, sd_session = None, sd_sqlite = startswith url ''sqlite''\<rparr>)"

definition sqlite_pragmas :: "string list" where
  "sqlite_pragmas = [''PRAGMA journal_mode=WAL'', ''PRAGMA synchronous=NORMAL'', ''PRAGMA foreign_keys=ON'',
     ''PRAGMA busy_timeout=5000'']"

definition connect_engine :: "string option \<Rightarrow> sqlite_db \<Rightarrow> engine" where
  "connect_engine vigilant_env h =
     \<lparr>eg_url = connect_url vigilant_env (sd_url h),
      eg_connect_args = (if sd_sqlite h then Some (False, 10) else None),
      eg_pool = (if sd_sqlite h then None else Some (10, 20, True)),
      eg_pragmas = (if sd_sqlite h then sqlite_pragmas else [])\<rparr>"

definition connect :: "string option \<Rightarrow> sqlite_db \<Rightarrow> sqlite_db" where
  "connect vigilant_env h =
     (let e = connect_engine vigilant_env h in h\<lparr>sd_url := eg_url e, sd_engine := Some e, sd_session := Some e\<rparr>)"

definition close_db :: "sqlite_db \<Rightarrow> sqlite_db" where
  "close_db h = (case sd_engine h of None \<Rightarrow> h | Some e \<Rightarrow> h\<lparr>sd_engine := None\<rparr>)"

text \<open>The session is the engine its factory is bound to.\<close>

definition get_session :: "string option \<Rightarrow> sqlite_db \<Rightarrow> engine option \<times> sqlite_db" where
  "get_session vigilant_env h =
     (let h' = (if sd_session h = None then connect vigilant_env h else h) in (sd_session h', h'))"

definition get_database :: "sqlite_db \<Rightarrow> sqlite_db option \<Rightarrow> sqlite_db \<times> sqlite_db option" where
  "get_database fresh inst = (case inst of None \<Rightarrow> (fresh, Some fresh) | Some h \<Rightarrow> (h, inst))"

definition set_database :: "sqlite_db \<Rightarrow> sqlite_db option \<Rightarrow> sqlite_db option" where
  "set_database h inst = Some h"

section \<open>Addresses\<close>

lemma connect_url_sqlite: "startswith (connect_url ve url) ''sqlite'' \<longleftrightarrow> startswith url ''sqlite''"
  by (simp add: connect_url_def startswith_append)

lemma connect_url_sslmode:
  assumes "\<not> startswith url ''sqlite''" and "ve = None \<or> str_lower (the ve) = ''production''"
  shows "contains (connect_url ve url) ''sslmode='' \<and> CHR ''?'' \<in> set (connect_url ve url)"
proof -
  have "str_lower (case ve of Some v \<Rightarrow> v | None \<Rightarrow> ''production'') = ''production''"
    using assms(2) by (cases ve) (simp_all add: str_lower_def lower_char_def)
  moreover have "contains (url @ ''&sslmode=require'') ''sslmode=''" for url
    unfolding sublist_def by (rule exI [of _ "url @ ''&''"]) simp
  moreover have "contains (url @ ''?sslmode=require'') ''sslmode=''" for url
    unfolding sublist_def by (rule exI [of _ "url @ ''?''"]) simp
  ultimately show ?thesis using assms(1) by (simp add: connect_url_def)
qed

lemma connect_url_idem: "connect_url ve (connect_url ve url) = connect_url ve url"
proof (cases "startswith url ''sqlite'' \<or> str_lower (case ve of Some v \<Rightarrow> v | None \<Rightarrow> ''production'') \<noteq> ''production''")
  case False
  then have "ve = None \<or> str_lower (the ve) = ''production''" by (cases ve) auto
  with False connect_url_sslmode [of url ve] show ?thesis
    by (simp add: connect_url_def [of ve "connect_url ve url"] connect_url_sqlite)
qed (auto simp: connect_url_def)

section \<open>The handle\<close>

definition handle_ok :: "sqlite_db \<Rightarrow> bool" where
  "handle_ok h \<longleftrightarrow> sd_sqlite h = startswith (sd_url h) ''sqlite'' \<and> (sd_engine h \<noteq> None \<longrightarrow> sd_session h = sd_engine h)"

lemma new_handle_ok: "handle_ok (new_sqlite_db env path u)"
  by (simp add: handle_ok_def new_sqlite_db_def Let_def)

lemma connect_ok: "handle_ok h \<Longrightarrow> handle_ok (connect ve h)"
  by (simp add: handle_ok_def connect_def connect_engine_def connect_url_sqlite Let_def)

lemma close_ok: "handle_ok h \<Longrightarrow> handle_ok (close_db h)"
  by (simp add: handle_ok_def close_db_def split: option.splits)

lemma get_session_ok: "handle_ok h \<Longrightarrow> handle_ok (snd (get_session ve h))"
  by (simp add: get_session_def connect_ok Let_def)

lemma connect_again: "connect ve (connect ve h) = connect ve h"
  by (simp add: connect_def connect_engine_def connect_url_idem Let_def)

text \<open>A session always has an engine, and only the first call makes one.\<close>

lemma get_session_engine: "fst (get_session ve h) \<noteq> None"
  by (simp add: get_session_def connect_def Let_def)

lemma get_session_again: "get_session ve' (snd (get_session ve h)) = (fst (get_session ve h), snd (get_session ve h))"
  by (simp add: get_session_def connect_def Let_def)

lemma get_database_again: "get_database fresh' (snd (get_database fresh inst)) = get_database fresh inst"
  by (cases inst) (simp_all add: get_database_def)

lemma set_then_get: "get_database fresh (set_database h inst) = (h, Some h)"
  by (simp add: get_database_def set_database_def)

text \<open>
  In production no engine of a server database is made without an \<open>sslmode\<close> in its address,
  unless the address already chose one.
\<close>

lemma production_sessions_ask_for_ssl:
  assumes "handle_ok h" and "sd_session h = None" and "\<not> sd_sqlite h" and "fst (get_session None h) = Some e"
  shows "contains (eg_url e) ''sslmode='' \<and> eg_pool e = Some (10, 20, True) \<and> eg_pragmas e = []"
proof -
  have e: "e = connect_engine None h" using assms(2,4) by (simp add: get_session_def connect_def Let_def)
  from assms(1,3) connect_url_sslmode [of "sd_url h" None] show ?thesis
    by (simp add: e connect_engine_def handle_ok_def)
qed

text \<open>
  \<open>close\<close> forgets the engine but not the factory: a session opened afterwards uses the disposed
  engine, whose connections no later \<open>close\<close> gives back.
\<close>

lemma session_after_close:
  assumes "handle_ok h" and "sd_engine h = Some e"
  shows "get_session ve (close_db h) = (Some e, close_db h) \<and> close_db (close_db h) = close_db h"
  using assms by (simp add: get_session_def close_db_def handle_ok_def)

end
