(* ===== verification/Sniffer.thy ===== *)
theory Sniffer
  imports Shm Threat_Intel
begin

text \<open>
  The capture process of \<open>backend/core/sniffer.py\<close>: the accumulator filled by
  \<open>packet_callback\<close>, the PID map, the flush into shared memory and the main loop with its
  injected test traffic. Packets (Scapy), sockets (psutil), random draws and clock readings are
  inputs.
\<close>

section \<open>State and inputs\<close>

record acc_entry =
  a_in :: int
  a_out :: int
  a_pid :: int
  a_proto :: int
  a_risk :: int
  a_remote :: string
  a_seen :: time

record sniffer =
  sn_key :: "byte list"
  sn_shm :: "buf option"
  sn_accum :: "(int, acc_entry) dict"
  sn_pids :: "(int, int) dict"
  sn_pid_time :: time
  sn_intel :: threat_intel

definition new_sniffer :: "byte list \<Rightarrow> sniffer" where
  "new_sniffer key = \<lparr>sn_key = key, sn_shm = None, sn_accum = [], sn_pids = [], sn_pid_time = 0,
     sn_intel = init_threat_intel\<rparr>"

text \<open>A captured packet: which layers it has, its length, addresses and ports.\<close>

record packet =
  p_has_ip :: bool
  p_len :: int
  p_src :: string
  p_dst :: string
  p_tcp :: "(int \<times> int) option"
  p_udp :: "(int \<times> int) option"

section \<open>packet\_callback\<close>

definition acc_new :: "int \<Rightarrow> acc_entry" where
  "acc_new proto = \<lparr>a_in = 0, a_out = 0, a_pid = 0, a_proto = proto, a_risk = 0,
     a_remote = ''0.0.0.0'', a_seen = 0\<rparr>"

definition acc_get :: "(int, acc_entry) dict \<Rightarrow> int \<Rightarrow> int \<Rightarrow> acc_entry" where
  "acc_get d port proto = (case dget d port of Some e \<Rightarrow> e | None \<Rightarrow> acc_new proto)"

definition account_out ::
  "time \<Rightarrow> int \<Rightarrow> int \<Rightarrow> string \<Rightarrow> int \<Rightarrow> int \<Rightarrow> (int, acc_entry) dict \<Rightarrow> (int, acc_entry) dict" where
  "account_out t port proto remote risk len d =
     (if 0 < port \<and> port < int MAX_PORTS then
        let e = acc_get d port proto in
        dset d port (e\<lparr>a_out := a_out e + len, a_risk := max (a_risk e) risk, a_remote := remote, a_seen := t\<rparr>)
      else d)"

definition account_in ::
  "time \<Rightarrow> int \<Rightarrow> int \<Rightarrow> string \<Rightarrow> int \<Rightarrow> int \<Rightarrow> (int, acc_entry) dict \<Rightarrow> (int, acc_entry) dict" where
  "account_in t port proto remote risk len d =
     (if 0 < port \<and> port < int MAX_PORTS then
        let e = acc_get d port proto in
        dset d port (e\<lparr>a_in := a_in e + len, a_risk := max (a_risk e) risk, a_remote := remote, a_seen := t\<rparr>)
      else d)"

text \<open>TCP is looked at first; a packet with neither layer is dropped.\<close>

definition transport :: "packet \<Rightarrow> (int \<times> int \<times> int) option" where
  "transport pkt =
     (if \<not> p_has_ip pkt then None
      else case p_tcp pkt of
             Some (sp, dp) \<Rightarrow> Some (sp, dp, 0)
           | None \<Rightarrow> (case p_udp pkt of Some (sp, dp) \<Rightarrow> Some (sp, dp, 1) | None \<Rightarrow> None))"

definition packet_callback :: "time \<Rightarrow> time \<Rightarrow> packet \<Rightarrow> sniffer \<Rightarrow> sniffer" where
  "packet_callback t1 t2 pkt s =
     (case transport pkt of
        None \<Rightarrow> s
      | Some (sport, dport, proto) \<Rightarrow>
          s\<lparr>sn_accum :=
              account_in t2 dport proto (p_src pkt) (get_risk_score (sn_intel s) (p_src pkt)) (p_len pkt)
                (account_out t1 sport proto (p_dst pkt) (get_risk_score (sn_intel s) (p_dst pkt)) (p_len pkt)
                  (sn_accum s))\<rparr>)"

section \<open>The PID map and the flush\<close>

record conn =
  c_port :: "int option"
  c_pid :: "int option"

text \<open>\<open>psutil.net_connections\<close> returns a list or raises; every exception is caught.\<close>

definition build_pid_map :: "conn list result \<Rightarrow> (int, int) dict" where
  "build_pid_map conns =
     (case conns of
        Inl _ \<Rightarrow> []
      | Inr cs \<Rightarrow> fold (\<lambda>c m. case c_port c of
                          Some p \<Rightarrow> if p \<noteq> 0 then dset m p (or_else 0 (c_pid c)) else m
                        | None \<Rightarrow> m) cs [])"

definition is_active :: "time \<Rightarrow> acc_entry \<Rightarrow> bool" where
  "is_active now e \<longleftrightarrow> now - a_seen e \<le> 30"

definition flush_pid :: "(int, int) dict \<Rightarrow> time \<Rightarrow> int \<Rightarrow> acc_entry \<Rightarrow> int" where
  "flush_pid pids now port e = (if is_active now e then or_else (a_pid e) (dget pids port) else a_pid e)"

definition flush_write ::
  "byte list \<Rightarrow> (int, int) dict \<Rightarrow> time \<Rightarrow> int \<Rightarrow> acc_entry \<Rightarrow> buf option \<Rightarrow> buf option result" where
  "flush_write key pids now port e shm =
     write_port_entry key port (a_in e) (a_out e) (flush_pid pids now port e) (a_proto e)
       (if is_active now e then 1 else 0) (a_risk e) (a_remote e) shm"

text \<open>The loop over the accumulator stops at the first exception, keeping what it has done.\<close>

fun flush_items ::
  "byte list \<Rightarrow> (int, int) dict \<Rightarrow> time \<Rightarrow> (int, acc_entry) dict \<Rightarrow> buf option
     \<Rightarrow> exc option \<times> buf option \<times> (int, acc_entry) dict" where
  "flush_items key pids now [] shm = (None, shm, [])"
| "flush_items key pids now ((port, e) # xs) shm =
     (case flush_write key pids now port e shm of
        Inl err \<Rightarrow> (Some err, shm, (port, e) # xs)
      | Inr shm' \<Rightarrow>
          (case flush_items key pids now xs shm' of
             (r, shm'', xs') \<Rightarrow>
               (r, shm'', (port, if is_active now e then e\<lparr>a_pid := flush_pid pids now port e\<rparr> else e) # xs')))"

definition refresh_pids :: "time \<Rightarrow> conn list result \<Rightarrow> sniffer \<Rightarrow> sniffer" where
  "refresh_pids now conns s =
     (if 2 < now - sn_pid_time s
      then s\<lparr>sn_pids := build_pid_map conns, sn_pid_time := now\<rparr> else s)"

definition prune_accum :: "time \<Rightarrow> (int, acc_entry) dict \<Rightarrow> (int, acc_entry) dict" where
  "prune_accum now d = (if 5000 < length d then filter (\<lambda>(p, e). \<not> 300 < now - a_seen e) d else d)"

definition flush_to_shm :: "time \<Rightarrow> conn list result \<Rightarrow> sniffer \<Rightarrow> exc option \<times> sniffer" where
  "flush_to_shm now conns s =
     (if sn_shm s = None then (None, s)
      else let s1 = refresh_pids now conns s in
        case flush_items (sn_key s1) (sn_pids s1) now (sn_accum s1) (sn_shm s1) of
          (Some err, shm, d) \<Rightarrow> (Some err, s1\<lparr>sn_shm := shm, sn_accum := d\<rparr>)
        | (None, shm, d) \<Rightarrow> (None, s1\<lparr>sn_shm := shm, sn_accum := prune_accum now d\<rparr>))"

section \<open>The main loop\<close>

text \<open>
  The traffic the loop injects after every capture: a port whose draw exceeds one half gets
  random byte counts, and a random risk and remote address when it is new.
\<close>

record draw =
  d_hit :: bool
  d_risk :: int
  d_ip :: string
  d_in :: int
  d_out :: int

definition mock_ports :: "int list" where
  "mock_ports = [443, 80, 8080, 22, 53, 3306]"

definition mock_entry :: "time \<Rightarrow> int \<Rightarrow> draw \<Rightarrow> acc_entry" where
  "mock_entry now p r = \<lparr>a_in = 0, a_out = 0, a_pid = 1000 + p, a_proto = 0, a_risk = d_risk r,
     a_remote = d_ip r, a_seen = now\<rparr>"

definition inject_one :: "time \<Rightarrow> int \<times> draw \<Rightarrow> (int, acc_entry) dict \<Rightarrow> (int, acc_entry) dict" where
  "inject_one now x d =
     (case x of (p, r) \<Rightarrow>
        if d_hit r then
          let e = (case dget d p of Some e \<Rightarrow> e | None \<Rightarrow> mock_entry now p r) in
          dset d p (e\<lparr>a_in := a_in e + d_in r, a_out := a_out e + d_out r, a_seen := now\<rparr>)
        else d)"

definition inject_mock :: "time \<Rightarrow> draw list \<Rightarrow> sniffer \<Rightarrow> sniffer" where
  "inject_mock now rs s = s\<lparr>sn_accum := fold (inject_one now) (zip mock_ports rs) (sn_accum s)\<rparr>"

text \<open>What one turn of the loop sees.\<close>

record cycle =
  cy_packets :: "(time \<times> time \<times> packet) list"
  cy_mock_time :: time
  cy_draws :: "draw list"
  cy_flush_time :: time
  cy_conns :: "conn list result"

definition sniffer_cycle :: "cycle \<Rightarrow> sniffer \<Rightarrow> exc option \<times> sniffer" where
  "sniffer_cycle c s =
     flush_to_shm (cy_flush_time c) (cy_conns c)
       (inject_mock (cy_mock_time c) (cy_draws c)
         (fold (\<lambda>(t1, t2, pkt). packet_callback t1 t2 pkt) (cy_packets c) s))"

fun run_cycles :: "cycle list \<Rightarrow> sniffer \<Rightarrow> exc option \<times> sniffer" where
  "run_cycles [] s = (None, s)"
| "run_cycles (c # cs) s =
     (case sniffer_cycle c s of
        (Some err, s') \<Rightarrow> (Some err, s')
      | (None, s') \<Rightarrow> run_cycles cs s')"

text \<open>
  \<open>run\<close>: create the segment or attach to one that exists, loop until the stop event (the end
  of the list) or an exception, release the segment.
\<close>

definition sniffer_run :: "buf option \<Rightarrow> cycle list \<Rightarrow> sniffer \<Rightarrow> exc option \<times> sniffer" where
  "sniffer_run existing cs s =
     (case run_cycles cs (s\<lparr>sn_shm := Some (case existing of Some m \<Rightarrow> m | None \<Rightarrow> init_shared_memory)\<rparr>) of
        (r, s') \<Rightarrow> (r, s'\<lparr>sn_shm := None\<rparr>))"

section \<open>Invariant\<close>

definition entry_wf :: "int \<Rightarrow> acc_entry \<Rightarrow> bool" where
  "entry_wf p e \<longleftrightarrow> 0 < p \<and> p < int MAX_PORTS \<and> in_range 4 (a_pid e) \<and> in_range 1 (a_proto e)
     \<and> in_range 1 (a_risk e)"

definition accum_ok :: "(int, acc_entry) dict \<Rightarrow> bool" where
  "accum_ok d \<longleftrightarrow> dict_ok d \<and> (\<forall>(p, e) \<in> set d. entry_wf p e)"

definition pids_ok :: "(int, int) dict \<Rightarrow> bool" where
  "pids_ok m \<longleftrightarrow> (\<forall>(p, pid) \<in> set m. in_range 4 pid)"

text \<open>
  A slot that reads as active belongs to a port the accumulator still tracks, and its bit is
  set.
\<close>

definition tracked :: "byte list \<Rightarrow> buf \<Rightarrow> (int, acc_entry) dict \<Rightarrow> bool" where
  "tracked key m d \<longleftrightarrow> bitmap_complete key m
     \<and> (\<forall>q < MAX_PORTS. read_port_entry key m q \<noteq> None \<longrightarrow> dmem (int q) d)"

definition sn_ok :: "sniffer \<Rightarrow> bool" where
  "sn_ok s \<longleftrightarrow> accum_ok (sn_accum s) \<and> pids_ok (sn_pids s)
     \<and> (\<forall>m. sn_shm s = Some m \<longrightarrow> tracked (sn_key s) m (sn_accum s))"

lemma accum_okD: "accum_ok d \<Longrightarrow> dget d p = Some e \<Longrightarrow> entry_wf p e"
  by (auto simp: accum_ok_def dest!: map_of_SomeD)

lemma accum_ok_dset: "accum_ok d \<Longrightarrow> entry_wf p e \<Longrightarrow> accum_ok (dset d p e)"
  using set_dset_subset [of p e d] by (auto simp: accum_ok_def)

lemma accum_ok_filter: "accum_ok d \<Longrightarrow> accum_ok (filter P d)"
  by (auto simp: accum_ok_def)

lemma accum_ok_Cons: "accum_ok ((p, e) # d) \<Longrightarrow> entry_wf p e \<and> accum_ok d \<and> \<not> dmem p d"
  by (auto simp: accum_ok_def dict_ok_def dmem_iff)

lemma tracked_more: "tracked key m d \<Longrightarrow> (\<And>p. dmem p d \<Longrightarrow> dmem p d') \<Longrightarrow> tracked key m d'"
  by (auto simp: tracked_def)

lemma dmem_dset [dict_simps]: "dmem k (dset d k' v) \<longleftrightarrow> k = k' \<or> dmem k d"
  by (auto simp: dmem_def dict_simps)

section \<open>Callback and injection keep the invariant\<close>

lemma acc_get_wf: "accum_ok d \<Longrightarrow> 0 < p \<Longrightarrow> p < int MAX_PORTS \<Longrightarrow> in_range 1 proto \<Longrightarrow>
    entry_wf p (acc_get d p proto)"
  by (auto simp: acc_get_def acc_new_def entry_wf_def in_range_def dest: accum_okD split: option.splits)

lemma in_range_max: "in_range n x \<Longrightarrow> in_range n y \<Longrightarrow> in_range n (max x y)"
  by (simp add: max_def)

lemma account_ok:
  assumes "accum_ok d" and "in_range 1 proto" and "in_range 1 risk"
  shows "accum_ok (account_out t port proto remote risk len d)"
    and "accum_ok (account_in t port proto remote risk len d)"
  using assms acc_get_wf [OF assms(1) _ _ assms(2), of port]
  by (auto simp: account_out_def account_in_def Let_def entry_wf_def
      intro!: accum_ok_dset in_range_max)

lemma account_dmem: "dmem p d \<Longrightarrow> dmem p (account_out t port proto remote risk len d)"
  "dmem p d \<Longrightarrow> dmem p (account_in t port proto remote risk len d)"
  by (simp_all add: account_out_def account_in_def Let_def dict_simps)

lemma risk_in_range: "in_range (Suc 0) (get_risk_score ti ip)"
  by (simp add: get_risk_score_def in_range_def)

lemma sn_ok_callback: "sn_ok s \<Longrightarrow> sn_ok (packet_callback t1 t2 pkt s)"
proof (cases "transport pkt")
  case (Some x)
  obtain sport dport proto where x: "x = (sport, dport, proto)" by (cases x)
  with Some have "in_range 1 proto"
    by (auto simp: transport_def in_range_def split: if_splits option.splits)
  moreover assume "sn_ok s"
  ultimately show ?thesis using Some x
    by (auto simp: sn_ok_def packet_callback_def account_ok risk_in_range account_dmem
        intro: tracked_more)
qed (simp add: packet_callback_def)

definition draw_wf :: "draw \<Rightarrow> bool" where
  "draw_wf r \<longleftrightarrow> in_range 1 (d_risk r)"

lemma inject_one_ok: "accum_ok d \<Longrightarrow> p \<in> set mock_ports \<Longrightarrow> draw_wf r \<Longrightarrow> accum_ok (inject_one now (p, r) d)"
  using accum_okD [of d p]
  by (auto simp: inject_one_def Let_def draw_wf_def mock_ports_def mock_entry_def entry_wf_def
      MAX_PORTS_def in_range_def intro!: accum_ok_dset split: option.splits)

lemma inject_one_dmem: "dmem q d \<Longrightarrow> dmem q (inject_one now x d)"
  by (auto simp: inject_one_def Let_def dict_simps split: prod.splits)

lemma inject_fold: "accum_ok d \<Longrightarrow> \<forall>(p, r) \<in> set xs. p \<in> set mock_ports \<and> draw_wf r \<Longrightarrow>
    accum_ok (fold (inject_one now) xs d) \<and> (\<forall>q. dmem q d \<longrightarrow> dmem q (fold (inject_one now) xs d))"
  by (induction xs arbitrary: d) (auto simp: inject_one_ok inject_one_dmem)

lemma sn_ok_inject:
  assumes ok: "sn_ok s" and "\<forall>r \<in> set rs. draw_wf r"
  shows "sn_ok (inject_mock now rs s)"
proof -
  have "\<forall>(p, r) \<in> set (zip mock_ports rs). p \<in> set mock_ports \<and> draw_wf r"
    using assms(2) by (auto dest: set_zip_leftD set_zip_rightD)
  with ok have "accum_ok (sn_accum (inject_mock now rs s))"
    and "\<And>q. dmem q (sn_accum s) \<Longrightarrow> dmem q (sn_accum (inject_mock now rs s))"
    using inject_fold [of "sn_accum s" "zip mock_ports rs" now]
    by (simp_all add: sn_ok_def inject_mock_def)
  with ok show ?thesis
    using tracked_more [of "sn_key s" _ "sn_accum s" "sn_accum (inject_mock now rs s)"]
    by (simp add: sn_ok_def inject_mock_def)
qed

section \<open>The flush\<close>

text \<open>The row a flush leaves for a port, and the accumulator entry after it.\<close>

definition flushed_row :: "(int, int) dict \<Rightarrow> time \<Rightarrow> int \<Rightarrow> acc_entry \<Rightarrow> string port_entry option" where
  "flushed_row pids now p e =
     (if is_active now e
      then Some (written_row p (a_in e) (a_out e) (flush_pid pids now p e) (a_proto e) 1 (a_risk e) (a_remote e))
      else None)"

definition flushed_entry :: "(int, int) dict \<Rightarrow> time \<Rightarrow> int \<times> acc_entry \<Rightarrow> int \<times> acc_entry" where
  "flushed_entry pids now x =
     (case x of (p, e) \<Rightarrow> (p, if is_active now e then e\<lparr>a_pid := flush_pid pids now p e\<rparr> else e))"

lemma flush_pid_range: "pids_ok pids \<Longrightarrow> entry_wf p e \<Longrightarrow> in_range 4 (flush_pid pids now p e)"
  by (auto simp: flush_pid_def or_else_def pids_ok_def entry_wf_def dest!: map_of_SomeD split: option.splits)

lemma flush_items_total:
  assumes "accum_ok d" and pids: "pids_ok pids" and "bitmap_complete key m"
  shows "\<exists>m'. flush_items key pids now d (Some m) = (None, Some m', map (flushed_entry pids now) d)
    \<and> bitmap_complete key m'
    \<and> (\<forall>q < MAX_PORTS. read_port_entry key m' q =
          (case dget d (int q) of None \<Rightarrow> read_port_entry key m q | Some e \<Rightarrow> flushed_row pids now (int q) e))"
  using assms(1,3)
proof (induction d arbitrary: m)
  case Nil
  then show ?case by simp
next
  case (Cons x d)
  obtain p e where x: "x = (p, e)" by (cases x)
  from Cons.prems(1) x have wf: "entry_wf p e" and ok: "accum_ok d" and new: "\<not> dmem p d"
    using accum_ok_Cons by blast+
  let ?act = "if is_active now e then 1 else 0 :: int"
  obtain m1 where w: "flush_write key pids now p e (Some m) = Inr (Some m1)"
    using wf flush_pid_range [OF pids wf, of now]
    by (cases "is_active now e")
       (auto simp: flush_write_def write_succeeds_iff entry_wf_def in_range_def MAX_PORTS_def)
  note w' = w [unfolded flush_write_def]
  from bitmap_complete_write [OF Cons.prems(2) w'] obtain m'
    where rest: "flush_items key pids now d (Some m1) = (None, Some m', map (flushed_entry pids now) d)"
      and c: "bitmap_complete key m'"
      and rd: "\<And>q. q < MAX_PORTS \<Longrightarrow> read_port_entry key m' q =
          (case dget d (int q) of None \<Rightarrow> read_port_entry key m1 q | Some e \<Rightarrow> flushed_row pids now (int q) e)"
    using Cons.IH [OF ok] by blast
  have "read_port_entry key m' q =
      (case dget (x # d) (int q) of None \<Rightarrow> read_port_entry key m q | Some e \<Rightarrow> flushed_row pids now (int q) e)"
    if q: "q < MAX_PORTS" for q
  proof (cases "int q = p")
    case True
    with wf have "q = nat p" by simp
    with rd [OF q] new True x read_after_write [OF w'] show ?thesis
      by (auto simp: dmem_def flushed_row_def)
  next
    case False
    then have "q \<noteq> nat p" using wf by (auto simp: entry_wf_def)
    with rd [OF q] False x read_other_after_write [OF w' q] show ?thesis
      by (simp split: option.splits)
  qed
  with w rest c x show ?case by (simp add: flushed_entry_def)
qed

lemma flushed_keys: "map fst (map (flushed_entry pids now) d) = map fst d"
  by (induction d) (auto simp: flushed_entry_def)

lemma flushed_dmem: "dmem p (map (flushed_entry pids now) d) = dmem p d"
  by (metis dmem_iff flushed_keys list.set_map)

lemma accum_ok_flushed:
  assumes "accum_ok d" and "pids_ok pids"
  shows "accum_ok (map (flushed_entry pids now) d)"
proof -
  have "entry_wf (fst (flushed_entry pids now x)) (snd (flushed_entry pids now x))"
    if "entry_wf (fst x) (snd x)" for x :: "int \<times> acc_entry"
    using that flush_pid_range [OF assms(2) that, of now]
    by (auto simp: flushed_entry_def entry_wf_def split: prod.splits)
  moreover have "\<forall>x \<in> set d. entry_wf (fst x) (snd x)"
    using assms(1) by (simp add: accum_ok_def case_prod_beta)
  ultimately have "\<forall>x \<in> set (map (flushed_entry pids now) d). entry_wf (fst x) (snd x)"
    by simp
  with assms(1) show ?thesis
    unfolding accum_ok_def dict_ok_def flushed_keys by (simp add: case_prod_beta)
qed

lemma pids_ok_build: "(\<And>cs. conns = Inr cs \<Longrightarrow> \<forall>c \<in> set cs. in_range 4 (or_else 0 (c_pid c))) \<Longrightarrow>
    pids_ok (build_pid_map conns)"
proof (cases conns)
  case (Inr cs)
  assume *: "\<And>cs. conns = Inr cs \<Longrightarrow> \<forall>c \<in> set cs. in_range 4 (or_else 0 (c_pid c))"
  have step: "pids_ok m \<Longrightarrow> in_range 4 pid \<Longrightarrow> pids_ok (dset m p pid)" for m p pid
    using set_dset_subset [of p pid m] by (auto simp: pids_ok_def)
  have "\<forall>c \<in> set cs. in_range 4 (or_else 0 (c_pid c)) \<Longrightarrow> pids_ok m \<Longrightarrow>
      pids_ok (fold (\<lambda>c m. case c_port c of Some p \<Rightarrow> if p \<noteq> 0 then dset m p (or_else 0 (c_pid c)) else m
        | None \<Rightarrow> m) cs m)" for m
    by (induction cs arbitrary: m) (auto simp: step split: option.splits)
  from this [OF * [OF Inr], of "[]"] Inr show ?thesis
    by (simp add: build_pid_map_def pids_ok_def [of "[]"])
qed (simp add: build_pid_map_def pids_ok_def)

definition conns_wf :: "conn list result \<Rightarrow> bool" where
  "conns_wf conns \<longleftrightarrow> (case conns of Inl _ \<Rightarrow> True | Inr cs \<Rightarrow> list_all (\<lambda>c. in_range 4 (or_else 0 (c_pid c))) cs)"

lemma refresh_ok: "sn_ok s \<Longrightarrow> conns_wf conns \<Longrightarrow> sn_ok (refresh_pids now conns s)"
  using pids_ok_build [of conns]
  by (auto simp: sn_ok_def refresh_pids_def conns_wf_def list_all_iff split: sum.splits)

lemma refresh_frame [simp]: "sn_accum (refresh_pids now conns s) = sn_accum s"
  "sn_shm (refresh_pids now conns s) = sn_shm s" "sn_key (refresh_pids now conns s) = sn_key s"
  by (simp_all add: refresh_pids_def)

text \<open>A pruned port was silent for more than 300 seconds, so its slot is already inactive.\<close>

lemma prune_keeps_active: "dget d p = Some e \<Longrightarrow> is_active now e \<Longrightarrow> dict_ok d \<Longrightarrow> dmem p (prune_accum now d)"
  by (auto simp: prune_accum_def dmem_def dict_simps is_active_def)

lemma dget_flushed: "dget (map (flushed_entry pids now) d) p =
    map_option (\<lambda>e. snd (flushed_entry pids now (p, e))) (dget d p)"
  by (induction d) (auto simp: flushed_entry_def)

lemma is_active_flushed [simp]: "is_active now (snd (flushed_entry pids now (p, e))) = is_active now e"
  by (simp add: flushed_entry_def is_active_def)

lemma flush_total:
  assumes ok: "sn_ok s" and shm: "sn_shm s = Some m" and conns: "conns_wf conns"
  shows "\<exists>m' s'. flush_to_shm now conns s = (None, s') \<and> sn_shm s' = Some m' \<and> sn_key s' = sn_key s
    \<and> sn_ok s'
    \<and> (\<forall>q < MAX_PORTS. read_port_entry (sn_key s) m' q =
         (case dget (sn_accum s) (int q) of None \<Rightarrow> None
          | Some e \<Rightarrow> flushed_row (sn_pids (refresh_pids now conns s)) now (int q) e))"
proof -
  let ?s = "refresh_pids now conns s" and ?d = "sn_accum s"
  let ?d' = "map (flushed_entry (sn_pids ?s) now) ?d"
  have s1: "sn_ok ?s" by (rule refresh_ok [OF ok conns])
  then have d: "accum_ok ?d" and pids: "pids_ok (sn_pids ?s)" and tr: "tracked (sn_key s) m ?d"
    using shm by (simp_all add: sn_ok_def)
  then obtain m' where fl: "flush_items (sn_key s) (sn_pids ?s) now ?d (Some m) = (None, Some m', ?d')"
    and c: "bitmap_complete (sn_key s) m'"
    and rd: "\<And>q. q < MAX_PORTS \<Longrightarrow> read_port_entry (sn_key s) m' q =
        (case dget ?d (int q) of None \<Rightarrow> read_port_entry (sn_key s) m q
         | Some e \<Rightarrow> flushed_row (sn_pids ?s) now (int q) e)"
    using flush_items_total [OF d pids, of "sn_key s" m now] tr unfolding tracked_def by blast
  have rd': "read_port_entry (sn_key s) m' q =
      (case dget ?d (int q) of None \<Rightarrow> None | Some e \<Rightarrow> flushed_row (sn_pids ?s) now (int q) e)"
    if q: "q < MAX_PORTS" for q
    using rd [OF q] tr q by (auto simp: tracked_def dmem_def split: option.splits)
  let ?s' = "?s\<lparr>sn_shm := Some m', sn_accum := prune_accum now ?d'\<rparr>"
  have "flush_to_shm now conns s = (None, ?s')"
    using fl shm by (simp add: flush_to_shm_def Let_def)
  moreover have "accum_ok ?d'" by (rule accum_ok_flushed [OF d pids])
  then have "accum_ok (prune_accum now ?d')" by (simp add: prune_accum_def accum_ok_filter)
  moreover have "dmem (int q) (prune_accum now ?d')"
    if q: "q < MAX_PORTS" and some: "read_port_entry (sn_key s) m' q \<noteq> None" for q
  proof -
    from rd' [OF q] some obtain e where "dget ?d (int q) = Some e" and "is_active now e"
      by (auto simp: flushed_row_def split: option.splits if_splits)
    with \<open>accum_ok ?d'\<close> show ?thesis
      by (intro prune_keeps_active [of _ _ "snd (flushed_entry (sn_pids ?s) now (int q, e))"])
         (simp_all add: dget_flushed accum_ok_def)
  qed
  ultimately have "sn_ok ?s'" using pids c by (simp add: sn_ok_def tracked_def)
  with \<open>flush_to_shm now conns s = (None, ?s')\<close> rd' show ?thesis by auto
qed

section \<open>Whole turns of the loop\<close>

definition cycle_wf :: "cycle \<Rightarrow> bool" where
  "cycle_wf c \<longleftrightarrow> list_all draw_wf (cy_draws c) \<and> conns_wf (cy_conns c)"

text \<open>The state of the capture process just before the flush of a turn.\<close>

definition captured :: "cycle \<Rightarrow> sniffer \<Rightarrow> sniffer" where
  "captured c s = inject_mock (cy_mock_time c) (cy_draws c)
     (fold (\<lambda>(t1, t2, pkt). packet_callback t1 t2 pkt) (cy_packets c) s)"

lemma callback_frame [simp]: "sn_shm (packet_callback t1 t2 pkt s) = sn_shm s"
  "sn_key (packet_callback t1 t2 pkt s) = sn_key s"
  "sn_intel (packet_callback t1 t2 pkt s) = sn_intel s"
  by (auto simp: packet_callback_def split: option.splits)

lemma callbacks_ok:
  "sn_ok s \<Longrightarrow> sn_ok (fold (\<lambda>(t1, t2, pkt). packet_callback t1 t2 pkt) ps s)"
  "sn_shm (fold (\<lambda>(t1, t2, pkt). packet_callback t1 t2 pkt) ps s) = sn_shm s"
  "sn_key (fold (\<lambda>(t1, t2, pkt). packet_callback t1 t2 pkt) ps s) = sn_key s"
  by (induction ps arbitrary: s) (auto simp: sn_ok_callback split: prod.splits)

lemma captured_ok: "sn_ok s \<Longrightarrow> cycle_wf c \<Longrightarrow> sn_ok (captured c s)"
  by (simp add: captured_def cycle_wf_def list_all_iff sn_ok_inject callbacks_ok)

lemma captured_frame [simp]: "sn_shm (captured c s) = sn_shm s" "sn_key (captured c s) = sn_key s"
  by (simp_all add: captured_def inject_mock_def callbacks_ok)

text \<open>The rows a turn publishes: one for each active port of the accumulator, in port order.\<close>

definition published_rows :: "(int, int) dict \<Rightarrow> time \<Rightarrow> (int, acc_entry) dict \<Rightarrow> string port_entry list" where
  "published_rows pids now d =
     concat (map (\<lambda>q. case dget d (int q) of
                        None \<Rightarrow> []
                      | Some e \<Rightarrow> (case flushed_row pids now (int q) e of None \<Rightarrow> [] | Some r \<Rightarrow> [r]))
                 [0..<MAX_PORTS])"

lemma cycle_slots:
  assumes ok: "sn_ok s" and shm: "sn_shm s = Some m" and wf: "cycle_wf c"
  shows "\<exists>m' s'. sniffer_cycle c s = (None, s') \<and> sn_shm s' = Some m' \<and> sn_key s' = sn_key s \<and> sn_ok s'
    \<and> read_all_active_ports (sn_key s) m' =
        published_rows (sn_pids (refresh_pids (cy_flush_time c) (cy_conns c) (captured c s)))
          (cy_flush_time c) (sn_accum (captured c s))
    \<and> (\<forall>q < MAX_PORTS. read_port_entry (sn_key s) m' q =
        (case dget (sn_accum (captured c s)) (int q) of None \<Rightarrow> None
         | Some e \<Rightarrow> flushed_row (sn_pids (refresh_pids (cy_flush_time c) (cy_conns c) (captured c s))) (cy_flush_time c) (int q) e))"
proof -
  let ?c = "captured c s" and ?now = "cy_flush_time c"
  have conns: "conns_wf (cy_conns c)" using wf by (simp add: cycle_wf_def)
  have "sn_shm ?c = Some m" using shm by simp
  from flush_total [OF captured_ok [OF ok wf] this conns, of ?now] obtain m' s'
    where fl: "flush_to_shm ?now (cy_conns c) ?c = (None, s')" and s': "sn_shm s' = Some m'"
      "sn_key s' = sn_key s" "sn_ok s'"
      and rd: "\<forall>q < MAX_PORTS. read_port_entry (sn_key s) m' q =
        (case dget (sn_accum ?c) (int q) of None \<Rightarrow> None
         | Some e \<Rightarrow> flushed_row (sn_pids (refresh_pids ?now (cy_conns c) ?c)) ?now (int q) e)"
    unfolding captured_frame by blast
  have "bitmap_complete (sn_key s) m'" using s' by (simp add: sn_ok_def tracked_def)
  then have "read_all_active_ports (sn_key s) m' = scan_all_slots (sn_key s) m'"
    by (rule read_all_eq_scan_all)
  also have "\<dots> = published_rows (sn_pids (refresh_pids ?now (cy_conns c) ?c)) ?now (sn_accum ?c)"
    unfolding scan_all_slots_def published_rows_def
    by (intro arg_cong [where f = concat] map_cong) (auto simp: rd MAX_PORTS_def split: option.splits)
  finally have "read_all_active_ports (sn_key s) m' =
      published_rows (sn_pids (refresh_pids ?now (cy_conns c) ?c)) ?now (sn_accum ?c)" .
  moreover have "sniffer_cycle c s = (None, s')" using fl by (simp add: sniffer_cycle_def captured_def)
  ultimately show ?thesis using s' rd by blast
qed

lemma cycle_publishes:
  assumes ok: "sn_ok s" and shm: "sn_shm s = Some m" and wf: "cycle_wf c"
  shows "\<exists>m' s'. sniffer_cycle c s = (None, s') \<and> sn_shm s' = Some m' \<and> sn_key s' = sn_key s \<and> sn_ok s'
    \<and> read_all_active_ports (sn_key s) m' =
        published_rows (sn_pids (refresh_pids (cy_flush_time c) (cy_conns c) (captured c s)))
          (cy_flush_time c) (sn_accum (captured c s))"
  using cycle_slots [OF assms] by blast

lemma sn_ok_fresh: "sn_ok (new_sniffer key\<lparr>sn_shm := Some init_shared_memory\<rparr>)"
  by (simp add: sn_ok_def new_sniffer_def accum_ok_def pids_ok_def tracked_def bitmap_complete_init read_init)

lemma run_cycles_ok:
  "sn_ok s \<Longrightarrow> sn_shm s = Some m \<Longrightarrow> list_all cycle_wf cs \<Longrightarrow>
     \<exists>s' m'. run_cycles cs s = (None, s') \<and> sn_ok s' \<and> sn_shm s' = Some m' \<and> sn_key s' = sn_key s"
proof (induction cs arbitrary: s m)
  case Nil
  then show ?case by simp
next
  case (Cons c cs)
  from Cons.prems(3) have c: "cycle_wf c" and cs: "list_all cycle_wf cs" by simp_all
  from cycle_publishes [OF Cons.prems(1,2) c] obtain s1 m1
    where s1: "sniffer_cycle c s = (None, s1)" "sn_shm s1 = Some m1" "sn_ok s1" "sn_key s1 = sn_key s"
    by blast
  from Cons.IH [OF s1(3,2) cs] s1 show ?case by simp
qed

section \<open>Byte accounting\<close>

definition bytes_in :: "int \<Rightarrow> (int, acc_entry) dict \<Rightarrow> int" where
  "bytes_in p d = (case dget d p of Some e \<Rightarrow> a_in e | None \<Rightarrow> 0)"

definition bytes_out :: "int \<Rightarrow> (int, acc_entry) dict \<Rightarrow> int" where
  "bytes_out p d = (case dget d p of Some e \<Rightarrow> a_out e | None \<Rightarrow> 0)"

definition len_to :: "int \<Rightarrow> packet \<Rightarrow> int" where
  "len_to p pkt = (case transport pkt of Some (sport, dport, proto) \<Rightarrow> if dport = p then p_len pkt else 0 | None \<Rightarrow> 0)"

definition len_from :: "int \<Rightarrow> packet \<Rightarrow> int" where
  "len_from p pkt = (case transport pkt of Some (sport, dport, proto) \<Rightarrow> if sport = p then p_len pkt else 0 | None \<Rightarrow> 0)"

lemma bytes_account:
  "0 < p \<Longrightarrow> p < int MAX_PORTS \<Longrightarrow>
     bytes_in p (account_out t port proto remote risk len d) = bytes_in p d"
  "0 < p \<Longrightarrow> p < int MAX_PORTS \<Longrightarrow>
     bytes_in p (account_in t port proto remote risk len d) = bytes_in p d + (if port = p then len else 0)"
  "0 < p \<Longrightarrow> p < int MAX_PORTS \<Longrightarrow>
     bytes_out p (account_in t port proto remote risk len d) = bytes_out p d"
  "0 < p \<Longrightarrow> p < int MAX_PORTS \<Longrightarrow>
     bytes_out p (account_out t port proto remote risk len d) = bytes_out p d + (if port = p then len else 0)"
  by (auto simp: bytes_in_def bytes_out_def account_out_def account_in_def Let_def dict_simps
      acc_get_def acc_new_def split: option.splits)

lemma callback_bytes:
  assumes "0 < p" and "p < int MAX_PORTS"
  shows "bytes_in p (sn_accum (packet_callback t1 t2 pkt s)) = bytes_in p (sn_accum s) + len_to p pkt"
    and "bytes_out p (sn_accum (packet_callback t1 t2 pkt s)) = bytes_out p (sn_accum s) + len_from p pkt"
  using assms
  by (auto simp: packet_callback_def bytes_account len_to_def len_from_def split: option.splits)

text \<open>Running the callbacks of a list of captured packets.\<close>

definition capture :: "(time \<times> time \<times> packet) list \<Rightarrow> sniffer \<Rightarrow> sniffer" where
  "capture ps s = fold (\<lambda>(t1, t2, pkt). packet_callback t1 t2 pkt) ps s"

section \<open>Properties\<close>

text \<open>
  C7: byte accounting. After any run of callbacks the inbound counter of a port has grown by
  exactly the lengths of the TCP and UDP packets sent to that port, and the outbound counter by
  the lengths of those sent from it; packets of other ports or protocols change neither.
\<close>

theorem packet_accounting:
  assumes "0 < p" and "p < int MAX_PORTS"
  shows "bytes_in p (sn_accum (capture ps s)) = bytes_in p (sn_accum s) + (\<Sum>(t1, t2, pkt)\<leftarrow>ps. len_to p pkt)
    \<and> bytes_out p (sn_accum (capture ps s)) = bytes_out p (sn_accum s) + (\<Sum>(t1, t2, pkt)\<leftarrow>ps. len_from p pkt)"
proof (induction ps arbitrary: s)
  case Nil
  then show ?case by (simp add: capture_def)
next
  case (Cons x ps)
  obtain t1 t2 pkt where x: "x = (t1, t2, pkt)" by (cases x)
  then have "capture (x # ps) s = capture ps (packet_callback t1 t2 pkt s)"
    by (simp add: capture_def)
  with Cons.IH [of "packet_callback t1 t2 pkt s"] x show ?case
    by (simp add: callback_bytes [OF assms])
qed

definition https_packet :: packet where
  "https_packet = \<lparr>p_has_ip = True, p_len = 1500, p_src = ''8.8.8.8'', p_dst = ''10.0.0.1'',
     p_tcp = Some (443, 50000), p_udp = None\<rparr>"

theorem packet_accounting_witness:
  "bytes_out 443 (sn_accum (capture [(1, 1, https_packet), (2, 2, https_packet)] (new_sniffer []))) = 3000"
  using packet_accounting [of 443 "[(1, 1, https_packet), (2, 2, https_packet)]" "new_sniffer []"]
  by (simp add: MAX_PORTS_def new_sniffer_def https_packet_def bytes_out_def len_from_def transport_def)

text \<open>
  C6: what the reader sees. After any number of turns of the loop on a fresh segment, the next
  turn raises nothing and leaves a segment from which \<open>read_all_active_ports\<close> returns exactly
  one row for each port seen in the last 30 seconds, in port order, with the counters of the
  accumulator modulo 2^64 and the process of the PID map. Read one by one, every slot gives that
  row if its port was seen in the last 30 seconds and reads as absent otherwise, whatever the
  bitmap says. The drawn risks are relied on to fit a byte and the process numbers psutil reports
  to fit 32 bits (\<open>cycle_wf\<close>).
\<close>

theorem turns_publish_accumulator:
  assumes "list_all cycle_wf cs" and "cycle_wf c"
  shows "\<exists>s0 s1 m. run_cycles cs (new_sniffer key\<lparr>sn_shm := Some init_shared_memory\<rparr>) = (None, s0)
    \<and> sniffer_cycle c s0 = (None, s1) \<and> sn_shm s1 = Some m
    \<and> read_all_active_ports key m =
        published_rows (sn_pids (refresh_pids (cy_flush_time c) (cy_conns c) (captured c s0)))
          (cy_flush_time c) (sn_accum (captured c s0))
    \<and> (\<forall>q < MAX_PORTS. read_port_entry key m q =
        (case dget (sn_accum (captured c s0)) (int q) of
           None \<Rightarrow> None
         | Some e \<Rightarrow> if cy_flush_time c - a_seen e \<le> 30
             then flushed_row (sn_pids (refresh_pids (cy_flush_time c) (cy_conns c) (captured c s0))) (cy_flush_time c) (int q) e
             else None))"
proof -
  let ?s = "new_sniffer key\<lparr>sn_shm := Some init_shared_memory\<rparr>"
  have "sn_shm ?s = Some init_shared_memory" and k: "sn_key ?s = key" by (simp_all add: new_sniffer_def)
  from run_cycles_ok [OF sn_ok_fresh this(1) assms(1)] k obtain s0 m0
    where s0: "run_cycles cs ?s = (None, s0)" "sn_ok s0" "sn_shm s0 = Some m0" "sn_key s0 = key"
    by auto
  let ?pids = "sn_pids (refresh_pids (cy_flush_time c) (cy_conns c) (captured c s0))"
  from cycle_slots [OF s0(2,3) assms(2)] obtain m s1 where t: "sniffer_cycle c s0 = (None, s1)" "sn_shm s1 = Some m"
    "read_all_active_ports key m = published_rows ?pids (cy_flush_time c) (sn_accum (captured c s0))"
    and slots: "\<forall>q < MAX_PORTS. read_port_entry key m q =
        (case dget (sn_accum (captured c s0)) (int q) of None \<Rightarrow> None | Some e \<Rightarrow> flushed_row ?pids (cy_flush_time c) (int q) e)"
    unfolding s0(4) by blast
  have seen: "(if now - a_seen e \<le> 30 then flushed_row pids now p e else None) = flushed_row pids now p e" for now p e pids
    by (simp add: flushed_row_def is_active_def)
  have "\<forall>q < MAX_PORTS. read_port_entry key m q =
        (case dget (sn_accum (captured c s0)) (int q) of None \<Rightarrow> None
         | Some e \<Rightarrow> if cy_flush_time c - a_seen e \<le> 30 then flushed_row ?pids (cy_flush_time c) (int q) e else None)"
    unfolding seen by (rule slots)
  with s0(1) t show ?thesis by (intro exI conjI)
qed

definition quiet_cycle :: "time \<Rightarrow> draw list \<Rightarrow> cycle" where
  "quiet_cycle t rs = \<lparr>cy_packets = [], cy_mock_time = t, cy_draws = rs, cy_flush_time = t, cy_conns = Inr []\<rparr>"

lemma quiet_cycle_wf: "list_all draw_wf rs \<Longrightarrow> cycle_wf (quiet_cycle t rs)"
  by (simp add: cycle_wf_def quiet_cycle_def conns_wf_def)

theorem turns_publish_accumulator_witness:
  "\<exists>s1 m. sniffer_cycle (quiet_cycle 1 []) (new_sniffer []\<lparr>sn_shm := Some init_shared_memory\<rparr>) = (None, s1)
     \<and> sn_shm s1 = Some m \<and> length (read_all_active_ports [] m) = 0"
proof -
  have "published_rows pids now [] = []" for pids now
    by (simp add: published_rows_def concat_eq_Nil_conv)
  then show ?thesis
    using turns_publish_accumulator [of "[]" "quiet_cycle 1 []" "[]"] quiet_cycle_wf [of "[]" 1]
    by (auto simp: captured_def quiet_cycle_def inject_mock_def refresh_pids_def new_sniffer_def)
qed

text \<open>
  C10: the loop does not die. On a fresh segment no sequence of packets, connection tables
  (or failures to read them) and draws in range makes the capture process leave its loop with
  an exception: every field it packs fits the entry.
\<close>

theorem sniffer_never_crashes:
  assumes "list_all cycle_wf cs"
  shows "fst (sniffer_run None cs (new_sniffer key)) = None"
proof -
  have "sn_shm (new_sniffer key\<lparr>sn_shm := Some init_shared_memory\<rparr>) = Some init_shared_memory"
    by simp
  from run_cycles_ok [OF sn_ok_fresh this assms] show ?thesis
    by (auto simp: sniffer_run_def)
qed

theorem sniffer_never_crashes_witness:
  "fst (sniffer_run None [quiet_cycle 1 [], quiet_cycle 2 []] (new_sniffer [1, 2])) = None"
  by (rule sniffer_never_crashes) (simp add: quiet_cycle_wf)

text \<open>
  Injected traffic reaches the reader. The test traffic of the loop is not switched off in
  production: a turn without a single captured packet still publishes a row for port 443,
  attributed to process 1443, whenever the draw for that port exceeds one half.
\<close>

theorem mock_traffic_published:
  assumes "list_all draw_wf (r # rs)" and "d_hit r"
  shows "\<exists>s1 m. sniffer_cycle (quiet_cycle t (r # rs)) (new_sniffer key\<lparr>sn_shm := Some init_shared_memory\<rparr>)
      = (None, s1) \<and> sn_shm s1 = Some m
    \<and> written_row 443 (d_in r) (d_out r) 1443 0 1 (d_risk r) (d_ip r) \<in> set (read_all_active_ports key m)"
proof -
  let ?s = "new_sniffer key\<lparr>sn_shm := Some init_shared_memory\<rparr>" and ?c = "quiet_cycle t (r # rs)"
  have wf: "cycle_wf ?c" by (rule quiet_cycle_wf [OF assms(1)])
  have keep: "443 \<notin> fst ` set xs \<Longrightarrow> dget (fold (inject_one t) xs d) 443 = dget d 443" for xs d
    by (induction xs arbitrary: d) (auto simp: inject_one_def Let_def dict_simps split: prod.splits)
  have "443 \<notin> fst ` set (zip (tl mock_ports) rs)"
    by (auto simp: mock_ports_def dest!: set_zip_leftD)
  then have get: "dget (sn_accum (captured ?c ?s)) 443 =
      Some ((mock_entry t 443 r)\<lparr>a_in := d_in r, a_out := d_out r\<rparr>)"
    using assms(2) by (simp add: captured_def inject_mock_def quiet_cycle_def new_sniffer_def
      mock_ports_def keep inject_one_def mock_entry_def Let_def)
  have pid: "dget (sn_pids (refresh_pids (cy_flush_time ?c) (cy_conns ?c) (captured ?c ?s))) 443 = None"
    by (simp add: refresh_pids_def quiet_cycle_def captured_def inject_mock_def new_sniffer_def build_pid_map_def)
  have "\<exists>s1 m. sniffer_cycle ?c ?s = (None, s1) \<and> sn_shm s1 = Some m \<and> read_all_active_ports key m =
        published_rows (sn_pids (refresh_pids (cy_flush_time ?c) (cy_conns ?c) (captured ?c ?s)))
          (cy_flush_time ?c) (sn_accum (captured ?c ?s))"
    using cycle_publishes [OF sn_ok_fresh, of key init_shared_memory ?c] wf
    by (auto simp: new_sniffer_def)
  moreover have "written_row 443 (d_in r) (d_out r) 1443 0 1 (d_risk r) (d_ip r)
      \<in> set (published_rows (sn_pids (refresh_pids (cy_flush_time ?c) (cy_conns ?c) (captured ?c ?s)))
          (cy_flush_time ?c) (sn_accum (captured ?c ?s)))"
    unfolding published_rows_def using get pid
    by (auto simp: MAX_PORTS_def flushed_row_def is_active_def flush_pid_def or_else_def mock_entry_def
        quiet_cycle_def intro!: bexI [of _ 443])
  ultimately show ?thesis by metis
qed

theorem mock_traffic_published_witness:
  "\<exists>s1 m. sniffer_cycle (quiet_cycle 9 [\<lparr>d_hit = True, d_risk = 8, d_ip = ''1.1.1.1'', d_in = 100, d_out = 100\<rparr>])
       (new_sniffer [7]\<lparr>sn_shm := Some init_shared_memory\<rparr>) = (None, s1) \<and> sn_shm s1 = Some m
     \<and> written_row 443 100 100 1443 0 1 8 ''1.1.1.1'' \<in> set (read_all_active_ports [7] m)"
  using mock_traffic_published [of "\<lparr>d_hit = True, d_risk = 8, d_ip = ''1.1.1.1'', d_in = 100, d_out = 100\<rparr>" "[]"]
  by (simp add: draw_wf_def in_range_def)

section \<open>The priority of the process\<close>

text \<open>
  \<open>_set_high_priority\<close>: the process object, psutil's \<open>nice\<close> on Windows and \<open>os.nice\<close> elsewhere are
  parameters. The result is whether the log says that the priority was raised; every exception but
  the one handled inside ends in a warning.
\<close>

definition set_high_priority :: "string \<Rightarrow> unit result \<Rightarrow> unit result \<Rightarrow> (int \<Rightarrow> unit result) \<Rightarrow> bool" where
  "set_high_priority system process win_nice nice =
     (case process of
        Inl err \<Rightarrow> False
      | Inr _ \<Rightarrow>
          if system = ''Windows'' then (case win_nice of Inl err \<Rightarrow> False | Inr _ \<Rightarrow> True)
          else (case nice (- 10) of
                  Inr _ \<Rightarrow> True
                | Inl err \<Rightarrow> if err = PermissionError then (case nice 0 of Inl err \<Rightarrow> False | Inr _ \<Rightarrow> True) else False))"

text \<open>Without the permission the process keeps its priority, and the log says it was raised.\<close>

lemma priority_claimed_without_permission:
  "system \<noteq> ''Windows'' \<Longrightarrow> nice (- 10) = Inl PermissionError \<Longrightarrow> nice 0 = Inr () \<Longrightarrow> set_high_priority system (Inr ()) w nice"
  by (simp add: set_high_priority_def)

end
