(* ===== verification/Dispatcher.thy ===== *)
theory Dispatcher
  imports Sniffer Policy Commands
begin

text \<open>
  The loop of \<open>infrastructure/network/dispatcher.py\<close> that joins the parts: it reads the shared
  segment, feeds every active entry to the traffic accumulator, evaluates the policies, publishes
  what they trigger and emits the port table. The snapshot object it gets back is the one the
  accumulator keeps in its history, so assigning to its fields changes the history too.
\<close>

section \<open>State\<close>

record ('t, 's) dispatcher =
  ds_acc :: "'t accumulator"
  ds_engine :: policy_engine
  ds_world :: "'s world"

text \<open>
  The inputs of one turn: the clock reading, what the calls for the \<open>i\<close>-th entry read, and the
  container's environment.
\<close>

record 's turn =
  tn_now :: time
  tn_sample :: "nat \<Rightarrow> sample_env"
  tn_clock :: "nat \<Rightarrow> nat \<Rightarrow> time"
  tn_env :: "'s cenv"

section \<open>One turn\<close>

definition assign_remote :: "string \<Rightarrow> int \<Rightarrow> port_snapshot \<Rightarrow> port_snapshot" where
  "assign_remote remote risk s = s\<lparr>s_remote := remote, s_risk := risk\<rparr>"

text \<open>The newest snapshot of a port is the object the assignments change.\<close>

definition assign_newest :: "int \<Rightarrow> string \<Rightarrow> int \<Rightarrow> window_cache \<Rightarrow> window_cache" where
  "assign_newest port remote risk w =
     (let dq = port_entries port w in
      w\<lparr>w_ports := dset (w_ports w) port (butlast dq @ [assign_remote remote risk (last dq)])\<rparr>)"

definition dispatch_entry ::
  "'t meta_op \<Rightarrow> 's turn \<Rightarrow> nat \<Rightarrow> string port_entry \<Rightarrow> ('t, 's) dispatcher \<Rightarrow> exc option \<times> ('t, 's) dispatcher" where
  "dispatch_entry gm t i x st =
     (case process_port_data gm (tn_sample t i) (e_port x) (e_bytes_in x) (e_bytes_out x) (e_pid x) (e_protocol x)
             (tn_now t) 0 ''0.0.0.0'' (ds_acc st) of
        (Inl err, a) \<Rightarrow> (Some err, st\<lparr>ds_acc := a\<rparr>)
      | (Inr s, a) \<Rightarrow>
          (let a' = a\<lparr>ac_cache := assign_newest (e_port x) (e_ip x) (e_risk x) (ac_cache a)\<rparr>;
               s' = assign_remote (e_ip x) (e_risk x) s in
           case evaluate (tn_clock t i) s' (ds_engine st) of
             (None, e) \<Rightarrow> (None, st\<lparr>ds_acc := a', ds_engine := e\<rparr>)
           | (Some ev, e) \<Rightarrow>
               (case publish_event (tn_env t) (PolicyEvaluated ev) (ds_world st) of
                  (Inr _, w) \<Rightarrow> (None, st\<lparr>ds_acc := a', ds_engine := e, ds_world := w\<rparr>)
                | (Inl err, w) \<Rightarrow> (Some err, st\<lparr>ds_acc := a', ds_engine := e, ds_world := w\<rparr>))))"

fun dispatch_entries ::
  "'t meta_op \<Rightarrow> 's turn \<Rightarrow> nat \<Rightarrow> string port_entry list \<Rightarrow> ('t, 's) dispatcher \<Rightarrow> exc option \<times> ('t, 's) dispatcher" where
  "dispatch_entries gm t i [] st = (None, st)"
| "dispatch_entries gm t i (x # xs) st =
     (case dispatch_entry gm t i x st of
        (Some err, st') \<Rightarrow> (Some err, st')
      | (None, st') \<Rightarrow> dispatch_entries gm t (Suc i) xs st')"

text \<open>
  A turn without a segment waits; an exception is logged and ends the turn without an emission;
  a turn that saw no active entry emits nothing.
\<close>

definition dispatch_turn ::
  "'t meta_op \<Rightarrow> 's turn \<Rightarrow> byte list \<Rightarrow> buf option \<Rightarrow> ('t, 's) dispatcher
     \<Rightarrow> port_row list option \<times> ('t, 's) dispatcher" where
  "dispatch_turn gm t key shm st =
     (case shm of
        None \<Rightarrow> (None, st)
      | Some m \<Rightarrow>
          (let xs = read_all_active_ports key m in
           case dispatch_entries gm t 0 xs st of
             (Some err, st') \<Rightarrow> (None, st')
           | (None, st') \<Rightarrow> (if xs \<noteq> [] then Some (get_port_table (tn_now t) (ds_acc st')) else None, st')))"

section \<open>The history under assignment\<close>

lemma entries_assign: "port_entries q (assign_newest p remote risk w) =
    (if q = p then butlast (port_entries p w) @ [assign_remote remote risk (last (port_entries p w))]
     else port_entries q w)"
  by (simp add: assign_newest_def port_entries_def Let_def dict_simps)

lemma assign_max [simp]: "w_max (assign_newest p remote risk w) = w_max w"
  by (simp add: assign_newest_def Let_def)

lemma assign_ok:
  assumes "window_ok w" and "port_entries p w \<noteq> []"
  shows "window_ok (assign_newest p remote risk w)"
proof -
  let ?dq = "port_entries p w"
  let ?dq' = "butlast ?dq @ [assign_remote remote risk (last ?dq)]"
  have q: "queue_ok (w_max w) (p, ?dq)" by (rule entries_queue [OF assms])
  then have "queue_ok (w_max w) (p, ?dq')"
    using assms(2) by (auto simp: queue_ok_def assign_remote_def dest: in_set_butlastD)
  then show ?thesis
    using assms(1) set_dset_subset [of p ?dq' "w_ports w"]
    by (auto simp: window_ok_def assign_newest_def Let_def)
qed

section \<open>One entry\<close>

text \<open>What a successful call leaves: the newest snapshot of the entry's port, and only that.\<close>

definition shown :: "'s turn \<Rightarrow> port_metrics \<Rightarrow> string port_entry \<Rightarrow> port_snapshot \<Rightarrow> bool" where
  "shown t ms x s \<longleftrightarrow> s_port s = e_port x \<and> s_pid s = e_pid x \<and> s_time s = tn_now t \<and> s_remote s = e_ip x
     \<and> s_risk s = e_risk x
     \<and> (s_in s, s_out s) = fst (calculate_delta (e_port x) (e_bytes_in x) (e_bytes_out x) (tn_now t) ms)"

lemma dispatch_entry_effect:
  assumes ok: "acc_ok (ds_acc st)" and ran: "dispatch_entry gm t i x st = (None, st')"
  shows "acc_ok (ds_acc st')
    \<and> (\<exists>s. shown t (ac_metrics (ds_acc st)) x s \<and> port_entries (e_port x) (ac_cache (ds_acc st')) \<noteq> []
          \<and> last (port_entries (e_port x) (ac_cache (ds_acc st'))) = s)
    \<and> (\<forall>q. q \<noteq> e_port x \<longrightarrow> port_entries q (ac_cache (ds_acc st')) = port_entries q (ac_cache (ds_acc st))
          \<and> dget (ac_metrics (ds_acc st')) q = dget (ac_metrics (ds_acc st)) q)"
proof -
  obtain r a where p: "process_port_data gm (tn_sample t i) (e_port x) (e_bytes_in x) (e_bytes_out x) (e_pid x)
      (e_protocol x) (tn_now t) 0 ''0.0.0.0'' (ds_acc st) = (r, a)" by fastforce
  with ran obtain s where r: "r = Inr s" by (cases r) (auto simp: dispatch_entry_def)
  let ?w = "ac_cache a"
  have w: "?w = add_snapshot s (ac_cache (ds_acc st))"
    using process_cache [of gm "tn_sample t i" "e_port x" "e_bytes_in x" "e_bytes_out x" "e_pid x" "e_protocol x"
        "tn_now t" 0 "''0.0.0.0''" "ds_acc st"] unfolding p r by simp
  from process_snapshot [of gm "tn_sample t i" "e_port x" "e_bytes_in x" "e_bytes_out x" "e_pid x" "e_protocol x"
        "tn_now t" 0 "''0.0.0.0''" "ds_acc st" s] p r
  have s: "s_port s = e_port x" "s_time s = tn_now t" "s_pid s = e_pid x"
    "(s_in s, s_out s) = fst (calculate_delta (e_port x) (e_bytes_in x) (e_bytes_out x) (tn_now t) (ac_metrics (ds_acc st)))"
    by auto
  have m: "ac_metrics a = snd (calculate_delta (e_port x) (e_bytes_in x) (e_bytes_out x) (tn_now t) (ac_metrics (ds_acc st)))"
    using process_metrics [of gm "tn_sample t i" "e_port x" "e_bytes_in x" "e_bytes_out x" "e_pid x" "e_protocol x"
        "tn_now t" 0 "''0.0.0.0''" "ds_acc st"] unfolding p by simp
  have wok: "window_ok (ac_cache (ds_acc st))" using ok by (simp add: acc_ok_def)
  then have "0 < w_max (ac_cache (ds_acc st))" by (simp add: window_ok_def)
  then have ne: "port_entries (e_port x) ?w \<noteq> []" and lst: "last (port_entries (e_port x) ?w) = s"
    by (simp_all add: w entries_add s deque_append_nonempty last_deque_append)
  have acc': "ac_cache (ds_acc st') = assign_newest (e_port x) (e_ip x) (e_risk x) ?w"
    "ac_metrics (ds_acc st') = ac_metrics a"
    using ran p r by (auto simp: dispatch_entry_def Let_def split: prod.splits option.splits sum.splits)
  have "window_ok ?w" unfolding w by (rule window_ok_add [OF wok])
  then have "acc_ok (ds_acc st')" unfolding acc_ok_def acc' by (rule assign_ok [OF _ ne])
  moreover have "shown t (ac_metrics (ds_acc st)) x (assign_remote (e_ip x) (e_risk x) s)"
    using s by (simp add: shown_def assign_remote_def)
  ultimately show ?thesis
    using lst s by (simp add: acc' entries_assign m calculate_delta_state) (simp add: w entries_add)
qed

lemma calculate_delta_local: "dget ms p = dget ms' p \<Longrightarrow>
    fst (calculate_delta p i j now ms) = fst (calculate_delta p i j now ms')"
  by (simp add: calculate_delta_def Let_def split: option.splits)

lemma dispatch_entries_effect:
  assumes "acc_ok (ds_acc st)" and "distinct (map e_port xs)" and "dispatch_entries gm t i xs st = (None, st')"
  shows "acc_ok (ds_acc st')
    \<and> (\<forall>x \<in> set xs. \<exists>s. shown t (ac_metrics (ds_acc st)) x s \<and> port_entries (e_port x) (ac_cache (ds_acc st')) \<noteq> []
          \<and> last (port_entries (e_port x) (ac_cache (ds_acc st'))) = s)
    \<and> (\<forall>q. q \<notin> e_port ` set xs \<longrightarrow> port_entries q (ac_cache (ds_acc st')) = port_entries q (ac_cache (ds_acc st)))"
  using assms
proof (induction xs arbitrary: i st)
  case Nil
  then show ?case by simp
next
  case (Cons x xs)
  obtain r st1 where e: "dispatch_entry gm t i x st = (r, st1)" by fastforce
  with Cons.prems(3) have r: "r = None" and rest: "dispatch_entries gm t (Suc i) xs st1 = (None, st')"
    by (auto split: option.splits)
  note h = dispatch_entry_effect [OF Cons.prems(1) e [unfolded r]]
  have "distinct (map e_port xs)" and new: "e_port x \<notin> e_port ` set xs" using Cons.prems(2) by auto
  note ih = Cons.IH [OF _ this(1) rest]
  have "shown t (ac_metrics (ds_acc st)) y s" if y: "y \<in> set xs" and "shown t (ac_metrics (ds_acc st1)) y s" for y s
  proof -
    have "e_port y \<noteq> e_port x" using new y by (metis imageI)
    with h have "dget (ac_metrics (ds_acc st1)) (e_port y) = dget (ac_metrics (ds_acc st)) (e_port y)" by blast
    from calculate_delta_local [OF this] that(2) show ?thesis by (simp add: shown_def)
  qed
  with h ih new show ?case by auto
qed

lemma shown_in_table:
  assumes "acc_ok a" and "shown t ms x s" and "port_entries (e_port x) (ac_cache a) \<noteq> []"
    and "last (port_entries (e_port x) (ac_cache a)) = s"
  shows "row_of s \<in> set (get_port_table (tn_now t) a)"
  using assms by (auto simp: set_port_table shown_def ACTIVE_PORT_TTL_SECONDS_def intro!: exI [of _ s])

section \<open>From the segment to the turn\<close>

lemma published_ports: "map e_port (published_rows pids now d) =
    map int (filter (\<lambda>q. \<exists>e. dget d (int q) = Some e \<and> is_active now e) [0..<MAX_PORTS])"
proof -
  have "map e_port (concat (map (\<lambda>q. case dget d (int q) of None \<Rightarrow> []
        | Some e \<Rightarrow> (case flushed_row pids now (int q) e of None \<Rightarrow> [] | Some r \<Rightarrow> [r])) qs)) =
      map int (filter (\<lambda>q. \<exists>e. dget d (int q) = Some e \<and> is_active now e) qs)" for qs
    by (induction qs) (auto simp: flushed_row_def written_row_def split: option.splits)
  then show ?thesis unfolding published_rows_def .
qed

lemma published_distinct: "distinct (map e_port (published_rows pids now d))"
  unfolding published_ports by (simp add: distinct_map)

lemma published_row:
  assumes "accum_ok d" and "dget d p = Some e" and "is_active now e"
  shows "written_row p (a_in e) (a_out e) (flush_pid pids now p e) (a_proto e) 1 (a_risk e) (a_remote e)
    \<in> set (published_rows pids now d)"
proof -
  have "0 < p" "p < int MAX_PORTS" using accum_okD [OF assms(1,2)] by (simp_all add: entry_wf_def)
  then have "nat p \<in> set [0..<MAX_PORTS]" "int (nat p) = p" by auto
  with assms(2,3) show ?thesis
    unfolding published_rows_def by (auto simp: flushed_row_def intro!: bexI [of _ "nat p"] split: option.splits)
qed

section \<open>Properties\<close>

text \<open>
  What a turn emits. When no process lookup fails, a turn that finds active entries for
  distinct ports emits a table in strictly increasing port order with, for every entry, a row of
  its port that shows its process, remote address and risk score as they stand in the segment, the
  time of the turn, and the rates computed from the counters stored for that port before the turn.
\<close>

theorem emitted_table_shows_entries:
  assumes "acc_ok (ds_acc st)" and "distinct (map e_port xs)" and "dispatch_entries gm t 0 xs st = (None, st')"
  shows "sorted_wrt (\<lambda>r r'. s_port r < s_port r') (get_port_table (tn_now t) (ds_acc st'))
    \<and> (\<forall>x \<in> set xs. \<exists>r \<in> set (get_port_table (tn_now t) (ds_acc st')).
        s_port r = e_port x \<and> s_pid r = e_pid x \<and> s_remote r = e_ip x \<and> s_risk r = e_risk x \<and> s_time r = tn_now t
        \<and> (s_in r, s_out r) = fst (calculate_delta (e_port x) (e_bytes_in x) (e_bytes_out x) (tn_now t)
            (ac_metrics (ds_acc st))))"
proof -
  note h = dispatch_entries_effect [OF assms]
  have "\<exists>r \<in> set (get_port_table (tn_now t) (ds_acc st')). s_port r = e_port x \<and> s_pid r = e_pid x
      \<and> s_remote r = e_ip x \<and> s_risk r = e_risk x \<and> s_time r = tn_now t
      \<and> (s_in r, s_out r) = fst (calculate_delta (e_port x) (e_bytes_in x) (e_bytes_out x) (tn_now t) (ac_metrics (ds_acc st)))"
    if x: "x \<in> set xs" for x
  proof -
    from h x obtain s where s: "shown t (ac_metrics (ds_acc st)) x s" "port_entries (e_port x) (ac_cache (ds_acc st')) \<noteq> []"
      "last (port_entries (e_port x) (ac_cache (ds_acc st'))) = s" by auto
    have "row_of s \<in> set (get_port_table (tn_now t) (ds_acc st'))"
      using h by (intro shown_in_table [OF _ s]) simp
    then show ?thesis using s(1) by (intro bexI [of _ "row_of s"]) (simp_all add: shown_def)
  qed
  with h table_sorted show ?thesis by blast
qed

definition idle_env :: "unit cenv" where
  "idle_env = \<lparr>en_sql = plain_sql, en_clock = of_nat, en_bridge = None, en_text = (\<lambda>_. [])\<rparr>"

definition turn1 :: "unit turn" where
  "turn1 = \<lparr>tn_now = 1, tn_sample = (\<lambda>_. sample_env0), tn_clock = (\<lambda>_ _. 1), tn_env = idle_env\<rparr>"

definition fresh_dispatcher :: "'t option \<Rightarrow> ('t, unit) dispatcher" where
  "fresh_dispatcher svc = \<lparr>ds_acc = new_accumulator svc, ds_engine = new_policy_engine,
     ds_world = \<lparr>w_db = empty_db, w_fw = (), w_bus = new_bus\<rparr>\<rparr>"

definition entry443 :: "string port_entry" where
  "entry443 = written_row 443 100 200 1443 0 1 7 ''8.8.8.8''"

lemma dispatch_443: "\<exists>st'. dispatch_entries no_service turn1 0 [entry443] (fresh_dispatcher None) = (None, st')"
  by (simp add: dispatch_entry_def process_port_data_def calculate_delta_def resolve_app_name_def cached_name_def
      process_name_def new_accumulator_def Let_def enrich_def turn1_def sample_env0_def fresh_dispatcher_def
      evaluate_def new_policy_engine_def entry443_def written_row_def)

theorem emitted_table_shows_entries_witness:
  "\<exists>st'. dispatch_entries no_service turn1 0 [entry443] (fresh_dispatcher None) = (None, st')
     \<and> (\<exists>r \<in> set (get_port_table 1 (ds_acc st')). s_port r = e_port entry443 \<and> s_risk r = e_risk entry443)"
proof -
  from dispatch_443 obtain st' where d: "dispatch_entries no_service turn1 0 [entry443] (fresh_dispatcher None) = (None, st')"
    by blast
  have "acc_ok (ds_acc (fresh_dispatcher None))" by (simp add: fresh_dispatcher_def acc_ok_new)
  from emitted_table_shows_entries [OF this _ d] have "\<exists>r \<in> set (get_port_table (tn_now turn1) (ds_acc st')).
      s_port r = e_port entry443 \<and> s_risk r = e_risk entry443" by auto
  with d show ?thesis by (auto simp: turn1_def)
qed

definition one_draw :: cycle where
  "one_draw = quiet_cycle 9 [\<lparr>d_hit = True, d_risk = 7, d_ip = ''8.8.8.8'', d_in = 100, d_out = 200\<rparr>]"

definition drawn_entry :: acc_entry where
  "drawn_entry = \<lparr>a_in = 100, a_out = 200, a_pid = 1443, a_proto = 0, a_risk = 7, a_remote = ''8.8.8.8'', a_seen = 9\<rparr>"

lemma drawn: "sn_accum (captured one_draw (new_sniffer key\<lparr>sn_shm := Some init_shared_memory\<rparr>)) = [(443, drawn_entry)]"
  by (simp add: captured_def one_draw_def quiet_cycle_def inject_mock_def inject_one_def mock_ports_def mock_entry_def
      new_sniffer_def drawn_entry_def)

lemma published_drawn: "published_rows [] 9 [(443, drawn_entry)] = [entry443]"
proof -
  let ?xs = "published_rows [] 9 [(443, drawn_entry)]"
  have "set (map e_port ?xs) = {443}"
    unfolding published_ports by (auto simp: is_active_def drawn_entry_def MAX_PORTS_def image_iff intro!: bexI [of _ 443])
  with distinct_card [OF published_distinct, of "[]" 9 "[(443, drawn_entry)]"] have "length ?xs = 1" by simp
  then obtain x where x: "?xs = [x]" by (auto simp: length_Suc_conv)
  have "accum_ok [(443, drawn_entry)]"
    by (simp add: accum_ok_def dict_ok_def entry_wf_def MAX_PORTS_def drawn_entry_def in_range_def)
  from published_row [OF this, of 443 drawn_entry 9 "[]"] x show ?thesis
    by (simp add: is_active_def drawn_entry_def flush_pid_def or_else_def entry443_def)
qed

lemma one_draw_wf: "cycle_wf one_draw"
  unfolding one_draw_def by (rule quiet_cycle_wf) (simp add: draw_wf_def in_range_def)

text \<open>A turn of the sniffer with one draw, and the turn of the dispatcher that shows it.\<close>

lemma drawn_segment: "\<exists>s1 m. sniffer_cycle one_draw (new_sniffer [7]\<lparr>sn_shm := Some init_shared_memory\<rparr>) = (None, s1)
    \<and> sn_shm s1 = Some m \<and> read_all_active_ports [7] m = [entry443]"
proof -
  let ?s = "new_sniffer [7]\<lparr>sn_shm := Some init_shared_memory\<rparr>"
  have s: "sn_shm ?s = Some init_shared_memory" "sn_key ?s = [7]" by (simp_all add: new_sniffer_def)
  have pids: "sn_pids (refresh_pids (cy_flush_time one_draw) (cy_conns one_draw) (captured one_draw ?s)) = []"
    by (simp add: refresh_pids_def one_draw_def quiet_cycle_def captured_def inject_mock_def new_sniffer_def build_pid_map_def)
  have flush: "cy_flush_time one_draw = 9" by (simp add: one_draw_def quiet_cycle_def)
  have rows: "published_rows (sn_pids (refresh_pids (cy_flush_time one_draw) (cy_conns one_draw) (captured one_draw ?s)))
      (cy_flush_time one_draw) (sn_accum (captured one_draw ?s)) = [entry443]"
    unfolding pids by (simp only: drawn flush published_drawn)
  from cycle_publishes [OF sn_ok_fresh s(1) one_draw_wf, unfolded rows s(2)] show ?thesis by blast
qed

lemma dispatch_drawn: "\<exists>s1 m table st'.
    sniffer_cycle one_draw (new_sniffer [7]\<lparr>sn_shm := Some init_shared_memory\<rparr>) = (None, s1) \<and> sn_shm s1 = Some m
    \<and> dispatch_turn no_service turn1 [7] (Some m) (fresh_dispatcher None) = (Some table, st')
    \<and> table \<noteq> []"
proof -
  obtain s1 m where c: "sniffer_cycle one_draw (new_sniffer [7]\<lparr>sn_shm := Some init_shared_memory\<rparr>) = (None, s1)"
    "sn_shm s1 = Some m" and read: "read_all_active_ports [7] m = [entry443]" using drawn_segment by blast
  obtain st' where e: "dispatch_entries no_service turn1 0 [entry443] (fresh_dispatcher None) = (None, st')"
    using dispatch_443 by blast
  then have d: "dispatch_turn no_service turn1 [7] (Some m) (fresh_dispatcher None)
      = (Some (get_port_table (tn_now turn1) (ds_acc st')), st')"
    by (simp add: dispatch_turn_def read)
  have "acc_ok (ds_acc (fresh_dispatcher None))" by (simp add: fresh_dispatcher_def acc_ok_new)
  from dispatch_entries_effect [OF this _ e] shown_in_table [of "ds_acc st'" turn1 _ entry443]
  have "get_port_table (tn_now turn1) (ds_acc st') \<noteq> []" by fastforce
  with c d show ?thesis by blast
qed

text \<open>
  Enrichment ignores the remote address. The dispatcher calls the accumulator without an
  address and assigns the address afterwards, so the organisation of a row is always that of
  "0.0.0.0": two entries that differ only in their remote address get the same organisation and
  country, and no risk known for the address reaches the row.
\<close>

theorem enrichment_ignores_address:
  assumes "acc_ok (ds_acc st)" and "ac_threat (ds_acc st) = Some svc"
    and "dispatch_entry gm t i x st = (None, st')"
  shows "s_org (last (port_entries (e_port x) (ac_cache (ds_acc st')))) =
      m_org (fst (gm (v_meta_time (tn_sample t i)) (v_meta_time' (tn_sample t i)) ''0.0.0.0'' svc))
    \<and> s_country (last (port_entries (e_port x) (ac_cache (ds_acc st')))) =
      m_country (fst (gm (v_meta_time (tn_sample t i)) (v_meta_time' (tn_sample t i)) ''0.0.0.0'' svc))
    \<and> s_risk (last (port_entries (e_port x) (ac_cache (ds_acc st')))) = e_risk x"
proof -
  obtain r a where p: "process_port_data gm (tn_sample t i) (e_port x) (e_bytes_in x) (e_bytes_out x) (e_pid x)
      (e_protocol x) (tn_now t) 0 ''0.0.0.0'' (ds_acc st) = (r, a)" by fastforce
  with assms(3) obtain s where r: "r = Inr s" by (cases r) (auto simp: dispatch_entry_def)
  have s: "s_port s = e_port x"
    "s_org s = m_org (fst (gm (v_meta_time (tn_sample t i)) (v_meta_time' (tn_sample t i)) ''0.0.0.0'' svc))"
    "s_country s = m_country (fst (gm (v_meta_time (tn_sample t i)) (v_meta_time' (tn_sample t i)) ''0.0.0.0'' svc))"
    and w: "ac_cache a = add_snapshot s (ac_cache (ds_acc st))"
    using p r assms(2)
    by (auto simp: process_port_data_def enrich_def make_snapshot_def Let_def split: prod.splits sum.splits)
  have "ac_cache (ds_acc st') = assign_newest (e_port x) (e_ip x) (e_risk x) (ac_cache a)"
    using assms(3) p r by (auto simp: dispatch_entry_def Let_def split: prod.splits option.splits sum.splits)
  moreover have "0 < w_max (ac_cache (ds_acc st))" using assms(1) by (simp add: acc_ok_def window_ok_def)
  ultimately show ?thesis
    using s by (simp add: entries_assign w entries_add last_deque_append assign_remote_def)
qed

theorem enrichment_ignores_address_witness:
  "\<exists>st'. dispatch_entry get_ip_metadata turn1 0 entry443 (fresh_dispatcher (Some init_threat_intel)) = (None, st')
     \<and> s_org (last (port_entries 443 (ac_cache (ds_acc st')))) = m_org (fst (get_ip_metadata 0 0 ''0.0.0.0'' init_threat_intel))"
proof -
  obtain st' where d: "dispatch_entry get_ip_metadata turn1 0 entry443 (fresh_dispatcher (Some init_threat_intel)) = (None, st')"
    by (cases "get_ip_metadata 0 0 ''0.0.0.0'' init_threat_intel")
       (simp add: dispatch_entry_def process_port_data_def calculate_delta_def resolve_app_name_def cached_name_def
      process_name_def new_accumulator_def Let_def enrich_def turn1_def sample_env0_def fresh_dispatcher_def
      evaluate_def new_policy_engine_def entry443_def written_row_def)
  have "acc_ok (ds_acc (fresh_dispatcher (Some init_threat_intel)))" "ac_threat (ds_acc (fresh_dispatcher (Some init_threat_intel))) = Some init_threat_intel"
    by (simp_all add: fresh_dispatcher_def acc_ok_new) (simp add: new_accumulator_def)
  from enrichment_ignores_address [OF this d] d show ?thesis
    by (simp add: turn1_def sample_env0_def entry443_def written_row_def)
qed

end
