(* ===== verification/Entities.thy ===== *)
theory Entities
  imports Database Threat_Intel
begin

text \<open>
  The value objects \<open>domain/value_objects/network.py\<close> and \<open>identifiers.py\<close> and the entities of
  \<open>domain/entities\<close>: construction with validation, comparison, the approval life cycle and
  the dictionaries sent to the frontend. A risk score and a port number are types of their own:
  a constructor is the only way to make one, so the invariant it enforces is the type's. The tables
  of private and loopback networks belong to the version of Python's \<open>ipaddress\<close> that is
  installed and are a parameter; which strings are addresses is \<open>ip_address_ok\<close>.
\<close>

section \<open>Protocol\<close>

datatype protocol = TCP | UDP

definition from_int :: "int \<Rightarrow> protocol" where
  "from_int value = (if value = 1 then UDP else TCP)"

primrec protocol_value :: "protocol \<Rightarrow> string" where
  "protocol_value TCP = ''TCP''"
| "protocol_value UDP = ''UDP''"

section \<open>PortNumber\<close>

typedef port_number = "{p. valid_port p}" morphisms port_value Abs_port
  by (rule exI [of _ 1]) (simp add: valid_port_def)

setup_lifting type_definition_port_number

definition PortNumber :: "int \<Rightarrow> port_number result" where
  "PortNumber value = (if \<not> (1 \<le> value \<and> value \<le> 65535) then Inl ValueError else Inr (Abs_port value))"

definition port_str :: "port_number \<Rightarrow> string" where
  "port_str p = show_int (port_value p)"

section \<open>IPAddress\<close>

record ip_tables =
  ipt_private :: "string \<Rightarrow> bool"
  ipt_loopback :: "string \<Rightarrow> bool"

definition IPAddress :: "string \<Rightarrow> string result" where
  "IPAddress value = (if value \<noteq> [] \<and> value \<noteq> ''0.0.0.0'' \<and> \<not> ip_address_ok value then Inl ValueError else Inr value)"

definition ip_is_private :: "ip_tables \<Rightarrow> string \<Rightarrow> bool" where
  "ip_is_private t value =
     (if value = [] \<or> value = ''0.0.0.0'' then True
      else if ip_address_ok value then ipt_private t value else False)"

definition ip_is_loopback :: "ip_tables \<Rightarrow> string \<Rightarrow> bool" where
  "ip_is_loopback t value =
     (if value = [] then False else if ip_address_ok value then ipt_loopback t value else False)"

section \<open>RiskScore\<close>

typedef risk_score = "{r :: int. 0 \<le> r \<and> r \<le> 10}" morphisms risk_value Abs_risk
  by (rule exI [of _ 0]) simp

setup_lifting type_definition_risk_score

lift_definition RiskScore :: "int \<Rightarrow> risk_score" is "\<lambda>value. max 0 (min 10 value)" by simp

lift_definition is_critical :: "risk_score \<Rightarrow> bool" is "\<lambda>r. 10 \<le> r" .

lift_definition is_high :: "risk_score \<Rightarrow> bool" is "\<lambda>r. 7 \<le> r" .

lift_definition is_medium :: "risk_score \<Rightarrow> bool" is "\<lambda>r. 5 \<le> r" .

definition risk_label :: "risk_score \<Rightarrow> string" where
  "risk_label r = (if is_critical r then ''CRITICAL'' else if is_high r then ''HIGH''
     else if is_medium r then ''MEDIUM'' else ''LOW'')"

text \<open>
  What a score may be compared with. Comparing with anything else gives \<open>NotImplemented\<close>, here
  \<open>None\<close>. The dataclass's equality holds between scores only.
\<close>

datatype operand = Score risk_score | Number int | OtherObject

primrec risk_gt :: "risk_score \<Rightarrow> operand \<Rightarrow> bool option" where
  "risk_gt r (Score s) = Some (risk_value s < risk_value r)"
| "risk_gt r (Number n) = Some (n < risk_value r)"
| "risk_gt r OtherObject = None"

primrec risk_ge :: "risk_score \<Rightarrow> operand \<Rightarrow> bool option" where
  "risk_ge r (Score s) = Some (risk_value s \<le> risk_value r)"
| "risk_ge r (Number n) = Some (n \<le> risk_value r)"
| "risk_ge r OtherObject = None"

text \<open>Between scores the comparisons are those of a linear order.\<close>

instantiation risk_score :: linorder
begin

lift_definition less_eq_risk_score :: "risk_score \<Rightarrow> risk_score \<Rightarrow> bool" is "(\<le>)" .

lift_definition less_risk_score :: "risk_score \<Rightarrow> risk_score \<Rightarrow> bool" is "(<)" .

instance
  by standard (transfer; auto)+

end

lemma risk_gt_score [simp]: "risk_gt r (Score s) = Some (s < r)"
  by (simp add: less_risk_score.rep_eq)

lemma risk_ge_score [simp]: "risk_ge r (Score s) = Some (s \<le> r)"
  by (simp add: less_eq_risk_score.rep_eq)

section \<open>Identifiers\<close>

record process_id = pid_value :: int

definition is_system_pid :: "process_id \<Rightarrow> bool" where
  "is_system_pid p \<longleftrightarrow> pid_value p \<in> {0, 1, 4}"

record approval_id = aid_value :: int

section \<open>Python values in the dictionaries sent to clients\<close>

datatype pyval = PInt int | PFloat rat | PStr string | PNone

definition pint :: "int option \<Rightarrow> pyval" where
  "pint x = (case x of None \<Rightarrow> PNone | Some i \<Rightarrow> PInt i)"

definition pfloat :: "rat option \<Rightarrow> pyval" where
  "pfloat x = (case x of None \<Rightarrow> PNone | Some r \<Rightarrow> PFloat r)"

definition pstr :: "string option \<Rightarrow> pyval" where
  "pstr x = (case x of None \<Rightarrow> PNone | Some s \<Rightarrow> PStr s)"

type_synonym wire = "(string, pyval) dict"

section \<open>Port and Connection\<close>

record port_entity =
  pe_port :: int
  pe_pid :: int
  pe_app :: string
  pe_protocol :: string
  pe_direction :: string
  pe_in :: rat
  pe_out :: rat
  pe_risk :: int
  pe_remote :: string
  pe_org :: string
  pe_country :: string
  pe_time :: rat

text \<open>The constructor with its defaults.\<close>

definition new_port :: "int \<Rightarrow> port_entity" where
  "new_port port = \<lparr>pe_port = port, pe_pid = 0, pe_app = ''Unknown'', pe_protocol = ''TCP'', pe_direction = ''both'',
     pe_in = 0, pe_out = 0, pe_risk = 0, pe_remote = ''0.0.0.0'', pe_org = ''Unknown'', pe_country = ''??'', pe_time = 0\<rparr>"

definition port_kb_total :: "port_entity \<Rightarrow> rat" where
  "port_kb_total p = py_round2 (double (pe_in p + pe_out p))"

definition port_high_risk :: "port_entity \<Rightarrow> bool" where
  "port_high_risk p \<longleftrightarrow> 7 \<le> pe_risk p"

definition port_to_dict :: "port_entity \<Rightarrow> wire" where
  "port_to_dict p =
     [(''port'', PInt (pe_port p)), (''pid'', PInt (pe_pid p)), (''app_name'', PStr (pe_app p)),
      (''kb_s_in'', PFloat (pe_in p)), (''kb_s_out'', PFloat (pe_out p)), (''kb_s'', PFloat (port_kb_total p)),
      (''protocol'', PStr (pe_protocol p)), (''direction'', PStr (pe_direction p)), (''risk_score'', PInt (pe_risk p)),
      (''remote_ip'', PStr (pe_remote p)), (''org'', PStr (pe_org p)), (''country'', PStr (pe_country p)),
      (''timestamp'', PFloat (pe_time p))]"

record connection =
  cn_local_port :: int
  cn_remote_ip :: string
  cn_remote_port :: int
  cn_pid :: int
  cn_protocol :: string
  cn_status :: string
  cn_app :: string
  cn_in :: int
  cn_out :: int

section \<open>Approval\<close>

datatype approval_state = Pending | Approved | Rejected

primrec state_value :: "approval_state \<Rightarrow> string" where
  "state_value Pending = ''pending''"
| "state_value Approved = ''approved''"
| "state_value Rejected = ''rejected''"

datatype action_type = BlockPort | SuspendProcess | IsolateNetwork

primrec action_value :: "action_type \<Rightarrow> string" where
  "action_value BlockPort = ''block_port''"
| "action_value SuspendProcess = ''suspend_process''"
| "action_value IsolateNetwork = ''isolate_network''"

record approval =
  av_id :: int
  av_action :: string
  av_target :: string
  av_reason :: string
  av_status :: string
  av_risk :: int
  av_created :: time
  av_resolved_at :: "time option"
  av_resolved_by :: "string option"

definition new_approval :: "time \<Rightarrow> approval" where
  "new_approval now = \<lparr>av_id = 0, av_action = action_value SuspendProcess, av_target = [], av_reason = [],
     av_status = state_value Pending, av_risk = 0, av_created = now, av_resolved_at = None, av_resolved_by = None\<rparr>"

definition is_pending :: "approval \<Rightarrow> bool" where
  "is_pending a \<longleftrightarrow> av_status a = state_value Pending"

definition is_resolved :: "approval \<Rightarrow> bool" where
  "is_resolved a \<longleftrightarrow> av_status a \<in> {state_value Approved, state_value Rejected}"

definition resolve :: "time \<Rightarrow> string \<Rightarrow> string \<Rightarrow> approval \<Rightarrow> unit result \<times> approval" where
  "resolve now status resolved_by a =
     (if status \<notin> {state_value Approved, state_value Rejected} then (Inl ValueError, a)
      else (Inr (), a\<lparr>av_status := status, av_resolved_at := Some now, av_resolved_by := Some resolved_by\<rparr>))"

definition approval_to_dict :: "approval \<Rightarrow> wire" where
  "approval_to_dict a =
     [(''id'', PInt (av_id a)), (''created_at'', PFloat (av_created a)), (''action_type'', PStr (av_action a)),
      (''target_identifier'', PStr (av_target a)), (''reason'', PStr (av_reason a)), (''status'', PStr (av_status a)),
      (''risk_score'', PInt (av_risk a)), (''resolved_at'', pfloat (av_resolved_at a)),
      (''resolved_by'', pstr (av_resolved_by a))]"

section \<open>Threat and ThreatIndicator\<close>

record threat_indicator =
  ti_ip :: string
  ti_org :: string
  ti_city :: string
  ti_country :: string
  ti_latitude :: rat
  ti_longitude :: rat
  ti_risk :: int
  ti_is_malicious :: bool

definition indicator_is_private :: "threat_indicator \<Rightarrow> bool" where
  "indicator_is_private t \<longleftrightarrow> ti_ip t = [] \<or> startswith (ti_ip t) ''127.'' \<or> startswith (ti_ip t) ''192.168.''
     \<or> startswith (ti_ip t) ''10.'' \<or> ti_ip t = ''0.0.0.0''"

definition indicator_to_dict :: "threat_indicator \<Rightarrow> wire" where
  "indicator_to_dict t =
     [(''ip'', PStr (ti_ip t)), (''org'', PStr (ti_org t)), (''city'', PStr (ti_city t)), (''country'', PStr (ti_country t)),
      (''latitude'', PFloat (ti_latitude t)), (''longitude'', PFloat (ti_longitude t)), (''risk'', PInt (ti_risk t))]"

record threat_entity =
  te_ip :: string
  te_port :: int
  te_app :: string
  te_city :: string
  te_country :: string
  te_latitude :: rat
  te_longitude :: rat
  te_risk :: int
  te_org :: string
  te_in :: rat
  te_out :: rat
  te_protocol :: string

definition threat_to_dict :: "threat_entity \<Rightarrow> wire" where
  "threat_to_dict t =
     [(''ip'', PStr (te_ip t)), (''city'', PStr (te_city t)), (''country'', PStr (te_country t)),
      (''latitude'', PFloat (te_latitude t)), (''longitude'', PFloat (te_longitude t)), (''risk'', PInt (te_risk t)),
      (''org'', PStr (te_org t)), (''port'', PInt (te_port t)), (''app_name'', PStr (te_app t)),
      (''kb_s_in'', PFloat (te_in t)), (''kb_s_out'', PFloat (te_out t)), (''protocol'', PStr (te_protocol t))]"

section \<open>NetworkProcess\<close>

record network_process =
  np_pid :: int
  np_app :: string
  np_cpu :: rat
  np_memory :: rat
  np_ports :: "int set"
  np_in :: rat
  np_out :: rat
  np_risk :: int
  np_status :: string
  np_created :: rat

definition process_is_system :: "network_process \<Rightarrow> bool" where
  "process_is_system p \<longleftrightarrow> np_pid p \<in> {0, 1, 4}"

definition process_kb_total :: "network_process \<Rightarrow> rat" where
  "process_kb_total p = py_round2 (double (np_in p + np_out p))"

definition process_port_count :: "network_process \<Rightarrow> nat" where
  "process_port_count p = card (np_ports p)"

section \<open>Values\<close>

lemma port_value_range: "valid_port (port_value p)"
  using port_value [of p] by simp

lemma port_number_cases: "PortNumber v = (if valid_port v then Inr (Abs_port v) else Inl ValueError)"
  by (simp add: PortNumber_def valid_port_def)

lemma port_number_value: "PortNumber v = Inr p \<longleftrightarrow> port_value p = v"
proof
  assume "PortNumber v = Inr p"
  then have "valid_port v" and "p = Abs_port v" by (auto simp: port_number_cases split: if_splits)
  then show "port_value p = v" by (simp add: Abs_port_inverse)
next
  assume v: "port_value p = v"
  with port_value_range [of p] have "valid_port v" by simp
  moreover have "Abs_port v = p" using v by (metis port_value_inverse)
  ultimately show "PortNumber v = Inr p" by (simp add: port_number_cases)
qed

lemma risk_value_range: "0 \<le> risk_value r" "risk_value r \<le> 10"
  using risk_value [of r] by auto

lemma RiskScore_value [simp]: "risk_value (RiskScore v) = max 0 (min 10 v)"
  by (rule RiskScore.rep_eq)

lemma RiskScore_risk_value [simp]: "RiskScore (risk_value r) = r"
  by transfer auto

lemma RiskScore_mono: "v \<le> w \<Longrightarrow> RiskScore v \<le> RiskScore w"
  by transfer auto

lemma risk_label_bands: "risk_label (RiskScore v) =
    (if 10 \<le> v then ''CRITICAL'' else if 7 \<le> v then ''HIGH'' else if 5 \<le> v then ''MEDIUM'' else ''LOW'')"
  by (auto simp: risk_label_def is_critical.rep_eq is_high.rep_eq is_medium.rep_eq max_def)

text \<open>The same bands decide \<open>is_high_risk\<close> of a port.\<close>

lemma high_risk_agrees: "port_high_risk p \<longleftrightarrow> risk_label (RiskScore (pe_risk p)) \<in> {''HIGH'', ''CRITICAL''}"
  by (simp add: port_high_risk_def risk_label_bands)

text \<open>
  A score is never equal to a number, so \<open>10\<close> is neither greater than, less than nor equal to a
  critical score, although the score is \<open>>= 10\<close>.
\<close>

lemma score_number_gap: "risk_ge (RiskScore 10) (Number 10) = Some True" "risk_gt (RiskScore 10) (Number 10) = Some False"
  by simp_all

section \<open>Approvals\<close>

definition approval_of_row :: "analyst_approval \<Rightarrow> approval" where
  "approval_of_row r = \<lparr>av_id = ap_id r, av_action = ap_action r, av_target = ap_target r, av_reason = ap_reason r,
     av_status = ap_status r, av_risk = ap_risk r, av_created = ap_created r, av_resolved_at = ap_resolved_at r,
     av_resolved_by = ap_resolved_by r\<rparr>"

text \<open>What \<open>resolve\<close> does to the row it is about, with the status check left out.\<close>

definition resolved_row :: "time \<Rightarrow> string \<Rightarrow> string \<Rightarrow> analyst_approval \<Rightarrow> analyst_approval" where
  "resolved_row now st who r = r\<lparr>ap_status := st, ap_resolved_by := Some who, ap_resolved_at := Some now\<rparr>"

lemma resolve_row: "st \<in> {''approved'', ''rejected''} \<Longrightarrow>
    resolve now st who (approval_of_row r) = (Inr (), approval_of_row (resolved_row now st who r))"
  by (auto simp: resolve_def approval_of_row_def resolved_row_def)

lemma resolve_rejects: "st \<notin> {''approved'', ''rejected''} \<Longrightarrow> resolve now st who a = (Inl ValueError, a)"
  by (simp add: resolve_def)

lemma state_exclusive: "\<not> (is_pending a \<and> is_resolved a)"
  by (auto simp: is_pending_def is_resolved_def)

lemma update_only: "update_approval_status q now i st who d = (Inr found, d') \<Longrightarrow> d' = d\<lparr>t_approvals := t_approvals d', db_calls := db_calls d'\<rparr>"
  by (auto simp: update_approval_status_def session_def Let_def split: option.splits if_splits)

lemma update_rows: "update_approval_status q now i st who d = (Inr found, d') \<Longrightarrow>
    t_approvals d' = map (\<lambda>r. if ap_id r = i then resolved_row now st who r else r) (t_approvals d)
    \<and> (found \<longleftrightarrow> i \<in> ap_id ` set (t_approvals d))"
proof (cases "i \<in> ap_id ` set (t_approvals d)")
  case True
  moreover assume "update_approval_status q now i st who d = (Inr found, d')"
  ultimately show ?thesis
    by (auto simp: update_approval_status_def session_def Let_def resolved_row_def split: option.splits)
next
  case False
  then have "map (\<lambda>r. if ap_id r = i then resolved_row now st who r else r) (t_approvals d) = t_approvals d"
    by (intro map_idI) auto
  moreover assume "update_approval_status q now i st who d = (Inr found, d')"
  ultimately show ?thesis using False
    by (auto simp: update_approval_status_def session_def Let_def split: option.splits)
qed

section \<open>Private addresses\<close>

lemma private_checks: "indicator_is_private t \<longleftrightarrow> is_local (ti_ip t) \<or> ti_ip t = ''0.0.0.0''"
  by (auto simp: indicator_is_private_def is_local_def)

text \<open>
  An address of the private block 172.16.0.0/12 passes for a public one: the indicator calls it
  public and the threat service submits it to the external lookup.
\<close>

lemma private_block_leaks:
  "\<not> is_local ''172.16.0.1''"
  "ti_pending (snd (get_ip_metadata now now' ''172.16.0.1'' \<lparr>ti_malicious = [], ti_cache = [], ti_stamps = [], ti_pending = []\<rparr>)) =
     [''172.16.0.1'']"
proof -
  show l: "\<not> is_local ''172.16.0.1''" by (simp add: is_local_def)
  have "ip_address_ok ''172.16.0.1''" by code_simp
  with l show "ti_pending (snd (get_ip_metadata now now' ''172.16.0.1''
      \<lparr>ti_malicious = [], ti_cache = [], ti_stamps = [], ti_pending = []\<rparr>)) = [''172.16.0.1'']"
    by (simp add: get_ip_metadata_def check_cache_def mark_pending_def)
qed

section \<open>Dictionaries\<close>

text \<open>The dictionary the metrics service makes of a row of its table.\<close>

definition row_dict :: "port_row \<Rightarrow> wire" where
  "row_dict s =
     [(''port'', PInt (s_port s)), (''pid'', PInt (s_pid s)), (''app_name'', PStr (s_app s)),
      (''kb_s_in'', PFloat (s_in s)), (''kb_s_out'', PFloat (s_out s)), (''kb_s'', PFloat (r_total s)),
      (''protocol'', PStr (s_protocol s)), (''direction'', PStr (s_direction s)), (''risk_score'', PInt (s_risk s)),
      (''remote_ip'', PStr (s_remote s)), (''org'', PStr (s_org s)), (''country'', PStr (s_country s)),
      (''timestamp'', PFloat (s_time s))]"

definition port_of_snapshot :: "port_snapshot \<Rightarrow> port_entity" where
  "port_of_snapshot s = \<lparr>pe_port = s_port s, pe_pid = s_pid s, pe_app = s_app s, pe_protocol = s_protocol s,
     pe_direction = s_direction s, pe_in = s_in s, pe_out = s_out s, pe_risk = s_risk s, pe_remote = s_remote s,
     pe_org = s_org s, pe_country = s_country s, pe_time = s_time s\<rparr>"

lemma wire_formats_agree: "row_dict (row_of s) = port_to_dict (port_of_snapshot s)"
  by (simp add: row_dict_def port_to_dict_def port_of_snapshot_def port_kb_total_def row_of_def port_snapshot.defs)

section \<open>Properties\<close>

text \<open>
  The network values are well-formed by construction. A port number exists for exactly the
  integers from 1 to 65535 and printing it can be undone; a risk score is in 0..10 whatever integer
  it is made of, keeps the order of the integers, and its label depends only on the bands of the
  original integer, so that a port is \<open>is_high_risk\<close> exactly if its score is labelled high or
  critical; a protocol is UDP exactly for the integer 1.
\<close>

theorem network_values_well_formed:
  "((\<exists>p. PortNumber v = Inr p) \<longleftrightarrow> valid_port v) \<and> (PortNumber v = Inr p \<longleftrightarrow> port_value p = v)
    \<and> py_int (port_str p) = Some (port_value p)
    \<and> risk_value (RiskScore v) \<in> {0..10} \<and> RiskScore (min v w) = min (RiskScore v) (RiskScore w)
    \<and> (port_high_risk port \<longleftrightarrow> risk_label (RiskScore (pe_risk port)) \<in> {''HIGH'', ''CRITICAL''})
    \<and> (protocol_value (from_int v) = ''UDP'' \<longleftrightarrow> v = 1)"
proof (intro conjI)
  show "(\<exists>p. PortNumber v = Inr p) \<longleftrightarrow> valid_port v" by (simp add: port_number_cases)
  have "port_value p = int (nat (port_value p))" using port_value_range [of p] by (simp add: valid_port_def)
  then show "py_int (port_str p) = Some (port_value p)"
    using py_int_show_nat [of "nat (port_value p)"] port_value_range [of p]
    by (simp add: port_str_def show_int_def valid_port_def)
  show "RiskScore (min v w) = min (RiskScore v) (RiskScore w)"
    using RiskScore_mono [of v w] RiskScore_mono [of w v] by (auto simp: min_def)
qed (simp_all add: port_number_value high_risk_agrees from_int_def)

text \<open>
  C22: the approval entity and the database agree on valid resolutions and on nothing else. Storing
  the status \<open>approved\<close> or \<open>rejected\<close> replaces every row with the identifier by the row of the
  entity that \<open>resolve\<close> returns; for any other status \<open>resolve\<close> raises and changes nothing,
  while the database stores it. Rows with other identifiers, the order of the rows and all other
  tables stay as they are.
\<close>

theorem approval_entity_refined:
  assumes "update_approval_status q now i st who d = (Inr found, d')" and "k < length (t_approvals d)"
    and "ap_id (t_approvals d ! k) = i"
  shows "found \<and> length (t_approvals d') = length (t_approvals d) \<and> d' = d\<lparr>t_approvals := t_approvals d', db_calls := db_calls d'\<rparr>
    \<and> (\<forall>j < length (t_approvals d). ap_id (t_approvals d ! j) \<noteq> i \<longrightarrow> t_approvals d' ! j = t_approvals d ! j)
    \<and> (st \<in> {''approved'', ''rejected''} \<longrightarrow>
         resolve now st who (approval_of_row (t_approvals d ! k)) = (Inr (), approval_of_row (t_approvals d' ! k))
         \<and> is_resolved (approval_of_row (t_approvals d' ! k)))
    \<and> (st \<notin> {''approved'', ''rejected''} \<longrightarrow>
         resolve now st who (approval_of_row (t_approvals d ! k)) = (Inl ValueError, approval_of_row (t_approvals d ! k))
         \<and> av_status (approval_of_row (t_approvals d' ! k)) = st)"
proof -
  let ?r = "t_approvals d ! k"
  have rows: "t_approvals d' = map (\<lambda>r. if ap_id r = i then resolved_row now st who r else r) (t_approvals d)"
    and found: "found" and only: "d' = d\<lparr>t_approvals := t_approvals d', db_calls := db_calls d'\<rparr>"
    using update_rows [OF assms(1)] update_only [OF assms(1)] nth_mem [OF assms(2)] assms(3) by auto
  then have k: "t_approvals d' ! k = resolved_row now st who ?r" using assms(2,3) by simp
  have "av_status (approval_of_row (resolved_row now st who ?r)) = st"
    by (simp add: approval_of_row_def resolved_row_def)
  then show ?thesis
    unfolding k using found only resolve_row [of st now who ?r] resolve_rejects [of st now who "approval_of_row ?r"]
    by (auto simp: rows is_resolved_def)
qed

definition two_approvals :: db where
  "two_approvals = one_approval\<lparr>t_approvals := t_approvals one_approval @ [(hd (t_approvals one_approval))\<lparr>ap_id := 2\<rparr>]\<rparr>"

theorem approval_entity_refined_witness:
  "\<exists>d'. update_approval_status plain_sql 5 1 ''approved'' ''ana'' two_approvals = (Inr True, d')
     \<and> is_resolved (approval_of_row (t_approvals d' ! 0)) \<and> t_approvals d' ! 1 = t_approvals two_approvals ! 1"
proof -
  obtain d' where u: "update_approval_status plain_sql 5 1 ''approved'' ''ana'' two_approvals = (Inr True, d')"
    by (simp add: update_approval_status_def session_def plain_sql_def two_approvals_def one_approval_def empty_db_def Let_def)
  have "0 < length (t_approvals two_approvals)" and "ap_id (t_approvals two_approvals ! 0) = 1"
    by (simp_all add: two_approvals_def one_approval_def)
  from approval_entity_refined [OF u this] have "is_resolved (approval_of_row (t_approvals d' ! 0))"
    and other: "\<forall>j < length (t_approvals two_approvals). ap_id (t_approvals two_approvals ! j) \<noteq> 1 \<longrightarrow>
      t_approvals d' ! j = t_approvals two_approvals ! j" by simp_all
  moreover have "t_approvals d' ! 1 = t_approvals two_approvals ! 1"
    using other [rule_format, of 1] by (simp add: two_approvals_def one_approval_def)
  ultimately show ?thesis using u by blast
qed

end
