(* ===== verification/Wire.thy ===== *)
theory Wire
  imports Dispatcher Entities
begin

text \<open>
  What leaves the program: the loop of \<open>infrastructure/network/dispatcher.py\<close> over its turns,
  with the eviction job that runs between them, and \<open>emit_port_table\<close> of
  \<open>presentation/websocket/handlers.py\<close>, which packs a table and sends it. \<open>msgpack\<close> and the
  Socket.IO server are parameters. The invariant of this theory is a typing of all the data on its
  way from the segment to the clients.
\<close>

section \<open>Emission\<close>

text \<open>An exception of either call is logged and dropped.\<close>

definition emit_port_table ::
  "(wire list \<Rightarrow> 'p result) \<Rightarrow> (string \<Rightarrow> 'p \<Rightarrow> 'c \<Rightarrow> unit result \<times> 'c) \<Rightarrow> wire list \<Rightarrow> 'c \<Rightarrow> 'c" where
  "emit_port_table packb send table c =
     (if table = [] then c
      else case packb table of
             Inl err \<Rightarrow> c
           | Inr packed \<Rightarrow> snd (send ''port_table'' packed c))"

section \<open>The loop\<close>

text \<open>
  The dispatcher's turns, each with the segment as the sniffer has left it, and the runs of the
  clean-up job on the same accumulator.
\<close>

datatype 's loop_event = Turn "'s turn" "byte list" "buf option" | Evict time

fun run_loop ::
  "'t meta_op \<Rightarrow> (wire list \<Rightarrow> 'p result) \<Rightarrow> (string \<Rightarrow> 'p \<Rightarrow> 'c \<Rightarrow> unit result \<times> 'c) \<Rightarrow> 's loop_event list
     \<Rightarrow> ('t, 's) dispatcher \<Rightarrow> 'c \<Rightarrow> ('t, 's) dispatcher \<times> 'c" where
  "run_loop gm packb send [] st c = (st, c)"
| "run_loop gm packb send (Turn t key shm # es) st c =
     (case dispatch_turn gm t key shm st of
        (None, st') \<Rightarrow> run_loop gm packb send es st' c
      | (Some table, st') \<Rightarrow> run_loop gm packb send es st' (emit_port_table packb send (map row_dict table) c))"
| "run_loop gm packb send (Evict now # es) st c =
     run_loop gm packb send es (st\<lparr>ds_acc := cleanup_accumulator now (ds_acc st)\<rparr>) c"

section \<open>Typing\<close>

definition entry_typed :: "string port_entry \<Rightarrow> bool" where
  "entry_typed x \<longleftrightarrow> entry_fits x \<and> ipv4_ok (e_ip x)"

definition rate_typed :: "rat \<Rightarrow> bool" where
  "rate_typed r \<longleftrightarrow> 0 \<le> r \<and> py_round2 r = r"

definition snapshot_typed :: "('a port_snapshot_scheme) \<Rightarrow> bool" where
  "snapshot_typed s \<longleftrightarrow> in_range 2 (s_port s) \<and> in_range 4 (s_pid s) \<and> in_range 1 (s_risk s)
     \<and> rate_typed (s_in s) \<and> rate_typed (s_out s) \<and> s_protocol s \<in> {''TCP'', ''UDP''} \<and> s_direction s = ''both''
     \<and> ipv4_ok (s_remote s)"

definition counters_typed :: "port_metrics \<Rightarrow> bool" where
  "counters_typed ms \<longleftrightarrow> (\<forall>p b. dget ms p = Some b \<longrightarrow> in_range 8 (b_in b) \<and> in_range 8 (b_out b))"

definition acc_typed :: "'t accumulator \<Rightarrow> bool" where
  "acc_typed a \<longleftrightarrow> acc_ok a \<and> counters_typed (ac_metrics a)
     \<and> (\<forall>p. \<forall>s \<in> set (port_entries p (ac_cache a)). snapshot_typed s)"

subsection \<open>What is read from a segment is typed\<close>

lemma octet_ok_show: "n < 256 \<Longrightarrow> octet_ok (show_nat n)"
proof -
  assume n: "n < 256"
  then have "n < 10 ^ Suc 2" by simp
  then have "length (show_nat n) \<le> Suc 2" by (rule length_show_nat)
  moreover have "\<not> (1 < length (show_nat n) \<and> hd (show_nat n) = CHR ''0'')"
    using hd_show_nat [of n] by (cases "n = 0") auto
  ultimately show ?thesis using n by (simp add: octet_ok_def str_isdigit_show_nat parse_show_nat)
qed

lemma ipv4_inet_ntoa: "ipv4_ok (inet_ntoa bs)"
proof -
  have nodot: "CHR ''.'' \<notin> set (show_nat n)" for n
    by (rule digit_not_dot [OF show_nat_digits])
  have small: "unat (x :: byte) < 256" for x
    using unsigned_less [of x] by simp
  have "split_on CHR ''.'' (inet_ntoa bs) =
      [show_nat (unat (bs ! 0)), show_nat (unat (bs ! 1)), show_nat (unat (bs ! 2)), show_nat (unat (bs ! 3))]"
    using nodot by (simp add: inet_ntoa_def split_on_append split_on_none)
  then show ?thesis by (simp add: ipv4_ok_def octet_ok_show small)
qed

lemma of_le_take: "in_range n (of_le (take n bs))"
proof -
  have "of_le (take n bs) < 256 ^ length (take n bs)" and "0 \<le> of_le (take n bs)"
    using of_le_bounds [of "take n bs"] by auto
  moreover have "(256 :: int) ^ length (take n bs) \<le> 256 ^ n" by (rule power_increasing) simp_all
  ultimately show ?thesis unfolding in_range_def by linarith
qed

lemma read_typed: "read_port_entry key m p = Some x \<Longrightarrow> entry_typed x"
  by (auto simp: read_port_entry_def unpack_entry_def entry_typed_def entry_fits_def of_le_take ipv4_inet_ntoa Let_def
      split: if_splits)

lemma read_all_typed: "x \<in> set (read_all_active_ports key m) \<Longrightarrow> entry_typed x"
  by (auto simp: read_all_active_ports_def scan_bit_def read_typed split: if_splits option.splits)

subsection \<open>Every operation keeps the typing\<close>

lemma safe_delta_nonneg: "in_range 8 i \<Longrightarrow> in_range 8 j \<Longrightarrow> 0 \<le> safe_delta i j"
  by (auto simp: safe_delta_def in_range_def)

lemma rate_is_typed: "0 \<le> d \<Longrightarrow> 0 < e \<Longrightarrow> rate_typed (rate d e)"
  unfolding rate_typed_def rate_def
  by (intro conjI py_round2_idem py_round2_nonneg double_nonneg divide_nonneg_nonneg) simp_all

lemma delta_typed:
  assumes "counters_typed ms" and "in_range 8 i" and "in_range 8 j"
  shows "rate_typed (fst (fst (calculate_delta p i j now ms))) \<and> rate_typed (snd (fst (calculate_delta p i j now ms)))
    \<and> counters_typed (snd (calculate_delta p i j now ms))"
proof (intro conjI)
  show "counters_typed (snd (calculate_delta p i j now ms))"
    using assms by (auto simp: counters_typed_def calculate_delta_state)
  have "rate_typed 0" by (simp add: rate_typed_def)
  then show "rate_typed (fst (fst (calculate_delta p i j now ms)))" "rate_typed (snd (fst (calculate_delta p i j now ms)))"
    using assms by (auto simp: calculate_delta_def counters_typed_def Let_def rate_is_typed safe_delta_nonneg split: option.splits)
qed

lemma process_typed:
  assumes "entry_typed x" and "counters_typed (ac_metrics a)"
    and "fst (process_port_data gm v (e_port x) (e_bytes_in x) (e_bytes_out x) (e_pid x) (e_protocol x) t risk remote a) = Inr s"
  shows "snapshot_typed (assign_remote (e_ip x) (e_risk x) s)"
proof -
  have "in_range 8 (e_bytes_in x)" "in_range 8 (e_bytes_out x)" using assms(1) by (auto simp: entry_typed_def entry_fits_def)
  note rates = delta_typed [OF assms(2) this, of "e_port x" t]
  from assms(3) obtain app m where
    "s = make_snapshot (e_port x) (fst (calculate_delta (e_port x) (e_bytes_in x) (e_bytes_out x) t (ac_metrics a)))
       (e_pid x) app (e_protocol x) t risk remote m"
    by (auto simp: process_port_data_def Let_def split: prod.splits sum.splits)
  then show ?thesis
    using assms(1) rates
    by (simp add: snapshot_typed_def assign_remote_def make_snapshot_def entry_typed_def entry_fits_def)
qed

lemma evict_typed: "acc_typed a \<Longrightarrow> acc_typed (cleanup_accumulator now a)"
proof -
  assume a: "acc_typed a"
  then have ok: "window_ok (ac_cache a)" by (simp add: acc_typed_def acc_ok_def)
  have "set (port_entries p (ac_cache (cleanup_accumulator now a))) \<subseteq> set (port_entries p (ac_cache a))" for p
    using ok by (auto simp: cleanup_accumulator_def entries_evict keep_fresh_def dest: set_dropWhileD)
  with a show ?thesis
    by (auto simp: acc_typed_def acc_ok_cleanup) (simp add: cleanup_accumulator_def)
qed

lemma dispatch_entry_typed:
  assumes x: "entry_typed x" and a: "acc_typed (ds_acc st)"
  shows "acc_typed (ds_acc (snd (dispatch_entry gm t i x st)))"
proof -
  obtain r a' where p: "process_port_data gm (tn_sample t i) (e_port x) (e_bytes_in x) (e_bytes_out x) (e_pid x)
      (e_protocol x) (tn_now t) 0 ''0.0.0.0'' (ds_acc st) = (r, a')" by (rule surjective_pairing [THEN that])
  have ct: "counters_typed (ac_metrics (ds_acc st))" and ok: "acc_ok (ds_acc st)" using a by (auto simp: acc_typed_def)
  have fits: "in_range 8 (e_bytes_in x)" "in_range 8 (e_bytes_out x)" using x by (auto simp: entry_typed_def entry_fits_def)
  have ms: "counters_typed (ac_metrics a')"
    using process_metrics [of gm "tn_sample t i" "e_port x" "e_bytes_in x" "e_bytes_out x" "e_pid x" "e_protocol x"
        "tn_now t" 0 "''0.0.0.0''" "ds_acc st"] delta_typed [OF ct fits] unfolding p by simp
  have ok': "acc_ok a'"
    using acc_ok_process [OF ok, of gm "tn_sample t i" "e_port x" "e_bytes_in x" "e_bytes_out x" "e_pid x" "e_protocol x"
        "tn_now t" 0 "''0.0.0.0''"] unfolding p by simp
  note cache = process_cache [of gm "tn_sample t i" "e_port x" "e_bytes_in x" "e_bytes_out x" "e_pid x" "e_protocol x"
      "tn_now t" 0 "''0.0.0.0''" "ds_acc st", unfolded p fst_conv snd_conv]
  show ?thesis
  proof (cases r)
    case (Inl err)
    with a ms ok' cache show ?thesis unfolding dispatch_entry_def p by (simp add: acc_typed_def)
  next
    case (Inr s)
    let ?s = "assign_remote (e_ip x) (e_risk x) s"
    let ?w = "ac_cache (ds_acc st)"
    have w: "ac_cache a' = add_snapshot s ?w" using cache Inr by simp
    have typed: "snapshot_typed ?s" using process_typed [OF x ct, of gm "tn_sample t i" "tn_now t" 0 "''0.0.0.0''" s] p Inr by simp
    have port: "s_port s = e_port x"
      using process_snapshot [of gm "tn_sample t i" "e_port x" "e_bytes_in x" "e_bytes_out x" "e_pid x" "e_protocol x"
        "tn_now t" 0 "''0.0.0.0''" "ds_acc st" s] p Inr by simp
    have wok: "window_ok ?w" "0 < w_max ?w" using ok by (auto simp: acc_ok_def window_ok_def)
    have ne: "port_entries (e_port x) (add_snapshot s ?w) \<noteq> []"
      and lst: "last (port_entries (e_port x) (add_snapshot s ?w)) = s"
      using wok port by (simp_all add: entries_add deque_append_nonempty last_deque_append)
    let ?w' = "assign_newest (e_port x) (e_ip x) (e_risk x) (ac_cache a')"
    have "window_ok ?w'" unfolding w by (rule assign_ok [OF window_ok_add [OF wok(1)] ne])
    moreover have "\<forall>u \<in> set (port_entries q ?w'). snapshot_typed u" for q
    proof (cases "q = e_port x")
      case True
      have "port_entries q ?w' = butlast (port_entries q (ac_cache a')) @ [?s]"
        using True lst by (simp add: entries_assign w)
      moreover have "set (butlast (port_entries q (ac_cache a'))) \<subseteq> set (port_entries q ?w)"
        using True port wok(2) by (auto simp: w entries_add deque_append_def butlast_drop butlast_append dest: in_set_dropD in_set_butlastD)
      ultimately show ?thesis using typed a by (auto simp: acc_typed_def)
    next
      case False
      with a port show ?thesis by (auto simp: entries_assign w entries_add acc_typed_def)
    qed
    ultimately have "acc_typed (a'\<lparr>ac_cache := ?w'\<rparr>)" using ms by (simp add: acc_typed_def acc_ok_def)
    moreover have "ds_acc (snd (dispatch_entry gm t i x st)) = a'\<lparr>ac_cache := ?w'\<rparr>"
      unfolding dispatch_entry_def p Inr by (simp add: Let_def split: prod.splits option.splits sum.splits)
    ultimately show ?thesis by (simp only:)
  qed
qed

lemma dispatch_entries_typed:
  "\<forall>x \<in> set xs. entry_typed x \<Longrightarrow> acc_typed (ds_acc st) \<Longrightarrow> acc_typed (ds_acc (snd (dispatch_entries gm t i xs st)))"
proof (induction xs arbitrary: i st)
  case (Cons x xs)
  have "acc_typed (ds_acc (snd (dispatch_entry gm t i x st)))" using Cons.prems by (intro dispatch_entry_typed) auto
  then show ?case using Cons by (auto split: prod.splits option.splits)
qed simp

lemma table_typed: "acc_typed a \<Longrightarrow> r \<in> set (get_port_table now a) \<Longrightarrow> snapshot_typed r"
proof -
  assume a: "acc_typed a" and "r \<in> set (get_port_table now a)"
  then obtain s where "port_entries (s_port s) (ac_cache a) \<noteq> []" "s = last (port_entries (s_port s) (ac_cache a))" "r = row_of s"
    by (auto simp: set_port_table acc_typed_def)
  moreover from this have "s \<in> set (port_entries (s_port s) (ac_cache a))" by (metis last_in_set)
  ultimately show ?thesis using a by (simp add: acc_typed_def snapshot_typed_def row_of_def port_snapshot.defs)
qed

lemma dispatch_turn_typed:
  assumes "acc_typed (ds_acc st)" and "dispatch_turn gm t key shm st = (out, st')"
  shows "acc_typed (ds_acc st') \<and> (\<forall>table. out = Some table \<longrightarrow> (\<forall>r \<in> set table. snapshot_typed r))"
proof (cases shm)
  case None
  with assms show ?thesis by (simp add: dispatch_turn_def)
next
  case (Some m)
  obtain r st1 where e: "dispatch_entries gm t 0 (read_all_active_ports key m) st = (r, st1)"
    by (rule surjective_pairing [THEN that])
  have "acc_typed (ds_acc st1)"
    using dispatch_entries_typed [of "read_all_active_ports key m" st gm t 0] assms(1) read_all_typed e by auto
  with assms(2) e Some show ?thesis
    by (auto simp: dispatch_turn_def table_typed split: option.splits if_splits)
qed

text \<open>The loop: only typed tables are ever emitted.\<close>

definition typed_table :: "port_row list \<Rightarrow> bool" where
  "typed_table table \<longleftrightarrow> sorted_wrt (\<lambda>r r'. s_port r < s_port r') table
     \<and> (\<forall>r \<in> set table. snapshot_typed r \<and> (\<exists>p. row_dict r = port_to_dict p))"

lemma turn_table: "acc_typed (ds_acc st) \<Longrightarrow> dispatch_turn gm t key shm st = (Some table, st') \<Longrightarrow> typed_table table"
proof -
  assume a: "acc_typed (ds_acc st)" and d: "dispatch_turn gm t key shm st = (Some table, st')"
  have "acc_ok (ds_acc st')" and "\<forall>r \<in> set table. snapshot_typed r"
    using dispatch_turn_typed [OF a d] by (simp_all add: acc_typed_def)
  moreover have table: "table = get_port_table (tn_now t) (ds_acc st')"
    using d by (auto simp: dispatch_turn_def Let_def split: option.splits prod.splits if_splits)
  moreover have "\<forall>r \<in> set table. \<exists>p. row_dict r = port_to_dict p"
    unfolding table get_port_table_def by (auto simp: wire_formats_agree)
  ultimately show ?thesis using table_sorted unfolding typed_table_def by blast
qed

lemma run_loop_typed:
  "acc_typed (ds_acc st) \<Longrightarrow> run_loop gm packb send es st c = (st', c') \<Longrightarrow>
    acc_typed (ds_acc st') \<and> (\<exists>tables. (\<forall>table \<in> set tables. typed_table table)
      \<and> c' = fold (\<lambda>table. emit_port_table packb send (map row_dict table)) tables c)"
proof (induction es arbitrary: st c)
  case Nil
  then show ?case by (auto intro: exI [of _ "[]"])
next
  case (Cons e es)
  show ?case
  proof (cases e)
    case (Evict now)
    have "acc_typed (ds_acc (st\<lparr>ds_acc := cleanup_accumulator now (ds_acc st)\<rparr>))"
      using Cons.prems(1) by (simp add: evict_typed)
    from Cons.IH [OF this] Evict Cons.prems(2) show ?thesis by simp
  next
    case (Turn t key shm)
    obtain out st1 where d: "dispatch_turn gm t key shm st = (out, st1)" by (rule surjective_pairing [THEN that])
    have st1: "acc_typed (ds_acc st1)" using dispatch_turn_typed [OF Cons.prems(1) d] by simp
    show ?thesis
    proof (cases out)
      case None
      with d Turn Cons.prems(2) Cons.IH [OF st1] show ?thesis by simp
    next
      case (Some table)
      with d Turn Cons.prems(2) have
        "run_loop gm packb send es st1 (emit_port_table packb send (map row_dict table) c) = (st', c')" by simp
      from Cons.IH [OF st1 this] obtain tables where t: "acc_typed (ds_acc st')" "\<forall>table \<in> set tables. typed_table table"
        "c' = fold (\<lambda>table. emit_port_table packb send (map row_dict table)) tables
          (emit_port_table packb send (map row_dict table) c)" by auto
      have "typed_table table" using turn_table [OF Cons.prems(1) d [unfolded Some]] .
      with t show ?thesis by (auto intro!: exI [of _ "table # tables"])
    qed
  qed
qed

lemma acc_typed_new: "acc_typed (new_accumulator svc)"
  using acc_ok_new [of svc]
  by (simp add: acc_typed_def counters_typed_def new_accumulator_def port_entries_def new_window_def)

lemma typed_address: "ipv4_ok ip \<Longrightarrow> IPAddress ip = Inr ip"
  by (simp add: IPAddress_def ip_address_ok_def)

text \<open>
  The two readings of the protocol field agree on what the sniffer writes, 0 and 1, and differ on
  any other byte.
\<close>

lemma protocol_readings: "(if i = 0 then ''TCP'' else ''UDP'') = protocol_value (from_int i) \<longleftrightarrow> i = 0 \<or> i = 1"
  by (auto simp: from_int_def)

lemma dispatch_none: "dispatch_turn gm t key None st = (None, st)"
  by (simp add: dispatch_turn_def)

section \<open>Properties\<close>

text \<open>
  C9: only well-typed tables leave the program. Let the loop run from start-up for any number of
  turns on segments with any contents, authentic or not, with the eviction job between them and
  any failure of a call: everything that was sent to the clients is the packed form of tables in
  strictly increasing port order whose rows have a 16-bit port, a 32-bit process id, a risk byte,
  non-negative rates with two decimals, a known protocol and an address \<open>IPAddress\<close> accepts, and
  each row is the dictionary of the \<open>Port\<close> entity with its values.
\<close>

theorem only_typed_tables_leave:
  assumes "run_loop gm packb send es st c = (st', c')" and "ds_acc st = new_accumulator svc"
  shows "\<exists>tables. (\<forall>table \<in> set tables. sorted_wrt (\<lambda>r r'. s_port r < s_port r') table
      \<and> (\<forall>r \<in> set table. in_range 2 (s_port r) \<and> in_range 4 (s_pid r) \<and> in_range 1 (s_risk r)
           \<and> rate_typed (s_in r) \<and> rate_typed (s_out r) \<and> s_protocol r \<in> {protocol_value TCP, protocol_value UDP}
           \<and> IPAddress (s_remote r) = Inr (s_remote r) \<and> (\<exists>p. row_dict r = port_to_dict p)))
    \<and> c' = fold (\<lambda>table. emit_port_table packb send (map row_dict table)) tables c"
proof -
  have "acc_typed (ds_acc st)" unfolding assms(2) by (rule acc_typed_new)
  from run_loop_typed [OF this assms(1)] obtain tables where t: "\<forall>table \<in> set tables. typed_table table"
    "c' = fold (\<lambda>table. emit_port_table packb send (map row_dict table)) tables c" by blast
  from t(1) have "\<forall>table \<in> set tables. sorted_wrt (\<lambda>r r'. s_port r < s_port r') table
      \<and> (\<forall>r \<in> set table. in_range 2 (s_port r) \<and> in_range 4 (s_pid r) \<and> in_range 1 (s_risk r)
           \<and> rate_typed (s_in r) \<and> rate_typed (s_out r) \<and> s_protocol r \<in> {protocol_value TCP, protocol_value UDP}
           \<and> IPAddress (s_remote r) = Inr (s_remote r) \<and> (\<exists>p. row_dict r = port_to_dict p))"
    by (auto simp: typed_table_def snapshot_typed_def typed_address)
  with t(2) show ?thesis by (intro exI conjI)
qed

theorem only_typed_tables_leave_witness:
  "\<exists>m st' sent tables. run_loop no_service Inr (\<lambda>ev p c. (Inr (), c @ [(ev, p)]))
       [Turn turn1 [7] None, Turn turn1 [7] (Some m), Evict 5] (fresh_dispatcher None) [] = (st', sent)
     \<and> sent \<noteq> [] \<and> sent = fold (\<lambda>table. emit_port_table Inr (\<lambda>ev p c. (Inr (), c @ [(ev, p)])) (map row_dict table)) tables []
     \<and> (\<forall>table \<in> set tables. \<forall>r \<in> set table. in_range 2 (s_port r))"
proof -
  obtain m table st1 where d: "dispatch_turn no_service turn1 [7] (Some m) (fresh_dispatcher None) = (Some table, st1)"
    and ne: "table \<noteq> []"
    using dispatch_drawn by blast
  obtain st' sent where run: "run_loop no_service Inr (\<lambda>ev p c. (Inr (), c @ [(ev, p)]))
      [Turn turn1 [7] None, Turn turn1 [7] (Some m), Evict 5] (fresh_dispatcher None) [] = (st', sent)"
    by (rule surjective_pairing [THEN that])
  from run have sent: "sent = [(''port_table'', map row_dict table)]"
    using ne by (simp add: d dispatch_none emit_port_table_def)
  have "ds_acc (fresh_dispatcher None) = new_accumulator None" by (simp add: fresh_dispatcher_def)
  note left = only_typed_tables_leave [OF run this]
  from left obtain tables where tables: "\<forall>table \<in> set tables. \<forall>r \<in> set table. in_range 2 (s_port r)"
    "sent = fold (\<lambda>table. emit_port_table Inr (\<lambda>ev p c. (Inr (), c @ [(ev, p)])) (map row_dict table)) tables []"
    by (elim exE conjE) (rule that, simp_all)
  moreover have "sent \<noteq> []" using sent by simp
  ultimately show ?thesis using run by (intro exI conjI)
qed

end
