(* ===== verification/Web.thy ===== *)
theory Web
  imports Py_Prelude
begin

text \<open>
  The HTTP shell: the three middlewares of \<open>presentation/middleware/security.py\<close> and the
  static-file fallback of \<open>app.py\<close>. A middleware turns the rest of the stack into a new
  application; an application maps a request and the server's state to a response or an exception
  and a new state. What a handler reads from the clock and from \<open>uuid4\<close> comes with the request.
  How Starlette stacks middlewares, what it answers to a leaking exception, the Socket.IO server,
  CORS and the file system are parameters.
\<close>

section \<open>Requests and responses\<close>

record 'r request =
  rq_client :: "string option"
  rq_now :: time
  rq_uuid :: string
  rq_id :: "string option"
  rq_call :: 'r

record 'b response =
  rs_status :: nat
  rs_headers :: "(string, string) dict"
  rs_body :: 'b

text \<open>The state of a server: the rate limiter's and the application's.\<close>

record 'w server =
  sv_clients :: "(string, time list) dict"
  sv_app :: 'w

type_synonym ('r, 'b, 'w) asgi = "'r request \<Rightarrow> 'w server \<Rightarrow> 'b response result \<times> 'w server"

text \<open>Header names do not depend on case; Starlette stores them in lower case.\<close>

definition set_header :: "string \<Rightarrow> string \<Rightarrow> 'b response \<Rightarrow> 'b response" where
  "set_header name v rs = rs\<lparr>rs_headers := dset (rs_headers rs) (str_lower name) v\<rparr>"

definition header :: "string \<Rightarrow> 'b response \<Rightarrow> string option" where
  "header name rs = dget (rs_headers rs) (str_lower name)"

section \<open>RequestIdMiddleware\<close>

definition request_id :: "('r, 'b, 'w) asgi \<Rightarrow> ('r, 'b, 'w) asgi" where
  "request_id call_next rq s =
     (case call_next (rq\<lparr>rq_id := Some (rq_uuid rq)\<rparr>) s of
        (Inl err, s') \<Rightarrow> (Inl err, s')
      | (Inr rs, s') \<Rightarrow> (Inr (set_header ''X-Request-ID'' (rq_uuid rq) rs), s'))"

section \<open>RateLimitMiddleware\<close>

record limiter =
  lm_max :: int
  lm_window :: int

definition client_ip :: "'r request \<Rightarrow> string" where
  "client_ip rq = (case rq_client rq of Some host \<Rightarrow> host | None \<Rightarrow> ''unknown'')"

text \<open>The requests of the client within the window, with the present one, and whether it may pass.\<close>

definition admit :: "limiter \<Rightarrow> time \<Rightarrow> string \<Rightarrow> (string, time list) dict \<Rightarrow> bool \<times> (string, time list) dict" where
  "admit lm now client d =
     (let old = (case dget d client of
                   Some ts \<Rightarrow> filter (\<lambda>t. now - of_int (lm_window lm) < t) ts
                 | None \<Rightarrow> []);
          requests = old @ [now]
      in (\<not> lm_max lm < int (length requests), dset d client requests))"

definition rate_limit :: "limiter \<Rightarrow> 'b \<Rightarrow> ('r, 'b, 'w) asgi \<Rightarrow> ('r, 'b, 'w) asgi" where
  "rate_limit lm exceeded call_next rq s =
     (case admit lm (rq_now rq) (client_ip rq) (sv_clients s) of
        (ok, d) \<Rightarrow>
          (if \<not> ok then (Inr \<lparr>rs_status = 429, rs_headers = [], rs_body = exceeded\<rparr>, s\<lparr>sv_clients := d\<rparr>)
           else call_next rq (s\<lparr>sv_clients := d\<rparr>)))"

section \<open>SecurityHeadersMiddleware\<close>

definition security_policy :: string where
  "security_policy = ''default-src '' @ [CHR 0x27] @ ''self'' @ [CHR 0x27] @ '' '' @ [CHR 0x27] @ ''unsafe-inline''
     @ [CHR 0x27] @ '' '' @ [CHR 0x27] @ ''unsafe-eval'' @ [CHR 0x27] @ '' data:;''"

definition security_headers :: "('r, 'b, 'w) asgi \<Rightarrow> ('r, 'b, 'w) asgi" where
  "security_headers call_next rq s =
     (case call_next rq s of
        (Inl err, s') \<Rightarrow> (Inl err, s')
      | (Inr rs, s') \<Rightarrow>
          (Inr (set_header ''Content-Security-Policy'' security_policy
                 (set_header ''X-XSS-Protection'' ''1; mode=block''
                   (set_header ''X-Frame-Options'' ''DENY''
                     (set_header ''X-Content-Type-Options'' ''nosniff'' rs)))), s'))"

section \<open>The stack\<close>

text \<open>The middlewares in the order they are added to the application.\<close>

definition register_middleware :: "'b \<Rightarrow> (('r, 'b, 'w) asgi \<Rightarrow> ('r, 'b, 'w) asgi) list" where
  "register_middleware exceeded =
     [security_headers, rate_limit \<lparr>lm_max = 300, lm_window = 60\<rparr> exceeded, request_id]"

text \<open>Starlette's documentation: the middleware added last is the outermost one.\<close>

definition last_added_outermost ::
  "((('r, 'b, 'w) asgi \<Rightarrow> ('r, 'b, 'w) asgi) list \<Rightarrow> ('r, 'b, 'w) asgi \<Rightarrow> ('r, 'b, 'w) asgi) \<Rightarrow> bool" where
  "last_added_outermost build \<longleftrightarrow> (\<forall>app. build [] app = app) \<and> (\<forall>ms m app. build (ms @ [m]) app = m (build ms app))"

text \<open>
  What the server answers. \<open>create_app\<close> adds CORS, a middleware of the framework, before its own,
  and wraps the application in \<open>socketio.ASGIApp\<close>, which keeps the requests \<open>sio\<close> for itself and
  answers them with \<open>sio_app\<close>; that server has its own state, not the limiter's. An exception that
  leaves every middleware is answered by the framework, whose handler for server errors is always
  the outermost layer: \<open>on_error\<close> is its answer with status 500. An \<open>HTTPException\<close> does not come
  that far, the framework's innermost layer has made an answer of it.
\<close>

definition create_app ::
  "('r request \<Rightarrow> bool) \<Rightarrow> ('r request \<Rightarrow> 'w \<Rightarrow> 'b response \<times> 'w) \<Rightarrow> (exc \<Rightarrow> 'b response)
     \<Rightarrow> ((('r, 'b, 'w) asgi \<Rightarrow> ('r, 'b, 'w) asgi) list \<Rightarrow> ('r, 'b, 'w) asgi \<Rightarrow> ('r, 'b, 'w) asgi)
     \<Rightarrow> (('r, 'b, 'w) asgi \<Rightarrow> ('r, 'b, 'w) asgi) \<Rightarrow> 'b \<Rightarrow> ('r, 'b, 'w) asgi
     \<Rightarrow> 'r request \<Rightarrow> 'w server \<Rightarrow> 'b response \<times> 'w server" where
  "create_app sio sio_app on_error build cors exceeded routes rq s =
     (if sio rq then (case sio_app rq (sv_app s) of (rs, w) \<Rightarrow> (rs, s\<lparr>sv_app := w\<rparr>))
      else (case build (cors # register_middleware exceeded) routes rq s of
              (Inr rs, s') \<Rightarrow> (rs, s')
            | (Inl err, s') \<Rightarrow> (on_error err, s')))"

section \<open>The static-file fallback\<close>

text \<open>\<open>os.path.join\<close> of two POSIX paths.\<close>

definition path_join :: "string \<Rightarrow> string \<Rightarrow> string" where
  "path_join a p =
     (if startswith p ''/'' then p
      else if a = [] \<or> last a = CHR ''/'' then a @ p else a @ ''/'' @ p)"

definition serve_spa_fallback :: "(string \<Rightarrow> string) \<Rightarrow> (string \<Rightarrow> bool) \<Rightarrow> string \<Rightarrow> string \<Rightarrow> string" where
  "serve_spa_fallback realpath isfile frontend_path full_path =
     (let resolved = realpath (path_join frontend_path full_path); safe_root = realpath frontend_path in
      if startswith resolved safe_root \<and> isfile resolved then resolved else path_join frontend_path ''index.html'')"

text \<open>
  Where the built front end lies. Paths are their components below the root directory, so
  \<open>parent\<close> is \<open>butlast\<close>; \<open>frozen\<close> is \<open>sys._MEIPASS\<close> of a frozen program, \<open>file\<close> the resolved
  path of \<open>app.py\<close>.
\<close>

definition find_frontend_dist :: "string list option \<Rightarrow> string list \<Rightarrow> (string list \<Rightarrow> bool) \<Rightarrow> string list option" where
  "find_frontend_dist frozen file is_dir =
     (let dev_dist = butlast (butlast file) @ [''frontend'', ''dist''];
          dev = (if is_dir dev_dist then Some dev_dist else None) in
      case frozen of
        None \<Rightarrow> dev
      | Some meipass \<Rightarrow> if is_dir (meipass @ [''frontend_dist'']) then Some (meipass @ [''frontend_dist'']) else dev)"

definition serve_spa_root :: "string \<Rightarrow> string" where
  "serve_spa_root frontend_path = path_join frontend_path ''index.html''"

lemma frontend_dist_is_dir: "find_frontend_dist frozen file is_dir = Some d \<Longrightarrow> is_dir d"
  by (auto simp: find_frontend_dist_def Let_def split: option.splits if_splits)

text \<open>The root route is the fallback's answer for everything that is not a file below the root.\<close>

lemma fallback_of_missing_file:
  "\<not> isfile (realpath (path_join d p)) \<Longrightarrow> serve_spa_fallback realpath isfile d p = serve_spa_root d"
  by (simp add: serve_spa_fallback_def serve_spa_root_def Let_def)

section \<open>The limiter over a run of requests\<close>

fun admits :: "limiter \<Rightarrow> (time \<times> string) list \<Rightarrow> (string, time list) dict \<Rightarrow> bool list \<times> (string, time list) dict" where
  "admits lm [] d = ([], d)"
| "admits lm ((now, client) # rs) d =
     (case admit lm now client d of (ok, d') \<Rightarrow>
        (case admits lm rs d' of (oks, d'') \<Rightarrow> (ok # oks, d'')))"

text \<open>
  The reference: the times of all earlier requests of the client, none ever forgotten, of which
  those in the window ending now are counted.
\<close>

definition client_times :: "string \<Rightarrow> (time \<times> string) list \<Rightarrow> time list" where
  "client_times client rs = map fst (filter (\<lambda>r. snd r = client) rs)"

definition in_window :: "limiter \<Rightarrow> time \<Rightarrow> time list \<Rightarrow> time list" where
  "in_window lm now ts = filter (\<lambda>t. now - of_int (lm_window lm) < t) ts"

fun reference_admits :: "limiter \<Rightarrow> (time \<times> string) list \<Rightarrow> (time \<times> string) list \<Rightarrow> bool list" where
  "reference_admits lm earlier [] = []"
| "reference_admits lm earlier ((now, client) # rs) =
     (int (length (in_window lm now (client_times client (earlier @ [(now, client)])))) \<le> lm_max lm)
       # reference_admits lm (earlier @ [(now, client)]) rs"

text \<open>The times of the requests of a client that passed.\<close>

definition admitted_times :: "string \<Rightarrow> (time \<times> string) list \<Rightarrow> bool list \<Rightarrow> time list" where
  "admitted_times client rs oks = map (fst \<circ> fst) (filter (\<lambda>x. snd (fst x) = client \<and> snd x) (zip rs oks))"

definition tracks :: "limiter \<Rightarrow> (time \<times> string) list \<Rightarrow> (string, time list) dict \<Rightarrow> bool" where
  "tracks lm earlier d \<longleftrightarrow> (\<forall>c. case dget d c of
       None \<Rightarrow> client_times c earlier = []
     | Some ts \<Rightarrow> client_times c earlier \<noteq> []
         \<and> ts = in_window lm (last (client_times c earlier)) (client_times c earlier))"

lemma client_times_snoc: "client_times c (rs @ [(now, c')]) = (if c = c' then client_times c rs @ [now] else client_times c rs)"
  by (simp add: client_times_def)

lemma in_window_again: "t \<le> now \<Longrightarrow> in_window lm now (in_window lm t ts) = in_window lm now ts"
  unfolding in_window_def filter_filter by (intro filter_cong refl) auto

lemma in_window_snoc: "0 < lm_window lm \<Longrightarrow> in_window lm now (ts @ [now]) = in_window lm now ts @ [now]"
  by (simp add: in_window_def)

lemma admit_step:
  assumes "tracks lm earlier d" and "0 < lm_window lm" and "\<forall>r \<in> set earlier. fst r \<le> now"
    and "admit lm now client d = (ok, d')"
  shows "tracks lm (earlier @ [(now, client)]) d'
    \<and> ok = (int (length (in_window lm now (client_times client (earlier @ [(now, client)])))) \<le> lm_max lm)"
proof -
  let ?T = "client_times client earlier"
  have le: "?T \<noteq> [] \<Longrightarrow> last ?T \<le> now"
    using assms(3) last_in_set [of ?T] by (auto simp: client_times_def)
  have old: "(case dget d client of Some ts \<Rightarrow> filter (\<lambda>t. now - of_int (lm_window lm) < t) ts | None \<Rightarrow> []) = in_window lm now ?T"
  proof (cases "dget d client")
    case None
    with assms(1) have "?T = []" by (auto simp: tracks_def dest: spec [of _ client])
    with None show ?thesis by (simp add: in_window_def)
  next
    case (Some ts)
    then have "?T \<noteq> []" and "ts = in_window lm (last ?T) ?T"
      using assms(1) by (auto simp: tracks_def dest: spec [of _ client] split: option.splits)
    with Some le in_window_again [of "last ?T" now lm ?T] show ?thesis by (simp add: in_window_def [of lm now])
  qed
  from assms(4) have d': "d' = dset d client (in_window lm now ?T @ [now])"
    and ok: "ok \<longleftrightarrow> int (length (in_window lm now ?T @ [now])) \<le> lm_max lm"
    by (auto simp: admit_def old Let_def)
  have "tracks lm (earlier @ [(now, client)]) d'"
    unfolding tracks_def
  proof
    fix c
    show "case dget d' c of None \<Rightarrow> client_times c (earlier @ [(now, client)]) = []
      | Some ts \<Rightarrow> client_times c (earlier @ [(now, client)]) \<noteq> []
          \<and> ts = in_window lm (last (client_times c (earlier @ [(now, client)]))) (client_times c (earlier @ [(now, client)]))"
    proof (cases "c = client")
      case True
      with assms(2) show ?thesis by (simp add: d' dict_simps client_times_snoc in_window_snoc)
    next
      case False
      then have same: "client_times c (earlier @ [(now, client)]) = client_times c earlier" "dget d' c = dget d c"
        by (simp_all add: client_times_snoc d' dict_simps)
      from assms(1) show ?thesis unfolding same tracks_def by (rule spec)
    qed
  qed
  with ok assms(2) show ?thesis by (simp add: client_times_snoc in_window_snoc)
qed

lemma admits_reference:
  "tracks lm earlier d \<Longrightarrow> 0 < lm_window lm \<Longrightarrow> sorted (map fst (earlier @ rs)) \<Longrightarrow>
    fst (admits lm rs d) = reference_admits lm earlier rs"
proof (induction rs arbitrary: earlier d)
  case (Cons r rs)
  obtain now client where r: "r = (now, client)" by (cases r)
  obtain ok d' where a: "admit lm now client d = (ok, d')" by (cases "admit lm now client d")
  have "\<forall>x \<in> set earlier. fst x \<le> now" using Cons.prems(3) r by (auto simp: sorted_append)
  note step = admit_step [OF Cons.prems(1,2) this a]
  have "sorted (map fst ((earlier @ [(now, client)]) @ rs))" using Cons.prems(3) r by simp
  from Cons.IH [OF conjunct1 [OF step] Cons.prems(2) this] step show ?case
    by (simp add: r a case_prod_beta)
qed simp

lemma reference_append: "reference_admits lm earlier (xs @ ys) =
    reference_admits lm earlier xs @ reference_admits lm (earlier @ xs) ys"
  by (induction lm earlier xs rule: reference_admits.induct) simp_all

lemma length_reference [simp]: "length (reference_admits lm earlier rs) = length rs"
  by (induction lm earlier rs rule: reference_admits.induct) simp_all

lemma admitted_snoc: "length oks = length rs \<Longrightarrow> admitted_times c (rs @ [(now, c')]) (oks @ [ok]) =
    admitted_times c rs oks @ (if c' = c \<and> ok then [now] else [])"
  by (simp add: admitted_times_def)

lemma admitted_le: "length oks = length rs \<Longrightarrow>
    length (filter P (admitted_times c rs oks)) \<le> length (filter P (client_times c rs))"
  by (induction oks rs rule: list_induct2) (auto simp: admitted_times_def client_times_def)

lemma set_admitted: "length oks = length rs \<Longrightarrow> set (admitted_times c rs oks) \<subseteq> set (map fst rs)"
  by (induction oks rs rule: list_induct2) (auto simp: admitted_times_def)

lemma length_filter_mono: "(\<And>x. P x \<Longrightarrow> Q x) \<Longrightarrow> length (filter P xs) \<le> length (filter Q xs)"
  by (induction xs) (auto intro: le_SucI)

text \<open>In any window that ends at a given time at most the maximum passes.\<close>

lemma reference_window:
  assumes "0 < lm_window lm" and "0 \<le> lm_max lm" and "sorted (map fst rs)"
  shows "int (length (filter (\<lambda>t. T - of_int (lm_window lm) < t \<and> t \<le> T)
    (admitted_times c rs (reference_admits lm [] rs)))) \<le> lm_max lm"
  using assms(3)
proof (induction rs rule: rev_induct)
  case Nil
  with assms(2) show ?case by (simp add: admitted_times_def)
next
  case (snoc r rs)
  obtain now c' where r: "r = (now, c')" by (cases r)
  let ?P = "\<lambda>t. T - of_int (lm_window lm) < t \<and> t \<le> T"
  let ?oks = "reference_admits lm [] rs"
  let ?ok = "int (length (in_window lm now (client_times c' (rs @ [(now, c')])))) \<le> lm_max lm"
  have ih: "int (length (filter ?P (admitted_times c rs ?oks))) \<le> lm_max lm"
    using snoc by (simp add: sorted_append)
  have split: "admitted_times c (rs @ [r]) (reference_admits lm [] (rs @ [r])) =
      admitted_times c rs ?oks @ (if c' = c \<and> ?ok then [now] else [])"
    using admitted_snoc [of ?oks rs c now c'] by (simp add: reference_append r)
  show ?case
  proof (cases "c' = c \<and> ?ok \<and> ?P now")
    case True
    have "length (filter ?P (admitted_times c rs ?oks)) \<le> length (filter ?P (client_times c rs))"
      by (rule admitted_le) simp
    also have "\<dots> \<le> length (in_window lm now (client_times c rs))"
      unfolding in_window_def using True by (intro length_filter_mono) auto
    finally show ?thesis using True assms(1) unfolding split by (auto simp: client_times_snoc in_window_snoc)
  qed (use ih in \<open>auto simp: split\<close>)
qed

text \<open>The table of clients only grows: no request ever removes one.\<close>

lemma limiter_never_forgets: "fst ` set (snd (admits lm rs d)) = fst ` set d \<union> snd ` set rs"
proof (induction rs arbitrary: d)
  case (Cons r rs)
  obtain now client where r: "r = (now, client)" by (cases r)
  obtain ok d' where a: "admit lm now client d = (ok, d')" by (cases "admit lm now client d")
  then obtain ts where "d' = dset d client ts" by (auto simp: admit_def Let_def)
  then have "fst ` set d' = insert client (fst ` set d)" by (simp only: keys_dset)
  with Cons.IH [of d'] show ?case by (simp add: r a case_prod_beta)
qed simp

section \<open>The stack\<close>

lemma header_names: "str_lower ''X-Request-ID'' = ''x-request-id''" "str_lower ''X-Frame-Options'' = ''x-frame-options''"
  "str_lower ''X-Content-Type-Options'' = ''x-content-type-options''" "str_lower ''X-XSS-Protection'' = ''x-xss-protection''"
  "str_lower ''Content-Security-Policy'' = ''content-security-policy''"
  by code_simp+

lemma header_set_header: "header n (set_header m v rs) = (if str_lower n = str_lower m then Some v else header n rs)"
  by (simp add: header_def set_header_def dict_simps)

lemma set_header_frame [simp]: "rs_status (set_header n v rs) = rs_status rs" "rs_body (set_header n v rs) = rs_body rs"
  by (simp_all add: set_header_def)

lemma stack_eq: "last_added_outermost build \<Longrightarrow> build (cors # register_middleware exceeded) routes =
    request_id (rate_limit \<lparr>lm_max = 300, lm_window = 60\<rparr> exceeded (security_headers (cors routes)))"
proof -
  assume b: "last_added_outermost build"
  have snoc: "build (ms @ [m]) app = m (build ms app)" for ms m app using b by (simp add: last_added_outermost_def)
  have "build [] app = app" for app using b by (simp add: last_added_outermost_def)
  with snoc [of "[]"] snoc [of "[cors]"] snoc [of "[cors, security_headers]"]
    snoc [of "[cors, security_headers, rate_limit \<lparr>lm_max = 300, lm_window = 60\<rparr> exceeded]"]
  show ?thesis by (simp add: register_middleware_def)
qed

text \<open>The headers of \<open>SecurityHeadersMiddleware\<close>, and a response that has all four at their values.\<close>

definition security_names :: "string list" where
  "security_names = [''x-content-type-options'', ''x-frame-options'', ''x-xss-protection'', ''content-security-policy'']"

definition secured :: "'b response \<Rightarrow> bool" where
  "secured rs \<longleftrightarrow> header ''X-Content-Type-Options'' rs = Some ''nosniff'' \<and> header ''X-Frame-Options'' rs = Some ''DENY''
     \<and> header ''X-XSS-Protection'' rs = Some ''1; mode=block'' \<and> header ''Content-Security-Policy'' rs = Some security_policy"

text \<open>Each middleware changes the headers only, and only its own.\<close>

definition with_security :: "'b response \<Rightarrow> 'b response" where
  "with_security rs = set_header ''Content-Security-Policy'' security_policy
                 (set_header ''X-XSS-Protection'' ''1; mode=block''
                   (set_header ''X-Frame-Options'' ''DENY''
                     (set_header ''X-Content-Type-Options'' ''nosniff'' rs)))"

lemma with_security_spec: "rs_status (with_security rs) = rs_status rs" "rs_body (with_security rs) = rs_body rs"
    "secured (with_security rs)" "str_lower n \<notin> set security_names \<Longrightarrow> header n (with_security rs) = header n rs"
  by (simp_all add: with_security_def secured_def security_names_def header_set_header header_names)

lemma security_response: "security_headers app rq s =
    (case app rq s of (Inl err, s') \<Rightarrow> (Inl err, s') | (Inr rs, s') \<Rightarrow> (Inr (with_security rs), s'))"
  by (simp add: security_headers_def with_security_def split: prod.splits sum.splits)

lemma secured_request_id: "secured (set_header ''X-Request-ID'' v rs) = secured rs"
  by (simp add: secured_def header_set_header header_names)

section \<open>Static files\<close>

lemma fallback_serves: "serve_spa_fallback realpath isfile dir p = f \<Longrightarrow>
    f = path_join dir ''index.html'' \<or> (isfile f \<and> f = realpath (path_join dir p) \<and> startswith f (realpath dir))"
  by (auto simp: serve_spa_fallback_def Let_def split: if_splits)

text \<open>
  The real path of an absolute path in a file system without symbolic links: empty and \<open>.\<close>
  components vanish, \<open>..\<close> removes the component before it.
\<close>

definition plain_realpath :: "string \<Rightarrow> string" where
  "plain_realpath path =
     concat (map ((#) CHR ''/'') (foldl (\<lambda>acc c. if c = [] \<or> c = ''.'' then acc else if c = ''..'' then butlast acc else acc @ [c])
       [] (split_on CHR ''/'' path)))"

text \<open>
  The check is on the text of the path, so a file of a sibling directory whose name extends the
  name of the served one passes it.
\<close>

lemma fallback_serves_sibling:
  "serve_spa_fallback plain_realpath (\<lambda>_. True) ''/app/dist'' ''../dist-old/.env'' = ''/app/dist-old/.env''"
  "serve_spa_fallback plain_realpath (\<lambda>_. True) ''/app/dist'' ''../backend/.env'' = ''/app/dist/index.html''"
  by (simp_all add: serve_spa_fallback_def plain_realpath_def path_join_def)

section \<open>Properties\<close>

text \<open>
  C24: the rate limiter forgets only what it may. For requests in the order of a clock that does not
  go back, a limiter that drops old entries and keeps one list per client answers every request
  exactly as a reference that counts the client's requests of the window among all that ever
  arrived, rejected ones included; so in every window of the configured length at most the maximum
  of any client's requests pass.
\<close>

theorem rate_limiter_exact:
  assumes "0 < lm_window lm" and "0 \<le> lm_max lm" and "sorted (map fst rs)" and "admits lm rs [] = (oks, d)"
  shows "oks = reference_admits lm [] rs
    \<and> int (length (filter (\<lambda>t. T - of_int (lm_window lm) < t \<and> t \<le> T) (admitted_times client rs oks))) \<le> lm_max lm"
proof -
  have "tracks lm [] []" by (simp add: tracks_def client_times_def)
  from admits_reference [OF this assms(1), of rs] assms(3,4) have "oks = reference_admits lm [] rs" by simp
  with reference_window [OF assms(1-3)] show ?thesis by simp
qed

theorem rate_limiter_exact_witness:
  "fst (admits \<lparr>lm_max = 2, lm_window = 60\<rparr> [(0, ''a''), (1, ''a''), (2, ''b''), (3, ''a''), (60, ''a'')] []) = [True, True, True, False, False]
   \<and> length (filter (\<lambda>t. 3 - 60 < t \<and> t \<le> 3)
       (admitted_times ''a'' [(0, ''a''), (1, ''a''), (2, ''b''), (3, ''a''), (60, ''a'')] [True, True, True, False, False])) \<le> 2"
proof -
  let ?lm = "\<lparr>lm_max = 2, lm_window = 60\<rparr>"
  let ?rs = "[(0, ''a''), (1, ''a''), (2, ''b''), (3, ''a''), (60, ''a'')] :: (time \<times> string) list"
  obtain oks d where a: "admits ?lm ?rs [] = (oks, d)" by (cases "admits ?lm ?rs []")
  from rate_limiter_exact [OF _ _ _ a, of 3 "''a''"] have r: "oks = reference_admits ?lm [] ?rs"
    "int (length (filter (\<lambda>t. 3 - 60 < t \<and> t \<le> 3) (admitted_times ''a'' ?rs oks))) \<le> 2" by auto
  then have "oks = [True, True, True, False, False]" by (simp add: client_times_def in_window_def)
  with r a show ?thesis by simp
qed

text \<open>
  C25: what each kind of request is answered. One that the Socket.IO server takes reaches neither
  the limiter nor the middlewares. Any other counts against the client's limit; above the limit it is
  answered with status 429 and the request's identifier, without running the application and without
  the security headers. Within the limit the inner application runs on the request with its
  identifier; its answer leaves with status and body unchanged, with the identifier, the four
  security headers and otherwise its own headers. An exception that leaks from the inner application
  is answered by the framework outside of the stack: that answer leaves as it is made, with neither
  the identifier nor the security headers, which the classes of both document for all responses. Relied
  on: the framework puts the middleware added last outermost.
\<close>

theorem responses_of_the_stack:
  assumes "last_added_outermost build" and "create_app sio sio_app on_error build cors exceeded routes rq s = (rs, s')"
    and "admit \<lparr>lm_max = 300, lm_window = 60\<rparr> (rq_now rq) (client_ip rq) (sv_clients s) = (ok, d)"
  shows "if sio rq then sio_app rq (sv_app s) = (rs, sv_app s') \<and> sv_clients s' = sv_clients s
    else if \<not> ok then rs_status rs = 429 \<and> rs_body rs = exceeded \<and> s' = s\<lparr>sv_clients := d\<rparr>
      \<and> header ''X-Request-ID'' rs = Some (rq_uuid rq) \<and> (\<forall>n. str_lower n \<in> set security_names \<longrightarrow> header n rs = None)
    else (case cors routes (rq\<lparr>rq_id := Some (rq_uuid rq)\<rparr>) (s\<lparr>sv_clients := d\<rparr>) of
        (Inr rs0, s1) \<Rightarrow> s' = s1 \<and> rs_status rs = rs_status rs0 \<and> rs_body rs = rs_body rs0
          \<and> header ''X-Request-ID'' rs = Some (rq_uuid rq) \<and> secured rs
          \<and> (\<forall>n. str_lower n \<notin> set (''x-request-id'' # security_names) \<longrightarrow> header n rs = header n rs0)
      | (Inl err, s1) \<Rightarrow> s' = s1 \<and> rs = on_error err)"
proof -
  have ip: "client_ip (rq\<lparr>rq_id := Some (rq_uuid rq)\<rparr>) = client_ip rq" by (simp add: client_ip_def)
  note made = assms(2) [unfolded create_app_def stack_eq [OF assms(1)] request_id_def rate_limit_def security_response]
  consider "sio rq" | "\<not> sio rq" "\<not> ok" | "\<not> sio rq" "ok" by blast
  then show ?thesis
  proof cases
    case 1
    with made show ?thesis by (auto split: prod.splits)
  next
    case 2
    with made assms(3) ip have "rs = set_header ''X-Request-ID'' (rq_uuid rq) \<lparr>rs_status = 429, rs_headers = [], rs_body = exceeded\<rparr>"
      and "s' = s\<lparr>sv_clients := d\<rparr>" by simp_all
    with 2 show ?thesis by (auto simp: header_set_header header_names security_names_def) (simp_all add: header_def)
  next
    case 3
    with made assms(3) ip show ?thesis
      by (auto simp: header_set_header header_names secured_request_id with_security_spec split: prod.splits sum.splits)
  qed
qed

definition echo_routes :: "(unit, string, nat) asgi" where
  "echo_routes rq s = (Inr \<lparr>rs_status = 200, rs_headers = [], rs_body = ''ok''\<rparr>, s\<lparr>sv_app := Suc (sv_app s)\<rparr>)"

definition failing_routes :: "(unit, string, nat) asgi" where
  "failing_routes rq s = (Inl ValueError, s)"

definition stacked :: "((unit, string, nat) asgi \<Rightarrow> (unit, string, nat) asgi) list \<Rightarrow> (unit, string, nat) asgi \<Rightarrow> (unit, string, nat) asgi" where
  "stacked ms app = fold (\<lambda>m a. m a) ms app"

lemma stacked_order: "last_added_outermost stacked"
  by (simp add: last_added_outermost_def stacked_def)

definition server_error :: "exc \<Rightarrow> string response" where
  "server_error err = \<lparr>rs_status = 500, rs_headers = [], rs_body = ''Internal Server Error''\<rparr>"

definition serve_one :: "(unit, string, nat) asgi \<Rightarrow> string response" where
  "serve_one routes = fst (create_app (\<lambda>_. False) (\<lambda>rq w. (\<lparr>rs_status = 200, rs_headers = [], rs_body = []\<rparr>, w))
     server_error stacked (\<lambda>app. app) ''slow down'' routes
     \<lparr>rq_client = Some ''10.0.0.9'', rq_now = 5, rq_uuid = ''u-1'', rq_id = None, rq_call = ()\<rparr> \<lparr>sv_clients = [], sv_app = 0\<rparr>)"

theorem responses_of_the_stack_witness:
  "secured (serve_one echo_routes) \<and> header ''X-Request-ID'' (serve_one echo_routes) = Some ''u-1'' \<and> rs_body (serve_one echo_routes) = ''ok''
   \<and> serve_one failing_routes = \<lparr>rs_status = 500, rs_headers = [], rs_body = ''Internal Server Error''\<rparr>"
proof -
  let ?rq = "\<lparr>rq_client = Some ''10.0.0.9'', rq_now = 5, rq_uuid = ''u-1'', rq_id = None, rq_call = ()\<rparr>"
  let ?s = "\<lparr>sv_clients = [], sv_app = 0 :: nat\<rparr>"
  obtain d where a: "admit \<lparr>lm_max = 300, lm_window = 60\<rparr> (rq_now ?rq) (client_ip ?rq) (sv_clients ?s) = (True, d)"
    by (simp add: admit_def Let_def)
  note stack = responses_of_the_stack [where sio = "\<lambda>_. False", OF stacked_order surjective_pairing a, simplified]
  show ?thesis
    using stack [where cors = "\<lambda>app. app" and routes = echo_routes] stack [where cors = "\<lambda>app. app" and routes = failing_routes]
    by (simp add: serve_one_def echo_routes_def failing_routes_def server_error_def)
qed

end
