(* ===== verification/Migrations.thy ===== *)
theory Migrations
  imports Database
begin

text \<open>
  The schema migrations of \<open>alembic/versions\<close>, as the lists of the operations they call, in
  order. Alembic itself is a parameter: a function that executes one operation on a database, of
  which a named hypothesis says that it follows the documentation on what can be seen of the schema
  (tables, column types and nullability, indexes). Server defaults and \<open>autoincrement\<close> are
  kept in the operations and have no effect on that view.
\<close>

section \<open>Operations\<close>

text \<open>Generic column types and, in capitals, those a legacy database declares.\<close>

datatype coltype = Ty_Integer | Ty_Float | Ty_String | Ty_Boolean | SQL_INTEGER | SQL_REAL | SQL_TEXT

text \<open>
  A column of a new table has a name, a type, its nullability and \<open>autoincrement\<close>. An alteration
  has the existing type, the new type, the new nullability, the existing nullability, the existing
  server default and \<open>autoincrement\<close>.
\<close>

datatype migration_op =
    Create_Table string "(string \<times> coltype \<times> bool \<times> bool) list" "string list"
  | Drop_Table string
  | Alter_Column string string coltype "coltype option" "bool option" "bool option" "string option" bool
  | Create_Index string string "string list" bool
  | Drop_Index string string

section \<open>The revisions\<close>

text \<open>Revision \<open>7c091112aac6\<close>.\<close>

definition initial_upgrade :: "migration_op list" where
  "initial_upgrade =
    [Create_Table ''analyst_approvals''
       [(''id'', Ty_Integer, False, True),
        (''created_at'', Ty_Float, False, False),
        (''action_type'', Ty_String, False, False),
        (''target_identifier'', Ty_String, False, False),
        (''reason'', Ty_String, False, False),
        (''status'', Ty_String, False, False),
        (''risk_score'', Ty_Integer, True, False),
        (''resolved_at'', Ty_Float, True, False),
        (''resolved_by'', Ty_String, True, False)]
       [''id''],
     Create_Index ''analyst_approvals'' ''ix_analyst_approvals_id'' [''id''] False,
     Alter_Column ''audit_logs'' ''id'' SQL_INTEGER None (Some False) None None True,
     Alter_Column ''audit_logs'' ''timestamp'' SQL_REAL (Some Ty_Float) None (Some False) None False,
     Alter_Column ''audit_logs'' ''event_type'' SQL_TEXT (Some Ty_String) None (Some False) None False,
     Alter_Column ''audit_logs'' ''app_name'' SQL_TEXT (Some Ty_String) None (Some True) None False,
     Alter_Column ''audit_logs'' ''severity'' SQL_TEXT (Some Ty_String) None (Some False) (Some ([CHR 0x27] @ ''info'' @ [CHR 0x27])) False,
     Alter_Column ''audit_logs'' ''message'' SQL_TEXT (Some Ty_String) None (Some False) None False,
     Alter_Column ''audit_logs'' ''details'' SQL_TEXT (Some Ty_String) None (Some True) None False,
     Drop_Index ''audit_logs'' ''idx_audit_timestamp'',
     Drop_Index ''audit_logs'' ''idx_audit_type'',
     Create_Index ''audit_logs'' ''ix_audit_logs_event_type'' [''event_type''] False,
     Create_Index ''audit_logs'' ''ix_audit_logs_id'' [''id''] False,
     Create_Index ''audit_logs'' ''ix_audit_logs_timestamp'' [''timestamp''] False,
     Alter_Column ''blocked_ports'' ''port'' SQL_INTEGER None (Some False) None None True,
     Alter_Column ''blocked_ports'' ''block_type'' SQL_TEXT (Some Ty_String) None (Some False) (Some ([CHR 0x27] @ ''hard'' @ [CHR 0x27])) False,
     Alter_Column ''blocked_ports'' ''blocked_at'' SQL_REAL (Some Ty_Float) None (Some False) None False,
     Alter_Column ''blocked_ports'' ''reason'' SQL_TEXT (Some Ty_String) None (Some True) (Some (''('' @ [CHR 0x27] @ [CHR 0x27] @ '')'')) False,
     Alter_Column ''config_cache'' ''key'' SQL_TEXT (Some Ty_String) (Some False) None None False,
     Alter_Column ''config_cache'' ''value'' SQL_TEXT (Some Ty_String) None (Some False) None False,
     Alter_Column ''config_cache'' ''updated_at'' SQL_REAL (Some Ty_Float) None (Some False) None False,
     Alter_Column ''process_map'' ''pid'' SQL_INTEGER None (Some False) None None True,
     Alter_Column ''process_map'' ''app_name'' SQL_TEXT (Some Ty_String) None (Some False) None False,
     Alter_Column ''process_map'' ''first_seen'' SQL_REAL (Some Ty_Float) None (Some False) None False,
     Alter_Column ''process_map'' ''last_seen'' SQL_REAL (Some Ty_Float) None (Some False) None False,
     Alter_Column ''traffic_history'' ''id'' SQL_INTEGER None (Some False) None None True,
     Alter_Column ''traffic_history'' ''timestamp'' SQL_REAL (Some Ty_Float) None (Some False) None False,
     Alter_Column ''traffic_history'' ''app_name'' SQL_TEXT (Some Ty_String) None (Some False) (Some ([CHR 0x27] @ ''Unknown'' @ [CHR 0x27])) False,
     Alter_Column ''traffic_history'' ''kb_s_in'' SQL_REAL (Some Ty_Float) None (Some False) (Some ''(0.0)'') False,
     Alter_Column ''traffic_history'' ''kb_s_out'' SQL_REAL (Some Ty_Float) None (Some False) (Some ''(0.0)'') False,
     Alter_Column ''traffic_history'' ''protocol'' SQL_TEXT (Some Ty_String) None (Some False) (Some ([CHR 0x27] @ ''TCP'' @ [CHR 0x27])) False,
     Alter_Column ''traffic_history'' ''direction'' SQL_TEXT (Some Ty_String) None (Some False) (Some ([CHR 0x27] @ ''both'' @ [CHR 0x27])) False,
     Drop_Index ''traffic_history'' ''idx_traffic_port'',
     Drop_Index ''traffic_history'' ''idx_traffic_timestamp'',
     Create_Index ''traffic_history'' ''ix_traffic_history_id'' [''id''] False,
     Create_Index ''traffic_history'' ''ix_traffic_history_port'' [''port''] False,
     Create_Index ''traffic_history'' ''ix_traffic_history_timestamp'' [''timestamp''] False]"

definition initial_downgrade :: "migration_op list" where
  "initial_downgrade =
    [Drop_Index ''traffic_history'' ''ix_traffic_history_timestamp'',
     Drop_Index ''traffic_history'' ''ix_traffic_history_port'',
     Drop_Index ''traffic_history'' ''ix_traffic_history_id'',
     Create_Index ''traffic_history'' ''idx_traffic_timestamp'' [''timestamp''] False,
     Create_Index ''traffic_history'' ''idx_traffic_port'' [''port''] False,
     Alter_Column ''traffic_history'' ''direction'' Ty_String (Some SQL_TEXT) None (Some False) (Some ([CHR 0x27] @ ''both'' @ [CHR 0x27])) False,
     Alter_Column ''traffic_history'' ''protocol'' Ty_String (Some SQL_TEXT) None (Some False) (Some ([CHR 0x27] @ ''TCP'' @ [CHR 0x27])) False,
     Alter_Column ''traffic_history'' ''kb_s_out'' Ty_Float (Some SQL_REAL) None (Some False) (Some ''(0.0)'') False,
     Alter_Column ''traffic_history'' ''kb_s_in'' Ty_Float (Some SQL_REAL) None (Some False) (Some ''(0.0)'') False,
     Alter_Column ''traffic_history'' ''app_name'' Ty_String (Some SQL_TEXT) None (Some False) (Some ([CHR 0x27] @ ''Unknown'' @ [CHR 0x27])) False,
     Alter_Column ''traffic_history'' ''timestamp'' Ty_Float (Some SQL_REAL) None (Some False) None False,
     Alter_Column ''traffic_history'' ''id'' SQL_INTEGER None (Some True) None None True,
     Alter_Column ''process_map'' ''last_seen'' Ty_Float (Some SQL_REAL) None (Some False) None False,
     Alter_Column ''process_map'' ''first_seen'' Ty_Float (Some SQL_REAL) None (Some False) None False,
     Alter_Column ''process_map'' ''app_name'' Ty_String (Some SQL_TEXT) None (Some False) None False,
     Alter_Column ''process_map'' ''pid'' SQL_INTEGER None (Some True) None None True,
     Alter_Column ''config_cache'' ''updated_at'' Ty_Float (Some SQL_REAL) None (Some False) None False,
     Alter_Column ''config_cache'' ''value'' Ty_String (Some SQL_TEXT) None (Some False) None False,
     Alter_Column ''config_cache'' ''key'' Ty_String (Some SQL_TEXT) (Some True) None None False,
     Alter_Column ''blocked_ports'' ''reason'' Ty_String (Some SQL_TEXT) None (Some True) (Some (''('' @ [CHR 0x27] @ [CHR 0x27] @ '')'')) False,
     Alter_Column ''blocked_ports'' ''blocked_at'' Ty_Float (Some SQL_REAL) None (Some False) None False,
     Alter_Column ''blocked_ports'' ''block_type'' Ty_String (Some SQL_TEXT) None (Some False) (Some ([CHR 0x27] @ ''hard'' @ [CHR 0x27])) False,
     Alter_Column ''blocked_ports'' ''port'' SQL_INTEGER None (Some True) None None True,
     Drop_Index ''audit_logs'' ''ix_audit_logs_timestamp'',
     Drop_Index ''audit_logs'' ''ix_audit_logs_id'',
     Drop_Index ''audit_logs'' ''ix_audit_logs_event_type'',
     Create_Index ''audit_logs'' ''idx_audit_type'' [''event_type''] False,
     Create_Index ''audit_logs'' ''idx_audit_timestamp'' [''timestamp''] False,
     Alter_Column ''audit_logs'' ''details'' Ty_String (Some SQL_TEXT) None (Some True) None False,
     Alter_Column ''audit_logs'' ''message'' Ty_String (Some SQL_TEXT) None (Some False) None False,
     Alter_Column ''audit_logs'' ''severity'' Ty_String (Some SQL_TEXT) None (Some False) (Some ([CHR 0x27] @ ''info'' @ [CHR 0x27])) False,
     Alter_Column ''audit_logs'' ''app_name'' Ty_String (Some SQL_TEXT) None (Some True) None False,
     Alter_Column ''audit_logs'' ''event_type'' Ty_String (Some SQL_TEXT) None (Some False) None False,
     Alter_Column ''audit_logs'' ''timestamp'' Ty_Float (Some SQL_REAL) None (Some False) None False,
     Alter_Column ''audit_logs'' ''id'' SQL_INTEGER None (Some True) None None True,
     Drop_Index ''analyst_approvals'' ''ix_analyst_approvals_id'',
     Drop_Table ''analyst_approvals'']"

text \<open>Revision \<open>99d78bff0f46\<close>, which follows it.\<close>

definition users_upgrade :: "migration_op list" where
  "users_upgrade =
    [Create_Table ''users''
       [(''id'', Ty_Integer, False, True),
        (''username'', Ty_String, False, False),
        (''email'', Ty_String, False, False),
        (''hashed_password'', Ty_String, False, False),
        (''role'', Ty_String, False, False),
        (''is_active'', Ty_Boolean, True, False),
        (''created_at'', Ty_Float, False, False)]
       [''id''],
     Create_Index ''users'' ''ix_users_email'' [''email''] True,
     Create_Index ''users'' ''ix_users_id'' [''id''] False,
     Create_Index ''users'' ''ix_users_username'' [''username''] True]"

definition users_downgrade :: "migration_op list" where
  "users_downgrade =
    [Drop_Index ''users'' ''ix_users_username'',
     Drop_Index ''users'' ''ix_users_id'',
     Drop_Index ''users'' ''ix_users_email'',
     Drop_Table ''users'']"

definition upgrade_head :: "migration_op list" where
  "upgrade_head = initial_upgrade @ users_upgrade"

definition downgrade_base :: "migration_op list" where
  "downgrade_base = users_downgrade @ initial_downgrade"

section \<open>Schemas and what the documentation says of an operation\<close>

record table =
  tb_cols :: "string \<Rightarrow> (coltype \<times> bool) option"
  tb_indexes :: "string \<Rightarrow> (string list \<times> bool) option"

type_synonym schema = "string \<Rightarrow> table option"

fun apply_op :: "migration_op \<Rightarrow> schema \<Rightarrow> schema option" where
  "apply_op (Create_Table t cols pk) s =
     (if s t \<noteq> None then None
      else Some (s(t \<mapsto> \<lparr>tb_cols = map_of (map (\<lambda>(c, ty, nul, auto). (c, (ty, nul))) cols), tb_indexes = Map.empty\<rparr>)))"
| "apply_op (Drop_Table t) s = (if s t = None then None else Some (s(t := None)))"
| "apply_op (Alter_Column t c existing ty nul existing_nul dflt auto) s =
     (case s t of
        None \<Rightarrow> None
      | Some tb \<Rightarrow> (case tb_cols tb c of
            None \<Rightarrow> None
          | Some (ty', nul') \<Rightarrow> Some (s(t \<mapsto> tb\<lparr>tb_cols := (tb_cols tb)(c \<mapsto> (opt ty' ty, opt nul' nul))\<rparr>))))"
| "apply_op (Create_Index t i cs unique) s =
     (case s t of
        None \<Rightarrow> None
      | Some tb \<Rightarrow> if tb_indexes tb i \<noteq> None \<or> list_ex (\<lambda>c. tb_cols tb c = None) cs then None
                  else Some (s(t \<mapsto> tb\<lparr>tb_indexes := (tb_indexes tb)(i \<mapsto> (cs, unique))\<rparr>)))"
| "apply_op (Drop_Index t i) s =
     (case s t of
        None \<Rightarrow> None
      | Some tb \<Rightarrow> if tb_indexes tb i = None then None
                  else Some (s(t \<mapsto> tb\<lparr>tb_indexes := (tb_indexes tb)(i := None)\<rparr>)))"

fun apply_ops :: "migration_op list \<Rightarrow> schema \<Rightarrow> schema option" where
  "apply_ops [] s = Some s"
| "apply_ops (x # xs) s = (case apply_op x s of None \<Rightarrow> None | Some s' \<Rightarrow> apply_ops xs s')"

text \<open>Running a migration: the first operation that raises ends it.\<close>

fun run_ops :: "(migration_op \<Rightarrow> 'x \<Rightarrow> 'x result) \<Rightarrow> migration_op list \<Rightarrow> 'x \<Rightarrow> 'x result" where
  "run_ops exec [] x = Inr x"
| "run_ops exec (m # ms) x = (case exec m x of Inl err \<Rightarrow> Inl err | Inr x' \<Rightarrow> run_ops exec ms x')"

definition documented :: "(migration_op \<Rightarrow> 'x \<Rightarrow> 'x result) \<Rightarrow> ('x \<Rightarrow> schema) \<Rightarrow> bool" where
  "documented exec view \<longleftrightarrow> (\<forall>m x. case apply_op m (view x) of
       None \<Rightarrow> (\<exists>err. exec m x = Inl err)
     | Some s \<Rightarrow> (\<exists>x'. exec m x = Inr x' \<and> view x' = s))"

lemma run_documented: "documented exec view \<Longrightarrow> (case apply_ops ms (view x) of
    None \<Rightarrow> (\<exists>err. run_ops exec ms x = Inl err)
  | Some s \<Rightarrow> (\<exists>x'. run_ops exec ms x = Inr x' \<and> view x' = s))"
proof (induction ms arbitrary: x)
  case (Cons m ms)
  from Cons.prems have m: "case apply_op m (view x) of None \<Rightarrow> (\<exists>err. exec m x = Inl err)
      | Some s \<Rightarrow> (\<exists>x'. exec m x = Inr x' \<and> view x' = s)" unfolding documented_def by blast
  show ?case
  proof (cases "apply_op m (view x)")
    case None
    with m show ?thesis by auto
  next
    case (Some s)
    with m obtain x' where "exec m x = Inr x'" "view x' = s" by auto
    with Cons.IH [OF Cons.prems, of x'] Some show ?thesis by (cases "apply_ops ms s") simp_all
  qed
qed simp

section \<open>Undoing\<close>

text \<open>\<open>inverts x y s\<close>: after \<open>x\<close> on the schema \<open>s\<close>, \<open>y\<close> leads back to it.\<close>

fun inverts :: "migration_op \<Rightarrow> migration_op \<Rightarrow> schema \<Rightarrow> bool" where
  "inverts (Create_Table t cols pk) (Drop_Table t') s \<longleftrightarrow> t' = t"
| "inverts (Create_Index t i cs u) (Drop_Index t' i') s \<longleftrightarrow> t' = t \<and> i' = i"
| "inverts (Drop_Index t i) (Create_Index t' i' cs u) s \<longleftrightarrow> t' = t \<and> i' = i
     \<and> (\<forall>tb. s t = Some tb \<longrightarrow> tb_indexes tb i = Some (cs, u) \<and> list_all (\<lambda>c. tb_cols tb c \<noteq> None) cs)"
| "inverts (Alter_Column t c e ty nul en d a) (Alter_Column t' c' e' ty' nul' en' d' a') s \<longleftrightarrow> t' = t \<and> c' = c
     \<and> (\<forall>tb ty0 nul0. s t = Some tb \<longrightarrow> tb_cols tb c = Some (ty0, nul0) \<longrightarrow>
          opt (opt ty0 ty) ty' = ty0 \<and> opt (opt nul0 nul) nul' = nul0)"
| "inverts _ _ s \<longleftrightarrow> False"

lemma drop_again: "tb_indexes tb i = None \<Longrightarrow> tb\<lparr>tb_indexes := (tb_indexes tb)(i := None)\<rparr> = tb"
  by (simp add: fun_upd_idem)

lemma undo_alter:
  assumes "s t = Some tb" and "tb_cols tb c = Some (ty0, nul0)"
    and "opt (opt ty0 ty) ty' = ty0" and "opt (opt nul0 nul) nul' = nul0"
  shows "apply_op (Alter_Column t c e ty' nul' en d a) (s(t \<mapsto> tb\<lparr>tb_cols := (tb_cols tb)(c \<mapsto> (opt ty0 ty, opt nul0 nul))\<rparr>)) = Some s"
  using assms by (simp add: fun_upd_idem)

lemma undo_drop_index:
  assumes "s t = Some tb" and "tb_indexes tb i = Some (cs, u)" and "list_all (\<lambda>c. tb_cols tb c \<noteq> None) cs"
  shows "apply_op (Create_Index t i cs u) (s(t \<mapsto> tb\<lparr>tb_indexes := (tb_indexes tb)(i := None)\<rparr>)) = Some s"
proof -
  have "\<not> list_ex (\<lambda>c. tb_cols tb c = None) cs" using assms(3) by (simp add: list_ex_iff list_all_iff)
  with assms(1,2) show ?thesis by (simp add: fun_upd_idem)
qed

lemma undo_create_index:
  assumes "s t = Some tb" and "tb_indexes tb i = None"
  shows "apply_op (Drop_Index t i) (s(t \<mapsto> tb\<lparr>tb_indexes := (tb_indexes tb)(i \<mapsto> x)\<rparr>)) = Some s"
  using assms by (simp add: drop_again fun_upd_idem)

lemma undo_create_table: "s t = None \<Longrightarrow> apply_op (Drop_Table t) (s(t \<mapsto> tb)) = Some s"
  by (simp add: fun_upd_idem)

lemma inverts_apply: "inverts x y s \<Longrightarrow> apply_op x s = Some s' \<Longrightarrow> apply_op y s' = Some s"
proof (induction x y s rule: inverts.induct)
  case (1 t cols pk t' s)
  then have "s t = None" and "\<exists>tb. s' = s(t \<mapsto> tb)" and "t' = t" by (auto split: if_splits)
  then show ?case using undo_create_table by blast
next
  case (2 t i cs u t' i' s)
  then obtain tb where "s t = Some tb" "tb_indexes tb i = None" "s' = s(t \<mapsto> tb\<lparr>tb_indexes := (tb_indexes tb)(i \<mapsto> (cs, u))\<rparr>)"
    by (simp del: not_None_eq split: option.splits if_splits)
  with 2(1) show ?case using undo_create_index by (simp only: inverts.simps)
next
  case (3 t i t' i' cs u s)
  from 3(2) obtain tb where tb: "s t = Some tb" "s' = s(t \<mapsto> tb\<lparr>tb_indexes := (tb_indexes tb)(i := None)\<rparr>)"
    by (simp split: option.splits if_splits)
  with 3(1) have "t' = t" "i' = i" "tb_indexes tb i = Some (cs, u)" "list_all (\<lambda>c. tb_cols tb c \<noteq> None) cs" by simp_all
  with tb show ?case using undo_drop_index by (simp only:)
next
  case (4 t c e ty nul en d a t' c' e' ty' nul' en' d' a' s)
  from 4(2) obtain tb ty0 nul0 where tb: "s t = Some tb" "tb_cols tb c = Some (ty0, nul0)"
    "s' = s(t \<mapsto> tb\<lparr>tb_cols := (tb_cols tb)(c \<mapsto> (opt ty0 ty, opt nul0 nul))\<rparr>)"
    by (simp split: option.splits prod.splits)
  with 4(1) have "t' = t" "c' = c" "opt (opt ty0 ty) ty' = ty0" "opt (opt nul0 nul) nul' = nul0" by simp_all
  with tb show ?case using undo_alter by (simp only:)
qed simp_all

text \<open>An operation leaves the condition of a later one alone.\<close>

fun undisturbed :: "migration_op \<Rightarrow> migration_op \<Rightarrow> bool" where
  "undisturbed _ (Create_Table t cols pk) = True"
| "undisturbed _ (Create_Index t i cs u) = True"
| "undisturbed (Alter_Column t c e ty nul en d a) (Alter_Column t' c' e' ty' nul' en' d' a') \<longleftrightarrow> t \<noteq> t' \<or> c \<noteq> c'"
| "undisturbed (Alter_Column t c e ty nul en d a) (Drop_Index t' i') = True"
| "undisturbed (Create_Index t i cs u) (Drop_Index t' i') \<longleftrightarrow> t \<noteq> t' \<or> i \<noteq> i'"
| "undisturbed (Drop_Index t i) (Drop_Index t' i') \<longleftrightarrow> t \<noteq> t' \<or> i \<noteq> i'"
| "undisturbed (Create_Index t i cs u) (Alter_Column t' c' e' ty' nul' en' d' a') = True"
| "undisturbed (Drop_Index t i) (Alter_Column t' c' e' ty' nul' en' d' a') = True"
| "undisturbed (Create_Table t cols pk) (Alter_Column t' c' e' ty' nul' en' d' a') \<longleftrightarrow> t \<noteq> t'"
| "undisturbed (Create_Table t cols pk) (Drop_Index t' i') \<longleftrightarrow> t \<noteq> t'"
| "undisturbed _ _ = False"

text \<open>What an operation other than \<open>Drop_Table\<close> leaves of a column and of an index.\<close>

definition col_of :: "schema \<Rightarrow> string \<Rightarrow> string \<Rightarrow> (coltype \<times> bool) option" where
  "col_of s t c = (case s t of None \<Rightarrow> None | Some tb \<Rightarrow> tb_cols tb c)"

definition index_of :: "schema \<Rightarrow> string \<Rightarrow> string \<Rightarrow> (string list \<times> bool) option" where
  "index_of s t i = (case s t of None \<Rightarrow> None | Some tb \<Rightarrow> tb_indexes tb i)"

lemma inverts_alter: "inverts (Alter_Column t c e ty nul en d a) (Alter_Column t' c' e' ty' nul' en' d' a') s \<longleftrightarrow>
    t' = t \<and> c' = c \<and> (\<forall>ty0 nul0. col_of s t c = Some (ty0, nul0) \<longrightarrow>
      opt (opt ty0 ty) ty' = ty0 \<and> opt (opt nul0 nul) nul' = nul0)"
  by (cases "s t") (auto simp: col_of_def)

lemma inverts_drop_index: "inverts (Drop_Index t i) (Create_Index t' i' cs u) s \<longleftrightarrow>
    t' = t \<and> i' = i \<and> (s t \<noteq> None \<longrightarrow> index_of s t i = Some (cs, u) \<and> list_all (\<lambda>c. col_of s t c \<noteq> None) cs)"
  by (cases "s t") (auto simp: col_of_def index_of_def)

lemma alter_frame:
  assumes "apply_op (Alter_Column t c e ty nul en d a) s = Some s'"
  shows "(s' t' = None \<longleftrightarrow> s t' = None) \<and> index_of s' t' i = index_of s t' i
    \<and> (col_of s' t' c' = None \<longleftrightarrow> col_of s t' c' = None) \<and> (t \<noteq> t' \<or> c \<noteq> c' \<longrightarrow> col_of s' t' c' = col_of s t' c')"
  using assms by (cases "t = t'"; cases "c = c'") (auto simp: col_of_def index_of_def split: option.splits prod.splits)

lemma create_index_frame:
  assumes "apply_op (Create_Index t i cs u) s = Some s'"
  shows "(s' t' = None \<longleftrightarrow> s t' = None) \<and> col_of s' t' c = col_of s t' c
    \<and> (t \<noteq> t' \<or> i \<noteq> i' \<longrightarrow> index_of s' t' i' = index_of s t' i')"
  using assms by (cases "t = t'") (auto simp: col_of_def index_of_def simp del: not_None_eq split: option.splits if_splits)

lemma drop_index_frame:
  assumes "apply_op (Drop_Index t i) s = Some s'"
  shows "(s' t' = None \<longleftrightarrow> s t' = None) \<and> col_of s' t' c = col_of s t' c
    \<and> (t \<noteq> t' \<or> i \<noteq> i' \<longrightarrow> index_of s' t' i' = index_of s t' i')"
  using assms by (cases "t = t'") (auto simp: col_of_def index_of_def simp del: not_None_eq split: option.splits if_splits)

lemma create_table_frame:
  assumes "apply_op (Create_Table t cols pk) s = Some s'" and "t \<noteq> t'"
  shows "s' t' = s t'" "col_of s' t' c = col_of s t' c" "index_of s' t' i = index_of s t' i"
  using assms by (auto simp: col_of_def index_of_def split: if_splits)

lemma column_undisturbed:
  assumes "undisturbed z (Alter_Column t c e ty nul en d a)" and run: "apply_op z s = Some s'"
  shows "col_of s' t c = col_of s t c"
proof (cases z)
  case (Create_Table t1 cols pk)
  with assms(1) have "t1 \<noteq> t" by simp
  from create_table_frame(2) [OF run [unfolded Create_Table] this] show ?thesis .
next
  case (Alter_Column t1 c1 e1 ty1 nul1 en1 d1 a1)
  with assms(1) have "t1 \<noteq> t \<or> c1 \<noteq> c" by simp
  with alter_frame [OF run [unfolded Alter_Column], of t _ c] show ?thesis by blast
next
  case (Create_Index t1 i1 cs1 u1)
  from create_index_frame [OF run [unfolded Create_Index], of t c] show ?thesis by blast
next
  case (Drop_Index t1 i1)
  from drop_index_frame [OF run [unfolded Drop_Index], of t c] show ?thesis by blast
qed (use assms(1) in simp)

lemma index_undisturbed:
  assumes "undisturbed z (Drop_Index t i)" and run: "apply_op z s = Some s'"
  shows "index_of s' t i = index_of s t i \<and> (s' t = None \<longleftrightarrow> s t = None) \<and> (col_of s' t c = None \<longleftrightarrow> col_of s t c = None)"
proof (cases z)
  case (Create_Table t1 cols pk)
  with assms(1) have "t1 \<noteq> t" by simp
  from create_table_frame [OF run [unfolded Create_Table] this] show ?thesis by simp
next
  case (Alter_Column t1 c1 e1 ty1 nul1 en1 d1 a1)
  from alter_frame [OF run [unfolded Alter_Column], of t i c] show ?thesis by blast
next
  case (Create_Index t1 i1 cs1 u1)
  with assms(1) have "t1 \<noteq> t \<or> i1 \<noteq> i" by simp
  with create_index_frame [OF run [unfolded Create_Index], of t c i] show ?thesis by auto
next
  case (Drop_Index t1 i1)
  with assms(1) have "t1 \<noteq> t \<or> i1 \<noteq> i" by simp
  with drop_index_frame [OF run [unfolded Drop_Index], of t c i] show ?thesis by auto
qed (use assms(1) in simp)

lemma inverts_frame:
  assumes "undisturbed z x" and run: "apply_op z s = Some s'" and "inverts x y s"
  shows "inverts x y s'"
proof (cases x)
  case (Create_Table t cols pk)
  with assms(3) show ?thesis by (cases y) simp_all
next
  case (Create_Index t i cs u)
  with assms(3) show ?thesis by (cases y) simp_all
next
  case (Alter_Column t c e ty nul en d a)
  with assms(3) obtain t' c' e' ty' nul' en' d' a' where y: "y = Alter_Column t' c' e' ty' nul' en' d' a'" by (cases y) simp_all
  from column_undisturbed [OF assms(1) [unfolded Alter_Column] run] assms(3)
  show ?thesis unfolding Alter_Column y inverts_alter by simp
next
  case (Drop_Index t i)
  with assms(3) obtain t' i' cs u where y: "y = Create_Index t' i' cs u" by (cases y) simp_all
  from index_undisturbed [OF assms(1) [unfolded Drop_Index] run] assms(3)
  show ?thesis unfolding Drop_Index y inverts_drop_index list_all_iff by (simp del: not_None_eq)
qed (use assms(3) in simp)

text \<open>A list of operations that do not disturb one another is undone by the reversed list of inverses.\<close>

lemma undo_all:
  "list_all2 (\<lambda>x y. inverts x y s) xs ys \<Longrightarrow> sorted_wrt undisturbed xs \<Longrightarrow> apply_ops xs s = Some s' \<Longrightarrow>
    apply_ops (rev ys) s' = Some s"
proof (induction xs ys arbitrary: s rule: list_induct2')
  case (4 x xs y ys)
  then obtain s1 where s1: "apply_op x s = Some s1" "apply_ops xs s1 = Some s'" by (auto split: option.splits)
  have "list_all2 (\<lambda>x y. inverts x y s1) xs ys"
    using 4(2,3) by (fastforce simp: list_all2_iff intro: inverts_frame [OF _ s1(1)] dest: set_zip_leftD)
  from 4(1) [OF this _ s1(2)] 4(3) have "apply_ops (rev ys) s' = Some s1" by simp
  moreover have "apply_op y s1 = Some s" using inverts_apply [OF _ s1(1)] 4(2) by simp
  moreover have "apply_ops (as @ bs) u = (case apply_ops as u of None \<Rightarrow> None | Some v \<Rightarrow> apply_ops bs v)" for as bs u
    by (induction as arbitrary: u) (auto split: option.splits)
  ultimately show ?case by simp
qed simp_all

text \<open>Success needs the tables that are changed and not created.\<close>

fun alters :: "migration_op \<Rightarrow> string option" where
  "alters (Alter_Column t c e ty nul en d a) = Some t"
| "alters _ = None"

fun creates :: "migration_op \<Rightarrow> string option" where
  "creates (Create_Table t cols pk) = Some t"
| "creates _ = None"

lemma stays_absent: "apply_op z s = Some s' \<Longrightarrow> creates z \<noteq> Some t \<Longrightarrow> s t = None \<Longrightarrow> s' t = None"
  by (cases z) (auto split: option.splits prod.splits if_splits)

lemma alters_present: "apply_op x s = Some s' \<Longrightarrow> alters x = Some t \<Longrightarrow> s t \<noteq> None"
  by (cases x) (auto split: option.splits)

lemma needs_table: "apply_ops xs s = Some s' \<Longrightarrow> x \<in> set xs \<Longrightarrow> alters x = Some t \<Longrightarrow>
    s t \<noteq> None \<or> (\<exists>y \<in> set xs. creates y = Some t)"
proof (induction xs arbitrary: s)
  case (Cons z xs)
  then obtain s1 where s1: "apply_op z s = Some s1" "apply_ops xs s1 = Some s'" by (auto split: option.splits)
  show ?case
  proof (cases "x = z")
    case True
    with alters_present [OF s1(1)] Cons.prems(3) show ?thesis by simp
  next
    case False
    with Cons.IH [OF s1(2)] Cons.prems(2,3) have "s1 t \<noteq> None \<or> (\<exists>y \<in> set xs. creates y = Some t)" by simp
    with stays_absent [OF s1(1), of t] show ?thesis by auto
  qed
qed simp

lemma creates_absent: "apply_ops xs s = Some s' \<Longrightarrow> x \<in> set xs \<Longrightarrow> creates x = Some t \<Longrightarrow>
    \<forall>y \<in> set xs. \<forall>u. y \<noteq> Drop_Table u \<Longrightarrow> s t = None"
proof (induction xs arbitrary: s)
  case (Cons z xs)
  then obtain s1 where s1: "apply_op z s = Some s1" "apply_ops xs s1 = Some s'" by (auto split: option.splits)
  show ?case
  proof (cases "x = z")
    case True
    with s1(1) Cons.prems(3) show ?thesis by (cases z) (auto split: if_splits)
  next
    case False
    with Cons.IH [OF s1(2)] Cons.prems have "s1 t = None" by simp
    with s1(1) Cons.prems(4) show ?thesis
      by (cases z) (auto split: option.splits prod.splits if_splits)
  qed
qed simp

section \<open>Legacy databases\<close>

text \<open>
  The schema of the earlier version: its tables with the type and the nullability of their columns
  (\<open>None\<close> where nothing depends on it), and its indexes, each on one column and not unique.
\<close>

definition legacy_columns :: "(string \<times> string \<times> coltype option \<times> bool option) list" where
  "legacy_columns =
    [(''audit_logs'', ''id'', None, Some True), (''audit_logs'', ''timestamp'', Some SQL_REAL, None),
     (''audit_logs'', ''event_type'', Some SQL_TEXT, None), (''audit_logs'', ''app_name'', Some SQL_TEXT, None),
     (''audit_logs'', ''severity'', Some SQL_TEXT, None), (''audit_logs'', ''message'', Some SQL_TEXT, None),
     (''audit_logs'', ''details'', Some SQL_TEXT, None),
     (''blocked_ports'', ''port'', None, Some True), (''blocked_ports'', ''block_type'', Some SQL_TEXT, None),
     (''blocked_ports'', ''blocked_at'', Some SQL_REAL, None), (''blocked_ports'', ''reason'', Some SQL_TEXT, None),
     (''config_cache'', ''key'', Some SQL_TEXT, Some True), (''config_cache'', ''value'', Some SQL_TEXT, None),
     (''config_cache'', ''updated_at'', Some SQL_REAL, None),
     (''process_map'', ''pid'', None, Some True), (''process_map'', ''app_name'', Some SQL_TEXT, None),
     (''process_map'', ''first_seen'', Some SQL_REAL, None), (''process_map'', ''last_seen'', Some SQL_REAL, None),
     (''traffic_history'', ''id'', None, Some True), (''traffic_history'', ''timestamp'', Some SQL_REAL, None),
     (''traffic_history'', ''port'', None, None), (''traffic_history'', ''app_name'', Some SQL_TEXT, None),
     (''traffic_history'', ''kb_s_in'', Some SQL_REAL, None), (''traffic_history'', ''kb_s_out'', Some SQL_REAL, None),
     (''traffic_history'', ''protocol'', Some SQL_TEXT, None), (''traffic_history'', ''direction'', Some SQL_TEXT, None)]"

definition legacy_indexes :: "(string \<times> string \<times> string) list" where
  "legacy_indexes =
    [(''audit_logs'', ''idx_audit_timestamp'', ''timestamp''), (''audit_logs'', ''idx_audit_type'', ''event_type''),
     (''traffic_history'', ''idx_traffic_port'', ''port''), (''traffic_history'', ''idx_traffic_timestamp'', ''timestamp'')]"

definition has_column :: "schema \<Rightarrow> string \<times> string \<times> coltype option \<times> bool option \<Rightarrow> bool" where
  "has_column s x = (case x of (t, c, ty, nul) \<Rightarrow>
     (case col_of s t c of None \<Rightarrow> False | Some (ty0, nul0) \<Rightarrow> opt ty0 ty = ty0 \<and> opt nul0 nul = nul0))"

definition legacy :: "schema \<Rightarrow> bool" where
  "legacy s \<longleftrightarrow> list_all (has_column s) legacy_columns
     \<and> list_all (\<lambda>(t, i, c). index_of s t i = Some ([c], False)) legacy_indexes"

text \<open>On such a schema every operation of the upgrade is undone by its counterpart in the downgrade.\<close>

lemma legacy_inverts: "legacy s \<Longrightarrow> list_all2 (\<lambda>x y. inverts x y s) upgrade_head (rev downgrade_base)"
  unfolding legacy_def legacy_columns_def legacy_indexes_def
  by (auto simp del: not_None_eq inverts.simps(3,4) simp: inverts_alter inverts_drop_index has_column_def opt_def
      upgrade_head_def initial_upgrade_def users_upgrade_def downgrade_base_def initial_downgrade_def users_downgrade_def
      split: option.splits)

lemma head_undisturbed: "sorted_wrt undisturbed upgrade_head"
  by code_simp

text \<open>A legacy database with the columns the revisions mention.\<close>

definition legacy_table :: "(string \<times> coltype \<times> bool) list \<Rightarrow> (string \<times> string) list \<Rightarrow> table" where
  "legacy_table cols idx = \<lparr>tb_cols = map_of cols, tb_indexes = map_of (map (\<lambda>(i, c). (i, ([c], False))) idx)\<rparr>"

definition legacy_schema :: schema where
  "legacy_schema = map_of
     [(''audit_logs'', legacy_table [(''id'', SQL_INTEGER, True), (''timestamp'', SQL_REAL, False), (''event_type'', SQL_TEXT, False),
         (''app_name'', SQL_TEXT, True), (''severity'', SQL_TEXT, False), (''message'', SQL_TEXT, False), (''details'', SQL_TEXT, True)]
         [(''idx_audit_timestamp'', ''timestamp''), (''idx_audit_type'', ''event_type'')]),
      (''blocked_ports'', legacy_table [(''port'', SQL_INTEGER, True), (''block_type'', SQL_TEXT, False),
         (''blocked_at'', SQL_REAL, False), (''reason'', SQL_TEXT, True)] []),
      (''config_cache'', legacy_table [(''key'', SQL_TEXT, True), (''value'', SQL_TEXT, False), (''updated_at'', SQL_REAL, False)] []),
      (''process_map'', legacy_table [(''pid'', SQL_INTEGER, True), (''app_name'', SQL_TEXT, False), (''first_seen'', SQL_REAL, False),
         (''last_seen'', SQL_REAL, False)] []),
      (''traffic_history'', legacy_table [(''id'', SQL_INTEGER, True), (''timestamp'', SQL_REAL, False), (''port'', SQL_INTEGER, False),
         (''app_name'', SQL_TEXT, False), (''kb_s_in'', SQL_REAL, False), (''kb_s_out'', SQL_REAL, False),
         (''protocol'', SQL_TEXT, False), (''direction'', SQL_TEXT, False)]
         [(''idx_traffic_port'', ''port''), (''idx_traffic_timestamp'', ''timestamp'')])]"

lemma legacy_example: "legacy legacy_schema"
  by (simp add: legacy_def legacy_columns_def legacy_indexes_def has_column_def col_of_def index_of_def
      legacy_schema_def legacy_table_def opt_def)

lemma legacy_upgrades: "case apply_ops upgrade_head legacy_schema of None \<Rightarrow> False | Some _ \<Rightarrow> True"
  by code_simp

section \<open>Properties\<close>

text \<open>
  C26: a downgrade undoes the upgrade. On a database that has the columns and indexes of the
  earlier version (the two lists above), if upgrading to the newest revision succeeds, then
  downgrading to the base succeeds and leaves exactly the schema there was before: every table
  with its column types and nullability and its indexes. Server defaults are not part of it.
\<close>

theorem downgrade_undoes_upgrade:
  assumes "documented exec view" and "legacy (view x)" and "run_ops exec upgrade_head x = Inr x1"
  shows "\<exists>x2. run_ops exec downgrade_base x1 = Inr x2 \<and> view x2 = view x"
proof -
  from run_documented [OF assms(1), of upgrade_head x] assms(3) have up: "apply_ops upgrade_head (view x) = Some (view x1)"
    by (auto split: option.splits)
  from undo_all [OF legacy_inverts [OF assms(2)] head_undisturbed up]
  have "apply_ops downgrade_base (view x1) = Some (view x)" by simp
  with run_documented [OF assms(1), of downgrade_base x1] show ?thesis by simp
qed

definition plain_exec :: "migration_op \<Rightarrow> schema \<Rightarrow> schema result" where
  "plain_exec m s = (case apply_op m s of None \<Rightarrow> Inl (OtherError []) | Some s' \<Rightarrow> Inr s')"

lemma plain_exec_documented: "documented plain_exec (\<lambda>s. s)"
  by (auto simp: documented_def plain_exec_def split: option.splits)

theorem downgrade_undoes_upgrade_witness:
  "\<exists>s1. run_ops plain_exec upgrade_head legacy_schema = Inr s1 \<and> run_ops plain_exec downgrade_base s1 = Inr legacy_schema"
proof -
  obtain s where "apply_ops upgrade_head legacy_schema = Some s"
    using legacy_upgrades by (cases "apply_ops upgrade_head legacy_schema") auto
  with run_documented [OF plain_exec_documented, of upgrade_head legacy_schema]
  have u: "run_ops plain_exec upgrade_head legacy_schema = Inr s" by auto
  from downgrade_undoes_upgrade [OF plain_exec_documented legacy_example u] u show ?thesis by auto
qed

text \<open>
  C27: the migrations cannot set up a database. An upgrade to the newest revision succeeds only on
  a database that already has the five legacy tables and does not have the approvals and the users
  table; so it raises on an empty database, and it raises on one whose tables the application has
  created, which has the approvals.
\<close>

theorem upgrade_needs_legacy_database:
  assumes "documented exec view" and "run_ops exec upgrade_head x = Inr x1"
  shows "view x ''audit_logs'' \<noteq> None \<and> view x ''blocked_ports'' \<noteq> None \<and> view x ''config_cache'' \<noteq> None
    \<and> view x ''process_map'' \<noteq> None \<and> view x ''traffic_history'' \<noteq> None
    \<and> view x ''analyst_approvals'' = None \<and> view x ''users'' = None"
proof -
  from run_documented [OF assms(1), of upgrade_head x] assms(2) have up: "apply_ops upgrade_head (view x) = Some (view x1)"
    by (auto split: option.splits)
  have created: "\<forall>y \<in> set upgrade_head. creates y = None \<or> creates y = Some ''analyst_approvals'' \<or> creates y = Some ''users''"
    by (simp add: upgrade_head_def initial_upgrade_def users_upgrade_def)
  have changed: "set [''audit_logs'', ''blocked_ports'', ''config_cache'', ''process_map'', ''traffic_history''] \<subseteq>
      {t. \<exists>y \<in> set upgrade_head. alters y = Some t}"
    by (simp add: upgrade_head_def initial_upgrade_def users_upgrade_def)
  have need: "view x t \<noteq> None" if t: "t \<in> set [''audit_logs'', ''blocked_ports'', ''config_cache'', ''process_map'', ''traffic_history'']" for t
  proof -
    obtain y where y: "y \<in> set upgrade_head" "alters y = Some t" using t changed by blast
    have "t \<noteq> ''analyst_approvals''" "t \<noteq> ''users''" using t by auto
    with needs_table [OF up y] created show ?thesis by fastforce
  qed
  have new: "view x t = None" if t: "y \<in> set upgrade_head" "creates y = Some t" for y t
  proof -
    have "\<forall>y \<in> set upgrade_head. \<forall>u. y \<noteq> Drop_Table u"
      by (simp add: upgrade_head_def initial_upgrade_def users_upgrade_def)
    from creates_absent [OF up t this] show ?thesis .
  qed
  have "\<exists>y \<in> set upgrade_head. creates y = Some ''analyst_approvals''" "\<exists>y \<in> set upgrade_head. creates y = Some ''users''"
    by (simp_all add: upgrade_head_def initial_upgrade_def users_upgrade_def)
  with new have "view x ''analyst_approvals'' = None" "view x ''users'' = None" by blast+
  with need show ?thesis by simp
qed

theorem upgrade_needs_legacy_database_witness:
  "\<exists>s1. run_ops plain_exec upgrade_head legacy_schema = Inr s1 \<and> legacy_schema ''traffic_history'' \<noteq> None
     \<and> legacy_schema ''users'' = None"
proof -
  obtain s where "apply_ops upgrade_head legacy_schema = Some s"
    using legacy_upgrades by (cases "apply_ops upgrade_head legacy_schema") auto
  with run_documented [OF plain_exec_documented, of upgrade_head legacy_schema]
  have u: "run_ops plain_exec upgrade_head legacy_schema = Inr s" by auto
  from upgrade_needs_legacy_database [OF plain_exec_documented u] u show ?thesis by blast
qed

text \<open>Neither revision creates the tables of the two newest model classes.\<close>

lemma head_lacks_models: "y \<in> set upgrade_head \<Longrightarrow> creates y \<noteq> Some ''dashboard_layouts'' \<and> creates y \<noteq> Some ''user_preferences''"
  by (auto simp: upgrade_head_def initial_upgrade_def users_upgrade_def)

end
