(* ===== verification/Migration_Env.thy ===== *)
theory Migration_Env
  imports Migrations Connection
begin

text \<open>
  The environment in which Alembic runs the revisions (\<open>alembic/env.py\<close>): the choice of the
  database address, its way through the configuration parser of the standard library, and the two
  modes. Alembic's context and the engine are represented by what they are configured with.
\<close>

section \<open>The configuration parser\<close>

text \<open>
  \<open>ConfigParser.set\<close> refuses a value with a percent sign that is left when the escaped ones
  (\<open>%%\<close>) and then the references (\<open>%(name)s\<close>) are taken out.
\<close>

definition PCT :: char where "PCT = CHR ''%''"

fun drop_escapes :: "string \<Rightarrow> string" where
  "drop_escapes (c # d # cs) = (if c = PCT \<and> d = PCT then drop_escapes cs else c # drop_escapes (d # cs))"
| "drop_escapes cs = cs"

definition reference_at :: "string \<Rightarrow> (string \<times> string) option" where
  "reference_at s =
     (if startswith s ''%('' then
        let name = takeWhile (\<lambda>c. c \<noteq> CHR '')'') (drop 2 s); rest = dropWhile (\<lambda>c. c \<noteq> CHR '')'') (drop 2 s) in
        if name \<noteq> [] \<and> startswith rest '')s'' then Some (name, drop 2 rest) else None
      else None)"

lemma reference_shorter: "reference_at s = Some (name, rest) \<Longrightarrow> length rest < length s"
proof -
  assume m: "reference_at s = Some (name, rest)"
  then have "startswith s ''%(''" and "length rest \<le> length (dropWhile (\<lambda>c. c \<noteq> CHR '')'') (drop 2 s))"
    by (auto simp: reference_at_def Let_def split: if_splits)
  moreover from this(1) have "2 \<le> length s" using prefix_length_le by fastforce
  moreover have "length (dropWhile (\<lambda>c. c \<noteq> CHR '')'') (drop 2 s)) \<le> length (drop 2 s)" by (rule length_dropWhile_le)
  ultimately show ?thesis by simp
qed

function drop_references :: "string \<Rightarrow> string" where
  "drop_references [] = []"
| "drop_references (c # cs) =
     (case reference_at (c # cs) of Some (name, rest) \<Rightarrow> drop_references rest | None \<Rightarrow> c # drop_references cs)"
  by pat_completeness auto
termination
  by (relation "measure length") (auto dest: reference_shorter)

definition parser_set :: "string option \<Rightarrow> string result" where
  "parser_set value =
     (case value of
        None \<Rightarrow> Inl TypeError
      | Some v \<Rightarrow> if PCT \<in> set (drop_references (drop_escapes v)) then Inl ValueError else Inr v)"

text \<open>Reading a value back replaces the escapes and looks up the references.\<close>

function parser_get :: "(string \<Rightarrow> string result) \<Rightarrow> string \<Rightarrow> string result" where
  "parser_get look [] = Inr []"
| "parser_get look (c # cs) =
     (if c \<noteq> PCT then map_sum id (Cons c) (parser_get look cs)
      else case cs of
        [] \<Rightarrow> Inl (OtherError ''InterpolationSyntaxError'')
      | d # ds \<Rightarrow>
          if d = PCT then map_sum id (Cons PCT) (parser_get look ds)
          else (case reference_at (c # cs) of
              None \<Rightarrow> Inl (OtherError ''InterpolationSyntaxError'')
            | Some (name, rest) \<Rightarrow>
                (case look name of Inl err \<Rightarrow> Inl err | Inr v \<Rightarrow> map_sum id ((@) v) (parser_get look rest))))"
  by pat_completeness auto
termination
  by (relation "measure (length \<circ> snd)") (auto dest: reference_shorter)

section \<open>The environment\<close>

definition migration_url :: "environ \<Rightarrow> string option \<Rightarrow> string option" where
  "migration_url env ini = (case env ''DATABASE_URL'' of None \<Rightarrow> ini | Some u \<Rightarrow> if u = [] then ini else Some u)"

record migration_context =
  mc_url :: string
  mc_offline :: bool
  mc_literal_binds :: bool
  mc_batch :: bool

definition run_migrations_offline :: "environ \<Rightarrow> string option \<Rightarrow> migration_context result" where
  "run_migrations_offline env ini =
     map_sum id (\<lambda>url. \<lparr>mc_url = url, mc_offline = True, mc_literal_binds = True, mc_batch = False\<rparr>)
       (parser_set (migration_url env ini))"

definition run_migrations_online :: "(string \<Rightarrow> string result) \<Rightarrow> environ \<Rightarrow> string option \<Rightarrow> migration_context result" where
  "run_migrations_online look env ini =
     (case parser_set (migration_url env ini) of
        Inl err \<Rightarrow> Inl err
      | Inr stored \<Rightarrow>
          map_sum id (\<lambda>url. \<lparr>mc_url = url, mc_offline = False, mc_literal_binds = False, mc_batch = True\<rparr>) (parser_get look stored))"

text \<open>What the last lines of the file do, with the mode Alembic was called in.\<close>

definition env_main :: "bool \<Rightarrow> (string \<Rightarrow> string result) \<Rightarrow> environ \<Rightarrow> string option \<Rightarrow> migration_context result" where
  "env_main offline look env ini = (if offline then run_migrations_offline env ini else run_migrations_online look env ini)"

section \<open>Revisions\<close>

record revision =
  rv_id :: string
  rv_down :: "string option"
  rv_upgrade :: "migration_op list"
  rv_downgrade :: "migration_op list"

definition initial_revision :: revision where
  "initial_revision = \<lparr>rv_id = ''7c091112aac6'', rv_down = None, rv_upgrade = initial_upgrade, rv_downgrade = initial_downgrade\<rparr>"

definition users_revision :: revision where
  "users_revision = \<lparr>rv_id = ''99d78bff0f46'', rv_down = Some ''7c091112aac6'', rv_upgrade = users_upgrade, rv_downgrade = users_downgrade\<rparr>"

text \<open>
  Alembic's documented walk: from the stored version along the revisions that name it as their
  predecessor, each upgrade followed by the update of the stored version; a failing operation ends
  the walk.
\<close>

definition next_revision :: "string option \<Rightarrow> revision list \<Rightarrow> revision option" where
  "next_revision version rs = find (\<lambda>r. rv_down r = version) rs"

fun upgrade_steps :: "(migration_op \<Rightarrow> 'x \<Rightarrow> 'x result) \<Rightarrow> revision list \<Rightarrow> nat \<Rightarrow> string option \<Rightarrow> 'x \<Rightarrow> (string option \<times> 'x) result" where
  "upgrade_steps exec rs 0 version x = Inr (version, x)"
| "upgrade_steps exec rs (Suc n) version x =
     (case next_revision version rs of
        None \<Rightarrow> Inr (version, x)
      | Some r \<Rightarrow>
          (case run_ops exec (rv_upgrade r) x of
             Inl err \<Rightarrow> Inl err
           | Inr x' \<Rightarrow> upgrade_steps exec rs n (Some (rv_id r)) x'))"

text \<open>As many steps as there are revisions.\<close>

definition upgrade_to_head :: "(migration_op \<Rightarrow> 'x \<Rightarrow> 'x result) \<Rightarrow> string option \<Rightarrow> 'x \<Rightarrow> (string option \<times> 'x) result" where
  "upgrade_to_head exec version x = (let rs = [users_revision, initial_revision] in upgrade_steps exec rs (length rs) version x)"

lemma run_ops_append: "run_ops exec (xs @ ys) x = (case run_ops exec xs x of Inl err \<Rightarrow> Inl err | Inr x' \<Rightarrow> run_ops exec ys x')"
  by (induction xs arbitrary: x) (auto split: sum.splits)

text \<open>From a database without a version both revisions run in order; at the newest one nothing happens.\<close>

lemma upgrade_from_base: "upgrade_to_head exec None x = map_sum id (Pair (Some ''99d78bff0f46'')) (run_ops exec upgrade_head x)"
  by (simp add: upgrade_to_head_def next_revision_def users_revision_def initial_revision_def upgrade_head_def run_ops_append
      numeral_2_eq_2 split: sum.split)

lemma upgrade_at_head: "upgrade_to_head exec (Some ''99d78bff0f46'') x = Inr (Some ''99d78bff0f46'', x)"
  by (simp add: upgrade_to_head_def next_revision_def users_revision_def initial_revision_def numeral_2_eq_2)

lemma upgrade_again:
  assumes "upgrade_to_head exec None x = Inr (version, x1)"
  shows "upgrade_to_head exec version x1 = Inr (version, x1)"
  using assms by (cases "run_ops exec upgrade_head x") (auto simp: upgrade_from_base upgrade_at_head)

section \<open>Percent signs in an address\<close>

definition escape_percent :: "string \<Rightarrow> string" where
  "escape_percent u = concat (map (\<lambda>c. if c = PCT then [PCT, PCT] else [c]) u)"

lemma drop_escapes_Cons [simp]: "c \<noteq> PCT \<Longrightarrow> drop_escapes (c # s) = c # drop_escapes s"
  by (cases s) simp_all

lemma drop_escapes_escaped: "drop_escapes (escape_percent u) = filter (\<lambda>c. c \<noteq> PCT) u"
  by (induction u) (simp_all add: escape_percent_def)

lemma drop_escapes_raw: "\<not> contains u ''%%'' \<Longrightarrow> drop_escapes u = u"
proof (induction u rule: drop_escapes.induct)
  case (1 c d cs)
  have "\<not> (c = PCT \<and> d = PCT)"
  proof
    assume "c = PCT \<and> d = PCT"
    then have "c # d # cs = [] @ ''%%'' @ cs" by (simp add: PCT_def)
    then show False using "1.prems" unfolding sublist_def by blast
  qed
  moreover from "1.prems" have "\<not> contains (d # cs) ''%%''" by (auto simp: sublist_Cons_right)
  ultimately show ?case using "1.IH" by auto
qed simp_all

lemma reference_at_start: "\<not> startswith s ''%('' \<Longrightarrow> reference_at s = None"
  by (simp add: reference_at_def)

lemma drop_references_raw: "\<not> contains u ''%('' \<Longrightarrow> drop_references u = u"
proof (induction u)
  case (Cons c u)
  then have "\<not> startswith (c # u) ''%(''" "\<not> contains u ''%(''" by (auto simp: sublist_Cons_right)
  with Cons.IH reference_at_start show ?case by simp
qed simp

lemma no_percent_no_reference: "PCT \<notin> set u \<Longrightarrow> \<not> contains u ''%(''"
  by (auto simp: sublist_def PCT_def)

text \<open>
  A database address with a percent sign, as a password with an encoded character has it, stops
  the migrations in both modes: \<open>set_main_option\<close> takes it for an interpolation.
\<close>

theorem percent_stops_migrations:
  assumes "env ''DATABASE_URL'' = Some url" and "CHR ''%'' \<in> set url" and "\<not> contains url ''%%''" and "\<not> contains url ''%(''"
  shows "env_main offline look env ini = Inl ValueError"
proof -
  have "url \<noteq> []" using assms(2) by auto
  then have "migration_url env ini = Some url" using assms(1) by (simp add: migration_url_def)
  moreover have "parser_set (Some url) = Inl ValueError"
    using assms(2-4) by (simp add: parser_set_def drop_escapes_raw drop_references_raw PCT_def)
  ultimately show ?thesis by (simp add: env_main_def run_migrations_offline_def run_migrations_online_def)
qed

theorem percent_stops_migrations_witness:
  "env_main False (\<lambda>_. Inl ValueError) ([''DATABASE_URL'' \<mapsto> ''postgresql://u:p%40ss@db/v'']) None = Inl ValueError"
proof (rule percent_stops_migrations)
  show "\<not> contains ''postgresql://u:p%40ss@db/v'' ''%%''" "\<not> contains ''postgresql://u:p%40ss@db/v'' ''%(''"
    by (simp_all add: sublist_Cons_right)
qed simp_all

text \<open>
  Doubling the percent signs helps the online mode only: its engine gets the address, while the
  offline mode is configured with the doubled text.
\<close>

lemma parser_escaped: "parser_set (Some (escape_percent u)) = Inr (escape_percent u)" "parser_get look (escape_percent u) = Inr u"
proof -
  have "PCT \<notin> set (filter (\<lambda>c. c \<noteq> PCT) u)" by simp
  then show "parser_set (Some (escape_percent u)) = Inr (escape_percent u)"
    by (simp add: parser_set_def drop_escapes_escaped drop_references_raw [OF no_percent_no_reference])
  show "parser_get look (escape_percent u) = Inr u" by (induction u) (simp_all add: escape_percent_def)
qed

theorem modes_read_the_address_differently:
  assumes "env ''DATABASE_URL'' = Some (escape_percent url)" and "url \<noteq> []"
  shows "map_sum id mc_url (env_main False look env ini) = Inr url"
    and "map_sum id mc_url (env_main True look env ini) = Inr (escape_percent url)"
proof -
  have "escape_percent url \<noteq> []" using assms(2) by (cases url) (simp_all add: escape_percent_def)
  then have "migration_url env ini = Some (escape_percent url)" using assms(1) by (simp add: migration_url_def)
  then show "map_sum id mc_url (env_main False look env ini) = Inr url"
    and "map_sum id mc_url (env_main True look env ini) = Inr (escape_percent url)"
    by (simp_all add: env_main_def run_migrations_offline_def run_migrations_online_def parser_escaped)
qed

text \<open>
  Without \<open>DATABASE_URL\<close> the migrations go to the file named in \<open>alembic.ini\<close>, which is not the file
  the application opens.
\<close>

lemma default_databases_differ:
  assumes "env ''DATABASE_URL'' = None" and "load_settings py_float token env = Inr s"
  shows "migration_url env (Some ''sqlite:///backend/data/sentinel.db'') = Some ''sqlite:///backend/data/sentinel.db''
    \<and> sd_url (new_sqlite_db env path (Some (st_db_url s))) = ''sqlite:///vigilant_data.db''"
proof -
  have "st_db_url s = getenv env ''DATABASE_URL'' ''sqlite:///vigilant_data.db''"
    using assms(2) unfolding load_settings_def by (auto split: option.splits)
  also have "\<dots> = ''sqlite:///vigilant_data.db''" by (simp add: getenv_def assms(1))
  finally have "st_db_url s = ''sqlite:///vigilant_data.db''" .
  then show ?thesis by (simp add: migration_url_def assms(1) new_sqlite_db_def str_or_def Let_def)
qed

end
