(* ===== verification/Queries.thy ===== *)
theory Queries
  imports Threat_Intel Metrics Policy Database
begin

text \<open>
  The read side: the threat queries (\<open>application/queries/threats.py\<close>) and the dashboard
  queries (\<open>application/queries/dashboard.py\<close>), with the routes of
  \<open>presentation/api/ports.py\<close> and \<open>system.py\<close> that return them. The threat service of the
  container is the object the accumulator holds, so its state is the accumulator's \<open>ac_threat\<close>.
  The readings of psutil, of the clock and of the platform are arguments.
\<close>

section \<open>Threat rows\<close>

record threat_row =
  tt_ip :: string
  tt_city :: string
  tt_country :: string
  tt_lat :: rat
  tt_lon :: rat
  tt_risk :: int
  tt_org :: string
  tt_port :: int

definition sim_threat :: "string \<Rightarrow> string \<Rightarrow> string \<Rightarrow> rat \<Rightarrow> rat \<Rightarrow> int \<Rightarrow> string \<Rightarrow> int \<Rightarrow> threat_row" where
  "sim_threat ip city country lat lon risk org port =
     \<lparr>tt_ip = ip, tt_city = city, tt_country = country, tt_lat = lat, tt_lon = lon, tt_risk = risk,
      tt_org = org, tt_port = port\<rparr>"

definition SIMULATED_THREATS :: "threat_row list" where
  "SIMULATED_THREATS =
     [sim_threat ''185.220.101.5'' ''Berlin'' ''DE'' (5252/100) (13405/1000) 8 ''Tor Exit Node IP'' 443,
      sim_threat ''45.147.230.12'' ''Moscow'' ''RU'' (557558/10000) (376173/10000) 9 ''Mirai Botnet Scanner'' 23,
      sim_threat ''210.22.115.44'' ''Shanghai'' ''CN'' (312304/10000) (1214737/10000) 7 ''SSH Brute-Forcer'' 22,
      sim_threat ''103.20.122.9'' ''Seoul'' ''KR'' (375665/10000) (126978/1000) 6 ''Web Vulnerability Scanner'' 8080,
      sim_threat ''198.51.100.72'' ''New York'' ''US'' (407128/10000) (-74006/1000) 5 ''Unusual outbound sync'' 443,
      sim_threat ''101.36.120.10'' ''Tokyo'' ''JP'' (356762/10000) (1396503/10000) 8 ''Malicious Command Center'' 9001]"

definition simulated :: "int \<Rightarrow> threat_row list" where
  "simulated min_risk = filter (\<lambda>t. min_risk \<le> tt_risk t) SIMULATED_THREATS"

text \<open>
  The fields taken from the metadata, with the defaults of the \<open>get\<close> calls. The
  organisation is an argument, because the timeline takes the one stored with the snapshot.
\<close>

definition meta_row :: "string \<Rightarrow> int \<Rightarrow> int \<Rightarrow> string \<Rightarrow> meta \<Rightarrow> threat_row" where
  "meta_row ip port risk org m =
     \<lparr>tt_ip = ip, tt_city = or_else ''Unknown'' (m_city m), tt_country = m_country m,
      tt_lat = fst (or_else (0, 0) (m_geo m)), tt_lon = snd (or_else (0, 0) (m_geo m)),
      tt_risk = max risk (m_risk m), tt_org = org, tt_port = port\<rparr>"

section \<open>Active threats\<close>

text \<open>
  \<open>ts i\<close> are the two clock readings of the \<open>i\<close>-th metadata lookup. An address is added to
  the seen ones only when a row is emitted for it.
\<close>

fun geo_rows ::
  "'t meta_op \<Rightarrow> (nat \<Rightarrow> time \<times> time) \<Rightarrow> int \<Rightarrow> nat \<Rightarrow> string list \<Rightarrow> port_row list \<Rightarrow> 't option
     \<Rightarrow> threat_row list \<times> 't option" where
  "geo_rows gm ts min_risk i seen [] svc = ([], svc)"
| "geo_rows gm ts min_risk i seen (p # ps) svc =
     (if s_remote p \<noteq> ''0.0.0.0'' \<and> s_remote p \<notin> set seen then
        (case enrich gm (fst (ts i)) (snd (ts i)) (s_remote p) svc of (m, svc') \<Rightarrow>
           (if min_risk \<le> max (s_risk p) (m_risk m) then
              (case geo_rows gm ts min_risk (Suc i) (s_remote p # seen) ps svc' of (rows, svc'') \<Rightarrow>
                 (meta_row (s_remote p) (s_port p) (s_risk p) (m_org m) m # rows, svc''))
            else geo_rows gm ts min_risk (Suc i) seen ps svc'))
      else geo_rows gm ts min_risk i seen ps svc)"

definition handle_geo ::
  "'t meta_op \<Rightarrow> time \<Rightarrow> (nat \<Rightarrow> time \<times> time) \<Rightarrow> int \<Rightarrow> 't accumulator option
     \<Rightarrow> threat_row list \<times> 't accumulator option" where
  "handle_geo gm now ts min_risk acc =
     (case acc of
        None \<Rightarrow> (simulated min_risk, None)
      | Some a \<Rightarrow>
          (case geo_rows gm ts min_risk 0 [] (get_port_table now a) (ac_threat a) of (threats, svc) \<Rightarrow>
             (if threats = [] then simulated min_risk else threats, Some (a\<lparr>ac_threat := svc\<rparr>))))"

section \<open>Countries\<close>

definition count_country :: "threat_row \<Rightarrow> (string, nat) dict \<Rightarrow> (string, nat) dict" where
  "count_country t d = dset d (tt_country t) (Suc (or_else 0 (dget d (tt_country t))))"

definition handle_countries ::
  "'t meta_op \<Rightarrow> time \<Rightarrow> (nat \<Rightarrow> time \<times> time) \<Rightarrow> 't accumulator option
     \<Rightarrow> (string, nat) dict \<times> 't accumulator option" where
  "handle_countries gm now ts acc =
     (case handle_geo gm now ts 0 acc of (threats, acc') \<Rightarrow> (fold count_country threats [], acc'))"

section \<open>Timeline\<close>

record timeline_row = threat_row +
  te_in :: rat
  te_out :: rat

definition py_trunc :: "rat \<Rightarrow> int" where
  "py_trunc x = (if 0 \<le> x then \<lfloor>x\<rfloor> else \<lceil>x\<rceil>)"

definition bucket_id :: "time \<Rightarrow> int" where
  "bucket_id t = py_trunc (t / 300) * 300"

definition timeline_row_of :: "port_snapshot \<Rightarrow> meta \<Rightarrow> timeline_row" where
  "timeline_row_of s m =
     threat_row.extend (meta_row (s_remote s) (s_port s) (s_risk s) (s_org s) m) \<lparr>te_in = s_in s, te_out = s_out s\<rparr>"

text \<open>The snapshots of every port in the order of the cache; a bucket keeps its rows in that order.\<close>

fun timeline_buckets ::
  "'t meta_op \<Rightarrow> (nat \<Rightarrow> time \<times> time) \<Rightarrow> time \<Rightarrow> nat \<Rightarrow> port_snapshot list \<Rightarrow> (int, timeline_row list) dict
     \<Rightarrow> 't option \<Rightarrow> (int, timeline_row list) dict \<times> 't option" where
  "timeline_buckets gm ts cutoff i [] d svc = (d, svc)"
| "timeline_buckets gm ts cutoff i (s # ss) d svc =
     (if cutoff \<le> s_time s \<and> s_remote s \<noteq> ''0.0.0.0'' then
        (case enrich gm (fst (ts i)) (snd (ts i)) (s_remote s) svc of (m, svc') \<Rightarrow>
           timeline_buckets gm ts cutoff (Suc i) ss
             (dset d (bucket_id (s_time s)) (or_else [] (dget d (bucket_id (s_time s))) @ [timeline_row_of s m])) svc')
      else timeline_buckets gm ts cutoff i ss d svc)"

definition simulated_timeline :: "time \<Rightarrow> (time \<times> timeline_row list) list" where
  "simulated_timeline now =
     map (\<lambda>i. (now - of_nat (i * 300),
               map (\<lambda>t. threat_row.extend t \<lparr>te_in = 142/10 * of_nat (i mod 3 + 1), te_out = 51/10 * of_nat (i mod 2 + 1)\<rparr>)
                 (take (i mod length SIMULATED_THREATS + 1) SIMULATED_THREATS))) [0..<12]"

definition handle_timeline ::
  "'t meta_op \<Rightarrow> time \<Rightarrow> time \<Rightarrow> (nat \<Rightarrow> time \<times> time) \<Rightarrow> int \<Rightarrow> 't accumulator option
     \<Rightarrow> (time \<times> timeline_row list) list \<times> 't accumulator option" where
  "handle_timeline gm now now' ts hours acc =
     (case acc of
        None \<Rightarrow> (simulated_timeline now, None)
      | Some a \<Rightarrow>
          (case timeline_buckets gm ts (now - of_int (hours * 3600)) 0 (concat (map snd (w_ports (ac_cache a)))) []
                  (ac_threat a) of (d, svc) \<Rightarrow>
             (if d = [] then simulated_timeline now'
              else map (\<lambda>(b, rows). (of_int b, rows)) (sort_key fst d), Some (a\<lparr>ac_threat := svc\<rparr>))))"

section \<open>Dashboard\<close>

text \<open>The readings of the platform a query takes.\<close>

record system_readings =
  sr_platform :: string
  sr_uptime :: rat
  sr_cpu :: rat
  sr_memory_percent :: rat
  sr_rss :: nat
  sr_threads :: nat
  sr_sent :: nat
  sr_received :: nat
  sr_connections :: "string list result"

record health =
  h_status :: string
  h_product :: string
  h_version :: string
  h_platform :: string
  h_sniffer_alive :: bool
  h_ports_tracked :: nat
  h_uptime :: rat

definition ports_tracked :: "'t accumulator option \<Rightarrow> nat" where
  "ports_tracked acc = (case acc of Some a \<Rightarrow> port_count (ac_cache a) | None \<Rightarrow> 0)"

text \<open>\<open>sniffer\<close> is what \<open>is_alive\<close> answers, when there is a sniffer process.\<close>

definition handle_health :: "system_readings \<Rightarrow> bool option \<Rightarrow> 't accumulator option \<Rightarrow> health" where
  "handle_health v sniffer acc =
     \<lparr>h_status = ''ok'', h_product = ''Vigilant'', h_version = ''2.0.0'', h_platform = sr_platform v,
      h_sniffer_alive = or_else False sniffer, h_ports_tracked = ports_tracked acc, h_uptime = py_round2 (sr_uptime v)\<rparr>"

record info =
  if_name :: string
  if_version :: string
  if_status :: string
  if_platform :: string
  if_uptime :: rat
  if_cpu :: rat
  if_memory_mb :: rat
  if_threads :: nat
  if_sniffer_active :: bool
  if_ports_monitored :: nat
  if_policies_loaded :: nat
  if_endpoints :: "(string, string) dict"

definition megabytes :: "nat \<Rightarrow> rat" where
  "megabytes n = py_round2 (double (of_nat n / (1024 * 1024)))"

definition handle_info ::
  "system_readings \<Rightarrow> bool option \<Rightarrow> 't accumulator option \<Rightarrow> policy_engine option \<Rightarrow> info" where
  "handle_info v sniffer acc engine =
     \<lparr>if_name = ''Vigilant Enterprise Network Defense'', if_version = ''2.0.0'', if_status = ''Operational'',
      if_platform = sr_platform v, if_uptime = py_round2 (sr_uptime v), if_cpu = sr_cpu v,
      if_memory_mb = megabytes (sr_rss v), if_threads = sr_threads v, if_sniffer_active = or_else False sniffer,
      if_ports_monitored = ports_tracked acc,
      if_policies_loaded = (case engine of Some e \<Rightarrow> length (pe_policies e) | None \<Rightarrow> 0),
      if_endpoints = [(''api_health'', ''/api/health''), (''api_ports'', ''/api/ports''),
        (''api_blocked'', ''/api/blocked''), (''interactive_docs'', ''/docs'')]\<rparr>"

record system_metrics =
  sm_cpu :: rat
  sm_memory_percent :: rat
  sm_memory_mb :: rat
  sm_sent :: nat
  sm_received :: nat
  sm_active :: nat
  sm_listening :: nat
  sm_blocked :: nat
  sm_suspicious :: nat
  sm_sniffer_active :: bool
  sm_uptime :: rat

text \<open>A refused listing of the connections counts as none; another exception leaves the query.\<close>

definition count_connections :: "string list result \<Rightarrow> (nat \<times> nat) result" where
  "count_connections r =
     (case r of
        Inr conns \<Rightarrow> Inr (length (filter (\<lambda>s. s = ''ESTABLISHED'') conns), length (filter (\<lambda>s. s = ''LISTEN'') conns))
      | Inl err \<Rightarrow> if err \<in> {AccessDenied, PermissionError} then Inr (0, 0) else Inl err)"

definition suspicious_rows :: "time \<Rightarrow> 't accumulator option \<Rightarrow> nat" where
  "suspicious_rows now acc =
     (case acc of
        Some a \<Rightarrow> length (filter (\<lambda>p. 7 \<le> s_risk p) (get_port_table now a))
      | None \<Rightarrow> 0)"

definition handle_metrics ::
  "system_readings \<Rightarrow> time \<Rightarrow> sql \<Rightarrow> bool option \<Rightarrow> 't accumulator option \<Rightarrow> db option
     \<Rightarrow> system_metrics result \<times> db option" where
  "handle_metrics v now q sniffer acc database =
     (case count_connections (sr_connections v) of
        Inl err \<Rightarrow> (Inl err, database)
      | Inr (connections, listening) \<Rightarrow>
          (case (case database of
                   None \<Rightarrow> (Inr 0, None)
                 | Some d \<Rightarrow> (case get_blocked_ports q d of
                               (Inl err, d') \<Rightarrow> (Inl err, Some d')
                             | (Inr rows, d') \<Rightarrow> (Inr (length rows), Some d'))) of
             (Inl err, database') \<Rightarrow> (Inl err, database')
           | (Inr blocked, database') \<Rightarrow>
               (Inr \<lparr>sm_cpu = sr_cpu v, sm_memory_percent = sr_memory_percent v, sm_memory_mb = megabytes (sr_rss v),
                     sm_sent = sr_sent v, sm_received = sr_received v, sm_active = connections,
                     sm_listening = listening, sm_blocked = blocked, sm_suspicious = suspicious_rows now acc,
                     sm_sniffer_active = or_else False sniffer, sm_uptime = py_round2 (sr_uptime v)\<rparr>,
                database')))"

section \<open>Active threats: lemmas\<close>

lemma meta_row_fields [simp]: "tt_ip (meta_row ip port risk org m) = ip" "tt_port (meta_row ip port risk org m) = port"
  "tt_risk (meta_row ip port risk org m) = max risk (m_risk m)" "tt_org (meta_row ip port risk org m) = org"
  by (simp_all add: meta_row_def)

definition remote_row :: "port_row \<Rightarrow> bool" where
  "remote_row p \<longleftrightarrow> s_remote p \<noteq> ''0.0.0.0''"

text \<open>A threat row comes from a row of the port table.\<close>

definition threat_from :: "port_row \<Rightarrow> threat_row \<Rightarrow> bool" where
  "threat_from p t \<longleftrightarrow> remote_row p \<and> tt_ip t = s_remote p \<and> tt_port t = s_port p \<and> s_risk p \<le> tt_risk t"

lemma geo_rows_spec: "geo_rows gm ts k i seen ps svc = (rows, svc') \<Longrightarrow>
    distinct (map tt_ip rows) \<and> set (map tt_ip rows) \<inter> set seen = {}
    \<and> (\<forall>t \<in> set rows. k \<le> tt_risk t \<and> (\<exists>p \<in> set ps. threat_from p t))
    \<and> (\<forall>p \<in> set ps. remote_row p \<and> k \<le> s_risk p \<longrightarrow> s_remote p \<in> set (map tt_ip rows) \<union> set seen)"
proof (induction gm ts k i seen ps svc arbitrary: rows svc' rule: geo_rows.induct)
  case (1 gm ts k i seen svc)
  then show ?case by simp
next
  case (2 gm ts k i seen p ps svc)
  obtain m s where e: "enrich gm (fst (ts i)) (snd (ts i)) (s_remote p) svc = (m, s)" by fastforce
  show ?case
  proof (cases "s_remote p \<noteq> ''0.0.0.0'' \<and> s_remote p \<notin> set seen")
    case new: True
    show ?thesis
    proof (cases "k \<le> max (s_risk p) (m_risk m)")
      case True
      obtain rs s' where r: "geo_rows gm ts k (Suc i) (s_remote p # seen) ps s = (rs, s')" by fastforce
      note ih = 2(1) [OF new e [symmetric] True r]
      have rows: "rows = meta_row (s_remote p) (s_port p) (s_risk p) (m_org m) m # rs"
        using "2.prems" new e True r by simp
      from ih show ?thesis unfolding rows using new True by (auto simp: threat_from_def remote_row_def)
    next
      case False
      then have r: "geo_rows gm ts k (Suc i) seen ps s = (rows, svc')" using "2.prems" new e by simp
      from 2(2) [OF new e [symmetric] False r] False show ?thesis by auto
    qed
  next
    case False
    then have r: "geo_rows gm ts k i seen ps svc = (rows, svc')" using "2.prems" by auto
    from 2(3) [OF False r] False show ?thesis by (auto simp: remote_row_def)
  qed
qed

text \<open>What the service answers to a sequence of lookups, the readings of the clock included.\<close>

fun service_answers :: "'t meta_op \<Rightarrow> (nat \<Rightarrow> time \<times> time) \<Rightarrow> nat \<Rightarrow> string list \<Rightarrow> 't option \<Rightarrow> meta list \<times> 't option" where
  "service_answers gm ts i [] svc = ([], svc)"
| "service_answers gm ts i (ip # ips) svc =
     (case enrich gm (fst (ts i)) (snd (ts i)) ip svc of (m, svc') \<Rightarrow> apfst ((#) m) (service_answers gm ts (Suc i) ips svc'))"

text \<open>A row of the port table with the metadata of its address: whether the two reach a risk, and the threat they make.\<close>

definition risky :: "int \<Rightarrow> port_row \<times> meta \<Rightarrow> bool" where
  "risky k x \<longleftrightarrow> k \<le> max (s_risk (fst x)) (m_risk (snd x))"

definition threat_of :: "port_row \<times> meta \<Rightarrow> threat_row" where
  "threat_of x = meta_row (s_remote (fst x)) (s_port (fst x)) (s_risk (fst x)) (m_org (snd x)) (snd x)"

lemma risky_pair: "risky k (p, m) \<longleftrightarrow> k \<le> max (s_risk p) (m_risk m)"
  by (simp add: risky_def)

lemma threat_of_pair: "threat_of (p, m) = meta_row (s_remote p) (s_port p) (s_risk p) (m_org m) m"
  by (simp add: threat_of_def)

lemma threat_of_ip [simp]: "tt_ip (threat_of x) = s_remote (fst x)"
  by (simp add: threat_of_def meta_row_def)

text \<open>The rows looked up: in the order of the table, each unless its address already has a threat.\<close>

definition asked_of :: "int \<Rightarrow> string list \<Rightarrow> port_row list \<Rightarrow> (port_row \<times> meta) list \<Rightarrow> bool" where
  "asked_of k seen ps asked \<longleftrightarrow> subseq (map fst asked) ps \<and> (\<forall>x \<in> set asked. remote_row (fst x))
     \<and> (\<forall>p \<in> set ps. remote_row p \<longrightarrow> p \<in> fst ` set asked
          \<or> s_remote p \<in> set seen \<union> (\<lambda>x. s_remote (fst x)) ` set (filter (risky k) asked))"

lemma asked_covers:
  assumes "asked_of k [] ps asked" and "p \<in> set ps" and "s_remote p \<noteq> ''0.0.0.0''"
  shows "p \<in> fst ` set asked \<or> (\<exists>x \<in> set asked. risky k x \<and> s_remote (fst x) = s_remote p)"
proof -
  have "remote_row p \<longrightarrow> p \<in> fst ` set asked \<or> s_remote p \<in> set [] \<union> (\<lambda>x. s_remote (fst x)) ` set (filter (risky k) asked)"
    using assms(1) unfolding asked_of_def by (elim conjE) (erule bspec [OF _ assms(2)])
  with assms(3) have "p \<in> fst ` set asked \<or> s_remote p \<in> (\<lambda>x. s_remote (fst x)) ` set (filter (risky k) asked)"
    by (simp only: remote_row_def list.set(1) Un_empty_left simp_thms)
  then show ?thesis
  proof
    assume "s_remote p \<in> (\<lambda>x. s_remote (fst x)) ` set (filter (risky k) asked)"
    then obtain x where "x \<in> set asked" "risky k x" "s_remote p = s_remote (fst x)" by auto
    then show ?thesis by (intro disjI2 bexI [of _ x]) simp_all
  qed simp
qed

lemma geo_rows_asked: "geo_rows gm ts k i seen ps svc = (rows, svc') \<Longrightarrow>
    \<exists>asked. asked_of k seen ps asked \<and> service_answers gm ts i (map (\<lambda>x. s_remote (fst x)) asked) svc = (map snd asked, svc')
      \<and> rows = map threat_of (filter (risky k) asked)"
proof (induction gm ts k i seen ps svc arbitrary: rows svc' rule: geo_rows.induct)
  case (1 gm ts k i seen svc)
  then show ?case by (intro exI [of _ "[]"]) (simp add: asked_of_def)
next
  case (2 gm ts k i seen p ps svc)
  obtain m s where e: "enrich gm (fst (ts i)) (snd (ts i)) (s_remote p) svc = (m, s)" by fastforce
  show ?case
  proof (cases "s_remote p \<noteq> ''0.0.0.0'' \<and> s_remote p \<notin> set seen")
    case new: True
    show ?thesis
    proof (cases "k \<le> max (s_risk p) (m_risk m)")
      case True
      obtain rs s' where r: "geo_rows gm ts k (Suc i) (s_remote p # seen) ps s = (rs, s')" by fastforce
      then obtain asked where "asked_of k (s_remote p # seen) ps asked" "rs = map threat_of (filter (risky k) asked)"
        "service_answers gm ts (Suc i) (map (\<lambda>x. s_remote (fst x)) asked) s = (map snd asked, s')"
        using 2(1) [OF new e [symmetric] True r] by blast
      with "2.prems" new e True r show ?thesis
        by (intro exI [of _ "(p, m) # asked"]) (auto simp: asked_of_def risky_pair threat_of_pair remote_row_def)
    next
      case False
      then have r: "geo_rows gm ts k (Suc i) seen ps s = (rows, svc')" using "2.prems" new e by simp
      then obtain asked where "asked_of k seen ps asked" "rows = map threat_of (filter (risky k) asked)"
        "service_answers gm ts (Suc i) (map (\<lambda>x. s_remote (fst x)) asked) s = (map snd asked, svc')"
        using 2(2) [OF new e [symmetric] False r] by blast
      with new e False show ?thesis
        by (intro exI [of _ "(p, m) # asked"]) (auto simp: asked_of_def risky_pair remote_row_def)
    qed
  next
    case False
    then have r: "geo_rows gm ts k i seen ps svc = (rows, svc')" using "2.prems" by auto
    then obtain asked where "asked_of k seen ps asked" "rows = map threat_of (filter (risky k) asked)"
      "service_answers gm ts i (map (\<lambda>x. s_remote (fst x)) asked) svc = (map snd asked, svc')"
      using 2(3) [OF False r] by blast
    with False show ?thesis by (intro exI [of _ asked]) (auto simp: asked_of_def remote_row_def)
  qed
qed

lemma simulated_ok: "distinct (map tt_ip (simulated k))" "\<forall>t \<in> set (simulated k). k \<le> tt_risk t"
proof -
  have "distinct (map tt_ip SIMULATED_THREATS)" by (simp add: SIMULATED_THREATS_def sim_threat_def)
  then show "distinct (map tt_ip (simulated k))" by (simp add: simulated_def distinct_map_filter)
qed (simp add: simulated_def)

context threat_provider
begin

lemma enrich_keeps:
  assumes "\<forall>s. svc = Some s \<longrightarrow> svc_ok s" and "enrich get_meta t t' ip svc = (m, svc')"
  shows "m_risk m \<in> {0..10} \<and> (\<forall>s. svc' = Some s \<longrightarrow> svc_ok s)"
proof (cases svc)
  case None
  with assms(2) show ?thesis by (auto simp: enrich_def default_meta_def)
next
  case (Some s)
  with assms meta_ok [of s t t' ip] meta_risk [of s t t' ip] show ?thesis
    by (auto simp: enrich_def split: prod.splits)
qed

lemma geo_rows_keep: "geo_rows get_meta ts k i seen ps svc = (rows, svc') \<Longrightarrow> (\<forall>s. svc = Some s \<longrightarrow> svc_ok s) \<Longrightarrow>
    (\<forall>p \<in> set ps. s_risk p \<in> {0..10}) \<Longrightarrow>
    (\<forall>t \<in> set rows. tt_risk t \<in> {0..10}) \<and> (\<forall>s. svc' = Some s \<longrightarrow> svc_ok s)"
proof (induction ps arbitrary: i seen svc rows svc')
  case (Cons p ps)
  obtain m s where e: "enrich get_meta (fst (ts i)) (snd (ts i)) (s_remote p) svc = (m, s)" by fastforce
  note k = enrich_keeps [OF Cons.prems(2) e]
  obtain rs s' where r: "geo_rows get_meta ts k (Suc i) (s_remote p # seen) ps s = (rs, s')" by fastforce
  have "max (s_risk p) (m_risk m) \<in> {0..10}" using k Cons.prems(3) by (auto simp: max_def)
  with Cons.IH [OF r] k Cons.IH [of "Suc i" seen s rows] Cons.IH [of i seen svc rows] Cons.prems e r show ?case
    by (auto split: if_splits)
qed auto

end

section \<open>Countries: lemmas\<close>

lemma count_countries: "dict_ok d \<Longrightarrow> dict_ok (fold count_country ts d)
    \<and> or_else 0 (dget (fold count_country ts d) c) = or_else 0 (dget d c) + length (filter (\<lambda>t. tt_country t = c) ts)"
  by (induction ts arbitrary: d) (auto simp: count_country_def dict_simps or_else_def)

section \<open>Timeline: lemmas\<close>

lemma bucket_interval:
  assumes "0 \<le> t"
  shows "of_int (bucket_id t) \<le> t \<and> t < of_int (bucket_id t) + 300"
proof -
  have "of_int \<lfloor>t / 300\<rfloor> \<le> t / 300" and "t / 300 < of_int \<lfloor>t / 300\<rfloor> + 1" by linarith+
  with assms show ?thesis by (simp add: bucket_id_def py_trunc_def field_simps)
qed

text \<open>What a timeline row takes from its snapshot.\<close>

definition row_key :: "timeline_row \<Rightarrow> string \<times> int \<times> string \<times> rat \<times> rat" where
  "row_key x = (tt_ip x, tt_port x, tt_org x, te_in x, te_out x)"

definition snap_key :: "port_snapshot \<Rightarrow> string \<times> int \<times> string \<times> rat \<times> rat" where
  "snap_key s = (s_remote s, s_port s, s_org s, s_in s, s_out s)"

definition live :: "time \<Rightarrow> port_snapshot \<Rightarrow> bool" where
  "live cutoff s \<longleftrightarrow> cutoff \<le> s_time s \<and> s_remote s \<noteq> ''0.0.0.0''"

lemma timeline_row_key [simp]: "row_key (timeline_row_of s m) = snap_key s"
  by (simp add: row_key_def snap_key_def timeline_row_of_def threat_row.defs meta_row_def)

definition bucket_keys :: "(int, timeline_row list) dict \<Rightarrow> int \<Rightarrow> (string \<times> int \<times> string \<times> rat \<times> rat) list" where
  "bucket_keys d b = map row_key (or_else [] (dget d b))"

definition buckets_ok :: "(int, timeline_row list) dict \<Rightarrow> bool" where
  "buckets_ok d \<longleftrightarrow> dict_ok d \<and> (\<forall>b. dget d b \<noteq> Some [])"

lemma timeline_buckets_spec: "timeline_buckets gm ts cutoff i ss d svc = (d', svc') \<Longrightarrow> buckets_ok d \<Longrightarrow>
    buckets_ok d' \<and> (\<forall>b. bucket_keys d' b = bucket_keys d b
      @ map snap_key (filter (\<lambda>s. bucket_id (s_time s) = b) (filter (live cutoff) ss)))"
proof (induction ss arbitrary: i d svc)
  case (Cons s ss)
  show ?case
  proof (cases "live cutoff s")
    case True
    obtain m v where e: "enrich gm (fst (ts i)) (snd (ts i)) (s_remote s) svc = (m, v)" by fastforce
    let ?d = "dset d (bucket_id (s_time s)) (or_else [] (dget d (bucket_id (s_time s))) @ [timeline_row_of s m])"
    have "timeline_buckets gm ts cutoff (Suc i) ss ?d v = (d', svc')"
      using Cons.prems(1) True e by (simp add: live_def)
    moreover have "buckets_ok ?d" using Cons.prems(2) by (simp add: buckets_ok_def dict_simps)
    moreover have "bucket_keys ?d b = bucket_keys d b @ (if bucket_id (s_time s) = b then [snap_key s] else [])" for b
      by (auto simp: bucket_keys_def dict_simps or_else_def)
    ultimately show ?thesis using Cons.IH [of "Suc i" ?d v] True by auto
  next
    case False
    then have "timeline_buckets gm ts cutoff i ss d svc = (d', svc')" using Cons.prems(1) by (auto simp: live_def)
    with Cons.IH Cons.prems(2) False show ?thesis by simp
  qed
qed simp

lemma buckets_keys: "buckets_ok d \<Longrightarrow> b \<in> fst ` set d \<longleftrightarrow> bucket_keys d b \<noteq> []"
proof -
  assume ok: "buckets_ok d"
  have "b \<in> fst ` set d \<longleftrightarrow> dget d b \<noteq> None" by (simp add: map_of_eq_None_iff)
  with ok show ?thesis by (cases "dget d b") (auto simp: buckets_ok_def bucket_keys_def or_else_def)
qed

definition live_history :: "time \<Rightarrow> 't accumulator \<Rightarrow> port_snapshot list" where
  "live_history cutoff a = filter (live cutoff) (concat (map snd (w_ports (ac_cache a))))"

lemma timeline_rows:
  assumes "timeline_buckets gm ts cutoff 0 (concat (map snd (w_ports (ac_cache a)))) [] svc = (d, svc')"
  shows "buckets_ok d" and "bucket_keys d b = map snap_key (filter (\<lambda>s. bucket_id (s_time s) = b) (live_history cutoff a))"
    and "d = [] \<longleftrightarrow> live_history cutoff a = []"
proof -
  have "buckets_ok []" by (simp add: buckets_ok_def)
  from timeline_buckets_spec [OF assms this]
  show ok: "buckets_ok d" and keys: "bucket_keys d b = map snap_key (filter (\<lambda>s. bucket_id (s_time s) = b) (live_history cutoff a))"
    for b by (simp_all add: live_history_def bucket_keys_def or_else_def)
  have "d = [] \<longleftrightarrow> (\<forall>b. bucket_keys d b = [])"
    using buckets_keys [OF ok] by (metis image_is_empty set_empty ex_in_conv)
  then show "d = [] \<longleftrightarrow> live_history cutoff a = []" by (cases "live_history cutoff a") (auto simp: keys filter_empty_conv)
qed

section \<open>Properties\<close>

text \<open>
  C38: the active threats. The query looks up rows of the port table that have a remote address, in
  the order of the table, and leaves such a row out only if its address gives a threat. With the
  metadata the service answers to these lookups, the threats are exactly the rows whose own risk or
  whose metadata's risk reaches the requested one, with the greater of the two as their risk; no
  address appears twice. The answer is the built-in demonstration list, although no such connection
  exists, exactly when no row looked up reaches the risk, and these threats otherwise. Only the
  service's state changes.
\<close>

theorem threat_geo_spec:
  assumes "handle_geo gm now ts k (Some a) = (rows, acc')"
  shows "distinct (map tt_ip rows) \<and> (\<forall>t \<in> set rows. k \<le> tt_risk t)
    \<and> (\<exists>asked svc. subseq (map fst asked) (get_port_table now a)
         \<and> (\<forall>x \<in> set asked. s_remote (fst x) \<noteq> ''0.0.0.0'')
         \<and> (\<forall>p \<in> set (get_port_table now a). s_remote p \<noteq> ''0.0.0.0'' \<longrightarrow> p \<in> fst ` set asked
              \<or> (\<exists>x \<in> set asked. risky k x \<and> s_remote (fst x) = s_remote p))
         \<and> service_answers gm ts 0 (map (\<lambda>x. s_remote (fst x)) asked) (ac_threat a) = (map snd asked, svc)
         \<and> acc' = Some (a\<lparr>ac_threat := svc\<rparr>)
         \<and> rows = (if \<exists>x \<in> set asked. risky k x then map threat_of (filter (risky k) asked) else simulated k))"
proof -
  obtain rs svc where g: "geo_rows gm ts k 0 [] (get_port_table now a) (ac_threat a) = (rs, svc)" by fastforce
  note h = geo_rows_spec [OF g]
  from geo_rows_asked [OF g] obtain asked where asked: "asked_of k [] (get_port_table now a) asked"
    "service_answers gm ts 0 (map (\<lambda>x. s_remote (fst x)) asked) (ac_threat a) = (map snd asked, svc)"
    and rs: "rs = map threat_of (filter (risky k) asked)" by blast
  have rows: "rows = (if rs = [] then simulated k else rs)" "acc' = Some (a\<lparr>ac_threat := svc\<rparr>)"
    using assms g by (auto simp: handle_geo_def)
  have "rs = [] \<longleftrightarrow> \<not> (\<exists>x \<in> set asked. risky k x)" by (auto simp: rs filter_empty_conv)
  then have r: "rows = (if \<exists>x \<in> set asked. risky k x then map threat_of (filter (risky k) asked) else simulated k)"
    using rows(1) rs by simp
  have d: "distinct (map tt_ip rows)" and m: "\<forall>t \<in> set rows. k \<le> tt_risk t"
    unfolding rows(1) using h simulated_ok [of k] by simp_all
  have q: "subseq (map fst asked) (get_port_table now a)"
    using asked(1) unfolding asked_of_def by (elim conjE)
  have n: "\<forall>x \<in> set asked. s_remote (fst x) \<noteq> ''0.0.0.0''"
    using asked(1) unfolding asked_of_def remote_row_def by (elim conjE)
  have c: "\<forall>p \<in> set (get_port_table now a). s_remote p \<noteq> ''0.0.0.0'' \<longrightarrow> p \<in> fst ` set asked
      \<or> (\<exists>x \<in> set asked. risky k x \<and> s_remote (fst x) = s_remote p)"
    by (intro ballI impI asked_covers [OF asked(1)])
  show ?thesis by (intro conjI exI [of _ asked] exI [of _ svc]) (rule d m q n c asked(2) rows(2) r)+
qed

text \<open>A service that rates every address 9, on a table whose only row has the risk 5.\<close>

definition rating_service :: "unit meta_op" where
  "rating_service t t' ip s = (default_meta\<lparr>m_risk := 9\<rparr>, s)"

definition one_row :: "unit accumulator" where
  "one_row = (new_accumulator (Some ()))\<lparr>ac_cache := add_snapshot
     (make_snapshot 443 (1, 2) 7 ''nginx'' 0 1000 5 ''8.8.8.8'' default_meta) (new_window 10)\<rparr>"

theorem threat_geo_spec_witness:
  "map (\<lambda>t. (tt_ip t, tt_risk t)) (fst (handle_geo rating_service 1000 (\<lambda>_. (0, 0)) 7 (Some one_row))) = [(''8.8.8.8'', 9)]
    \<and> distinct (map tt_ip (fst (handle_geo rating_service 1000 (\<lambda>_. (0, 0)) 7 (Some one_row))))"
proof -
  let ?h = "handle_geo rating_service 1000 (\<lambda>_. (0, 0)) 7 (Some one_row)"
  have "map (\<lambda>t. (tt_ip t, tt_risk t)) (fst ?h) = [(''8.8.8.8'', 9)]"
    by (simp add: handle_geo_def one_row_def rating_service_def new_accumulator_def get_port_table_def latest_def add_snapshot_def
        new_window_def make_snapshot_def port_entries_def deque_append_def ACTIVE_PORT_TTL_SECONDS_def enrich_def
        default_meta_def meta_row_def row_of_def port_snapshot.defs)
  with threat_geo_spec [OF surjective_pairing [of ?h]] show ?thesis by simp
qed

text \<open>
  The timeline. When the history holds snapshots with a remote address in the requested
  hours, the answer lists the five-minute buckets in strictly increasing order, a bucket for every
  such snapshot, none empty, and each bucket shows exactly the snapshots that fall into its 300
  seconds, in the order of the history; without such snapshots the answer is the simulated one.
\<close>

theorem timeline_spec:
  assumes "handle_timeline gm now now' ts hours (Some a) = (r, acc')"
  shows "if live_history (now - of_int (hours * 3600)) a = [] then r = simulated_timeline now'
    else sorted_wrt (\<lambda>x y. fst x < fst y) r
      \<and> (\<forall>s \<in> set (live_history (now - of_int (hours * 3600)) a). of_int (bucket_id (s_time s)) \<in> fst ` set r)
      \<and> (\<forall>(b, rows) \<in> set r. rows \<noteq> []
           \<and> map row_key rows = map snap_key (filter (\<lambda>s. of_int (bucket_id (s_time s)) = b)
                (live_history (now - of_int (hours * 3600)) a))
           \<and> (\<forall>t \<ge> 0. of_int (bucket_id t) = b \<longrightarrow> b \<le> t \<and> t < b + 300))"
proof -
  let ?c = "now - of_int (hours * 3600) :: time"
  obtain d svc where b: "timeline_buckets gm ts ?c 0 (concat (map snd (w_ports (ac_cache a)))) [] (ac_threat a) = (d, svc)"
    by fastforce
  note t = timeline_rows [OF b]
  show ?thesis
  proof (cases "d = []")
    case True
    with assms b t(3) show ?thesis by (simp add: handle_timeline_def)
  next
    case False
    with assms b have r: "r = map (\<lambda>(b, rows). (of_int b, rows)) (sort_key fst d)"
      by (simp add: handle_timeline_def)
    have "sorted_wrt (\<lambda>x y. fst x < fst y) (sort_key fst d)"
      using t(1) by (intro sort_key_strict) (simp add: buckets_ok_def dict_ok_def)
    then have "sorted_wrt (\<lambda>x y. fst x < fst y) r"
      unfolding r sorted_wrt_map by (rule sorted_wrt_mono_rel [rotated]) (auto split: prod.splits)
    moreover have "of_int (bucket_id (s_time s)) \<in> fst ` set r" if "s \<in> set (live_history ?c a)" for s
    proof -
      from that have "bucket_id (s_time s) \<in> fst ` set d"
        unfolding buckets_keys [OF t(1)] t(2) by (auto simp: filter_empty_conv)
      then show ?thesis unfolding r by force
    qed
    moreover have "rows \<noteq> [] \<and> map row_key rows = map snap_key (filter (\<lambda>s. of_int (bucket_id (s_time s)) = x) (live_history ?c a))
        \<and> (\<forall>t \<ge> 0. of_int (bucket_id t) = x \<longrightarrow> x \<le> t \<and> t < x + 300)" if x: "(x, rows) \<in> set r" for x rows
    proof -
      from x obtain k where k: "x = of_int k" "(k, rows) \<in> set d" by (auto simp: r)
      with t(1) have "dget d k = Some rows" by (simp add: buckets_ok_def dict_ok_item)
      with t(1) t(2) [of k] k(1) bucket_interval show ?thesis
        by (auto simp: bucket_keys_def or_else_def buckets_ok_def)
    qed
    ultimately show ?thesis using False t(3) by auto
  qed
qed

definition seen_once :: "unit accumulator" where
  "seen_once = (new_accumulator None)\<lparr>ac_cache := add_snapshot
     (make_snapshot 443 (1, 2) 7 ''nginx'' 0 1000 5 ''8.8.8.8'' default_meta) (new_window 10)\<rparr>"

theorem timeline_spec_witness:
  "map fst (fst (handle_timeline no_service 2000 2000 (\<lambda>_. (0, 0)) 1 (Some seen_once))) = [900]
     \<and> sorted_wrt (\<lambda>x y. fst x < fst y) (fst (handle_timeline no_service 2000 2000 (\<lambda>_. (0, 0)) 1 (Some seen_once)))"
proof -
  let ?h = "handle_timeline no_service 2000 2000 (\<lambda>_. (0, 0)) 1 (Some seen_once)"
  have f: "\<lfloor>10 / 3 :: rat\<rfloor> = 3" by (rule floor_unique) simp_all
  have keys: "map fst (fst ?h) = [900]"
    by (simp add: handle_timeline_def seen_once_def new_accumulator_def add_snapshot_def new_window_def
        make_snapshot_def port_entries_def deque_append_def default_meta_def enrich_def bucket_id_def py_trunc_def f)
  have "live_history (2000 - of_int (1 * 3600)) seen_once \<noteq> []"
    by (simp add: live_history_def live_def seen_once_def new_accumulator_def add_snapshot_def new_window_def
        make_snapshot_def port_entries_def deque_append_def default_meta_def)
  with timeline_spec [OF surjective_pairing [of ?h]] keys show ?thesis by simp
qed

text \<open>
  The dashboard's figures. A successful metrics query counts the blocked ports the database
  shows, and as suspicious exactly the ports whose newest snapshot is at most five seconds old and
  has a risk of at least seven.
\<close>

theorem metrics_counts:
  assumes "acc_ok a" and "blocked_ok d" and "handle_metrics v now q sniffer (Some a) (Some d) = (Inr m, d')"
  shows "sm_blocked m = card (dom (blocked_view d))
    \<and> sm_suspicious m = card {p. port_entries p (ac_cache a) \<noteq> []
        \<and> now - s_time (last (port_entries p (ac_cache a))) \<le> ACTIVE_PORT_TTL_SECONDS
        \<and> 7 \<le> s_risk (last (port_entries p (ac_cache a)))}"
proof -
  obtain n l where n: "count_connections (sr_connections v) = Inr (n, l)"
    using assms(3) by (auto simp: handle_metrics_def split: sum.splits)
  then obtain rows db1 where g: "get_blocked_ports q d = (Inr rows, db1)" and m: "sm_blocked m = length rows"
    "sm_suspicious m = suspicious_rows now (Some a)"
    using assms(3) by (auto simp: handle_metrics_def split: sum.splits prod.splits)
  from list_blocked_law [OF assms(2) g] have view: "blocked_view d = map_of (map bp_row rows)"
    and s: "sorted_wrt (\<lambda>x y. fst (bp_row x) < fst (bp_row y)) rows" by auto
  have "distinct (map (fst \<circ> bp_row) rows)"
    using key_sorted_distinct [OF s] by (simp add: comp_def)
  then have "card (fst ` set (map bp_row rows)) = length rows"
    using distinct_card [of "map (fst \<circ> bp_row) rows"] by (simp add: image_comp)
  with view m have blocked: "sm_blocked m = card (dom (blocked_view d))" by (simp add: dom_map_of_conv_image_fst)
  let ?rs = "filter (\<lambda>p. 7 \<le> s_risk p) (get_port_table now a)"
  let ?S = "{p. port_entries p (ac_cache a) \<noteq> []
        \<and> now - s_time (last (port_entries p (ac_cache a))) \<le> ACTIVE_PORT_TTL_SECONDS
        \<and> 7 \<le> s_risk (last (port_entries p (ac_cache a)))}"
  have "distinct (map s_port ?rs)"
    using table_sorted [OF assms(1)] by (intro key_sorted_distinct sorted_wrt_filter)
  then have "card (s_port ` set ?rs) = length ?rs" using distinct_card [of "map s_port ?rs"] by simp
  moreover have "s_port ` set ?rs = ?S"
  proof
    show "s_port ` set ?rs \<subseteq> ?S" using set_port_table [OF assms(1)] by auto
    show "?S \<subseteq> s_port ` set ?rs"
    proof
      fix p
      assume p: "p \<in> ?S"
      then have port: "s_port (last (port_entries p (ac_cache a))) = p"
        using assms(1) by (simp add: acc_ok_def last_entry_port)
      with p have "row_of (last (port_entries p (ac_cache a))) \<in> set ?rs"
        by (auto simp: set_port_table [OF assms(1)] intro!: exI [of _ "last (port_entries p (ac_cache a))"])
      with port show "p \<in> s_port ` set ?rs" by (metis image_eqI s_port_row)
    qed
  qed
  ultimately show ?thesis using blocked m by (simp add: suspicious_rows_def)
qed

definition quiet_readings :: system_readings where
  "quiet_readings = \<lparr>sr_platform = ''Linux'', sr_uptime = 1, sr_cpu = 0, sr_memory_percent = 0, sr_rss = 0,
     sr_threads = 1, sr_sent = 0, sr_received = 0, sr_connections = Inl AccessDenied\<rparr>"

theorem metrics_counts_witness:
  "\<exists>m d. handle_metrics quiet_readings 6 plain_sql None (Some seen_once) (Some empty_db) = (Inr m, d)
     \<and> sm_blocked m = 0"
proof -
  obtain m d where h: "handle_metrics quiet_readings 6 plain_sql None (Some seen_once) (Some empty_db) = (Inr m, d)"
    by (simp add: handle_metrics_def quiet_readings_def count_connections_def get_blocked_ports_def session_def
        plain_sql_def empty_db_def)
  have ok: "acc_ok seen_once"
    by (simp add: seen_once_def acc_ok_def window_ok_add window_ok_new)
  have "blocked_ok empty_db" "dom (blocked_view empty_db) = {}"
    by (simp_all add: blocked_ok_def empty_db_def blocked_view_def table_map_def)
  with metrics_counts [OF ok _ h] h show ?thesis by auto
qed

text \<open>Countries are counted exactly, each once.\<close>

lemma countries_exact:
  assumes "handle_countries gm now ts acc = (d, acc')"
  shows "dict_ok d \<and> (\<forall>c. or_else 0 (dget d c) = length (filter (\<lambda>t. tt_country t = c) (fst (handle_geo gm now ts 0 acc))))"
  using assms count_countries [of "[]"] by (auto simp: handle_countries_def or_else_def split: prod.splits)

text \<open>
  With the accumulator's own service the reported risks stay in \<open>0..10\<close> and the service
  keeps its invariant.
\<close>

lemma geo_risks_bounded: "geo_rows get_ip_metadata ts k i seen ps svc = (rows, svc') \<Longrightarrow>
    (\<forall>s. svc = Some s \<longrightarrow> ti_ok s) \<Longrightarrow> (\<forall>p \<in> set ps. s_risk p \<in> {0..10}) \<Longrightarrow>
    (\<forall>t \<in> set rows. tt_risk t \<in> {0..10}) \<and> (\<forall>s. svc' = Some s \<longrightarrow> ti_ok s)"
  by (rule ti.geo_rows_keep)

end
