(* ===== verification/Api.thy ===== *)
theory Api
  imports Commands Queries Repository
begin

text \<open>
  The HTTP API as one function: the routes of \<open>presentation/api/ports.py\<close> and \<open>system.py\<close> next
  to those of \<open>control.py\<close> and \<open>approvals.py\<close>, on the services of the container that
  \<open>presentation/dependencies/injection.py\<close> hands to them. A route's answer is a value or the
  exception it leaves to the framework.
\<close>

section \<open>State, calls and answers\<close>

record ('t, 's) app =
  ap_world :: "'s world"
  ap_acc :: "'t accumulator"
  ap_engine :: policy_engine
  ap_sniffer :: "bool option"

text \<open>What a call reads besides the state.\<close>

record 's call_env =
  ce_env :: "'s cenv"
  ce_now :: time
  ce_now' :: time
  ce_lookup :: "nat \<Rightarrow> time \<times> time"
  ce_readings :: system_readings

datatype api_call =
    GetPorts | GetPortHistory int int | GetBlocked | GetTopTalkers int nat | GetAuditLogs nat
  | GetThreatGeo int | GetThreatCountries | GetThreatTimeline int | GetPreferences
  | GetHealth | GetInfo | GetSystemMetrics | GetApprovals
  | SetPreferences "(string \<times> string) list" | PostBlock int string | PostUnblock int
  | PostApproval int string "string option" | PostResolve int string

datatype reply =
    R_Ports "port_row list" | R_History "traffic_history list" | R_Blocked "blocked_port list"
  | R_Talkers "(string \<times> rat \<times> int) list" | R_Logs "audit_log list" | R_Threats "threat_row list"
  | R_Countries "(string, nat) dict" | R_Timeline "(time \<times> timeline_row list) list" | R_Preferences "(string, string) dict"
  | R_Success | R_Health health | R_Info info | R_Metrics system_metrics
  | R_Firewall fw_reply | R_Approvals "analyst_approval list" | R_Approval approval_reply

section \<open>Routes\<close>

definition answer :: "('a \<Rightarrow> reply) \<Rightarrow> 'a result \<Rightarrow> reply result" where
  "answer f r = (case r of Inl err \<Rightarrow> Inl err | Inr x \<Rightarrow> Inr (f x))"

text \<open>A route that only uses the repository, and one that uses the world of the commands.\<close>

definition on_db :: "('a \<Rightarrow> reply) \<Rightarrow> (db \<Rightarrow> 'a result \<times> db) \<Rightarrow> ('t, 's) app \<Rightarrow> reply result \<times> ('t, 's) app" where
  "on_db f op a = (case db_do op (ap_world a) of (r, w) \<Rightarrow> (answer f r, a\<lparr>ap_world := w\<rparr>))"

definition on_world :: "('a \<Rightarrow> reply) \<Rightarrow> ('s world \<Rightarrow> 'a result \<times> 's world) \<Rightarrow> ('t, 's) app \<Rightarrow> reply result \<times> ('t, 's) app" where
  "on_world f op a = (case op (ap_world a) of (r, w) \<Rightarrow> (answer f r, a\<lparr>ap_world := w\<rparr>))"

definition get_ports :: "'s call_env \<Rightarrow> ('t, 's) app \<Rightarrow> reply result \<times> ('t, 's) app" where
  "get_ports e a = (Inr (R_Ports (get_port_table (ce_now e) (ap_acc a))), a)"

definition get_port_history :: "'s call_env \<Rightarrow> int \<Rightarrow> int \<Rightarrow> ('t, 's) app \<Rightarrow> reply result \<times> ('t, 's) app" where
  "get_port_history e port hours =
     on_db R_History (repo_get_traffic_history (en_sql (ce_env e)) (ce_now e) port (Some hours))"

definition get_blocked :: "'s call_env \<Rightarrow> ('t, 's) app \<Rightarrow> reply result \<times> ('t, 's) app" where
  "get_blocked e = on_db R_Blocked (repo_get_blocked_ports (en_sql (ce_env e)))"

definition get_talkers :: "'s call_env \<Rightarrow> int \<Rightarrow> nat \<Rightarrow> ('t, 's) app \<Rightarrow> reply result \<times> ('t, 's) app" where
  "get_talkers e hours limit =
     on_db R_Talkers (repo_get_top_talkers (en_sql (ce_env e)) (ce_now e) (Some hours) (Some limit))"

definition get_logs :: "'s call_env \<Rightarrow> nat \<Rightarrow> ('t, 's) app \<Rightarrow> reply result \<times> ('t, 's) app" where
  "get_logs e limit = on_db R_Logs (repo_get_audit_logs (en_sql (ce_env e)) (Some limit))"

definition of_acc :: "'t accumulator option \<Rightarrow> 't accumulator \<Rightarrow> 't accumulator" where
  "of_acc x acc = (case x of Some acc' \<Rightarrow> acc' | None \<Rightarrow> acc)"

definition get_threat_geo :: "'t meta_op \<Rightarrow> 's call_env \<Rightarrow> int \<Rightarrow> ('t, 's) app \<Rightarrow> reply result \<times> ('t, 's) app" where
  "get_threat_geo gm e min_risk a =
     (case handle_geo gm (ce_now e) (ce_lookup e) min_risk (Some (ap_acc a)) of
        (rows, acc) \<Rightarrow> (Inr (R_Threats rows), a\<lparr>ap_acc := of_acc acc (ap_acc a)\<rparr>))"

definition get_threat_countries :: "'t meta_op \<Rightarrow> 's call_env \<Rightarrow> ('t, 's) app \<Rightarrow> reply result \<times> ('t, 's) app" where
  "get_threat_countries gm e a =
     (case handle_countries gm (ce_now e) (ce_lookup e) (Some (ap_acc a)) of
        (d, acc) \<Rightarrow> (Inr (R_Countries d), a\<lparr>ap_acc := of_acc acc (ap_acc a)\<rparr>))"

definition get_threat_timeline :: "'t meta_op \<Rightarrow> 's call_env \<Rightarrow> int \<Rightarrow> ('t, 's) app \<Rightarrow> reply result \<times> ('t, 's) app" where
  "get_threat_timeline gm e hours a =
     (case handle_timeline gm (ce_now e) (ce_now' e) (ce_lookup e) hours (Some (ap_acc a)) of
        (rows, acc) \<Rightarrow> (Inr (R_Timeline rows), a\<lparr>ap_acc := of_acc acc (ap_acc a)\<rparr>))"

definition get_preferences :: "'s call_env \<Rightarrow> ('t, 's) app \<Rightarrow> reply result \<times> ('t, 's) app" where
  "get_preferences e = on_db R_Preferences (repo_get_user_preferences (en_sql (ce_env e)))"

definition post_preferences :: "'s call_env \<Rightarrow> (string \<times> string) list \<Rightarrow> ('t, 's) app \<Rightarrow> reply result \<times> ('t, 's) app" where
  "post_preferences e prefs = on_db (\<lambda>_. R_Success) (set_preferences (en_sql (ce_env e)) prefs)"

definition get_health :: "'s call_env \<Rightarrow> ('t, 's) app \<Rightarrow> reply result \<times> ('t, 's) app" where
  "get_health e a = (Inr (R_Health (handle_health (ce_readings e) (ap_sniffer a) (Some (ap_acc a)))), a)"

definition get_info :: "'s call_env \<Rightarrow> ('t, 's) app \<Rightarrow> reply result \<times> ('t, 's) app" where
  "get_info e a = (Inr (R_Info (handle_info (ce_readings e) (ap_sniffer a) (Some (ap_acc a)) (Some (ap_engine a)))), a)"

definition get_system_metrics :: "'s call_env \<Rightarrow> ('t, 's) app \<Rightarrow> reply result \<times> ('t, 's) app" where
  "get_system_metrics e a =
     (case handle_metrics (ce_readings e) (ce_now e) (en_sql (ce_env e)) (ap_sniffer a) (Some (ap_acc a)) (Some (w_db (ap_world a))) of
        (r, d) \<Rightarrow> (answer R_Metrics r, a\<lparr>ap_world := (ap_world a)\<lparr>w_db := opt (w_db (ap_world a)) d\<rparr>\<rparr>))"

section \<open>The router\<close>

fun serve :: "'t meta_op \<Rightarrow> 's call_env \<Rightarrow> api_call \<Rightarrow> ('t, 's) app \<Rightarrow> reply result \<times> ('t, 's) app" where
  "serve gm e GetPorts = get_ports e"
| "serve gm e (GetPortHistory port hours) = get_port_history e port hours"
| "serve gm e GetBlocked = get_blocked e"
| "serve gm e (GetTopTalkers hours limit) = get_talkers e hours limit"
| "serve gm e (GetAuditLogs limit) = get_logs e limit"
| "serve gm e (GetThreatGeo min_risk) = get_threat_geo gm e min_risk"
| "serve gm e GetThreatCountries = get_threat_countries gm e"
| "serve gm e (GetThreatTimeline hours) = get_threat_timeline gm e hours"
| "serve gm e GetPreferences = get_preferences e"
| "serve gm e GetHealth = get_health e"
| "serve gm e GetInfo = get_info e"
| "serve gm e GetSystemMetrics = get_system_metrics e"
| "serve gm e GetApprovals = on_world R_Approvals (api_get_approvals (ce_env e))"
| "serve gm e (SetPreferences prefs) = post_preferences e prefs"
| "serve gm e (PostBlock port protocol) = on_world R_Firewall (api_block_port (ce_env e) port protocol)"
| "serve gm e (PostUnblock port) = on_world R_Firewall (api_unblock_port (ce_env e) port)"
| "serve gm e (PostApproval pid reason app_name) = on_world R_Approval (api_request_approval (ce_env e) pid reason app_name)"
| "serve gm e (PostResolve i status) = on_world R_Approval (api_resolve_approval (ce_env e) i status)"

section \<open>What a call may change\<close>

text \<open>No port is blocked twice, no two approvals share an identifier, no two preferences a key.\<close>

definition keys_ok :: "db \<Rightarrow> bool" where
  "keys_ok d \<longleftrightarrow> blocked_ok d \<and> distinct (map ap_id (t_approvals d)) \<and> prefs_ok d"

text \<open>
  \<open>frame l b p f d d'\<close>: from \<open>d\<close> to \<open>d'\<close> the audit log has grown only if \<open>l\<close>, and the blocked
  ports, approvals and preferences have changed only if \<open>b\<close>, \<open>p\<close> and \<open>f\<close>; nothing else has, and keys have
  stayed unique.
\<close>

definition frame :: "bool \<Rightarrow> bool \<Rightarrow> bool \<Rightarrow> bool \<Rightarrow> db \<Rightarrow> db \<Rightarrow> bool" where
  "frame l b p f d d' \<longleftrightarrow> (b \<or> t_blocked d' = t_blocked d) \<and> (p \<or> t_approvals d' = t_approvals d) \<and> (f \<or> t_prefs d' = t_prefs d)
     \<and> t_traffic d' = t_traffic d \<and> t_process d' = t_process d \<and> t_config d' = t_config d \<and> t_layouts d' = t_layouts d
     \<and> prefix (t_audit d) (t_audit d') \<and> (l \<or> t_audit d' = t_audit d)
     \<and> (keys_ok d \<longrightarrow> keys_ok d')"

lemma frame_refl [simp, intro]: "frame l b p f d d"
  by (simp add: frame_def)

lemma keys_ok_same: "t_blocked d' = t_blocked d \<Longrightarrow> t_approvals d' = t_approvals d \<Longrightarrow> t_prefs d' = t_prefs d \<Longrightarrow> keys_ok d' = keys_ok d"
  by (simp add: keys_ok_def blocked_ok_def prefs_ok_def)

lemma frame_calls [simp, intro]: "frame l b p f d (d\<lparr>db_calls := n\<rparr>)"
  using keys_ok_same [of "d\<lparr>db_calls := n\<rparr>" d] by (simp add: frame_def)

lemma frame_trans: "frame l b p f d1 d2 \<Longrightarrow> frame l b p f d2 d3 \<Longrightarrow> frame l b p f d1 d3"
  unfolding frame_def by (elim conjE, intro conjI; metis prefix_order.trans)

lemma frame_mono: "frame l b p f d d' \<Longrightarrow> l \<le> l' \<Longrightarrow> b \<le> b' \<Longrightarrow> p \<le> p' \<Longrightarrow> f \<le> f' \<Longrightarrow> frame l' b' p' f' d d'"
  unfolding frame_def le_bool_def by (elim conjE, intro conjI) (blast | assumption)+

named_theorems frames

lemma frame_session: "session q g d = (r, d') \<Longrightarrow> (\<And>n r d'. g (d\<lparr>db_calls := n\<rparr>) = (r, d') \<Longrightarrow> frame l b p f d d') \<Longrightarrow>
    frame l b p f d d'"
  using session_cases [of q g d r d'] by auto

lemma frame_read: "session q (\<lambda>d. (Inr (g d), d)) d = (r, d') \<Longrightarrow> frame l b p f d d'"
  by (drule read_session) simp

lemma frame_audit [frames]: "insert_audit_log q now x d = (r, d') \<Longrightarrow> frame True b p f d d'"
  unfolding insert_audit_log_def by (erule frame_session) (auto simp: frame_def keys_ok_def blocked_ok_def prefs_ok_def)

lemma frame_add_blocked [frames]: "add_blocked_port q now port btype reason d = (r, d') \<Longrightarrow> frame l True p f d d'"
  unfolding add_blocked_port_def
  by (erule frame_session) (auto simp: frame_def keys_ok_def blocked_ok_def prefs_ok_def upsert_distinct)

lemma frame_remove_blocked [frames]: "remove_blocked_port q port d = (r, d') \<Longrightarrow> frame l True p f d d'"
  unfolding remove_blocked_port_def
  by (erule frame_session) (auto simp: frame_def keys_ok_def blocked_ok_def prefs_ok_def distinct_map inj_on_def)

lemma frame_create_approval [frames]:
  "create_analyst_approval q now act target reason risk d = (r, d') \<Longrightarrow> sql_ok q \<Longrightarrow> frame l b True f d d'"
  unfolding create_analyst_approval_def
  by (erule frame_session) (auto simp: frame_def Let_def keys_ok_def blocked_ok_def prefs_ok_def fresh_id)

lemma frame_update_approval [frames]: "update_approval_status q now i st who d = (r, d') \<Longrightarrow> frame l b True f d d'"
proof -
  have "map ap_id (map (\<lambda>r. if ap_id r = i then r\<lparr>ap_status := st, ap_resolved_by := Some who, ap_resolved_at := Some now\<rparr> else r) xs) =
      map ap_id xs" for xs :: "analyst_approval list" by (induction xs) auto
  then show "update_approval_status q now i st who d = (r, d') \<Longrightarrow> frame l b True f d d'"
    unfolding update_approval_status_def
    by (elim frame_session) (auto simp: frame_def keys_ok_def blocked_ok_def prefs_ok_def simp del: map_map split: if_splits)
qed

lemma frame_set_preference [frames]: "set_user_preference q k v d = (r, d') \<Longrightarrow> frame l b p True d d'"
  unfolding set_user_preference_def
  by (erule frame_session) (auto simp: frame_def keys_ok_def blocked_ok_def prefs_ok_def upsert_distinct)

lemma frame_set_preferences [frames]: "set_preferences q xs d = (r, d') \<Longrightarrow> frame l b p True d d'"
proof (induction q xs d rule: set_preferences.induct)
  case (2 q k v xs d)
  obtain r1 d1 where s: "set_user_preference q k v d = (r1, d1)" by (cases "set_user_preference q k v d")
  show ?case
  proof (cases r1)
    case (Inl err)
    with 2(2) s frame_set_preference [OF s] show ?thesis by simp
  next
    case (Inr u)
    with 2(2) s have "set_preferences q xs d1 = (r, d')" by simp
    from frame_trans [OF frame_set_preference [OF s] 2(1) [OF s [symmetric] Inr this]] show ?thesis .
  qed
qed simp

text \<open>Events in the wired bus only write to the audit log.\<close>

lemma publish_frame:
  assumes "w_bus w = register_all new_bus"
    and "class_of ev \<in> {C_FirewallUpdated, C_ApprovalRequested, C_ApprovalResolved}" and "publish_event e ev w = (r, w')"
  shows "w_fw w' = w_fw w \<and> w_bus w' = w_bus w \<and> frame True b p f (w_db w) (w_db w')"
proof (cases ev)
  case (FirewallUpdated x)
  have "snd (publish_event e ev w) = snd (on_firewall_updated e x w)"
    using assms(1) by (simp add: FirewallUpdated publish_event_def publish_def bus_wired on_firewall_updated_def swallow_def)
  moreover have "\<exists>y. snd (on_firewall_updated e x w) = snd (audit e y w)"
    unfolding on_firewall_updated_def swallow_def snd_conv by (rule exI) (rule refl)
  ultimately obtain y where "w' = snd (audit e y w)" using assms(3) by (metis snd_conv)
  then show ?thesis by (auto simp: audit_def db_do_def split: prod.splits dest: frame_audit)
qed (use assms publish_other [OF assms(1)] in auto)

text \<open>The same for a world: the firewall has changed only if \<open>b\<close>, and the bus is wired as before.\<close>

definition wframe :: "bool \<Rightarrow> bool \<Rightarrow> bool \<Rightarrow> bool \<Rightarrow> 's world \<Rightarrow> 's world \<Rightarrow> bool" where
  "wframe l b p f w w' \<longleftrightarrow> (b \<or> w_fw w' = w_fw w) \<and> w_bus w' = w_bus w \<and> frame l b p f (w_db w) (w_db w')"

lemma wframe_refl [simp, intro]: "wframe l b p f w w"
  by (simp add: wframe_def)

lemma wframe_trans: "wframe l b p f w1 w2 \<Longrightarrow> wframe l b p f w2 w3 \<Longrightarrow> wframe l b p f w1 w3"
  by (auto simp: wframe_def intro: frame_trans)

lemma wframe_db: "db_do op w = (r, w') \<Longrightarrow> (\<And>r d'. op (w_db w) = (r, d') \<Longrightarrow> frame l b p f (w_db w) d') \<Longrightarrow> wframe l b p f w w'"
  by (auto simp: db_do_cases wframe_def)

lemma wframe_fw: "fw_do op w = (r, w') \<Longrightarrow> wframe l True p f w w'"
  by (auto simp: fw_do_cases wframe_def)

lemma wframe_then:
  assumes "and_then m g w = (r, w')" and "\<And>r w1. m w = (r, w1) \<Longrightarrow> wframe l b p f w w1"
    and "\<And>x w1. w_bus w1 = w_bus w \<Longrightarrow> g x w1 = (r, w') \<Longrightarrow> wframe l b p f w1 w'"
  shows "wframe l b p f w w'"
  using assms(1) unfolding and_then_cases
proof (elim disjE exE conjE)
  fix x w1
  assume "m w = (Inr x, w1)" "g x w1 = (r, w')"
  with assms(2) [OF this(1)] assms(3) [of w1 x] show ?thesis by (auto simp: wframe_def intro: frame_trans)
qed (use assms(2) in auto)

lemma wframe_publish: "publish_event e ev w = (r, w') \<Longrightarrow> w_bus w = register_all new_bus \<Longrightarrow>
    class_of ev \<in> {C_FirewallUpdated, C_ApprovalRequested, C_ApprovalResolved} \<Longrightarrow> wframe True b p f w w'"
  using publish_frame [of w ev e r w' b p f] by (simp add: wframe_def)

lemma wframe_audit: "audit e x w = (r, w') \<Longrightarrow> wframe True b p f w w'"
  unfolding audit_def by (erule wframe_db) (rule frame_audit)

lemmas leaf_frames = frame_add_blocked frame_remove_blocked frame_update_approval

lemma wframe_block: "w_bus w = register_all new_bus \<Longrightarrow> handle_block e c w = (r, w') \<Longrightarrow> wframe True True False False w w'"
  unfolding handle_block_def
  by (auto split: option.splits if_splits elim!: wframe_then wframe_fw simp: yield_val_def)
    (erule wframe_db, erule leaf_frames | erule wframe_publish, assumption, simp)+

lemma wframe_unblock: "w_bus w = register_all new_bus \<Longrightarrow> handle_unblock e port w = (r, w') \<Longrightarrow> wframe True True False False w w'"
  unfolding handle_unblock_def
  by (auto split: option.splits if_splits elim!: wframe_then wframe_fw simp: yield_val_def)
    (erule wframe_db, erule leaf_frames | erule wframe_publish, assumption, simp)+

lemma wframe_request: "sql_ok (en_sql e) \<Longrightarrow> w_bus w = register_all new_bus \<Longrightarrow> handle_request e c w = (r, w') \<Longrightarrow> wframe True False True False w w'"
  unfolding handle_request_def
  by (auto elim!: wframe_then wframe_audit simp: yield_val_def)
    (erule wframe_db, erule frame_create_approval, assumption | erule wframe_publish, assumption, simp)+

lemma wframe_resolve: "w_bus w = register_all new_bus \<Longrightarrow> handle_resolve e c w = (r, w') \<Longrightarrow> wframe True False True False w w'"
  unfolding handle_resolve_def
  by (auto elim!: wframe_then wframe_audit split: if_splits simp: yield_val_def)
    (erule wframe_db, erule leaf_frames | erule wframe_publish, assumption, simp)+

section \<open>Routes and their tables\<close>

fun blocks :: "api_call \<Rightarrow> bool" where
  "blocks (PostBlock port protocol) = True"
| "blocks (PostUnblock port) = True"
| "blocks _ = False"

fun approves :: "api_call \<Rightarrow> bool" where
  "approves (PostApproval pid reason app_name) = True"
| "approves (PostResolve i status) = True"
| "approves _ = False"

fun prefers :: "api_call \<Rightarrow> bool" where
  "prefers (SetPreferences prefs) = True"
| "prefers _ = False"

definition reads :: "api_call \<Rightarrow> bool" where
  "reads c \<longleftrightarrow> \<not> blocks c \<and> \<not> approves c \<and> \<not> prefers c"

text \<open>What the traffic side keeps: the history and the counters; only the threat service changes.\<close>

definition aframe :: "('t, 's) app \<Rightarrow> ('t, 's) app \<Rightarrow> bool" where
  "aframe a a' \<longleftrightarrow> ac_cache (ap_acc a') = ac_cache (ap_acc a) \<and> ac_metrics (ap_acc a') = ac_metrics (ap_acc a)
     \<and> ap_engine a' = ap_engine a \<and> ap_sniffer a' = ap_sniffer a"

lemma aframe_refl [simp]: "aframe a a" and aframe_world [simp]: "aframe a (a\<lparr>ap_world := w\<rparr>)"
  by (simp_all add: aframe_def)

lemma on_db_frame:
  assumes "on_db g op a = (r, a')" and "\<And>r d'. op (w_db (ap_world a)) = (r, d') \<Longrightarrow> frame l b p f (w_db (ap_world a)) d'"
  shows "aframe a a' \<and> wframe l b p f (ap_world a) (ap_world a')"
  using assms by (auto simp: on_db_def db_do_def wframe_def split: prod.splits)

lemma on_world_frame:
  assumes "on_world g op a = (r, a')" and "\<And>r w'. op (ap_world a) = (r, w') \<Longrightarrow> wframe l b p f (ap_world a) w'"
  shows "aframe a a' \<and> wframe l b p f (ap_world a) (ap_world a')"
  using assms by (auto simp: on_world_def split: prod.splits)

lemma acc_frame: "handle_geo gm now ts k (Some acc) = (rows, x) \<Longrightarrow> ac_cache (of_acc x acc) = ac_cache acc \<and> ac_metrics (of_acc x acc) = ac_metrics acc"
  "handle_countries gm now ts (Some acc) = (d, x) \<Longrightarrow> ac_cache (of_acc x acc) = ac_cache acc \<and> ac_metrics (of_acc x acc) = ac_metrics acc"
  "handle_timeline gm now now' ts hours (Some acc) = (bs, x) \<Longrightarrow> ac_cache (of_acc x acc) = ac_cache acc \<and> ac_metrics (of_acc x acc) = ac_metrics acc"
  by (auto simp: handle_geo_def handle_countries_def handle_timeline_def of_acc_def split: prod.splits)

lemma metrics_frame: "handle_metrics v now q sn acc (Some d) = (r, x) \<Longrightarrow> frame False False False False d (opt d x)"
  by (auto simp: handle_metrics_def opt_def get_blocked_ports_def dest: frame_read split: sum.splits prod.splits option.splits)

lemma read_frames:
  "repo_get_traffic_history q now port h d = (r1, d') \<Longrightarrow> frame l b p f d d'"
  "repo_get_blocked_ports q d = (r2, d') \<Longrightarrow> frame l b p f d d'"
  "repo_get_top_talkers q now h n d = (r3, d') \<Longrightarrow> frame l b p f d d'"
  "repo_get_audit_logs q n d = (r4, d') \<Longrightarrow> frame l b p f d d'"
  "repo_get_user_preferences q d = (r5, d') \<Longrightarrow> frame l b p f d d'"
  "get_pending_approvals q d = (r6, d') \<Longrightarrow> frame l b p f d d'"
  unfolding repo_get_traffic_history_def get_traffic_history_def repo_get_blocked_ports_def get_blocked_ports_def
    repo_get_top_talkers_def get_top_talkers_def repo_get_audit_logs_def get_audit_logs_def
    repo_get_user_preferences_def get_user_preferences_def get_pending_approvals_def
  by (erule frame_read)+

text \<open>One call.\<close>

lemma serve_frame:
  assumes "w_bus (ap_world a) = register_all new_bus" and "serve gm e c a = (r, a')" and "sql_ok (en_sql (ce_env e))"
  shows "aframe a a' \<and> wframe (\<not> reads c) (blocks c) (approves c) (prefers c) (ap_world a) (ap_world a')"
proof (cases c)
  case (PostBlock port protocol)
  have "wframe True True False False (ap_world a) w'" if "api_block_port (ce_env e) port protocol (ap_world a) = (x, w')" for x w'
    using that wframe_block [OF assms(1)] by (auto simp: api_block_port_def split: if_splits prod.splits sum.splits)
  with assms(2) PostBlock show ?thesis by (simp add: reads_def) (erule on_world_frame, simp)
next
  case (PostUnblock port)
  have "wframe True True False False (ap_world a) w'" if "api_unblock_port (ce_env e) port (ap_world a) = (x, w')" for x w'
    using that wframe_unblock [OF assms(1)] by (auto simp: api_unblock_port_def split: if_splits)
  with assms(2) PostUnblock show ?thesis by (simp add: reads_def) (erule on_world_frame, simp)
next
  case (PostApproval pid reason app_name)
  have "wframe True False True False (ap_world a) w'" if "api_request_approval (ce_env e) pid reason app_name (ap_world a) = (x, w')" for x w'
    using that wframe_request [OF assms(3,1)] by (auto simp: api_request_approval_def split: if_splits)
  with assms(2) PostApproval show ?thesis by (simp add: reads_def) (erule on_world_frame, simp)
next
  case (PostResolve i status)
  have "wframe True False True False (ap_world a) w'" if "api_resolve_approval (ce_env e) i status (ap_world a) = (x, w')" for x w'
    using that wframe_resolve [OF assms(1)] by (auto simp: api_resolve_approval_def split: if_splits)
  with assms(2) PostResolve show ?thesis by (simp add: reads_def) (erule on_world_frame, simp)
next
  case (SetPreferences prefs)
  with assms(2) show ?thesis
    by (simp add: reads_def post_preferences_def) (erule on_db_frame, erule frame_set_preferences)
next
  case GetApprovals
  have "wframe False False False False (ap_world a) w'" if "api_get_approvals (ce_env e) (ap_world a) = (x, w')" for x w'
    using that unfolding api_get_approvals_def by (rule wframe_db) (erule read_frames)
  with assms(2) GetApprovals show ?thesis by (simp add: reads_def) (erule on_world_frame, simp)
next
  case (GetPortHistory port hours)
  with assms(2) show ?thesis
    by (simp add: reads_def get_port_history_def) (erule on_db_frame, erule read_frames(1))
next
  case GetBlocked
  with assms(2) show ?thesis
    by (simp add: reads_def get_blocked_def) (erule on_db_frame, erule read_frames(2))
next
  case (GetTopTalkers hours limit)
  with assms(2) show ?thesis
    by (simp add: reads_def get_talkers_def) (erule on_db_frame, erule read_frames(3))
next
  case (GetAuditLogs limit)
  with assms(2) show ?thesis
    by (simp add: reads_def get_logs_def) (erule on_db_frame, erule read_frames(4))
next
  case GetPreferences
  with assms(2) show ?thesis
    by (simp add: reads_def get_preferences_def) (erule on_db_frame, erule read_frames(5))
next
  case (GetThreatGeo k)
  with assms(2) show ?thesis by (auto simp: get_threat_geo_def aframe_def dest: acc_frame split: prod.splits)
next
  case GetThreatCountries
  with assms(2) show ?thesis by (auto simp: get_threat_countries_def aframe_def dest: acc_frame split: prod.splits)
next
  case (GetThreatTimeline hours)
  with assms(2) show ?thesis by (auto simp: get_threat_timeline_def aframe_def dest: acc_frame split: prod.splits)
next
  case GetSystemMetrics
  with assms(2) show ?thesis
    by (auto simp: get_system_metrics_def reads_def wframe_def dest: metrics_frame split: prod.splits)
qed (use assms(2) in \<open>auto simp: reads_def get_ports_def get_health_def get_info_def\<close>)

section \<open>Sequences of calls\<close>

text \<open>Calls with what each of them reads, in the order they are served.\<close>

fun serve_all :: "'t meta_op \<Rightarrow> ('s call_env \<times> api_call) list \<Rightarrow> ('t, 's) app \<Rightarrow> ('t, 's) app" where
  "serve_all gm [] a = a"
| "serve_all gm ((e, c) # xs) a = serve_all gm xs (snd (serve gm e c a))"

lemma aframe_trans: "aframe a b \<Longrightarrow> aframe b c \<Longrightarrow> aframe a c"
  by (simp add: aframe_def)

lemma wframe_mono: "wframe l b p f w w' \<Longrightarrow> l \<le> l' \<Longrightarrow> b \<le> b' \<Longrightarrow> p \<le> p' \<Longrightarrow> f \<le> f' \<Longrightarrow> wframe l' b' p' f' w w'"
  by (auto simp: wframe_def intro: frame_mono)

lemma serve_all_frame:
  "w_bus (ap_world a) = register_all new_bus \<Longrightarrow> \<forall>x \<in> set xs. sql_ok (en_sql (ce_env (fst x))) \<Longrightarrow>
    aframe a (serve_all gm xs a) \<and> wframe (\<exists>x \<in> set xs. \<not> reads (snd x)) (\<exists>x \<in> set xs. blocks (snd x))
      (\<exists>x \<in> set xs. approves (snd x)) (\<exists>x \<in> set xs. prefers (snd x)) (ap_world a) (ap_world (serve_all gm xs a))"
proof (induction xs arbitrary: a)
  case (Cons x xs)
  obtain e c where x: "x = (e, c)" by (cases x)
  obtain r a1 where s: "serve gm e c a = (r, a1)" by (cases "serve gm e c a")
  have f: "aframe a a1" "wframe (\<not> reads c) (blocks c) (approves c) (prefers c) (ap_world a) (ap_world a1)"
    using serve_frame [OF Cons.prems(1) s] Cons.prems(2) x by auto
  then have "w_bus (ap_world a1) = register_all new_bus" using Cons.prems(1) by (simp add: wframe_def)
  note ih = Cons.IH [OF this]
  show ?case
    using f ih Cons.prems(2)
    by (auto simp: x s intro!: aframe_trans [OF f(1)] wframe_trans [OF wframe_mono [OF f(2)] wframe_mono])
qed simp

section \<open>Properties\<close>

text \<open>
  C13: what the API can change. Whatever calls are served in whatever order, with failures of any
  of them: ports are only blocked or unblocked, in the firewall and in the table, by the two
  control routes; approvals change only through their routes and preferences only through theirs;
  the stored traffic and the live history and counters never change, the audit log only grows, and
  not at all if all calls are reads; and no port, approval or preference is ever stored twice.
\<close>

theorem api_effects:
  assumes "w_bus (ap_world a) = register_all new_bus" and "\<forall>x \<in> set xs. sql_ok (en_sql (ce_env (fst x)))"
    and "serve_all gm xs a = a'" and "keys_ok (w_db (ap_world a))"
  shows "((\<exists>x \<in> set xs. blocks (snd x)) \<or>
        (t_blocked (w_db (ap_world a')) = t_blocked (w_db (ap_world a)) \<and> w_fw (ap_world a') = w_fw (ap_world a)))
    \<and> ((\<exists>x \<in> set xs. approves (snd x)) \<or> t_approvals (w_db (ap_world a')) = t_approvals (w_db (ap_world a)))
    \<and> ((\<exists>x \<in> set xs. prefers (snd x)) \<or> t_prefs (w_db (ap_world a')) = t_prefs (w_db (ap_world a)))
    \<and> t_traffic (w_db (ap_world a')) = t_traffic (w_db (ap_world a))
    \<and> ac_cache (ap_acc a') = ac_cache (ap_acc a) \<and> ac_metrics (ap_acc a') = ac_metrics (ap_acc a)
    \<and> prefix (t_audit (w_db (ap_world a))) (t_audit (w_db (ap_world a')))
    \<and> ((\<exists>x \<in> set xs. \<not> reads (snd x)) \<or> t_audit (w_db (ap_world a')) = t_audit (w_db (ap_world a)))
    \<and> keys_ok (w_db (ap_world a'))"
  using serve_all_frame [OF assms(1,2), of gm] assms(4)
  unfolding assms(3) wframe_def frame_def aframe_def by blast

definition idle_readings :: system_readings where
  "idle_readings = \<lparr>sr_platform = ''Linux'', sr_uptime = 0, sr_cpu = 0, sr_memory_percent = 0, sr_rss = 0, sr_threads = 1,
     sr_sent = 0, sr_received = 0, sr_connections = Inr []\<rparr>"

definition linux_call :: "string list list call_env" where
  "linux_call = \<lparr>ce_env = linux_env plain_sql, ce_now = 0, ce_now' = 0, ce_lookup = (\<lambda>_. (0, 0)), ce_readings = idle_readings\<rparr>"

definition linux_app :: "(unit, string list list) app" where
  "linux_app = \<lparr>ap_world = linux_world, ap_acc = new_accumulator None, ap_engine = new_policy_engine, ap_sniffer = None\<rparr>"

theorem api_effects_witness:
  "let a' = serve_all no_service [(linux_call, GetBlocked), (linux_call, PostApproval 42 ''r'' None), (linux_call, GetSystemMetrics)] linux_app
   in t_blocked (w_db (ap_world a')) = [] \<and> w_fw (ap_world a') = [] \<and> keys_ok (w_db (ap_world a'))"
proof -
  let ?xs = "[(linux_call, GetBlocked), (linux_call, PostApproval 42 ''r'' None), (linux_call, GetSystemMetrics)]"
  have "keys_ok (w_db (ap_world linux_app))"
    by (simp add: linux_app_def linux_world_def keys_ok_def blocked_ok_def prefs_ok_def empty_db_def)
  moreover have "w_bus (ap_world linux_app) = register_all new_bus" by (simp add: linux_app_def linux_world_def)
  moreover have "\<forall>x \<in> set ?xs. sql_ok (en_sql (ce_env (fst x)))" by (simp add: linux_call_def linux_env_def plain_sql_ok)
  ultimately have "keys_ok (w_db (ap_world (serve_all no_service ?xs linux_app)))
    \<and> t_blocked (w_db (ap_world (serve_all no_service ?xs linux_app))) = t_blocked (w_db (ap_world linux_app))
    \<and> w_fw (ap_world (serve_all no_service ?xs linux_app)) = w_fw (ap_world linux_app)"
    using api_effects [of linux_app ?xs no_service "serve_all no_service ?xs linux_app"] by simp
  then show ?thesis by (simp add: Let_def linux_app_def linux_world_def empty_db_def)
qed

end
