(* ===== verification/Enforcement.thy ===== *)
theory Enforcement
  imports Api Dispatcher
begin

text \<open>
  What the table of blocked ports says and what the firewall does. The operations that reach the
  firewall are the two control routes (\<open>presentation/api/control.py\<close>,
  \<open>application/commands/firewall.py\<close>) and the response to a policy
  (\<open>application/events/handlers.py\<close>). The locale states what they need of a bridge; it is
  interpreted on the Linux bridge.
\<close>

section \<open>The contract\<close>

definition listed :: "db \<Rightarrow> int set" where
  "listed d = bp_port ` set (t_blocked d)"

text \<open>
  Two laws of a bridge, each about states with a property the bridge keeps: what the firewall
  holds besides our rules stays as it is, and the ports it drops because of our rules change by
  exactly the port of a successful operation.
\<close>

locale firewall_frame = firewall_adapter "fw_block ops" "fw_unblock ops" "fw_cleanup ops"
  for ops :: "'s fw_ops" +
  fixes others :: "'s \<Rightarrow> 'v"
    and answers :: "'s \<Rightarrow> bool"
  assumes block_others: "answers k \<Longrightarrow> fw_block ops p proto k = (r, k') \<Longrightarrow> answers k' \<and> others k' = others k"
    and unblock_others: "answers k \<Longrightarrow> fw_unblock ops p k = (r, k') \<Longrightarrow> answers k' \<and> others k' = others k"

locale port_firewall = firewall_adapter "fw_block ops" "fw_unblock ops" "fw_cleanup ops"
  for ops :: "'s fw_ops" +
  fixes installed :: "'s \<Rightarrow> int set"
    and usable :: "'s \<Rightarrow> bool"
  assumes block_ports: "usable k \<Longrightarrow> fw_block ops p proto k = (r, k') \<Longrightarrow>
      usable k' \<and> installed k' = (if r = Inr True then insert p (installed k) else installed k)"
    and unblock_ports: "usable k \<Longrightarrow> fw_unblock ops p k = (r, k') \<Longrightarrow>
      usable k' \<and> installed k' = (if r = Inr True then installed k - {p} else installed k)"

text \<open>The table lists exactly the ports the firewall drops.\<close>

definition enforced :: "('s \<Rightarrow> int set) \<Rightarrow> ('s \<Rightarrow> bool) \<Rightarrow> 's world \<Rightarrow> bool" where
  "enforced installed usable w \<longleftrightarrow> usable (w_fw w) \<and> installed (w_fw w) = listed (w_db w)"

text \<open>From \<open>w\<close> to \<open>w'\<close> the bus is as wired and the firewall's other content is the same.\<close>

definition spares :: "('s \<Rightarrow> 'v) \<Rightarrow> ('s \<Rightarrow> bool) \<Rightarrow> 's world \<Rightarrow> 's world \<Rightarrow> bool" where
  "spares others answers w w' \<longleftrightarrow> w_bus w' = w_bus w
     \<and> (answers (w_fw w) \<longrightarrow> answers (w_fw w') \<and> others (w_fw w') = others (w_fw w))"

lemma spares_refl [simp]: "spares others answers w w"
  by (simp add: spares_def)

lemma spares_trans: "spares others answers w1 w2 \<Longrightarrow> spares others answers w2 w3 \<Longrightarrow> spares others answers w1 w3"
  by (simp add: spares_def)

lemma spares_fw: "w_fw w' = w_fw w \<Longrightarrow> w_bus w' = w_bus w \<Longrightarrow> spares others answers w w'"
  by (simp add: spares_def)

section \<open>The table\<close>

lemma listed_same [simp]: "listed (d\<lparr>db_calls := n\<rparr>) = listed d"
  by (simp add: listed_def)

lemma listed_tables: "same_tables d d' \<Longrightarrow> listed d' = listed d"
  by (simp add: listed_def same_tables_def)

lemma upsert_key_set: "key new = k \<Longrightarrow> (\<And>r. key (upd r) = key r) \<Longrightarrow> key ` set (upsert key k upd new xs) = insert k (key ` set xs)"
  using arg_cong [OF upsert_keys [of key new k upd xs], of set] by (auto simp del: set_map simp: set_map [symmetric])

lemma listed_add: "reliable q \<Longrightarrow> \<exists>d'. add_blocked_port q now p btype reason d = (Inr (), d') \<and> listed d' = insert p (listed d)"
  by (simp add: add_blocked_port_def reliable_session listed_def upsert_key_set)

lemma listed_remove: "reliable q \<Longrightarrow> \<exists>d'. remove_blocked_port q p d = (Inr (), d') \<and> listed d' = listed d - {p}"
  by (auto simp: remove_blocked_port_def reliable_session listed_def)

section \<open>The commands\<close>

lemma publish_fw: "publish_event e (FirewallUpdated ev) w = (r, w') \<Longrightarrow> w_bus w = register_all new_bus \<Longrightarrow>
    r = Inr () \<and> w_fw w' = w_fw w \<and> w_bus w' = w_bus w \<and> listed (w_db w') = listed (w_db w)"
  using publish_firewall [of w e ev r w'] by (auto dest: listed_tables)

text \<open>A block the bridge accepts is listed and answered as a success.\<close>

lemma block_lists:
  assumes "reliable (en_sql e)" and "en_bridge e = Some ops" and "w_bus w = register_all new_bus"
    and "fw_block ops (bc_port c) (bc_protocol c) (w_fw w) = (Inr True, k)" and "handle_block e c w = (r, w')"
  shows "r = Inr (fw_answer True (bc_port c) ''block'') \<and> w_fw w' = k \<and> listed (w_db w') = insert (bc_port c) (listed (w_db w))"
proof -
  obtain d where d: "add_blocked_port (en_sql e) (tick e (w_db w)) (bc_port c) ''hard''
      (''User blocked '' @ bc_protocol c) (w_db w) = (Inr (), d)" "listed d = insert (bc_port c) (listed (w_db w))"
    using listed_add [OF assms(1)] by blast
  let ?ev = "FirewallUpdated \<lparr>fu_port = bc_port c, fu_action = ''block'', fu_protocol = bc_protocol c,
      fu_reason = bc_reason c, fu_success = True\<rparr>"
  obtain rp w3 where pub: "publish_event e ?ev (w\<lparr>w_fw := k, w_db := d\<rparr>) = (rp, w3)" by (rule surjective_pairing [THEN that])
  with publish_fw [OF pub] assms(3) have w3: "rp = Inr ()" "w_fw w3 = k" "listed (w_db w3) = listed d" by simp_all
  with assms(2,4,5) d(1) pub have "w' = w3" "r = Inr (fw_answer True (bc_port c) ''block'')"
    by (simp_all add: handle_block_def and_then_def fw_do_def db_do_def yield_val_def)
  with w3 d(2) show ?thesis by simp
qed

text \<open>Which operation of the bridge a command runs, whatever else fails.\<close>

lemma block_fw:
  assumes "en_bridge e = Some ops" and "w_bus w = register_all new_bus" and "handle_block e c w = (r, w')"
  shows "w_fw w' = snd (fw_block ops (bc_port c) (bc_protocol c) (w_fw w)) \<and> w_bus w' = w_bus w"
  using assms
  by (auto simp: handle_block_def and_then_cases fw_do_cases db_do_cases yield_val_def split: if_splits dest!: publish_fw)

lemma unblock_fw:
  assumes "en_bridge e = Some ops" and "w_bus w = register_all new_bus" and "handle_unblock e p w = (r, w')"
  shows "w_fw w' = snd (fw_unblock ops p (w_fw w)) \<and> w_bus w' = w_bus w"
  using assms
  by (auto simp: handle_unblock_def and_then_cases fw_do_cases db_do_cases yield_val_def split: if_splits dest!: publish_fw)

lemma swallow_cases: "swallow m w = (x, w') \<longleftrightarrow> x = None \<and> (\<exists>r. m w = (r, w'))"
  by (cases "m w") (auto simp: swallow_def)

lemma policy_fw:
  assumes "en_bridge e = Some ops" and "on_policy_evaluated e ev w = (x, w')"
  shows "w_bus w' = w_bus w
    \<and> w_fw w' = (if pv_action ev = ''block'' then snd (fw_block ops (pv_port ev) ''tcp'' (w_fw w)) else w_fw w)"
proof (cases "pv_action ev = ''block''")
  case True
  with assms show ?thesis
    by (auto simp: on_policy_evaluated_def swallow_cases and_then_cases fw_do_cases db_do_cases dest!: audit_frame)
next
  case False
  with assms show ?thesis
    by (auto simp: on_policy_evaluated_def swallow_cases and_then_cases db_do_cases split: if_splits dest!: audit_frame)
qed


lemma publish_policy: "w_bus w = register_all new_bus \<Longrightarrow>
    publish_event e (PolicyEvaluated ev) w = (Inr (), snd (on_policy_evaluated e ev w))"
  by (simp add: publish_event_def publish_def bus_wired on_policy_evaluated_def swallow_def)

section \<open>Turns of the dispatcher\<close>

text \<open>The dispatcher reaches the world only by publishing policy events.\<close>

lemma entry_world:
  assumes "P (ds_world st)" and "\<And>ev w. P w \<Longrightarrow> P (snd (publish_event (tn_env t) (PolicyEvaluated ev) w))"
  shows "P (ds_world (snd (dispatch_entry gm t i x st)))"
proof -
  obtain r a where p: "process_port_data gm (tn_sample t i) (e_port x) (e_bytes_in x) (e_bytes_out x) (e_pid x) (e_protocol x)
      (tn_now t) 0 ''0.0.0.0'' (ds_acc st) = (r, a)" by (rule surjective_pairing [THEN that])
  show ?thesis
  proof (cases r)
    case (Inl err)
    with p assms(1) show ?thesis by (simp add: dispatch_entry_def)
  next
    case (Inr s)
    obtain out e where v: "evaluate (tn_clock t i) (assign_remote (e_ip x) (e_risk x) s) (ds_engine st) = (out, e)"
      by (rule surjective_pairing [THEN that])
    show ?thesis
    proof (cases out)
      case None
      with p Inr v assms(1) show ?thesis by (simp add: dispatch_entry_def Let_def)
    next
      case (Some ev)
      obtain r' w where pub: "publish_event (tn_env t) (PolicyEvaluated ev) (ds_world st) = (r', w)"
        by (rule surjective_pairing [THEN that])
      then have "P w" using assms(2) [OF assms(1), of ev] by simp
      with p Inr v Some pub show ?thesis by (cases r') (simp_all add: dispatch_entry_def Let_def)
    qed
  qed
qed

lemma entries_world:
  assumes "\<And>ev w. P w \<Longrightarrow> P (snd (publish_event (tn_env t) (PolicyEvaluated ev) w))"
  shows "P (ds_world st) \<Longrightarrow> P (ds_world (snd (dispatch_entries gm t i xs st)))"
proof (induction xs arbitrary: i st)
  case (Cons x xs)
  have "P (ds_world (snd (dispatch_entry gm t i x st)))" using Cons.prems assms by (rule entry_world)
  with Cons.IH show ?case by (cases "dispatch_entry gm t i x st") (auto split: option.splits)
qed simp

lemma turn_world:
  assumes "\<And>ev w. P w \<Longrightarrow> P (snd (publish_event (tn_env t) (PolicyEvaluated ev) w))" and "P (ds_world st)"
  shows "P (ds_world (snd (dispatch_turn gm t key shm st)))"
proof (cases shm)
  case None
  with assms(2) show ?thesis by (simp add: dispatch_turn_def)
next
  case (Some m)
  have "P (ds_world (snd (dispatch_entries gm t 0 (read_all_active_ports key m) st)))" using assms by (rule entries_world)
  with Some show ?thesis
    by (cases "dispatch_entries gm t 0 (read_all_active_ports key m) st")
       (simp add: dispatch_turn_def Let_def split: option.splits)
qed

section \<open>What the clients keep\<close>

context port_firewall
begin

lemma block_enforced:
  assumes "reliable (en_sql e)" and "en_bridge e = Some ops" and "w_bus w = register_all new_bus"
    and w: "enforced installed usable w" and "handle_block e c w = (r, w')"
  shows "enforced installed usable w'"
proof -
  obtain r1 k where b: "fw_block ops (bc_port c) (bc_protocol c) (w_fw w) = (r1, k)" by (rule surjective_pairing [THEN that])
  have k: "usable k" "installed k = (if r1 = Inr True then insert (bc_port c) (listed (w_db w)) else listed (w_db w))"
    using block_ports [OF _ b] w by (auto simp: enforced_def)
  from block_outcome [OF b] show ?thesis
  proof
    assume "r1 = Inr True"
    with block_lists [OF assms(1-3) _ assms(5), of k] b k show ?thesis by (simp add: enforced_def)
  next
    assume "r1 = Inl FirewallRuleError"
    with assms(2,5) b k show ?thesis by (auto simp: enforced_def handle_block_def and_then_cases fw_do_cases)
  qed
qed

lemma unblock_enforced:
  assumes "reliable (en_sql e)" and "en_bridge e = Some ops" and "w_bus w = register_all new_bus"
    and w: "enforced installed usable w" and "handle_unblock e p w = (r, w')"
  shows "enforced installed usable w'"
proof -
  obtain r1 k where b: "fw_unblock ops p (w_fw w) = (r1, k)" by (rule surjective_pairing [THEN that])
  have k: "usable k" "installed k = (if r1 = Inr True then listed (w_db w) - {p} else listed (w_db w))"
    using unblock_ports [OF _ b] w by (auto simp: enforced_def)
  obtain d where "remove_blocked_port (en_sql e) p (w_db w) = (Inr (), d)" "listed d = listed (w_db w) - {p}"
    using listed_remove [OF assms(1)] by blast
  note d = this
  obtain ok where "r1 = Inr ok" using unblock_outcome [OF b] by blast
  then show ?thesis
  proof (cases ok)
    case True
    let ?ev = "FirewallUpdated \<lparr>fu_port = p, fu_action = ''unblock'', fu_protocol = ''TCP'',
        fu_reason = ''Manual unblock'', fu_success = True\<rparr>"
    obtain rp w3 where pub: "publish_event e ?ev (w\<lparr>w_fw := k, w_db := d\<rparr>) = (rp, w3)" by (rule surjective_pairing [THEN that])
    with publish_fw [OF pub] assms(3) have w3: "rp = Inr ()" "w_fw w3 = k" "listed (w_db w3) = listed d" by simp_all
    with \<open>r1 = Inr ok\<close> True assms(2,5) b d(1) pub have "w' = w3"
      by (simp add: handle_unblock_def and_then_def fw_do_def db_do_def yield_val_def)
    with w3 k d(2) \<open>r1 = Inr ok\<close> True show ?thesis by (simp add: enforced_def)
  next
    case False
    with \<open>r1 = Inr ok\<close> assms(2,5) b k show ?thesis
      by (auto simp: enforced_def handle_unblock_def and_then_cases fw_do_cases yield_val_def)
  qed
qed

lemma policy_enforced:
  assumes "reliable (en_sql e)" and "en_bridge e = Some ops" and w: "enforced installed usable w"
    and "on_policy_evaluated e ev w = (x, w')"
  shows "enforced installed usable w'"
proof (cases "pv_action ev = ''block''")
  case True
  obtain r1 k where b: "fw_block ops (pv_port ev) ''tcp'' (w_fw w) = (r1, k)" by (rule surjective_pairing [THEN that])
  have k: "usable k" "installed k = (if r1 = Inr True then insert (pv_port ev) (listed (w_db w)) else listed (w_db w))"
    using block_ports [OF _ b] w by (auto simp: enforced_def)
  from block_outcome [OF b] show ?thesis
  proof
    assume "r1 = Inr True"
    moreover obtain d where "add_blocked_port (en_sql e) (tick e (w_db w)) (pv_port ev) ''hard''
        ''Policy Engine Auto-Block'' (w_db w) = (Inr (), d)" "listed d = insert (pv_port ev) (listed (w_db w))"
      using listed_add [OF assms(1)] by blast
    ultimately show ?thesis using assms(2,4) True b k
      by (auto simp: enforced_def on_policy_evaluated_def swallow_cases and_then_cases fw_do_cases db_do_cases
          dest!: audit_frame listed_tables)
  next
    assume "r1 = Inl FirewallRuleError"
    with assms(2,4) True b k show ?thesis
      by (auto simp: enforced_def on_policy_evaluated_def swallow_cases and_then_cases fw_do_cases)
  qed
next
  case False
  have create: "listed d = listed (w_db w)"
    if "create_analyst_approval q now act target reason risk (w_db w) = (ri, d)" for q now act target reason risk ri d
    using that unfolding create_analyst_approval_def by (auto dest!: session_cases simp: Let_def listed_def)
  with False assms(4) w show ?thesis
    by (auto simp: enforced_def on_policy_evaluated_def swallow_cases and_then_cases db_do_cases split: if_splits
        dest!: audit_frame listed_tables create)
qed

end

section \<open>Calls of the API and turns of the dispatcher\<close>

lemma api_block_world: "api_block_port e port proto w = (r, w') \<Longrightarrow> w' = w \<or> (\<exists>c r'. handle_block e c w = (r', w'))"
  by (auto simp: api_block_port_def split: if_splits prod.splits sum.splits)

lemma api_unblock_world: "api_unblock_port e port w = (r, w') \<Longrightarrow> w' = w \<or> (\<exists>r'. handle_unblock e port w = (r', w'))"
  by (auto simp: api_unblock_port_def split: if_splits)

text \<open>A call blocks, unblocks, or leaves both the firewall and the table alone.\<close>

lemma serve_world:
  assumes "w_bus (ap_world a) = register_all new_bus" and "sql_ok (en_sql (ce_env e))" and "serve gm e c a = (r, a')"
  shows "(\<exists>cmd r'. handle_block (ce_env e) cmd (ap_world a) = (r', ap_world a'))
    \<or> (\<exists>p r'. handle_unblock (ce_env e) p (ap_world a) = (r', ap_world a'))
    \<or> (w_fw (ap_world a') = w_fw (ap_world a) \<and> w_bus (ap_world a') = w_bus (ap_world a)
        \<and> t_blocked (w_db (ap_world a')) = t_blocked (w_db (ap_world a)))"
proof (cases "blocks c")
  case True
  then consider port proto where "c = PostBlock port proto" | port where "c = PostUnblock port"
    by (cases c) auto
  then show ?thesis
  proof cases
    case 1
    with assms(3) obtain x where "api_block_port (ce_env e) port proto (ap_world a) = (x, ap_world a')"
      by (auto simp: on_world_def split: prod.splits)
    from api_block_world [OF this] show ?thesis by auto
  next
    case 2
    with assms(3) obtain x where "api_unblock_port (ce_env e) port (ap_world a) = (x, ap_world a')"
      by (auto simp: on_world_def split: prod.splits)
    from api_unblock_world [OF this] show ?thesis by auto
  qed
next
  case False
  with serve_frame [OF assms(1,3,2)] show ?thesis by (simp add: wframe_def frame_def)
qed

context port_firewall
begin

lemma serve_enforced:
  assumes "reliable (en_sql (ce_env e))" and "en_bridge (ce_env e) = Some ops"
    and "w_bus (ap_world a) = register_all new_bus" and "enforced installed usable (ap_world a)"
    and "serve gm e c a = (r, a')"
  shows "enforced installed usable (ap_world a')"
proof -
  have "sql_ok (en_sql (ce_env e))" using assms(1) by (simp add: reliable_def)
  from serve_world [OF assms(3) this assms(5)] show ?thesis
  proof (elim disjE exE conjE)
    fix cmd r' assume "handle_block (ce_env e) cmd (ap_world a) = (r', ap_world a')"
    with assms(1-4) show ?thesis by (rule block_enforced)
  next
    fix p r' assume "handle_unblock (ce_env e) p (ap_world a) = (r', ap_world a')"
    with assms(1-4) show ?thesis by (rule unblock_enforced)
  next
    assume "w_fw (ap_world a') = w_fw (ap_world a)" "t_blocked (w_db (ap_world a')) = t_blocked (w_db (ap_world a))"
    with assms(4) show ?thesis by (simp add: enforced_def listed_def)
  qed
qed

text \<open>A turn of the dispatcher, whatever its policies trigger.\<close>

lemma turn_enforced:
  assumes "reliable (en_sql (tn_env t))" and "en_bridge (tn_env t) = Some ops"
    and "w_bus (ds_world st) = register_all new_bus" and "enforced installed usable (ds_world st)"
  shows "w_bus (ds_world (snd (dispatch_turn gm t key shm st))) = register_all new_bus
    \<and> enforced installed usable (ds_world (snd (dispatch_turn gm t key shm st)))"
proof (rule turn_world [where P = "\<lambda>w. w_bus w = register_all new_bus \<and> enforced installed usable w"])
  show "w_bus (ds_world st) = register_all new_bus \<and> enforced installed usable (ds_world st)" using assms(3,4) ..
  fix ev w assume "w_bus w = register_all new_bus \<and> enforced installed usable w"
  with policy_enforced [OF assms(1,2) _ surjective_pairing, of w ev] policy_fw [OF assms(2) surjective_pairing, of ev w]
  show "w_bus (snd (publish_event (tn_env t) (PolicyEvaluated ev) w)) = register_all new_bus
      \<and> enforced installed usable (snd (publish_event (tn_env t) (PolicyEvaluated ev) w))"
    by (simp add: publish_policy)
qed

end

context firewall_frame
begin

lemma block_spares:
  assumes "en_bridge e = Some ops" and "w_bus w = register_all new_bus" and "handle_block e c w = (r, w')"
  shows "spares others answers w w'"
  using block_fw [OF assms] block_others [OF _ surjective_pairing] by (auto simp: spares_def)

lemma unblock_spares:
  assumes "en_bridge e = Some ops" and "w_bus w = register_all new_bus" and "handle_unblock e p w = (r, w')"
  shows "spares others answers w w'"
  using unblock_fw [OF assms] unblock_others [OF _ surjective_pairing] by (auto simp: spares_def)

lemma policy_spares: "en_bridge e = Some ops \<Longrightarrow> on_policy_evaluated e ev w = (x, w') \<Longrightarrow> spares others answers w w'"
  using policy_fw [of e ops ev w x w'] block_others [OF _ surjective_pairing] by (auto simp: spares_def split: if_splits)

lemma serve_spares:
  assumes "sql_ok (en_sql (ce_env e))" and "en_bridge (ce_env e) = Some ops"
    and "w_bus (ap_world a) = register_all new_bus" and "serve gm e c a = (r, a')"
  shows "spares others answers (ap_world a) (ap_world a')"
  using serve_world [OF assms(3,1,4)]
proof (elim disjE exE conjE)
  fix cmd r' assume "handle_block (ce_env e) cmd (ap_world a) = (r', ap_world a')"
  with assms(2,3) show ?thesis by (rule block_spares)
next
  fix p r' assume "handle_unblock (ce_env e) p (ap_world a) = (r', ap_world a')"
  with assms(2,3) show ?thesis by (rule unblock_spares)
qed (rule spares_fw)

lemma turn_spares:
  assumes "en_bridge (tn_env t) = Some ops" and "w_bus (ds_world st) = register_all new_bus"
  shows "spares others answers (ds_world st) (ds_world (snd (dispatch_turn gm t key shm st)))"
proof -
  have "w_bus (ds_world (snd (dispatch_turn gm t key shm st))) = register_all new_bus
      \<and> spares others answers (ds_world st) (ds_world (snd (dispatch_turn gm t key shm st)))"
  proof (rule turn_world [where P = "\<lambda>w. w_bus w = register_all new_bus \<and> spares others answers (ds_world st) w"])
    show "w_bus (ds_world st) = register_all new_bus \<and> spares others answers (ds_world st) (ds_world st)"
      using assms(2) by simp
    fix ev w assume w: "w_bus w = register_all new_bus \<and> spares others answers (ds_world st) w"
    have "spares others answers w (snd (on_policy_evaluated (tn_env t) ev w))"
      using assms(1) surjective_pairing by (rule policy_spares)
    with w show "w_bus (snd (publish_event (tn_env t) (PolicyEvaluated ev) w)) = register_all new_bus
        \<and> spares others answers (ds_world st) (snd (publish_event (tn_env t) (PolicyEvaluated ev) w))"
      by (auto simp: publish_policy intro: spares_trans) (simp add: spares_def)
  qed
  then show ?thesis ..
qed

end

section \<open>The Linux bridge\<close>

text \<open>Ports with a drop rule of ours for either protocol, and the rules that are not ours.\<close>

definition dropped_ports :: "('k \<Rightarrow> string list list) \<Rightarrow> 'k \<Rightarrow> int set" where
  "dropped_ports chain k = {p. \<exists>proto \<in> {''tcp'', ''udp''}. rule_spec ''Vigilant'' p proto \<in> set (chain k)}"

definition foreign_rules :: "('k \<Rightarrow> string list list) \<Rightarrow> (string list \<Rightarrow> string) \<Rightarrow> 'k \<Rightarrow> string list list" where
  "foreign_rules chain render k = filter (\<lambda>r. \<not> is_ours (render r)) (chain k)"

text \<open>The firewall answers as documented; it holds no rule of ours twice.\<close>

definition linux_answers ::
  "'k runner \<Rightarrow> linux_bridge \<Rightarrow> ('k \<Rightarrow> string list list) \<Rightarrow> (string list \<Rightarrow> string) \<Rightarrow> 'k \<Rightarrow> bool" where
  "linux_answers run b chain render k \<longleftrightarrow> iptables_ok run b chain render \<and> lx_compatible b"

definition linux_usable ::
  "'k runner \<Rightarrow> linux_bridge \<Rightarrow> ('k \<Rightarrow> string list list) \<Rightarrow> (string list \<Rightarrow> string) \<Rightarrow> 'k \<Rightarrow> bool" where
  "linux_usable run b chain render k \<longleftrightarrow> linux_answers run b chain render k
     \<and> (\<forall>p proto. count_list (chain k) (rule_spec ''Vigilant'' p proto) \<le> 1)"

lemma rule_spec_eq [simp]: "rule_spec a p x = rule_spec b q y \<longleftrightarrow> a = b \<and> p = q \<and> x = y"
  by (auto simp: rule_spec_def block_comment_def)

lemma count_remove1: "count_list (remove1 a xs) x = count_list xs x - (if a = x then 1 else 0)"
  by (induction xs) auto

lemma count_fold_remove1: "count_list (fold remove1 as xs) x = count_list xs x - count_list as x"
  by (induction as arbitrary: xs) (simp_all add: count_remove1)

lemma count_unblock: "count_list (unblock_specs p) (rule_spec ''Vigilant'' q proto) = (if p = q \<and> proto \<in> {''tcp'', ''udp''} then 1 else 0)"
  by (auto simp: unblock_specs_def)

lemma filter_remove1: "\<not> P a \<Longrightarrow> filter P (remove1 a xs) = filter P xs"
  by (induction xs) auto

lemma filter_fold_remove1: "\<forall>a \<in> set as. \<not> P a \<Longrightarrow> filter P (fold remove1 as xs) = filter P xs"
  by (induction as arbitrary: xs) (simp_all add: filter_remove1)

lemma dropped_count: "dropped_ports chain k = {p. \<exists>proto \<in> {''tcp'', ''udp''}. count_list (chain k) (rule_spec ''Vigilant'' p proto) \<noteq> 0}"
  by (simp add: dropped_ports_def count_list_0_iff)

lemma linux_block_chain:
  assumes "iptables_ok run b chain render" and "lx_compatible b" and "lx_block_port run b p proto k = (r, k')"
  obtains "chain k' = chain k" and "r = Inr True \<Longrightarrow> p \<in> dropped_ports chain k"
  | spec where "spec \<in> rule_spec ''Vigilant'' p ` {''tcp'', ''udp''}" and "r = Inr True" and "spec \<notin> set (chain k)"
    and "chain k' = spec # chain k"
proof (cases "valid_port p \<and> valid_protocol proto")
  case True
  then have v: "valid_port p" "valid_protocol proto" "str_lower proto \<in> {''tcp'', ''udp''}"
    by (simp_all add: valid_protocol_def)
  let ?spec = "rule_spec ''Vigilant'' p (str_lower proto)"
  note k' = lx_block_effect [OF assms(1,2) v(1,2) assms(3)]
  show thesis
  proof (cases "r = Inr True \<and> ?spec \<notin> set (chain k)")
    case True
    with k' v(3) show thesis by (intro that(2) [of ?spec]) simp_all
  next
    case False
    with k' v(3) show thesis by (intro that(1)) (auto simp: dropped_ports_def)
  qed
next
  case False
  from linux_fw.block_guard [OF this, of run b k] assms(3) have "r = Inl FirewallRuleError" "k' = k" by simp_all
  then show thesis by (intro that(1)) simp_all
qed

lemma linux_block_others:
  assumes "linux_answers run b chain render k" and "lx_block_port run b p proto k = (r, k')"
  shows "linux_answers run b chain render k' \<and> foreign_rules chain render k' = foreign_rules chain render k"
proof -
  have ipt: "iptables_ok run b chain render" "lx_compatible b" using assms(1) by (simp_all add: linux_answers_def)
  from ipt assms(2) show ?thesis
  proof (cases rule: linux_block_chain)
    case (2 spec)
    then have "is_ours (render spec)" using iptables_ours [OF ipt(1)] by auto
    with 2 assms(1) show ?thesis by (simp add: linux_answers_def foreign_rules_def)
  qed (use assms(1) in \<open>simp_all add: linux_answers_def foreign_rules_def\<close>)
qed

lemma linux_block_ports:
  assumes "linux_usable run b chain render k" and "lx_block_port run b p proto k = (r, k')"
  shows "linux_usable run b chain render k'
    \<and> dropped_ports chain k' = (if r = Inr True then insert p (dropped_ports chain k) else dropped_ports chain k)"
proof -
  have ipt: "iptables_ok run b chain render" "lx_compatible b" using assms(1) by (simp_all add: linux_usable_def linux_answers_def)
  from ipt assms(2) show ?thesis
  proof (cases rule: linux_block_chain)
    case (2 spec)
    then have "linux_usable run b chain render k'" "dropped_ports chain k' = insert p (dropped_ports chain k)"
      using assms(1) by (auto simp: linux_usable_def linux_answers_def dropped_ports_def count_list_0_iff)
    with 2 show ?thesis by simp
  qed (use assms(1) in \<open>auto simp: linux_usable_def linux_answers_def dropped_ports_def\<close>)
qed

lemma linux_unblock_others:
  assumes "linux_answers run b chain render k" and "lx_unblock_port run b p k = (r, k')"
  shows "linux_answers run b chain render k' \<and> foreign_rules chain render k' = foreign_rules chain render k"
proof -
  have ipt: "iptables_ok run b chain render" "lx_compatible b" using assms(1) by (simp_all add: linux_answers_def)
  have "chain k' = fold remove1 (unblock_specs p) (chain k)" using lx_unblock_effect [OF ipt, of p k] assms(2) by simp
  moreover have "\<forall>s \<in> set (unblock_specs p). is_ours (render s)" using iptables_ours [OF ipt(1)] by (simp add: unblock_specs_def)
  ultimately show ?thesis using ipt by (simp add: foreign_rules_def filter_fold_remove1 linux_answers_def)
qed

lemma linux_unblock_ports:
  assumes "linux_usable run b chain render k" and "lx_unblock_port run b p k = (r, k')"
  shows "linux_usable run b chain render k'
    \<and> dropped_ports chain k' = (if r = Inr True then dropped_ports chain k - {p} else dropped_ports chain k)"
proof -
  have ipt: "iptables_ok run b chain render" "lx_compatible b" using assms(1) by (simp_all add: linux_usable_def linux_answers_def)
  have r: "r = Inr True" using assms(2) ipt(2) by (simp add: lx_unblock_port_def)
  have c: "chain k' = fold remove1 (unblock_specs p) (chain k)" using lx_unblock_effect [OF ipt, of p k] assms(2) by simp
  have count: "count_list (chain k') (rule_spec ''Vigilant'' q proto) =
      (if p = q \<and> proto \<in> {''tcp'', ''udp''} then 0 else count_list (chain k) (rule_spec ''Vigilant'' q proto))" for q proto
    using assms(1) by (auto simp: c count_fold_remove1 count_unblock linux_usable_def le_Suc_eq)
  have "linux_usable run b chain render k'" using assms(1) by (auto simp: linux_usable_def linux_answers_def count)
  moreover have "dropped_ports chain k' = dropped_ports chain k - {p}" by (auto simp: dropped_count count)
  ultimately show ?thesis using r by simp
qed

interpretation linux_frame: firewall_frame "linux_ops run b" "foreign_rules chain render" "linux_answers run b chain render"
  for run b chain render
proof (intro firewall_frame.intro firewall_frame_axioms.intro linux_ops_adapter)
  fix k p proto r k'
  assume k: "linux_answers run b chain render k" and "fw_block (linux_ops run b) p proto k = (r, k')"
  from linux_block_others [OF k this(2) [unfolded linux_ops_def fw_ops.simps]]
  show "linux_answers run b chain render k' \<and> foreign_rules chain render k' = foreign_rules chain render k" .
next
  fix k p r k'
  assume k: "linux_answers run b chain render k" and "fw_unblock (linux_ops run b) p k = (r, k')"
  from linux_unblock_others [OF k this(2) [unfolded linux_ops_def fw_ops.simps]]
  show "linux_answers run b chain render k' \<and> foreign_rules chain render k' = foreign_rules chain render k" .
qed

interpretation linux_ports: port_firewall "linux_ops run b" "dropped_ports chain" "linux_usable run b chain render"
  for run b chain render
proof (intro port_firewall.intro port_firewall_axioms.intro linux_ops_adapter)
  fix k p proto r k'
  assume k: "linux_usable run b chain render k" and "fw_block (linux_ops run b) p proto k = (r, k')"
  from linux_block_ports [OF k this(2) [unfolded linux_ops_def fw_ops.simps]]
  show "linux_usable run b chain render k'
    \<and> dropped_ports chain k' = (if r = Inr True then insert p (dropped_ports chain k) else dropped_ports chain k)" .
next
  fix k p r k'
  assume k: "linux_usable run b chain render k" and "fw_unblock (linux_ops run b) p k = (r, k')"
  from linux_unblock_ports [OF k this(2) [unfolded linux_ops_def fw_ops.simps]]
  show "linux_usable run b chain render k'
    \<and> dropped_ports chain k' = (if r = Inr True then dropped_ports chain k - {p} else dropped_ports chain k)" .
qed

end
