(* ===== verification/Life.thy ===== *)
theory Life
  imports Enforcement Container
begin

text \<open>
  The life of the program: \<open>lifespan\<close> of \<open>app.py\<close> around everything that happens while it
  serves. The requests of the API, the turns of the dispatcher and the visits of the scheduler are
  events; each runs to its end on the container's state before the next starts.
\<close>

section \<open>Events\<close>

text \<open>
  A request comes with whether the capture process is alive at that time. The scheduler visits its
  immediate jobs once, then all jobs at every tick.
\<close>

datatype 's life_event =
    Request "'s call_env" bool api_call
  | Dispatch "'s turn" "buf option"
  | Jobs_Start tick
  | Jobs_Tick tick

text \<open>\<open>settings.hmac_key.encode("utf-8")\<close>, for the characters below 256 a string of the model has.\<close>

definition utf8_char :: "char \<Rightarrow> byte list" where
  "utf8_char c = (let n = of_char c :: nat in
     if n < 128 then [of_nat n] else [of_nat (192 + n div 64), of_nat (128 + n mod 64)])"

definition encode_utf8 :: "string \<Rightarrow> byte list" where
  "encode_utf8 s = concat (map utf8_char s)"

text \<open>
  The database has an engine from the first call that needs a session: calls are counted, so a
  call was made exactly if the count differs.
\<close>

definition keep_world :: "'s world \<Rightarrow> ('t, 's, 'p) container \<Rightarrow> ('t, 's, 'p) container" where
  "keep_world w c = c\<lparr>k_world := w, k_connected := (k_connected c \<or> db_calls (w_db w) \<noteq> db_calls (w_db (k_world c)))\<rparr>"

text \<open>What the routes, the dispatcher and the jobs get of the container.\<close>

definition app_of :: "bool \<Rightarrow> ('t, 's, 'p) container \<Rightarrow> ('t, 's) app" where
  "app_of alive c = \<lparr>ap_world = k_world c, ap_acc = k_acc c, ap_engine = k_engine c,
     ap_sniffer = map_option (\<lambda>_. alive) (k_sniffer c)\<rparr>"

definition dispatcher_of :: "('t, 's, 'p) container \<Rightarrow> ('t, 's) dispatcher" where
  "dispatcher_of c = \<lparr>ds_acc = k_acc c, ds_engine = k_engine c, ds_world = k_world c\<rparr>"

definition jobs_world :: "('t, 's, 'p) container \<Rightarrow> 't job_world" where
  "jobs_world c = \<lparr>jw_acc = k_acc c, jw_db = w_db (k_world c)\<rparr>"

definition on_request ::
  "'t meta_op \<Rightarrow> 's call_env \<Rightarrow> bool \<Rightarrow> api_call \<Rightarrow> ('t, 's, 'p) container \<Rightarrow> reply result \<times> ('t, 's, 'p) container" where
  "on_request gm e alive call c =
     (case serve gm e call (app_of alive c) of
        (r, a) \<Rightarrow> (r, (keep_world (ap_world a) c)\<lparr>k_acc := ap_acc a, k_engine := ap_engine a\<rparr>))"

definition on_dispatch ::
  "'t meta_op \<Rightarrow> 's turn \<Rightarrow> buf option \<Rightarrow> ('t, 's, 'p) container \<Rightarrow> port_row list option \<times> ('t, 's, 'p) container" where
  "on_dispatch gm t shm c =
     (case dispatch_turn gm t (encode_utf8 (st_hmac_key (k_settings c))) shm (dispatcher_of c) of
        (out, st) \<Rightarrow> (out, (keep_world (ds_world st) c)\<lparr>k_acc := ds_acc st, k_engine := ds_engine st\<rparr>))"

definition on_jobs ::
  "('t job_world job list \<Rightarrow> 't job_world \<Rightarrow> 't job_world job list \<times> 't job_world) \<Rightarrow> ('t, 's, 'p) container \<Rightarrow> ('t, 's, 'p) container" where
  "on_jobs visit c =
     (case visit (sc_jobs (k_sched c)) (jobs_world c) of
        (js, w) \<Rightarrow> (keep_world ((k_world c)\<lparr>w_db := jw_db w\<rparr>) c)\<lparr>k_acc := jw_acc w, k_sched := (k_sched c)\<lparr>sc_jobs := js\<rparr>\<rparr>)"

fun life_step :: "'t meta_op \<Rightarrow> 's life_event \<Rightarrow> ('t, 's, 'p) container \<Rightarrow> ('t, 's, 'p) container" where
  "life_step gm (Request e alive call) c = snd (on_request gm e alive call c)"
| "life_step gm (Dispatch t shm) c = snd (on_dispatch gm t shm c)"
| "life_step gm (Jobs_Start t) c = on_jobs (visit_jobs j_immediately t 0) c"
| "life_step gm (Jobs_Tick t) c = on_jobs (run_tick t) c"

definition live :: "'t meta_op \<Rightarrow> 's life_event list \<Rightarrow> ('t, 's, 'p) container \<Rightarrow> ('t, 's, 'p) container" where
  "live gm es c = fold (life_step gm) es c"

section \<open>The whole life\<close>

text \<open>When the start-up raises, neither the events nor the shut-down happen.\<close>

definition lifespan ::
  "sql \<Rightarrow> ('t, 'p) startup_env \<Rightarrow> 't meta_op \<Rightarrow> (bridge_kind \<Rightarrow> 's \<Rightarrow> nat result \<times> 's) \<Rightarrow> 's life_event list
     \<Rightarrow> ('t, 's, 'p) container \<Rightarrow> 'p \<Rightarrow> exc option \<times> ('t, 's, 'p) container \<times> 'p" where
  "lifespan q v gm cleanup es c p =
     (case startup q v c p of
        (Some err, c1, p1) \<Rightarrow> (Some err, c1, p1)
      | (None, c1, p1) \<Rightarrow> shutdown cleanup (live gm es c1) p1)"

section \<open>What every event keeps\<close>

fun event_env :: "'s life_event \<Rightarrow> 's cenv option" where
  "event_env (Request e alive call) = Some (ce_env e)"
| "event_env (Dispatch t shm) = Some (tn_env t)"
| "event_env (Jobs_Start t) = None"
| "event_env (Jobs_Tick t) = None"

lemma keep_world_fields [simp]: "k_world (keep_world w c) = w" "k_bridge (keep_world w c) = k_bridge c"
  "k_sched (keep_world w c) = k_sched c" "k_plugins (keep_world w c) = k_plugins c"
  "k_sniffer (keep_world w c) = k_sniffer c" "k_settings (keep_world w c) = k_settings c"
  by (simp_all add: keep_world_def)

lemma on_request_fields: "on_request gm e alive call c = (r, c') \<Longrightarrow>
    (\<exists>a'. serve gm e call (app_of alive c) = (r, a') \<and> k_world c' = ap_world a') \<and> k_bridge c' = k_bridge c \<and> k_sched c' = k_sched c"
  by (auto simp: on_request_def split: prod.splits)

lemma on_dispatch_fields: "on_dispatch gm t shm c = (out, c') \<Longrightarrow>
    k_world c' = ds_world (snd (dispatch_turn gm t (encode_utf8 (st_hmac_key (k_settings c))) shm (dispatcher_of c)))
    \<and> k_bridge c' = k_bridge c \<and> k_sched c' = k_sched c"
  by (auto simp: on_dispatch_def split: prod.splits)

text \<open>
  The jobs of the container leave the blocked ports alone, whatever fails.
\<close>

lemma background_blocked:
  "t_blocked (jw_db (snd (flush_traffic q t w))) = t_blocked (jw_db w)"
  "t_blocked (jw_db (snd (cache_evict t w))) = t_blocked (jw_db w)"
  "t_blocked (jw_db (snd (traffic_prune q t w))) = t_blocked (jw_db w)"
  by (auto simp: flush_traffic_def cache_evict_def traffic_prune_def insert_traffic_def prune_old_traffic_def session_def
      Let_def split: prod.splits option.splits if_splits)

interpretation blocked_frame: job_set "sc_jobs (register_background_jobs q s new_scheduler)" "\<lambda>w. t_blocked (jw_db w) = B"
  for q s B
  by unfold_locales (auto simp: background_jobs new_scheduler_def new_job_def background_blocked)

definition background_only :: "sql \<Rightarrow> settings \<Rightarrow> ('t, 's, 'p) container \<Rightarrow> bool" where
  "background_only q s c \<longleftrightarrow>
     j_func ` set (sc_jobs (k_sched c)) \<subseteq> j_func ` set (sc_jobs (register_background_jobs q s new_scheduler))"

lemma visit_blocked:
  assumes "background_only q s c" and "visit_jobs P t 0 (sc_jobs (k_sched c)) (jobs_world c) = (js, w)"
  shows "t_blocked (jw_db w) = t_blocked (w_db (k_world c))
    \<and> j_func ` set js \<subseteq> j_func ` set (sc_jobs (register_background_jobs q s new_scheduler))"
proof -
  have "t_blocked (jw_db (jobs_world c)) = t_blocked (w_db (k_world c))" by (simp add: jobs_world_def)
  from blocked_frame.visit_keeps [OF assms(1) [unfolded background_only_def] this, of P t 0] assms(2)
  have "t_blocked (jw_db w) = t_blocked (w_db (k_world c))" "map j_func js = map j_func (sc_jobs (k_sched c))" by simp_all
  moreover from this(2) have "j_func ` set js = j_func ` set (sc_jobs (k_sched c))" by (metis list.set_map)
  ultimately show ?thesis using assms(1) by (simp add: background_only_def)
qed

lemma jobs_step:
  assumes "background_only q s c" and "visit = visit_jobs P t 0"
  shows "w_fw (k_world (on_jobs visit c)) = w_fw (k_world c) \<and> w_bus (k_world (on_jobs visit c)) = w_bus (k_world c)
    \<and> t_blocked (w_db (k_world (on_jobs visit c))) = t_blocked (w_db (k_world c))
    \<and> k_bridge (on_jobs visit c) = k_bridge c \<and> background_only q s (on_jobs visit c)"
proof -
  obtain js w where v: "visit_jobs P t 0 (sc_jobs (k_sched c)) (jobs_world c) = (js, w)" by (rule surjective_pairing [THEN that])
  from visit_blocked [OF assms(1) v] show ?thesis by (simp add: on_jobs_def assms(2) v background_only_def)
qed

text \<open>The bus is wired as \<open>EventHandlers.register_all\<close> does it and the scheduler has the container's jobs.\<close>

definition wired :: "sql \<Rightarrow> settings \<Rightarrow> ('t, 's, 'p) container \<Rightarrow> bool" where
  "wired q s c \<longleftrightarrow> w_bus (k_world c) = register_all new_bus \<and> background_only q s c"

text \<open>The event runs with this bridge on a database that keeps its contract, or that never fails.\<close>

definition uses_bridge :: "'s fw_ops \<Rightarrow> (sql \<Rightarrow> bool) \<Rightarrow> 's life_event \<Rightarrow> bool" where
  "uses_bridge ops Q ev \<longleftrightarrow> (case event_env ev of None \<Rightarrow> True | Some e \<Rightarrow> en_bridge e = Some ops \<and> Q (en_sql e))"

lemma app_world [simp]: "ap_world (app_of alive c) = k_world c" and dispatcher_world [simp]: "ds_world (dispatcher_of c) = k_world c"
  by (simp_all add: app_of_def dispatcher_of_def)

lemma run_tick_visit: "run_tick t = visit_jobs (due (tk_now t)) t 0"
  by (intro ext) (simp add: run_tick_def)

lemma step_frame:
  assumes "wired q s c" and "w_bus (k_world (life_step gm ev c)) = w_bus (k_world c)"
  shows "k_bridge (life_step gm ev c) = k_bridge c \<and> wired q s (life_step gm ev c)"
proof (cases ev)
  case (Request e alive call)
  obtain r c' where r: "on_request gm e alive call c = (r, c')" by (rule surjective_pairing [THEN that])
  from on_request_fields [OF r] assms Request r show ?thesis by (simp add: wired_def background_only_def)
next
  case (Dispatch t shm)
  obtain out c' where r: "on_dispatch gm t shm c = (out, c')" by (rule surjective_pairing [THEN that])
  from on_dispatch_fields [OF r] assms Dispatch r show ?thesis by (simp add: wired_def background_only_def)
next
  case (Jobs_Start t)
  from assms(1) have b: "background_only q s c" by (simp add: wired_def)
  from jobs_step [OF b refl, of j_immediately t] assms Jobs_Start show ?thesis by (simp add: wired_def)
next
  case (Jobs_Tick t)
  from assms(1) have b: "background_only q s c" by (simp add: wired_def)
  from jobs_step [OF b run_tick_visit] assms Jobs_Tick show ?thesis by (simp add: wired_def)
qed

lemma jobs_event:
  assumes "wired q s c" and "event_env ev = None"
  shows "w_fw (k_world (life_step gm ev c)) = w_fw (k_world c) \<and> w_bus (k_world (life_step gm ev c)) = w_bus (k_world c)
    \<and> t_blocked (w_db (k_world (life_step gm ev c))) = t_blocked (w_db (k_world c))"
proof -
  have b: "background_only q s c" using assms(1) by (simp add: wired_def)
  from assms(2) obtain P t where "life_step gm ev c = on_jobs (visit_jobs P t 0) c"
    by (cases ev) (auto simp: run_tick_visit)
  with jobs_step [OF b refl, of P t] show ?thesis by simp
qed

context firewall_frame
begin

lemma step_spares:
  assumes "wired q s c" and "uses_bridge ops sql_ok ev"
  shows "spares others answers (k_world c) (k_world (life_step gm ev c))"
proof (cases "event_env ev")
  case None
  from jobs_event [OF assms(1) this, of gm] show ?thesis by (intro spares_fw) simp_all
next
  case (Some e0)
  with assms have env: "en_bridge e0 = Some ops" "sql_ok (en_sql e0)" and bus: "w_bus (k_world c) = register_all new_bus"
    by (simp_all add: uses_bridge_def wired_def)
  show ?thesis
  proof (cases ev)
    case (Request e alive call)
    with Some env have e: "en_bridge (ce_env e) = Some ops" "sql_ok (en_sql (ce_env e))" by simp_all
    obtain r c' where r: "on_request gm e alive call c = (r, c')" by (rule surjective_pairing [THEN that])
    from on_request_fields [OF r] obtain a' where "serve gm e call (app_of alive c) = (r, a')" "k_world c' = ap_world a'" by blast
    with serve_spares [OF e(2,1) _ this(1)] bus Request r show ?thesis by simp
  next
    case (Dispatch t shm)
    with Some env have "en_bridge (tn_env t) = Some ops" by simp
    moreover obtain out c' where r: "on_dispatch gm t shm c = (out, c')" by (rule surjective_pairing [THEN that])
    ultimately show ?thesis
      using turn_spares [of t "dispatcher_of c"] on_dispatch_fields [OF r] bus Dispatch r by simp
  qed (use Some in simp_all)
qed

lemma live_spares:
  "wired q s c \<Longrightarrow> list_all (uses_bridge ops sql_ok) es \<Longrightarrow>
    spares others answers (k_world c) (k_world (live gm es c)) \<and> k_bridge (live gm es c) = k_bridge c
    \<and> wired q s (live gm es c)"
proof (induction es arbitrary: c)
  case (Cons ev es)
  have sp: "spares others answers (k_world c) (k_world (life_step gm ev c))"
    using Cons.prems by (intro step_spares [OF Cons.prems(1)]) simp
  then have "k_bridge (life_step gm ev c) = k_bridge c \<and> wired q s (life_step gm ev c)"
    by (intro step_frame [OF Cons.prems(1)]) (simp add: spares_def)
  with Cons.IH [of "life_step gm ev c"] Cons.prems(2) sp show ?case by (auto simp: live_def intro: spares_trans)
qed (simp add: live_def)

end

context port_firewall
begin

lemma step_enforced:
  assumes "wired q s c" and "uses_bridge ops reliable ev" and "enforced installed usable (k_world c)"
  shows "enforced installed usable (k_world (life_step gm ev c)) \<and> w_bus (k_world (life_step gm ev c)) = w_bus (k_world c)"
proof (cases "event_env ev")
  case None
  from jobs_event [OF assms(1) this, of gm] assms(3) show ?thesis by (simp add: enforced_def listed_def)
next
  case (Some e0)
  with assms have env: "en_bridge e0 = Some ops" "reliable (en_sql e0)" and bus: "w_bus (k_world c) = register_all new_bus"
    by (simp_all add: uses_bridge_def wired_def)
  show ?thesis
  proof (cases ev)
    case (Request e alive call)
    with Some env have e: "en_bridge (ce_env e) = Some ops" "reliable (en_sql (ce_env e))" by simp_all
    obtain r c' where r: "on_request gm e alive call c = (r, c')" by (rule surjective_pairing [THEN that])
    from on_request_fields [OF r] obtain a' where s: "serve gm e call (app_of alive c) = (r, a')" "k_world c' = ap_world a'" by blast
    have "sql_ok (en_sql (ce_env e))" using e(2) by (simp add: reliable_def)
    from serve_frame [OF _ s(1) this] bus have "w_bus (ap_world a') = w_bus (k_world c)" by (simp add: wframe_def)
    with serve_enforced [OF e(2,1) _ _ s(1)] bus assms(3) Request r s(2) show ?thesis by simp
  next
    case (Dispatch t shm)
    with Some env have "en_bridge (tn_env t) = Some ops" "reliable (en_sql (tn_env t))" by simp_all
    moreover obtain out c' where r: "on_dispatch gm t shm c = (out, c')" by (rule surjective_pairing [THEN that])
    ultimately show ?thesis
      using turn_enforced [of t "dispatcher_of c"] on_dispatch_fields [OF r] bus assms(3) Dispatch r by simp
  qed (use Some in simp_all)
qed

lemma live_enforced:
  "wired q s c \<Longrightarrow> list_all (uses_bridge ops reliable) es \<Longrightarrow> enforced installed usable (k_world c) \<Longrightarrow>
    enforced installed usable (k_world (live gm es c)) \<and> wired q s (live gm es c)"
proof (induction es arbitrary: c)
  case (Cons ev es)
  have st: "enforced installed usable (k_world (life_step gm ev c))" "w_bus (k_world (life_step gm ev c)) = w_bus (k_world c)"
    using step_enforced [OF Cons.prems(1) _ Cons.prems(3), of ev] Cons.prems(2) by simp_all
  from step_frame [OF Cons.prems(1) this(2)] Cons.IH [of "life_step gm ev c"] Cons.prems(2) st(1) show ?case
    by (simp add: live_def)
qed (simp add: live_def)

end

section \<open>Start-up and listing\<close>

lemma startup_state:
  assumes "startup q v (new_container s d fw) p = (None, c, p')"
  shows "wired q s c \<and> k_world c = \<lparr>w_db = d, w_fw = fw, w_bus = register_all new_bus\<rparr>
    \<and> k_bridge c = wired_bridge (su_system v) (su_bridge v)"
proof -
  have ok: "\<not> bridge_raises (su_system v) (su_bridge v)"
    using assms wire_bridge_raises [of "su_system v" "su_bridge v" "new_container s d fw :: ('a, 'b, 'c) container"]
    by (auto simp: startup_def)
  obtain n reg where di: "discover (su_modules v) ([] :: 'c registry) = (n, reg)" by (rule surjective_pairing [THEN that])
  obtain reg' p'' where st: "start_all reg p = (reg', p'')" by (rule surjective_pairing [THEN that])
  have "k_world c = \<lparr>w_db = d, w_fw = fw, w_bus = register_all new_bus\<rparr>"
    "k_sched c = start_scheduler (register_background_jobs q s new_scheduler)"
    "k_bridge c = wired_bridge (su_system v) (su_bridge v)"
    using assms by (auto simp: startup_def wire_bridge_ok [OF ok] Let_def di st)
  then show ?thesis by (simp add: wired_def background_only_def start_scheduler_def)
qed

lemma shutdown_world:
  assumes "shutdown cleanup c p = (r, c', p')" and "k_bridge c = Some k"
  shows "w_fw (k_world c') = snd (cleanup k (w_fw (k_world c))) \<and> w_db (k_world c') = w_db (k_world c)"
proof -
  obtain reg p1 where "stop_all (k_plugins c) p = (reg, p1)" by (rule surjective_pairing [THEN that])
  with assms show ?thesis by (auto simp: shutdown_def close_database_def Let_def split: if_splits)
qed

lemma startup_runs: "\<not> bridge_raises (su_system v) (su_bridge v) \<Longrightarrow> \<exists>c p'. startup q v (new_container s d fw) p = (None, c, p')"
proof -
  assume ok: "\<not> bridge_raises (su_system v) (su_bridge v)"
  obtain r c p' where st: "startup q v (new_container s d fw) p = (r, c, p')" by (cases "startup q v (new_container s d fw) p")
  then have "r = None" by (auto simp: startup_def wire_bridge_ok [OF ok] Let_def split: prod.splits)
  with st show ?thesis by blast
qed

lemma get_blocked_lists:
  assumes "on_request gm e alive GetBlocked c = (Inr (R_Blocked rs), c')"
  shows "bp_port ` set rs = listed (w_db (k_world c)) \<and> k_world c' = (k_world c)\<lparr>w_db := w_db (k_world c')\<rparr>"
proof -
  from on_request_fields [OF assms] obtain a' where
    "serve gm e GetBlocked (app_of alive c) = (Inr (R_Blocked rs), a')" and w: "k_world c' = ap_world a'" by blast
  then obtain d' where "repo_get_blocked_ports (en_sql (ce_env e)) (w_db (k_world c)) = (Inr rs, d')"
    "ap_world a' = (k_world c)\<lparr>w_db := d'\<rparr>"
    by (auto simp: get_blocked_def on_db_def answer_def db_do_def split: prod.splits sum.splits)
  moreover from this(1) have "rs = sort_key bp_port (t_blocked (w_db (k_world c)))"
    unfolding repo_get_blocked_ports_def get_blocked_ports_def by (auto dest: session_cases)
  ultimately show ?thesis using w by (simp add: listed_def)
qed

section \<open>Properties\<close>

text \<open>
  C2: what the API lists is what the firewall drops, while the firewall does as it is told. Start the
  program on Linux on a database whose blocked ports are those the firewall drops, with no rule of
  ours twice in the chain, and let any requests, dispatcher turns with policy responses, and
  background jobs happen in any order. Inserting a rule may fail at any time; checks, deletions and
  listings of iptables are relied on to work, and no database call fails. Then the ports in the table
  are always exactly those for which the chain has a drop rule of ours, and a request for the list
  answers exactly them. (A deletion that fails breaks this unseen: \<open>failed_delete_unnoticed\<close>.)
\<close>

theorem listing_is_enforced:
  assumes "iptables_ok run b chain render" and "lx_compatible b"
    and "\<forall>p proto. count_list (chain fw) (rule_spec ''Vigilant'' p proto) \<le> 1" and "dropped_ports chain fw = listed d"
    and "startup q v (new_container s d fw) p = (None, c1, p1)"
    and "list_all (uses_bridge (linux_ops run b) reliable) es" and "live gm es c1 = c"
  shows "dropped_ports chain (w_fw (k_world c)) = listed (w_db (k_world c))
    \<and> (\<forall>e alive rs c'. on_request gm e alive GetBlocked c = (Inr (R_Blocked rs), c') \<longrightarrow>
         bp_port ` set rs = dropped_ports chain (w_fw (k_world c')))"
proof -
  note st = startup_state [OF assms(5)]
  then have "enforced (dropped_ports chain) (linux_usable run b chain render) (k_world c1)"
    using assms(1-4) by (simp add: enforced_def linux_usable_def linux_answers_def)
  with linux_ports.live_enforced [OF _ assms(6)] st
  have "enforced (dropped_ports chain) (linux_usable run b chain render) (k_world c)" unfolding assms(7) [symmetric] by blast
  then have eq: "dropped_ports chain (w_fw (k_world c)) = listed (w_db (k_world c))" by (simp add: enforced_def)
  have "bp_port ` set rs = dropped_ports chain (w_fw (k_world c'))"
    if "on_request gm e alive GetBlocked c = (Inr (R_Blocked rs), c')" for e alive rs c'
  proof -
    note l = get_blocked_lists [OF that]
    from arg_cong [OF conjunct2 [OF this], of w_fw] have "w_fw (k_world c') = w_fw (k_world c)" by simp
    with l eq show ?thesis by simp
  qed
  with eq show ?thesis by blast
qed

definition block_8080 :: "string list list life_event" where
  "block_8080 = Request linux_call True (PostBlock 8080 ''tcp'')"

lemma block_8080_uses: "uses_bridge (linux_ops sim_iptables root_bridge) reliable block_8080"
  by (simp add: uses_bridge_def block_8080_def linux_call_def linux_env_def plain_reliable)

lemma root_compatible: "lx_compatible root_bridge"
  by (simp add: lx_compatible_def root_bridge_def new_linux_bridge_def)

lemma linux_startup_ok: "\<not> bridge_raises (su_system linux_startup) (su_bridge linux_startup)"
  by (simp add: bridge_raises_def linux_startup_def)

text \<open>The request succeeds and is listed.\<close>

lemma block_8080_listed:
  assumes "k_world c = \<lparr>w_db = empty_db, w_fw = [[''-j'', ''ACCEPT'']], w_bus = register_all new_bus\<rparr>"
  shows "listed (w_db (k_world (live gm [block_8080] c))) = {8080}"
proof -
  let ?e = "linux_env plain_sql"
  let ?c = "\<lparr>bc_port = 8080, bc_protocol = ''TCP'', bc_reason = ''Manual block''\<rparr>"
  have v: "valid_port 8080" "valid_protocol ''tcp''" "valid_protocol ''TCP''" "str_upper ''tcp'' = ''TCP''" "str_lower ''TCP'' = ''tcp''"
    by (simp add: valid_port_def) code_simp+
  have b: "fw_block (linux_ops sim_iptables root_bridge) 8080 ''TCP'' [[''-j'', ''ACCEPT'']] =
      (Inr True, [rule_spec ''Vigilant'' 8080 ''tcp'', [''-j'', ''ACCEPT'']])"
    by (simp add: linux_ops_def lx_block_port_def v lx_compatible_def root_bridge_def new_linux_bridge_def
        sim_iptables_def fw_cmd_def detect_firewall_def rule_spec_def Let_def)
  obtain r w' where h: "handle_block ?e ?c (k_world c) = (r, w')" by (rule surjective_pairing [THEN that])
  have "reliable (en_sql ?e)" by (simp add: linux_env_def plain_reliable)
  note l = block_lists [OF this linux_world_ok(3) _ _ h, of "[rule_spec ''Vigilant'' 8080 ''tcp'', [''-j'', ''ACCEPT'']]"]
  then have l': "r = Inr (fw_answer True 8080 ''block'')" "listed (w_db w') = {8080}"
    using assms b by (simp_all add: listed_def empty_db_def)
  have "api_block_port ?e 8080 ''tcp'' (k_world c) = (r, w')"
    unfolding api_block_calls [OF v(1,2)] using h l'(1) v(4) by simp
  with l'(2) show ?thesis
    by (simp add: live_def block_8080_def on_request_def linux_call_def on_world_def app_of_def)
qed

theorem listing_is_enforced_witness:
  "\<exists>c1 p1. startup plain_sql linux_startup (new_container quiet_settings empty_db [[''-j'', ''ACCEPT'']]) 0 = (None, c1, p1)
     \<and> dropped_ports (\<lambda>k. k) (w_fw (k_world (live no_service [block_8080] c1))) = listed (w_db (k_world (live no_service [block_8080] c1)))"
proof -
  let ?c = "new_container quiet_settings empty_db [[''-j'', ''ACCEPT'']] :: (unit, string list list, nat) container"
  obtain c1 p1 where st: "startup plain_sql linux_startup ?c 0 = (None, c1, p1)"
    using startup_runs [OF linux_startup_ok, of plain_sql quiet_settings empty_db "[[''-j'', ''ACCEPT'']]" 0] by blast
  have "dropped_ports (\<lambda>k. k) [[''-j'', ''ACCEPT'']] = listed empty_db"
    by (auto simp: dropped_ports_def rule_spec_def listed_def empty_db_def)
  moreover have "\<forall>p proto. count_list [[''-j'', ''ACCEPT'']] (rule_spec ''Vigilant'' p proto) \<le> 1" by simp
  ultimately have "dropped_ports (\<lambda>k. k) (w_fw (k_world (live no_service [block_8080] c1))) =
      listed (w_db (k_world (live no_service [block_8080] c1)))"
    using listing_is_enforced [OF sim_iptables_ok root_compatible _ _ st _ refl, of "[block_8080]" no_service] block_8080_uses
    by simp
  with st show ?thesis by blast
qed

text \<open>
  C3: the program leaves no rule behind. Whatever happens between a start-up on Linux and the
  shut-down after it, with failures of any database call, and even when closing the database then
  raises: in the end the chain holds exactly the rules that were not ours before the start, in
  their order. The table of blocked ports, in contrast, is as the last event left it, so every
  port it lists is open.
\<close>

theorem life_leaves_no_rule:
  assumes "iptables_ok run b chain render" and "lx_compatible b"
    and "su_system v = ''Linux''" and "su_bridge v Linux_Kind = None" and "cleanup Linux_Kind = lx_cleanup_all_rules run b"
    and "startup q v (new_container s d fw) p = (None, c1, p1)"
    and "list_all (uses_bridge (linux_ops run b) sql_ok) es"
    and "lifespan q v gm cleanup es (new_container s d fw) p = (r, c, p')"
  shows "chain (w_fw (k_world c)) = filter (\<lambda>x. \<not> is_ours (render x)) (chain fw)
    \<and> dropped_ports chain (w_fw (k_world c)) = {}
    \<and> listed (w_db (k_world c)) = listed (w_db (k_world (live gm es c1)))"
proof -
  note st = startup_state [OF assms(6)]
  have k: "k_bridge c1 = Some Linux_Kind" using st assms(3,4) by (simp add: wired_bridge_def platform_bridge_def)
  have live: "spares (foreign_rules chain render) (linux_answers run b chain render) (k_world c1) (k_world (live gm es c1))"
    "k_bridge (live gm es c1) = Some Linux_Kind"
    using linux_frame.live_spares [OF _ assms(7), of q s c1 chain render gm] st k by auto
  have "linux_answers run b chain render fw" using assms(1,2) by (simp add: linux_answers_def)
  with live(1) st have f: "foreign_rules chain render (w_fw (k_world (live gm es c1))) = foreign_rules chain render fw"
    by (simp add: spares_def)
  have sd: "shutdown cleanup (live gm es c1) p1 = (r, c, p')" using assms(6,8) by (simp add: lifespan_def)
  have "chain (w_fw (k_world c)) = foreign_rules chain render (w_fw (k_world (live gm es c1)))"
    and db: "w_db (k_world c) = w_db (k_world (live gm es c1))"
    using shutdown_effect [OF assms(1,2) live(2) assms(5) sd] by (simp_all add: foreign_rules_def)
  with f have chain: "chain (w_fw (k_world c)) = filter (\<lambda>x. \<not> is_ours (render x)) (chain fw)"
    by (simp add: foreign_rules_def)
  then have "dropped_ports chain (w_fw (k_world c)) = {}"
    using iptables_ours [OF assms(1)] by (auto simp: dropped_ports_def)
  with chain db show ?thesis by simp
qed

theorem life_leaves_no_rule_witness:
  "\<exists>r c p'. lifespan plain_sql linux_startup no_service (\<lambda>_. lx_cleanup_all_rules sim_iptables root_bridge) [block_8080]
       (new_container quiet_settings empty_db [[''-j'', ''ACCEPT'']] :: (unit, string list list, nat) container) 0 = (r, c, p')
     \<and> rule_spec ''Vigilant'' 8080 ''tcp'' \<notin> set (w_fw (k_world c)) \<and> listed (w_db (k_world c)) = {8080}"
proof -
  let ?c = "new_container quiet_settings empty_db [[''-j'', ''ACCEPT'']] :: (unit, string list list, nat) container"
  let ?l = "lifespan plain_sql linux_startup no_service (\<lambda>_. lx_cleanup_all_rules sim_iptables root_bridge) [block_8080] ?c 0"
  obtain r c p' where l: "?l = (r, c, p')" by (cases ?l)
  obtain c1 p1 where st: "startup plain_sql linux_startup ?c 0 = (None, c1, p1)"
    using startup_runs [OF linux_startup_ok, of plain_sql quiet_settings empty_db "[[''-j'', ''ACCEPT'']]" 0] by blast
  have v: "su_system linux_startup = ''Linux''" "su_bridge linux_startup Linux_Kind = None" by (simp_all add: linux_startup_def)
  have es: "list_all (uses_bridge (linux_ops sim_iptables root_bridge) sql_ok) [block_8080]"
    using block_8080_uses by (simp add: uses_bridge_def reliable_def split: option.splits)
  note h = conjunct2 [OF life_leaves_no_rule [OF sim_iptables_ok root_compatible v refl st es l]]
  have "listed (w_db (k_world (live no_service [block_8080] c1))) = {8080}"
    using startup_state [OF st] by (intro block_8080_listed) simp
  with h have "listed (w_db (k_world c)) = {8080}" "dropped_ports (\<lambda>k. k) (w_fw (k_world c)) = {}" by simp_all
  moreover from this(2) have "rule_spec ''Vigilant'' 8080 ''tcp'' \<notin> set (w_fw (k_world c))" by (auto simp: dropped_ports_def)
  ultimately show ?thesis using l by blast
qed

end
