(* ===== verification/Windows_Firewall.thy ===== *)
theory Windows_Firewall
  imports Life Windows_Bridge
begin

text \<open>
  What the Windows bridge (\<open>os_adapters/win32_bridge.py\<close>) makes of the firewall. \<open>rules k\<close> lists
  the rules the firewall holds; what the bridge relies on of \<open>netsh\<close> is stated for the three
  commands it issues. The contracts of \<open>Enforcement\<close> are discharged for the bridge, so the table of
  blocked ports is enforced, and a life of the program leaves no rule behind, on Windows as on
  Linux.
\<close>

section \<open>What is relied on of netsh\<close>

record win_rule =
  wr_name :: string
  wr_dir :: string
  wr_port :: int
  wr_protocol :: string

definition win_rule_of :: "string \<Rightarrow> string \<Rightarrow> int \<Rightarrow> string \<Rightarrow> win_rule" where
  "win_rule_of dir label p proto =
     \<lparr>wr_name = win_rule_name ''Vigilant'' label p, wr_dir = dir, wr_port = p, wr_protocol = proto\<rparr>"

definition succeeded :: "(int \<times> string) result \<Rightarrow> bool" where
  "succeeded r = (case r of Inl err \<Rightarrow> False | Inr (rc, out) \<Rightarrow> rc = 0)"

text \<open>
  An \<open>add rule\<close> that succeeds adds the rule it describes and one that fails or times out changes
  nothing; \<open>delete rule\<close> removes every rule of the name, whatever it answers.
\<close>

definition netsh_changes :: "'k runner \<Rightarrow> ('k \<Rightarrow> win_rule list) \<Rightarrow> bool" where
  "netsh_changes run rules \<longleftrightarrow>
     (\<forall>(dir, label) \<in> {(''out'', ''Out''), (''in'', ''In'')}. \<forall>p proto k. valid_port p \<and> proto \<in> {''TCP'', ''UDP''} \<longrightarrow>
        rules (snd (run (win_add_cmd dir label p proto) k)) =
          (if succeeded (fst (run (win_add_cmd dir label p proto) k)) then rules k @ [win_rule_of dir label p proto] else rules k))
   \<and> (\<forall>name k. rules (snd (run (win_delete_cmd name) k)) = filter (\<lambda>x. wr_name x \<noteq> name) (rules k))"

text \<open>
  The listing: a header, then for each rule the line with its name and other lines. Apart from the
  beginnings of those lines the text does not contain the label \<open>Rule Name:\<close>.
\<close>

definition quiet :: "string \<Rightarrow> bool" where
  "quiet s \<longleftrightarrow> (s = [] \<or> last s = NL) \<and> \<not> contains s ''Rule Name:''"

definition netsh_lists :: "'k runner \<Rightarrow> ('k \<Rightarrow> win_rule list) \<Rightarrow> (win_rule \<Rightarrow> string) \<Rightarrow> bool" where
  "netsh_lists run rules body \<longleftrightarrow>
     (\<forall>r. quiet (tl (rule_line (wr_name r) @ NL # body r)))
   \<and> (\<forall>k. \<exists>hdr out k'. run (netsh [''show'', ''rule'', ''name=all'']) k = (Inr (0, out), k') \<and> rules k' = rules k \<and> quiet hdr
        \<and> out = hdr @ concat (map (\<lambda>r. rule_line (wr_name r) @ NL # body r) (rules k)))"

section \<open>Names\<close>

definition our_name :: "string \<Rightarrow> bool" where
  "our_name n \<longleftrightarrow> startswith n ''Vigilant_'' \<or> startswith n ''Sentinel_''"

text \<open>Names begin with a visible character; ours have something after the prefix and no blanks.\<close>

definition name_ok :: "string \<Rightarrow> bool" where
  "name_ok n \<longleftrightarrow> n \<noteq> [] \<and> \<not> is_space (hd n) \<and> (our_name n \<longrightarrow> 9 < length n \<and> list_all (\<lambda>c. \<not> is_space c) n)"

definition names_ok :: "win_rule list \<Rightarrow> bool" where
  "names_ok rs \<longleftrightarrow> list_all (\<lambda>r. name_ok (wr_name r)) rs"

definition others_of :: "win_rule list \<Rightarrow> win_rule list" where
  "others_of rs = filter (\<lambda>r. \<not> our_name (wr_name r)) rs"

lemma win_rule_name_ours: "pre \<in> {''Vigilant'', ''Sentinel''} \<Longrightarrow> our_name (win_rule_name pre label p)"
  by (auto simp: our_name_def win_rule_name_def)

lemma show_int_visible: "valid_port p \<Longrightarrow> list_all (\<lambda>c. \<not> is_space c) (show_int p)"
  using show_nat_digits [of "nat p"] by (auto simp: show_int_def valid_port_def list_all_iff digit_not_space)

lemma win_rule_name_ok: "valid_port p \<Longrightarrow> label \<in> {''In'', ''Out''} \<Longrightarrow> name_ok (win_rule_name ''Vigilant'' label p)"
  using show_int_visible [of p] by (auto simp: name_ok_def win_rule_name_def is_space_def)

lemma win_rule_name_inj [simp]: "win_rule_name pre label p = win_rule_name pre label q \<longleftrightarrow> p = q"
  by (simp add: win_rule_name_def)

lemma win_label_neq [simp]: "win_rule_name pre ''In'' p \<noteq> win_rule_name pre' ''Out'' q \<or> pre \<noteq> pre'"
  by (auto simp: win_rule_name_def)

lemma names_ok_filter: "names_ok rs \<Longrightarrow> names_ok (filter P rs)"
  by (simp add: names_ok_def list_all_iff)

section \<open>What the operations do\<close>

text \<open>The ports with an inbound, or an outbound, rule of ours.\<close>

definition inbound :: "win_rule list \<Rightarrow> int set" where
  "inbound rs = {p. win_rule_name ''Vigilant'' ''In'' p \<in> wr_name ` set rs}"

definition outbound :: "win_rule list \<Rightarrow> int set" where
  "outbound rs = {p. win_rule_name ''Vigilant'' ''Out'' p \<in> wr_name ` set rs}"

lemma inbound_append [simp]: "inbound (rs @ [win_rule_of ''in'' ''In'' p proto]) = insert p (inbound rs)"
    "inbound (rs @ [win_rule_of ''out'' ''Out'' p proto]) = inbound rs"
    "outbound (rs @ [win_rule_of ''out'' ''Out'' p proto]) = insert p (outbound rs)"
    "outbound (rs @ [win_rule_of ''in'' ''In'' p proto]) = outbound rs"
  using win_label_neq [of "''Vigilant''" _ "''Vigilant''"]
  by (auto simp: inbound_def outbound_def win_rule_of_def dest: sym [of "win_rule_name _ _ _"])

lemma netsh_add: "netsh_changes run rules \<Longrightarrow> valid_port p \<Longrightarrow> proto \<in> {''TCP'', ''UDP''} \<Longrightarrow>
    (dir, label) \<in> {(''out'', ''Out''), (''in'', ''In'')} \<Longrightarrow>
    rules (snd (run (win_add_cmd dir label p proto) k)) =
      (if succeeded (fst (run (win_add_cmd dir label p proto) k)) then rules k @ [win_rule_of dir label p proto] else rules k)"
  unfolding netsh_changes_def by blast

lemma netsh_delete: "netsh_changes run rules \<Longrightarrow>
    rules (snd (run (win_delete_cmd name) k)) = filter (\<lambda>x. wr_name x \<noteq> name) (rules k)"
  unfolding netsh_changes_def by blast

lemma win_add_step: "win_add_rules run ((dir, label) # ds) p proto k =
    (if succeeded (fst (run (win_add_cmd dir label p proto) k)) then win_add_rules run ds p proto (snd (run (win_add_cmd dir label p proto) k))
     else (Inl FirewallRuleError, snd (run (win_add_cmd dir label p proto) k)))"
  by (auto simp: succeeded_def split: prod.splits sum.splits)

text \<open>A block adds both rules, the outbound one alone, or none.\<close>

lemma win_block_effect:
  assumes "netsh_changes run rules" and "win_block_port run ''Windows'' p proto k = (r, k')"
  obtains "rules k' = rules k" and "r = Inl FirewallRuleError"
  | "valid_port p" and "rules k' = rules k @ [win_rule_of ''out'' ''Out'' p (str_upper proto)]" and "r = Inl FirewallRuleError"
  | "valid_port p" and "rules k' = rules k @ [win_rule_of ''out'' ''Out'' p (str_upper proto), win_rule_of ''in'' ''In'' p (str_upper proto)]"
    and "r = Inr True"
proof (cases "valid_port p \<and> valid_protocol proto")
  case False
  from win_fw.block_guard [OF this, of run "''Windows''" k] assms(2) show thesis by (intro that(1)) simp_all
next
  case True
  let ?u = "str_upper proto"
  from True have u: "valid_port p" "?u \<in> {''TCP'', ''UDP''}" by (simp_all only: upper_protocol)
  let ?o = "run (win_add_cmd ''out'' ''Out'' p ?u) k"
  let ?i = "run (win_add_cmd ''in'' ''In'' p ?u) (snd ?o)"
  have o: "rules (snd ?o) = (if succeeded (fst ?o) then rules k @ [win_rule_of ''out'' ''Out'' p ?u] else rules k)"
    by (rule netsh_add [OF assms(1) u]) simp
  have i: "rules (snd ?i) = (if succeeded (fst ?i) then rules (snd ?o) @ [win_rule_of ''in'' ''In'' p ?u] else rules (snd ?o))"
    by (rule netsh_add [OF assms(1) u]) simp
  have "win_block_port run ''Windows'' p proto k =
      (if \<not> succeeded (fst ?o) then (Inl FirewallRuleError, snd ?o)
       else if \<not> succeeded (fst ?i) then (Inl FirewallRuleError, snd ?i) else (Inr True, snd ?i))"
    using u unfolding win_block_port_def win_add_step by (simp add: win_compatible_def valid_port_def)
  with assms(2) o i u(1) show thesis
    by (cases "succeeded (fst ?o)"; cases "succeeded (fst ?i)") (auto intro: that)
qed

lemma fold_delete: "netsh_changes run rules \<Longrightarrow>
    rules (fold (\<lambda>name k. snd (run (win_delete_cmd name) k)) names k) = filter (\<lambda>x. wr_name x \<notin> set names) (rules k)"
  by (induction names arbitrary: k) (auto simp: netsh_delete intro: filter_cong)

lemma win_unblock_effect:
  assumes "netsh_changes run rules" and "win_unblock_port run ''Windows'' p k = (r, k')"
  shows "rules k' = (if r = Inr True then filter (\<lambda>x. wr_name x \<notin> set (win_unblock_names p)) (rules k) else rules k)"
  using assms by (auto simp: win_unblock_port_def win_compatible_def fold_delete split: if_splits)

section \<open>The contracts\<close>

definition windows_ops :: "'k runner \<Rightarrow> 'k fw_ops" where
  "windows_ops run = \<lparr>fw_block = win_block_port run ''Windows'', fw_unblock = win_unblock_port run ''Windows'',
     fw_cleanup = win_cleanup_all_rules run ''Windows''\<rparr>"

lemma windows_ops_adapter:
  "firewall_adapter (fw_block (windows_ops run)) (fw_unblock (windows_ops run)) (fw_cleanup (windows_ops run))"
  by (simp add: windows_ops_def win_fw.firewall_adapter_axioms)

definition windows_answers :: "'k runner \<Rightarrow> ('k \<Rightarrow> win_rule list) \<Rightarrow> 'k \<Rightarrow> bool" where
  "windows_answers run rules k \<longleftrightarrow> netsh_changes run rules \<and> names_ok (rules k)"

text \<open>No port is closed in one direction only inwards.\<close>

definition windows_usable :: "'k runner \<Rightarrow> ('k \<Rightarrow> win_rule list) \<Rightarrow> 'k \<Rightarrow> bool" where
  "windows_usable run rules k \<longleftrightarrow> netsh_changes run rules \<and> inbound (rules k) \<subseteq> outbound (rules k)"

lemma added_rule: "valid_port p \<Longrightarrow> (dir, label) \<in> {(''out'', ''Out''), (''in'', ''In'')} \<Longrightarrow>
    name_ok (wr_name (win_rule_of dir label p proto)) \<and> our_name (wr_name (win_rule_of dir label p proto))"
  by (auto simp: win_rule_of_def win_rule_name_ok win_rule_name_ours)

lemma added_rules: "valid_port p \<Longrightarrow> names_ok (rs @ [win_rule_of ''out'' ''Out'' p proto]) = names_ok rs
    \<and> names_ok (rs @ [win_rule_of ''out'' ''Out'' p proto, win_rule_of ''in'' ''In'' p proto]) = names_ok rs
    \<and> others_of (rs @ [win_rule_of ''out'' ''Out'' p proto]) = others_of rs
    \<and> others_of (rs @ [win_rule_of ''out'' ''Out'' p proto, win_rule_of ''in'' ''In'' p proto]) = others_of rs"
  using added_rule [of p "''out''" "''Out''" proto] added_rule [of p "''in''" "''In''" proto]
  by (simp add: names_ok_def others_of_def)

lemma unblock_names_ours: "n \<in> set (win_unblock_names p) \<Longrightarrow> our_name n"
  by (auto simp: win_unblock_names_def win_rule_name_ours)

lemma others_unblocked: "others_of (filter (\<lambda>x. wr_name x \<notin> set (win_unblock_names p)) rs) = others_of rs"
  unfolding others_of_def filter_filter using unblock_names_ours by (intro filter_cong) auto

lemma label_names: "win_rule_name ''Vigilant'' ''In'' q \<in> set (win_unblock_names p) \<longleftrightarrow> q = p"
  "win_rule_name ''Vigilant'' ''Out'' q \<in> set (win_unblock_names p) \<longleftrightarrow> q = p"
  by (auto simp: win_unblock_names_def win_rule_name_def)

lemma names_filtered: "n \<in> f ` set (filter (\<lambda>x. f x \<notin> S) xs) \<longleftrightarrow> n \<in> f ` set xs \<and> n \<notin> S"
  by auto

lemma inbound_unblocked:
  "inbound (filter (\<lambda>x. wr_name x \<notin> set (win_unblock_names p)) rs) = inbound rs - {p}"
  "outbound (filter (\<lambda>x. wr_name x \<notin> set (win_unblock_names p)) rs) = outbound rs - {p}"
  unfolding inbound_def outbound_def names_filtered label_names by blast+

lemma inbound_both: "inbound (rs @ [win_rule_of ''out'' ''Out'' p proto, win_rule_of ''in'' ''In'' p proto]) = insert p (inbound rs)"
  "outbound (rs @ [win_rule_of ''out'' ''Out'' p proto, win_rule_of ''in'' ''In'' p proto]) = insert p (outbound rs)"
  using inbound_append [of "rs @ [win_rule_of ''out'' ''Out'' p proto]" p proto] by simp_all

interpretation windows_frame: firewall_frame "windows_ops run" "\<lambda>k. others_of (rules k)" "windows_answers run rules" for run rules
proof (intro firewall_frame.intro firewall_frame_axioms.intro windows_ops_adapter)
  fix k p proto r k'
  assume k: "windows_answers run rules k" and "fw_block (windows_ops run) p proto k = (r, k')"
  then have n: "netsh_changes run rules" "win_block_port run ''Windows'' p proto k = (r, k')"
    by (simp_all add: windows_answers_def windows_ops_def)
  show "windows_answers run rules k' \<and> others_of (rules k') = others_of (rules k)"
    by (rule win_block_effect [OF n]) (use k in \<open>simp_all add: windows_answers_def added_rules\<close>)
next
  fix k p r k'
  assume k: "windows_answers run rules k" and "fw_unblock (windows_ops run) p k = (r, k')"
  then have n: "netsh_changes run rules" "win_unblock_port run ''Windows'' p k = (r, k')"
    by (simp_all add: windows_answers_def windows_ops_def)
  from win_unblock_effect [OF n] k show "windows_answers run rules k' \<and> others_of (rules k') = others_of (rules k)"
    by (simp add: windows_answers_def others_unblocked names_ok_filter)
qed

interpretation windows_ports: port_firewall "windows_ops run" "\<lambda>k. inbound (rules k)" "windows_usable run rules" for run rules
proof (intro port_firewall.intro port_firewall_axioms.intro windows_ops_adapter)
  fix k p proto r k'
  assume k: "windows_usable run rules k" and "fw_block (windows_ops run) p proto k = (r, k')"
  then have n: "netsh_changes run rules" "win_block_port run ''Windows'' p proto k = (r, k')"
    by (simp_all add: windows_usable_def windows_ops_def)
  show "windows_usable run rules k'
      \<and> inbound (rules k') = (if r = Inr True then insert p (inbound (rules k)) else inbound (rules k))"
    by (rule win_block_effect [OF n]) (use k in \<open>auto simp: windows_usable_def inbound_both\<close>)
next
  fix k p r k'
  assume k: "windows_usable run rules k" and "fw_unblock (windows_ops run) p k = (r, k')"
  then have n: "netsh_changes run rules" "win_unblock_port run ''Windows'' p k = (r, k')"
    by (simp_all add: windows_usable_def windows_ops_def)
  from win_unblock_effect [OF n] k show "windows_usable run rules k'
      \<and> inbound (rules k') = (if r = Inr True then inbound (rules k) - {p} else inbound (rules k))"
    by (auto simp: windows_usable_def inbound_unblocked)
qed

section \<open>The clean-up\<close>

lemma quiet_suffix: "quiet (xs @ ys) \<Longrightarrow> quiet ys"
  by (auto simp: quiet_def sublist_append split: if_splits)

lemma quiet_no_match:
  assumes "quiet s" and "s \<noteq> []"
  shows "rule_match (s @ t) = None"
proof -
  have "\<not> startswith (s @ t) ''Rule Name:''"
  proof
    assume "startswith (s @ t) ''Rule Name:''"
    then consider "startswith s ''Rule Name:''" | us where "''Rule Name:'' = s @ us" by (auto simp: prefix_append)
    then show False
    proof cases
      case 1
      with assms(1) show False by (simp add: quiet_def prefix_imp_sublist)
    next
      case 2
      from assms have "last s = NL" by (simp add: quiet_def)
      moreover have "last s \<in> set s" using assms(2) by (rule last_in_set)
      moreover have "set s \<subseteq> set ''Rule Name:''" unfolding 2 set_append by (rule Un_upper1)
      moreover have "NL \<notin> set ''Rule Name:''" by code_simp
      ultimately show False by (simp only: subset_iff) blast
    qed
  qed
  then show ?thesis by (simp only: rule_match_def if_False)
qed

lemma quiet_skip: "quiet s \<Longrightarrow> find_rule_names (s @ t) = find_rule_names t"
proof (induction s)
  case (Cons c s)
  have "quiet s" using quiet_suffix [of "[c]" s] Cons.prems by simp
  with Cons quiet_no_match [OF Cons.prems, of t] show ?case by simp
qed simp

lemma our_entry:
  assumes "name_ok n" and "our_name n" and "quiet (tl (rule_line n @ NL # b))"
  shows "find_rule_names ((rule_line n @ NL # b) @ t) = n # find_rule_names t"
proof -
  have len: "length ''Vigilant_'' = 9" "length ''Sentinel_'' = 9" by simp_all
  obtain pre body where n: "n = pre @ body" "pre \<in> {''Vigilant_'', ''Sentinel_''}"
    using assms(2) by (auto simp only: our_name_def prefix_def) 
  with assms(1,2) have body: "list_all (\<lambda>c. \<not> is_space c) body" "body \<noteq> []" by (auto simp: name_ok_def)
  from rule_match_line [OF body n(2) NL_space, of "b @ t"]
  have m: "rule_match (rule_line n @ NL # b @ t) = Some (n, NL # b @ t)" by (simp only: n(1))
  obtain cs where cs: "rule_line n @ NL # b @ t = CHR ''R'' # cs" by (simp add: rule_line_def)
  have "tl (rule_line n @ NL # b) = tl (rule_line n) @ NL # b" by (simp add: rule_line_def)
  then have q: "quiet (NL # b)" using quiet_suffix [of "tl (rule_line n)" "NL # b"] assms(3) by simp
  have "find_rule_names (rule_line n @ NL # b @ t) = n # find_rule_names ((NL # b) @ t)"
    using m unfolding cs by (simp only: find_rule_names.simps option.case prod.case append_Cons)
  with quiet_skip [OF q, of t] show ?thesis by simp
qed

lemma foreign_entry:
  assumes "name_ok n" and "\<not> our_name n" and "quiet (tl (rule_line n @ NL # b))"
  shows "find_rule_names ((rule_line n @ NL # b) @ t) = find_rule_names t"
proof -
  obtain cs where cs: "rule_line n @ NL # b = CHR ''R'' # cs" by (simp add: rule_line_def)
  have NL: "NL \<notin> set ''Vigilant_''" "NL \<notin> set ''Sentinel_''" by code_simp+
  have "dropWhile is_space (replicate 28 (CHR '' '') @ n @ NL # b @ t) = dropWhile is_space (n @ NL # b @ t)"
    by (subst dropWhile_append2) (auto simp: is_space_def)
  moreover have "dropWhile is_space (n @ NL # b @ t) = n @ NL # b @ t" using assms(1) by (cases n) (auto simp: name_ok_def)
  moreover have "rule_line n @ NL # b @ t = ''Rule Name:'' @ replicate 28 (CHR '' '') @ n @ NL # b @ t"
    by (simp add: rule_line_def numeral_eq_Suc)
  moreover have "\<not> startswith (n @ NL # b @ t) ''Vigilant_''" "\<not> startswith (n @ NL # b @ t) ''Sentinel_''"
    using assms(2) by (simp_all only: startswith_append [OF NL(1)] startswith_append [OF NL(2)] our_name_def) simp_all
  ultimately have "rule_match (rule_line n @ NL # b @ t) = None" by (simp add: rule_match_def Let_def)
  moreover have "rule_line n @ NL # b @ t = CHR ''R'' # cs @ t" using arg_cong [OF cs, of "\<lambda>s. s @ t"] by simp
  ultimately have "rule_match (CHR ''R'' # cs @ t) = None" by simp
  then have "find_rule_names ((rule_line n @ NL # b) @ t) = find_rule_names (cs @ t)" unfolding cs by simp
  also have "\<dots> = find_rule_names t" using assms(3) unfolding cs by (intro quiet_skip) simp
  finally show ?thesis .
qed

lemma listing_names:
  "names_ok rs \<Longrightarrow> \<forall>r \<in> set rs. quiet (tl (rule_line (wr_name r) @ NL # body r)) \<Longrightarrow>
    find_rule_names (concat (map (\<lambda>r. rule_line (wr_name r) @ NL # body r) rs)) =
      map wr_name (filter (\<lambda>r. our_name (wr_name r)) rs)"
proof (induction rs)
  case (Cons r rs)
  then have "name_ok (wr_name r)" "quiet (tl (rule_line (wr_name r) @ NL # body r))" by (simp_all add: names_ok_def)
  from our_entry [OF this(1) _ this(2)] foreign_entry [OF this(1) _ this(2)] Cons show ?case
    by (simp add: names_ok_def)
qed simp

lemma win_delete_all_effect: "netsh_changes run rules \<Longrightarrow>
    rules (snd (win_delete_all run names n k)) = filter (\<lambda>x. wr_name x \<notin> set names) (rules k)"
proof (induction names arbitrary: n k)
  case (Cons name names)
  obtain r k1 where r: "run (win_delete_cmd name) k = (r, k1)" by (rule surjective_pairing [THEN that])
  with netsh_delete [OF Cons.prems, of name k] have "rules k1 = filter (\<lambda>x. wr_name x \<noteq> name) (rules k)" by simp
  with Cons r show ?case by (auto simp: intro: filter_cong split: sum.splits)
qed simp

text \<open>The clean-up removes our rules and no other.\<close>

lemma win_cleanup_effect:
  assumes "netsh_changes run rules" and "netsh_lists run rules body" and "names_ok (rules k)"
  shows "rules (snd (win_cleanup_all_rules run ''Windows'' k)) = others_of (rules k)"
proof -
  obtain hdr out k1 where l: "run (netsh [''show'', ''rule'', ''name=all'']) k = (Inr (0, out), k1)" "rules k1 = rules k" "quiet hdr"
    "out = hdr @ concat (map (\<lambda>r. rule_line (wr_name r) @ NL # body r) (rules k))"
    using assms(2) unfolding netsh_lists_def by blast
  have q: "\<forall>r \<in> set (rules k). quiet (tl (rule_line (wr_name r) @ NL # body r))" using assms(2) by (simp add: netsh_lists_def)
  have "find_rule_names out = map wr_name (filter (\<lambda>r. our_name (wr_name r)) (rules k))"
    unfolding l(4) quiet_skip [OF l(3)] by (rule listing_names [OF assms(3) q])
  then have "rules (snd (win_cleanup_all_rules run ''Windows'' k)) =
      filter (\<lambda>x. wr_name x \<notin> wr_name ` {r \<in> set (rules k). our_name (wr_name r)}) (rules k)"
    using win_delete_all_effect [OF assms(1), of "find_rule_names out" 0 k1] l(1,2)
    by (cases "win_delete_all run (find_rule_names out) 0 k1") (simp add: win_cleanup_all_rules_def win_compatible_def)
  also have "\<dots> = others_of (rules k)" unfolding others_of_def by (intro filter_cong) auto
  finally show ?thesis .
qed

section \<open>The life of the program on Windows\<close>

text \<open>The ports the table lists are those with an inbound rule of ours, and each has the outbound one.\<close>

theorem windows_listing_is_enforced:
  assumes "netsh_changes run rules" and "inbound (rules fw) \<subseteq> outbound (rules fw)" and "inbound (rules fw) = listed d"
    and "startup q v (new_container s d fw) p = (None, c1, p1)"
    and "list_all (uses_bridge (windows_ops run) reliable) es" and "live gm es c1 = c"
  shows "inbound (rules (w_fw (k_world c))) = listed (w_db (k_world c)) \<and> listed (w_db (k_world c)) \<subseteq> outbound (rules (w_fw (k_world c)))"
proof -
  note st = startup_state [OF assms(4)]
  then have "enforced (\<lambda>k. inbound (rules k)) (windows_usable run rules) (k_world c1)"
    using assms(1-3) by (simp add: enforced_def windows_usable_def)
  with windows_ports.live_enforced [OF _ assms(5)] st
  have "enforced (\<lambda>k. inbound (rules k)) (windows_usable run rules) (k_world c)" unfolding assms(6) [symmetric] by blast
  then show ?thesis by (auto simp: enforced_def windows_usable_def)
qed

text \<open>After the shut-down the firewall holds the rules it had besides ours before the start.\<close>

theorem windows_life_leaves_no_rule:
  assumes "netsh_changes run rules" and "netsh_lists run rules body" and "names_ok (rules fw)"
    and "su_system v = ''Windows''" and "su_bridge v Windows_Kind = None" and "cleanup Windows_Kind = win_cleanup_all_rules run ''Windows''"
    and "startup q v (new_container s d fw) p = (None, c1, p1)"
    and "list_all (uses_bridge (windows_ops run) sql_ok) es"
    and "lifespan q v gm cleanup es (new_container s d fw) p = (r, c, p')"
  shows "rules (w_fw (k_world c)) = others_of (rules fw)"
proof -
  note st = startup_state [OF assms(7)]
  have k: "k_bridge c1 = Some Windows_Kind" using st assms(4,5) by (simp add: wired_bridge_def platform_bridge_def)
  have live: "spares (\<lambda>k. others_of (rules k)) (windows_answers run rules) (k_world c1) (k_world (live gm es c1))"
    "k_bridge (live gm es c1) = Some Windows_Kind"
    using windows_frame.live_spares [OF _ assms(8), of q s c1 rules gm] st k by auto
  have "windows_answers run rules fw" using assms(1,3) by (simp add: windows_answers_def)
  with live(1) st have f: "windows_answers run rules (w_fw (k_world (live gm es c1)))"
    "others_of (rules (w_fw (k_world (live gm es c1)))) = others_of (rules fw)" by (simp_all add: spares_def)
  have "shutdown cleanup (live gm es c1) p1 = (r, c, p')" using assms(7,9) by (simp add: lifespan_def)
  from shutdown_world [OF this live(2)] assms(6)
  have "rules (w_fw (k_world c)) = rules (snd (win_cleanup_all_rules run ''Windows'' (w_fw (k_world (live gm es c1)))))" by simp
  with win_cleanup_effect [OF assms(1,2), of "w_fw (k_world (live gm es c1))"] f show ?thesis by (simp add: windows_answers_def)
qed

section \<open>A simulated netsh\<close>

text \<open>The rules are the state; a listing prints the name of each rule on a line.\<close>

definition sim_netsh :: "win_rule list runner" where
  "sim_netsh cmd k =
     (let name = drop 5 (cmd ! 5) in
      if cmd ! 3 = ''add'' then
        (Inr (0, []), k @ [\<lparr>wr_name = name, wr_dir = drop 4 (cmd ! 6), wr_port = (case py_int (drop 10 (cmd ! 9)) of Some p \<Rightarrow> p | None \<Rightarrow> 0),
           wr_protocol = drop 9 (cmd ! 8)\<rparr>])
      else if cmd ! 3 = ''delete'' then
        (Inr (if name \<in> wr_name ` set k then 0 else 1, []), filter (\<lambda>x. wr_name x \<noteq> name) k)
      else (Inr (0, concat (map (\<lambda>r. rule_line (wr_name r) @ NL # []) k)), k))"

lemma sim_netsh_changes: "netsh_changes sim_netsh (\<lambda>k. k)"
  unfolding netsh_changes_def
  by (auto simp: sim_netsh_def win_add_cmd_def win_delete_cmd_def netsh_def succeeded_def win_rule_of_def show_int_def
      valid_port_def str_simps Let_def)

text \<open>With this \<open>netsh\<close> the conclusion is about a request that really blocks a port.\<close>

lemma sim_blocks: "win_block_port sim_netsh ''Windows'' 445 ''tcp'' [] =
    (Inr True, [win_rule_of ''out'' ''Out'' 445 ''TCP'', win_rule_of ''in'' ''In'' 445 ''TCP''])"
proof -
  have "str_upper ''tcp'' = ''TCP''" by code_simp
  then show ?thesis
    by (simp add: win_block_port_def win_compatible_def sim_netsh_def win_add_cmd_def netsh_def win_rule_of_def show_int_def
        str_simps Let_def)
qed


end
