(* ===== verification/Dispatch_Loop.thy ===== *)
theory Dispatch_Loop
  imports Dispatcher
begin

text \<open>
  The dispatcher as a task of the event loop: \<open>start\<close>, \<open>stop\<close> and the control flow of
  \<open>_run_loop\<close> in \<open>infrastructure/network/dispatcher.py\<close>. A task runs from one \<open>await\<close> to
  the next without interruption; where it waits is its phase. What a turn does to the data is in
  theory Dispatcher; here only how it ends matters.
\<close>

section \<open>State\<close>

datatype phase =
    Fresh          \<comment> \<open>created, not run yet\<close>
  | Waiting        \<comment> \<open>\<open>sleep(0.5)\<close>: no segment\<close>
  | Emitting       \<comment> \<open>\<open>emit_port_table\<close>\<close>
  | Sleeping       \<comment> \<open>\<open>sleep(interval)\<close>\<close>
  | Recovering     \<comment> \<open>\<open>sleep(1.0)\<close> after an exception\<close>
  | Ended

text \<open>\<open>lt_open\<close>: the task has opened the segment and not closed it.\<close>

record loop_task =
  lt_phase :: phase
  lt_cancel :: bool
  lt_open :: bool

text \<open>All tasks ever created; \<open>_task\<close> is the last one.\<close>

record task_loop =
  lp_running :: bool
  lp_tasks :: "loop_task list"

text \<open>What the next iteration of a resumed task meets.\<close>

datatype encounter =
    No_Emitter     \<comment> \<open>the import of the emitter fails\<close>
  | No_Segment     \<comment> \<open>\<open>FileNotFoundError\<close>\<close>
  | Open_Error     \<comment> \<open>another exception of \<open>SharedMemory\<close>\<close>
  | Turn_Error
  | Turn_Quiet     \<comment> \<open>no active port\<close>
  | Turn_Emits

definition encounter_of ::
  "'t meta_op \<Rightarrow> 's turn \<Rightarrow> byte list \<Rightarrow> buf option \<Rightarrow> ('t, 's) dispatcher \<Rightarrow> encounter" where
  "encounter_of gm t key shm st =
     (case shm of
        None \<Rightarrow> No_Segment
      | Some m \<Rightarrow>
          (let xs = read_all_active_ports key m in
           case fst (dispatch_entries gm t 0 xs st) of
             Some err \<Rightarrow> Turn_Error | None \<Rightarrow> if xs \<noteq> [] then Turn_Emits else Turn_Quiet))"

lemma emits_table: "encounter_of gm t key shm st = Turn_Emits \<longleftrightarrow> (\<exists>table. fst (dispatch_turn gm t key shm st) = Some table)"
  by (simp add: encounter_of_def dispatch_turn_def Let_def case_prod_beta split: option.splits)

definition new_loop :: task_loop where
  "new_loop = \<lparr>lp_running = False, lp_tasks = []\<rparr>"

section \<open>start and stop\<close>

definition start_loop :: "task_loop \<Rightarrow> task_loop" where
  "start_loop d =
     (if lp_running d then d
      else \<lparr>lp_running = True, lp_tasks = lp_tasks d @ [\<lparr>lt_phase = Fresh, lt_cancel = False, lt_open = False\<rparr>]\<rparr>)"

text \<open>Cancelling a task that has ended does nothing.\<close>

definition cancel_task :: "loop_task \<Rightarrow> loop_task" where
  "cancel_task t = (if lt_phase t = Ended then t else t\<lparr>lt_cancel := True\<rparr>)"

definition stop_loop :: "task_loop \<Rightarrow> task_loop" where
  "stop_loop d =
     \<lparr>lp_running = False,
      lp_tasks = (if lp_tasks d = [] then [] else butlast (lp_tasks d) @ [cancel_task (last (lp_tasks d))])\<rparr>"

section \<open>Resuming a task\<close>

text \<open>The \<open>finally\<close> clause of an iteration.\<close>

definition finally_close :: "bool \<Rightarrow> loop_task \<Rightarrow> loop_task" where
  "finally_close running t = (if lt_open t \<and> \<not> running then t\<lparr>lt_open := False\<rparr> else t)"

text \<open>The head of the loop and the iteration up to its first \<open>await\<close>.\<close>

definition iterate :: "bool \<Rightarrow> encounter \<Rightarrow> loop_task \<Rightarrow> loop_task" where
  "iterate running x t =
     (if \<not> running then t\<lparr>lt_phase := Ended\<rparr>
      else if \<not> lt_open t \<and> x = No_Segment then t\<lparr>lt_phase := Waiting\<rparr>
      else if \<not> lt_open t \<and> x = Open_Error then t\<lparr>lt_phase := Recovering\<rparr>
      else if x = Turn_Quiet then t\<lparr>lt_phase := Sleeping, lt_open := True\<rparr>
      else if x = Turn_Emits then t\<lparr>lt_phase := Emitting, lt_open := True\<rparr>
      else t\<lparr>lt_phase := Recovering, lt_open := True\<rparr>)"

text \<open>
  A requested cancellation raises \<open>CancelledError\<close> at the \<open>await\<close>: the loop breaks, or, in the
  exception handler, the task ends with the exception; the \<open>finally\<close> clause runs either way. A
  task cancelled before its first step never runs.
\<close>

definition resume :: "bool \<Rightarrow> encounter \<Rightarrow> loop_task \<Rightarrow> loop_task" where
  "resume running x t =
     (case lt_phase t of
        Ended \<Rightarrow> t
      | Fresh \<Rightarrow> if lt_cancel t \<or> x = No_Emitter then t\<lparr>lt_phase := Ended\<rparr> else iterate running x t
      | Emitting \<Rightarrow> if lt_cancel t then (finally_close running t)\<lparr>lt_phase := Ended\<rparr> else t\<lparr>lt_phase := Sleeping\<rparr>
      | _ \<Rightarrow> if lt_cancel t then (finally_close running t)\<lparr>lt_phase := Ended\<rparr>
             else iterate running x (finally_close running t))"

definition resume_task :: "nat \<Rightarrow> encounter \<Rightarrow> task_loop \<Rightarrow> task_loop" where
  "resume_task i x d = d\<lparr>lp_tasks := (lp_tasks d)[i := resume (lp_running d) x (lp_tasks d ! i)]\<rparr>"

text \<open>Reachable states. The event loop resumes any task at any time.\<close>

inductive loop_reach :: "task_loop \<Rightarrow> bool" where
  reach_new: "loop_reach new_loop"
| reach_start: "loop_reach d \<Longrightarrow> loop_reach (start_loop d)"
| reach_stop: "loop_reach d \<Longrightarrow> loop_reach (stop_loop d)"
| reach_resume: "loop_reach d \<Longrightarrow> i < length (lp_tasks d) \<Longrightarrow> loop_reach (resume_task i x d)"

section \<open>Invariants\<close>

text \<open>
  A task that no longer belongs to the dispatcher (it is not the last, or the dispatcher does not
  run) has ended or will be cancelled at its next step.
\<close>

definition doomed :: "loop_task \<Rightarrow> bool" where
  "doomed t \<longleftrightarrow> lt_phase t = Ended \<or> lt_cancel t"

definition loop_ok :: "task_loop \<Rightarrow> bool" where
  "loop_ok d \<longleftrightarrow> (\<forall>i < length (lp_tasks d). lp_running d \<and> Suc i = length (lp_tasks d) \<or> doomed (lp_tasks d ! i))
     \<and> (\<forall>t \<in> set (lp_tasks d). lt_phase t \<in> {Fresh, Waiting} \<longrightarrow> \<not> lt_open t)"

text \<open>What becomes of a doomed task of a stopped dispatcher.\<close>

definition finished :: "loop_task \<Rightarrow> loop_task" where
  "finished t = (if lt_phase t = Ended then t else t\<lparr>lt_phase := Ended, lt_open := False\<rparr>)"

lemma doomed_resume: "doomed t \<Longrightarrow> lt_phase (resume r x t) = Ended"
  by (auto simp: doomed_def resume_def split: phase.splits)

lemma doomed_again: "doomed t \<Longrightarrow> doomed (resume r x t)"
  using doomed_resume by (simp add: doomed_def)

lemma doomed_cancel: "doomed (cancel_task t)"
  by (simp add: doomed_def cancel_task_def)

lemma waiting_closed: "lt_phase t \<in> {Fresh, Waiting} \<longrightarrow> \<not> lt_open t \<Longrightarrow>
    lt_phase (resume r x t) \<in> {Fresh, Waiting} \<longrightarrow> \<not> lt_open (resume r x t)"
  by (auto simp: resume_def iterate_def finally_close_def split: phase.splits if_splits)

lemma resume_stopped: "doomed t \<Longrightarrow> lt_phase t \<in> {Fresh, Waiting} \<longrightarrow> \<not> lt_open t \<Longrightarrow> resume False x t = finished t"
  by (cases t) (auto simp: doomed_def resume_def finished_def finally_close_def split: phase.splits)

lemma reach_ok: "loop_reach d \<Longrightarrow> loop_ok d"
proof (induction rule: loop_reach.induct)
  case (reach_start d)
  then show ?case by (auto simp: loop_ok_def start_loop_def nth_append)
next
  case (reach_stop d)
  show ?case
  proof (cases "lp_tasks d" rule: rev_cases)
    case (snoc ts t)
    with reach_stop show ?thesis
      by (auto simp: loop_ok_def stop_loop_def nth_append doomed_cancel less_Suc_eq) (simp_all add: cancel_task_def split: if_splits)
  qed (simp add: loop_ok_def stop_loop_def)
next
  case (reach_resume d i x)
  then have "\<forall>t \<in> set (lp_tasks (resume_task i x d)). lt_phase t \<in> {Fresh, Waiting} \<longrightarrow> \<not> lt_open t"
    using waiting_closed [of "lp_tasks d ! i" "lp_running d" x] set_update_subset_insert
    by (fastforce simp: loop_ok_def resume_task_def)
  moreover from reach_resume have "\<forall>j < length (lp_tasks d). lp_running d \<and> Suc j = length (lp_tasks d)
      \<or> doomed (lp_tasks (resume_task i x d) ! j)"
    by (auto simp: loop_ok_def resume_task_def nth_list_update doomed_again)
  ultimately show ?case by (simp add: loop_ok_def resume_task_def)
qed (simp add: loop_ok_def new_loop_def)

text \<open>A dispatcher that is started once and not again while it runs or after.\<close>

lemma single_task: "loop_reach d \<Longrightarrow> length (lp_tasks d) \<le> 1 \<Longrightarrow>
    \<forall>t \<in> set (lp_tasks d). (lp_running d \<longrightarrow> \<not> lt_cancel t) \<and> (lt_phase t = Ended \<longrightarrow> \<not> lt_open t)"
proof (induction rule: loop_reach.induct)
  case (reach_start d)
  then show ?case by (auto simp: start_loop_def split: if_splits)
next
  case (reach_stop d)
  have len: "length (lp_tasks (stop_loop d)) = length (lp_tasks d)" by (simp add: stop_loop_def)
  show ?case
  proof (cases "lp_tasks d")
    case (Cons t ts)
    with reach_stop len show ?thesis by (auto simp: stop_loop_def cancel_task_def)
  qed (simp add: stop_loop_def)
next
  case (reach_resume d i x)
  then have len: "length (lp_tasks d) \<le> 1" by (simp add: resume_task_def)
  with reach_resume.hyps(2) obtain t where t: "lp_tasks d = [t]" "i = 0" by (cases "lp_tasks d") auto
  have "lt_phase t \<in> {Fresh, Waiting} \<longrightarrow> \<not> lt_open t" using reach_ok [OF reach_resume.hyps(1)] t by (simp add: loop_ok_def)
  with reach_resume.IH [OF len] t show ?case
    by (auto simp: resume_task_def resume_def iterate_def finally_close_def split: phase.splits if_splits)
qed (simp add: new_loop_def)

section \<open>A stopped dispatcher\<close>

definition resume_all :: "(nat \<times> encounter) list \<Rightarrow> task_loop \<Rightarrow> task_loop" where
  "resume_all rs d = fold (\<lambda>(i, x). resume_task i x) rs d"

lemma finished_simps [simp]: "finished (finished t) = finished t" "lt_phase (finished t) = Ended" "doomed (finished t)"
  by (simp_all add: finished_def doomed_def)

lemma resume_all_stopped:
  assumes "\<not> lp_running d" and "\<forall>t \<in> set (lp_tasks d). doomed t \<and> (lt_phase t \<in> {Fresh, Waiting} \<longrightarrow> \<not> lt_open t)"
    and "\<forall>r \<in> set rs. fst r < length (lp_tasks d)"
  shows "lp_tasks (resume_all rs d) =
    map (\<lambda>i. if i \<in> fst ` set rs then finished (lp_tasks d ! i) else lp_tasks d ! i) [0..<length (lp_tasks d)]"
  using assms
proof (induction rs arbitrary: d)
  case Nil
  then show ?case by (simp add: resume_all_def map_nth)
next
  case (Cons r rs)
  obtain i x where r: "r = (i, x)" by (cases r)
  let ?d = "resume_task i x d"
  have i: "i < length (lp_tasks d)" using Cons.prems(3) r by simp
  with Cons.prems(1,2) have tasks: "lp_tasks ?d = (lp_tasks d)[i := finished (lp_tasks d ! i)]"
    by (simp add: resume_task_def resume_stopped)
  have "\<not> lp_running ?d" using Cons.prems(1) by (simp add: resume_task_def)
  moreover have "\<forall>t \<in> set (lp_tasks ?d). doomed t \<and> (lt_phase t \<in> {Fresh, Waiting} \<longrightarrow> \<not> lt_open t)"
    unfolding tasks using Cons.prems(2) by (auto dest!: subsetD [OF set_update_subset_insert])
  moreover have "\<forall>r \<in> set rs. fst r < length (lp_tasks ?d)" using Cons.prems(3) by (simp add: tasks)
  ultimately have "lp_tasks (resume_all rs ?d) =
      map (\<lambda>j. if j \<in> fst ` set rs then finished (lp_tasks ?d ! j) else lp_tasks ?d ! j) [0..<length (lp_tasks ?d)]"
    by (rule Cons.IH)
  moreover have "resume_all (r # rs) d = resume_all rs ?d" by (simp add: resume_all_def r)
  ultimately show ?case using i by (auto simp: tasks r nth_list_update)
qed

lemma stopped_ok:
  assumes "loop_reach d"
  shows "\<not> lp_running (stop_loop d)
    \<and> (\<forall>t \<in> set (lp_tasks (stop_loop d)). doomed t \<and> (lt_phase t \<in> {Fresh, Waiting} \<longrightarrow> \<not> lt_open t))"
proof -
  have "\<not> lp_running (stop_loop d)" by (simp add: stop_loop_def)
  with reach_ok [OF reach_stop [OF assms]] show ?thesis by (auto simp: loop_ok_def in_set_conv_nth)
qed

lemma stop_task: "i < length (lp_tasks d) \<Longrightarrow> lp_tasks (stop_loop d) ! i \<in> {lp_tasks d ! i, cancel_task (lp_tasks d ! i)}"
  by (cases "lp_tasks d" rule: rev_cases) (auto simp: stop_loop_def nth_append less_Suc_eq)

lemma stop_length [simp]: "length (lp_tasks (stop_loop d)) = length (lp_tasks d)"
  by (simp add: stop_loop_def)

text \<open>
  Started again before the cancelled task has run, the dispatcher leaves the segment of that task
  open: its \<open>finally\<close> clause finds the dispatcher running.
\<close>

lemma restart_leaks_segment:
  "lp_tasks (resume_task 0 x (start_loop (stop_loop (resume_task 0 Turn_Quiet (start_loop new_loop))))) ! 0 =
     \<lparr>lt_phase = Ended, lt_cancel = True, lt_open = True\<rparr>"
  by (simp add: new_loop_def start_loop_def stop_loop_def resume_task_def resume_def iterate_def cancel_task_def finally_close_def)

section \<open>Properties\<close>

text \<open>
  C11: stopping the dispatcher ends it. In whatever state of starts, stops and resumptions
  \<open>stop\<close> is called: once every task has been resumed at least once, in any order and whatever it
  meets, all tasks have ended, and every one that had not ended before has closed its segment. If
  the dispatcher was only started once, no segment is left open at all.
\<close>

theorem stop_ends_loop:
  assumes "loop_reach d" and "\<forall>r \<in> set rs. fst r < length (lp_tasks d)" and "{..<length (lp_tasks d)} \<subseteq> fst ` set rs"
    and "resume_all rs (stop_loop d) = d'"
  shows "length (lp_tasks d') = length (lp_tasks d) \<and> (\<forall>i < length (lp_tasks d).
      lt_phase (lp_tasks d' ! i) = Ended \<and> (lt_phase (lp_tasks d ! i) \<noteq> Ended \<longrightarrow> \<not> lt_open (lp_tasks d' ! i)))
    \<and> (length (lp_tasks d) \<le> 1 \<longrightarrow> (\<forall>t \<in> set (lp_tasks d'). \<not> lt_open t))"
proof -
  have tasks: "lp_tasks d' = map (\<lambda>i. finished (lp_tasks (stop_loop d) ! i)) [0..<length (lp_tasks d)]"
    using resume_all_stopped [of "stop_loop d" rs] stopped_ok [OF assms(1)] assms(2,3)
    by (auto simp: assms(4) [symmetric] intro!: map_cong)
  have closed: "\<not> lt_open (lp_tasks d' ! i)" if "i < length (lp_tasks d)" and "lt_phase (lp_tasks d ! i) \<noteq> Ended" for i
    using that stop_task [of i d] by (auto simp: tasks finished_def cancel_task_def)
  have "\<not> lt_open t" if "length (lp_tasks d) \<le> 1" and "t \<in> set (lp_tasks d')" for t
  proof -
    from that(2) obtain i where i: "i < length (lp_tasks d)" "t = finished (lp_tasks (stop_loop d) ! i)" by (auto simp: tasks)
    then have "lp_tasks (stop_loop d) ! i \<in> set (lp_tasks (stop_loop d))" by simp
    with single_task [OF reach_stop [OF assms(1)]] that(1) i(2) show ?thesis by (auto simp: finished_def)
  qed
  with closed show ?thesis by (simp add: tasks)
qed

theorem stop_ends_loop_witness:
  "\<exists>t. lp_tasks (resume_all [(0, Turn_Emits)] (stop_loop (resume_task 0 Turn_Quiet (start_loop new_loop)))) = [t]
     \<and> lt_phase t = Ended \<and> \<not> lt_open t"
proof -
  let ?d = "resume_task 0 Turn_Quiet (start_loop new_loop)"
  have "loop_reach ?d" by (intro reach_resume reach_start reach_new) (simp add: start_loop_def new_loop_def)
  moreover have "length (lp_tasks ?d) = 1" by (simp add: resume_task_def start_loop_def new_loop_def)
  ultimately show ?thesis
    using stop_ends_loop [of ?d "[(0, Turn_Emits)]" "resume_all [(0, Turn_Emits)] (stop_loop ?d)"]
    by (auto simp: lessThan_Suc length_Suc_conv)
qed

text \<open>
  There is never more than one loop: of all tasks ever created, at most one, the newest, can do
  anything but end when it is resumed, and only while the dispatcher runs.
\<close>

theorem one_live_loop:
  assumes "loop_reach d" and "i < length (lp_tasks d)" and "lt_phase (resume (lp_running d) x (lp_tasks d ! i)) \<noteq> Ended"
  shows "lp_running d \<and> Suc i = length (lp_tasks d)"
  using reach_ok [OF assms(1)] assms(2,3) doomed_resume unfolding loop_ok_def by blast

end
