(* ===== verification/Watchdog.thy ===== *)
theory Watchdog
  imports Settings
begin

text \<open>
  The watchdog object of \<open>core/watchdog.py\<close> around the turn of \<open>Settings\<close>: the command it
  starts, its stop flag and its thread, and the process that thread lives in. A turn brings what the
  world answers in it: whether the flag is set when the loop tests it, the processes that exist
  (or the exception of \<open>pid_exists\<close>), and what \<open>Popen\<close> raises, if anything.
\<close>

section \<open>Starting the replacement\<close>

record spawn =
  sp_args :: "string list"
  sp_env :: environ
  sp_detached :: bool
  sp_new_session :: bool

definition restart_sentinel :: "bool \<Rightarrow> string \<Rightarrow> environ \<Rightarrow> int \<Rightarrow> spawn" where
  "restart_sentinel nt executable env new_count =
     \<lparr>sp_args = [executable, ''-m'', ''backend''], sp_env = restart_env env new_count, sp_detached = nt, sp_new_session = (\<not> nt)\<rparr>"

section \<open>The object\<close>

record watchdog =
  wd_main :: int
  wd_stop :: bool
  wd_thread :: bool

definition new_watchdog :: "int \<Rightarrow> watchdog" where
  "new_watchdog main_pid = \<lparr>wd_main = main_pid, wd_stop = False, wd_thread = False\<rparr>"

definition start_watchdog :: "watchdog \<Rightarrow> watchdog" where
  "start_watchdog w = w\<lparr>wd_thread := True\<rparr>"

definition stop_watchdog :: "watchdog \<Rightarrow> watchdog" where
  "stop_watchdog w = w\<lparr>wd_stop := True\<rparr>"

definition spawn_watchdog :: "int \<Rightarrow> watchdog" where
  "spawn_watchdog getpid = start_watchdog (new_watchdog getpid)"

section \<open>The loop\<close>

record watch_input =
  wi_stop :: bool
  wi_procs :: "int set result"
  wi_popen :: "exc option"

text \<open>
  How the loop stands: still running, ended by the flag, given up, or ended after an attempt to
  restart with the seconds slept before it. The exceptions of \<open>_restart_sentinel\<close> are
  caught inside it, so the loop ends after a failed attempt too.
\<close>

datatype watch_end = Running | Stopped | Limit_Reached | Restarted rat spawn | Restart_Failed rat

fun watchdog_run :: "environ \<Rightarrow> bool \<Rightarrow> string \<Rightarrow> watchdog \<Rightarrow> watch_input list \<Rightarrow> watch_end" where
  "watchdog_run env nt executable w [] = Running"
| "watchdog_run env nt executable w (i # is) =
     (if wd_stop w \<or> wi_stop i then Stopped
      else case wi_procs i of
        Inl err \<Rightarrow> watchdog_run env nt executable w is
      | Inr procs \<Rightarrow>
          if wd_main w \<in> procs then watchdog_run env nt executable w is
          else (case py_int (getenv env ''SENTINEL_RESTARTS'' ''0'') of
              None \<Rightarrow> watchdog_run env nt executable w is
            | Some restarts \<Rightarrow>
                if 5 \<le> restarts then Limit_Reached
                else if wi_popen i = None then Restarted (min 60 (2 powi restarts)) (restart_sentinel nt executable env (restarts + 1))
                else Restart_Failed (min 60 (2 powi restarts))))"

section \<open>Lemmas\<close>

text \<open>Without the flag the loop is the one over turns, up to what the restart needs of the world.\<close>

fun watch_of :: "watch_end \<Rightarrow> watch option" where
  "watch_of Running = None"
| "watch_of Stopped = None"
| "watch_of Limit_Reached = Some GaveUp"
| "watch_of (Restarted d sp) = Some (Restarting d (sp_env sp))"
| "watch_of (Restart_Failed d) = None"

lemma run_is_watch_loop:
  "\<not> wd_stop w \<Longrightarrow> \<forall>i \<in> set is. \<not> wi_stop i \<and> wi_popen i = None \<Longrightarrow>
    watch_of (watchdog_run env nt executable w is) =
      watch_loop env (map (\<lambda>i. case wi_procs i of Inl err \<Rightarrow> Inl err | Inr procs \<Rightarrow> Inr (wd_main w \<in> procs)) is)"
  by (induction "is") (auto simp: watch_turn_def restart_sentinel_def split: sum.splits option.splits)

lemma stopped_before_start: "watchdog_run env nt executable (stop_watchdog w) (i # is) = Stopped"
  by (simp add: stop_watchdog_def)

text \<open>The command never passes on a variable outside the allowlist.\<close>

lemma restart_keeps_secrets:
  "watchdog_run env nt executable w is = Restarted d sp \<Longrightarrow> k \<notin> set safe_keys \<Longrightarrow> k \<noteq> ''SENTINEL_RESTARTS'' \<Longrightarrow> sp_env sp k = None"
  by (induction "is") (auto simp: restart_sentinel_def restart_env_def split: sum.splits option.splits if_splits)

section \<open>The process the watchdog lives in\<close>

text \<open>
  A daemon thread runs as long as its process does: whenever a turn of the loop happens, the host
  is among the processes. \<open>spawn_watchdog\<close> watches the very process that hosts the thread, so the
  loop never sees it missing and no restart is ever attempted.
\<close>

theorem spawned_watchdog_never_restarts:
  assumes "\<forall>i \<in> set is. \<forall>procs. wi_procs i = Inr procs \<longrightarrow> host \<in> procs"
  shows "watchdog_run env nt executable (spawn_watchdog host) is \<in> {Running, Stopped}"
proof -
  have "wd_main (spawn_watchdog host) = host" by (simp add: spawn_watchdog_def start_watchdog_def new_watchdog_def)
  with assms show ?thesis by (induction "is") (auto split: sum.splits)
qed

text \<open>Nobody retries a restart that could not be started.\<close>

theorem failed_restart_ends_watchdog:
  assumes "env ''SENTINEL_RESTARTS'' = None" and "\<not> wd_stop w" and "\<not> wi_stop i" and "wi_procs i = Inr procs" and "wd_main w \<notin> procs"
    and "wi_popen i = Some err"
  shows "watchdog_run env nt executable w (i # is) = Restart_Failed 1"
  using generation_count [of env 0, OF assms(1)] assms(2-) by simp

end
