(* ===== verification/Boot.thy ===== *)
theory Boot
  imports Container Web
begin

text \<open>
  The way into the program: \<open>launcher.py\<close>, the entry point of a bundled installation,
  \<open>backend/__main__.py\<close>, and the set-up of the log (\<open>core/logger.py\<close>). The paths of the program,
  what a \<open>.env\<close> file holds and the random keys are inputs; starting the browser and the server is
  represented by the address each is given.
\<close>

section \<open>The environment\<close>

definition setdefault :: "string \<Rightarrow> string \<Rightarrow> environ \<Rightarrow> environ" where
  "setdefault k v env = (case env k of None \<Rightarrow> env(k \<mapsto> v) | Some _ \<Rightarrow> env)"

text \<open>\<open>load_dotenv\<close> without \<open>override\<close>: variables that are set already keep their value.\<close>

definition load_dotenv :: "environ \<Rightarrow> environ \<Rightarrow> environ" where
  "load_dotenv file env = file ++ env"

record launch_paths =
  lp_frozen :: "string option"
  lp_source_dir :: string
  lp_executable_dir :: string

definition get_base_dir :: "launch_paths \<Rightarrow> string" where
  "get_base_dir p = (case lp_frozen p of Some meipass \<Rightarrow> meipass | None \<Rightarrow> lp_source_dir p)"

definition data_dir :: "launch_paths \<Rightarrow> string" where
  "data_dir p = path_join (if lp_frozen p \<noteq> None then lp_executable_dir p else get_base_dir p) ''data''"

text \<open>
  \<open>dotenv\<close> is the content of the \<open>.env\<close> file in the base directory, if it exists and the
  package to read it is installed.
\<close>

definition launch_environ :: "launch_paths \<Rightarrow> environ option \<Rightarrow> environ \<Rightarrow> environ" where
  "launch_environ p dotenv env =
     (let env = setdefault ''SENTINEL_BASE_DIR'' (get_base_dir p) (setdefault ''VIGILANT_BASE_DIR'' (get_base_dir p) env);
          env = (case dotenv of None \<Rightarrow> env | Some file \<Rightarrow> load_dotenv file env) in
      setdefault ''SENTINEL_DATA_DIR'' (data_dir p) (setdefault ''VIGILANT_DATA_DIR'' (data_dir p) env))"

section \<open>Starting\<close>

text \<open>The host and the port the server is run with, and the settings the application is made from.\<close>

record server_run =
  sr_host :: string
  sr_port :: int
  sr_app :: settings

text \<open>\<open>main\<close> loads the settings for the address, \<open>create_app\<close> loads them again, each with a key of its own.\<close>

definition backend_main :: "(string \<Rightarrow> rat option) \<Rightarrow> string \<Rightarrow> string \<Rightarrow> environ \<Rightarrow> server_run result" where
  "backend_main py_float token token' env =
     (case load_settings py_float token env of
        Inl err \<Rightarrow> Inl err
      | Inr s \<Rightarrow>
          (case load_settings py_float token' env of
             Inl err \<Rightarrow> Inl err
           | Inr s' \<Rightarrow> Inr \<lparr>sr_host = st_host s, sr_port = st_port s, sr_app = s'\<rparr>))"

text \<open>
  The launcher: \<open>makedirs\<close> is what creating the data directory raises, if anything. The browser's
  address is fixed before the server is started.
\<close>

definition launcher_main ::
  "(string \<Rightarrow> rat option) \<Rightarrow> string \<Rightarrow> string \<Rightarrow> launch_paths \<Rightarrow> environ option \<Rightarrow> exc option \<Rightarrow> environ
     \<Rightarrow> string option \<times> server_run result" where
  "launcher_main py_float token token' p dotenv makedirs env =
     (let env' = launch_environ p dotenv env in
      case makedirs of
        Some err \<Rightarrow> (None, Inl err)
      | None \<Rightarrow>
          (case py_int (getenv env' ''PORT'' ''8600'') of
             None \<Rightarrow> (None, Inl ValueError)
           | Some port \<Rightarrow> (Some (''http://localhost:'' @ show_int port), backend_main py_float token token' env')))"

section \<open>The log\<close>

datatype log_handler = Console_Handler | Json_File_Handler string

record log_state =
  lg_level :: "string option"
  lg_handlers :: "log_handler list"

definition setup_logger :: "string \<Rightarrow> string \<Rightarrow> (string \<Rightarrow> log_state) \<Rightarrow> string \<Rightarrow> log_state" where
  "setup_logger name log_dir loggers =
     (let l = (loggers name)\<lparr>lg_level := Some ''INFO''\<rparr> in
      loggers(name := (if lg_handlers l \<noteq> [] then l
        else l\<lparr>lg_handlers := [Console_Handler, Json_File_Handler (path_join log_dir (name @ ''.json''))]\<rparr>)))"

section \<open>Lemmas\<close>

lemma setup_logger_again: "setup_logger name dir' (setup_logger name dir loggers) = setup_logger name dir loggers"
  by (cases "loggers name") (simp add: setup_logger_def Let_def)

lemma setup_logger_handlers: "lg_handlers (loggers name) = [] \<Longrightarrow> length (lg_handlers (setup_logger name dir loggers name)) = 2"
  by (simp add: setup_logger_def Let_def)

lemma setdefault_keeps: "env k = Some v \<Longrightarrow> setdefault k' v' env k = Some v"
  by (auto simp: setdefault_def split: option.splits)

lemma setdefault_other [simp]: "k \<noteq> k' \<Longrightarrow> setdefault k' v' env k = env k"
  by (simp add: setdefault_def split: option.splits)

text \<open>What the user has set wins over the file and the defaults; the file wins over the later defaults.\<close>

lemma launch_keeps_user: "env k = Some v \<Longrightarrow> launch_environ p dotenv env k = Some v"
  by (auto simp: launch_environ_def load_dotenv_def Let_def intro!: setdefault_keeps map_add_find_right split: option.split)

lemma launch_other:
  assumes "k \<notin> {''VIGILANT_BASE_DIR'', ''SENTINEL_BASE_DIR'', ''VIGILANT_DATA_DIR'', ''SENTINEL_DATA_DIR''}"
  shows "launch_environ p dotenv env k = ((case dotenv of None \<Rightarrow> Map.empty | Some file \<Rightarrow> file) ++ env) k"
  using assms by (auto simp: launch_environ_def load_dotenv_def map_add_def Let_def split: option.split)

text \<open>
  The browser is sent to the port the server listens on: both read the environment after the
  \<open>.env\<close> file has been loaded.
\<close>

theorem browser_meets_server:
  assumes "launcher_main py_float token token' p dotenv makedirs env = (url, Inr run)"
  shows "url = Some (''http://localhost:'' @ show_int (sr_port run)) \<and> sr_port run = st_port (sr_app run) \<and> sr_host run = st_host (sr_app run)"
proof -
  let ?env = "launch_environ p dotenv env"
  obtain s where s: "load_settings py_float token ?env = Inr s" "load_settings py_float token' ?env = Inr (sr_app run)"
    "sr_host run = st_host s" "sr_port run = st_port s"
    and url: "url = map_option (\<lambda>n. ''http://localhost:'' @ show_int n) (py_int (getenv ?env ''PORT'' ''8600''))"
    using assms by (auto simp: launcher_main_def backend_main_def Let_def split: option.splits sum.splits)
  have port: "py_int (getenv ?env ''PORT'' ''8600'') = Some (st_port s') \<and> st_host s' = getenv ?env ''HOST'' ''0.0.0.0''"
    if "load_settings py_float tok ?env = Inr s'" for tok s'
    using that unfolding load_settings_def by (auto split: option.splits)
  from port [OF s(1)] port [OF s(2)] s(3,4) url show ?thesis by simp
qed

text \<open>The settings do not read the variables the launcher sets.\<close>

theorem launcher_variables_unread:
  assumes "dotenv = None"
  shows "backend_main py_float token token' (launch_environ p dotenv env) = backend_main py_float token token' env"
proof -
  have "getenv (launch_environ p dotenv env) k d = getenv env k d"
    if "k \<notin> {''VIGILANT_BASE_DIR'', ''SENTINEL_BASE_DIR'', ''VIGILANT_DATA_DIR'', ''SENTINEL_DATA_DIR''}" for k d
    using launch_other [OF that, of p dotenv env] by (simp add: getenv_def assms)
  then have "load_settings py_float tok (launch_environ p dotenv env) = load_settings py_float tok env" for tok
    by (simp add: load_settings_def cong: option.case_cong)
  then show ?thesis by (simp add: backend_main_def cong: sum.case_cong)
qed

end
