(* ===== verification/Cache_Race.thy ===== *)
theory Cache_Race
  imports Metrics
begin

text \<open>
  The history of \<open>application/services/metrics_service.py\<close> is shared by two threads without a lock:
  the dispatcher adds snapshots (\<open>SlidingWindowCache.add\<close>) while the job scheduler evicts old ones
  (\<open>evict_stale\<close>). Both methods are cut here into the operations on the dictionary and on the
  queues that the interpreter executes as a whole; a schedule says which thread moves next. Queues
  are objects: the dictionary holds references to them, and a thread may keep a reference to a queue
  that is no longer in the dictionary.
\<close>

section \<open>The two threads\<close>

text \<open>
  \<open>A_Checked\<close>: the port has been looked for, and entered with an empty queue if it was missing.
  \<open>A_Found\<close>: \<open>self._cache[port]\<close> has given the queue; the append comes next.
\<close>

datatype add_thread =
    A_Todo "port_snapshot list"
  | A_Checked port_snapshot "port_snapshot list"
  | A_Found nat port_snapshot "port_snapshot list"
  | A_KeyError

text \<open>
  \<open>E_Ports\<close>: the ports still to visit, of the list of the keys made at the start. \<open>E_Loop\<close>,
  \<open>E_Pop\<close>: the condition and the body of the inner loop. \<open>E_Empty\<close>, \<open>E_Del\<close>: the test of the queue
  and the deletion after it.
\<close>

datatype evict_thread =
    E_Start
  | E_Ports "int list"
  | E_Loop nat int "int list"
  | E_Pop nat int "int list"
  | E_Empty nat int "int list"
  | E_Del int "int list"
  | E_Failed

record race =
  rc_cache :: "(int, nat) dict"
  rc_queue :: "nat \<Rightarrow> port_snapshot list"
  rc_next :: nat
  rc_add :: add_thread
  rc_evict :: evict_thread
  rc_evicted :: nat

definition add_step :: "nat \<Rightarrow> race \<Rightarrow> race" where
  "add_step maxlen c =
     (case rc_add c of
        A_Todo [] \<Rightarrow> c
      | A_Todo (s # ss) \<Rightarrow>
          if dmem (s_port s) (rc_cache c) then c\<lparr>rc_add := A_Checked s ss\<rparr>
          else c\<lparr>rc_cache := dset (rc_cache c) (s_port s) (rc_next c), rc_queue := (rc_queue c)(rc_next c := []),
                 rc_next := Suc (rc_next c), rc_add := A_Checked s ss\<rparr>
      | A_Checked s ss \<Rightarrow>
          (case dget (rc_cache c) (s_port s) of
             None \<Rightarrow> c\<lparr>rc_add := A_KeyError\<rparr>
           | Some r \<Rightarrow> c\<lparr>rc_add := A_Found r s ss\<rparr>)
      | A_Found r s ss \<Rightarrow>
          c\<lparr>rc_queue := (rc_queue c)(r := deque_append maxlen s (rc_queue c r)), rc_add := A_Todo ss\<rparr>
      | A_KeyError \<Rightarrow> c)"

definition evict_step :: "time \<Rightarrow> race \<Rightarrow> race" where
  "evict_step cutoff c =
     (case rc_evict c of
        E_Start \<Rightarrow> c\<lparr>rc_evict := E_Ports (dkeys (rc_cache c))\<rparr>
      | E_Ports [] \<Rightarrow> c
      | E_Ports (p # ps) \<Rightarrow>
          (case dget (rc_cache c) p of
             None \<Rightarrow> c\<lparr>rc_evict := E_Failed\<rparr>
           | Some r \<Rightarrow> c\<lparr>rc_evict := E_Loop r p ps\<rparr>)
      | E_Loop r p ps \<Rightarrow>
          c\<lparr>rc_evict := (if rc_queue c r \<noteq> [] \<and> s_time (hd (rc_queue c r)) < cutoff then E_Pop r p ps else E_Empty r p ps)\<rparr>
      | E_Pop r p ps \<Rightarrow>
          if rc_queue c r = [] then c\<lparr>rc_evict := E_Failed\<rparr>
          else c\<lparr>rc_queue := (rc_queue c)(r := tl (rc_queue c r)), rc_evicted := Suc (rc_evicted c), rc_evict := E_Loop r p ps\<rparr>
      | E_Empty r p ps \<Rightarrow> c\<lparr>rc_evict := (if rc_queue c r = [] then E_Del p ps else E_Ports ps)\<rparr>
      | E_Del p ps \<Rightarrow>
          if dmem p (rc_cache c) then c\<lparr>rc_cache := ddel (rc_cache c) p, rc_evict := E_Ports ps\<rparr>
          else c\<lparr>rc_evict := E_Failed\<rparr>
      | E_Failed \<Rightarrow> c)"

text \<open>The moves of the dispatcher's thread are \<open>True\<close>; a thread that is finished stays where it is.\<close>

definition run_schedule :: "nat \<Rightarrow> time \<Rightarrow> bool list \<Rightarrow> race \<Rightarrow> race" where
  "run_schedule maxlen cutoff sched c = fold (\<lambda>b. if b then add_step maxlen else evict_step cutoff) sched c"

text \<open>The two threads about to work on a history, and the history they share.\<close>

definition race_of :: "window_cache \<Rightarrow> port_snapshot list \<Rightarrow> race" where
  "race_of w xs =
     \<lparr>rc_cache = zip (map fst (w_ports w)) [0 ..< length (w_ports w)],
      rc_queue = (\<lambda>r. if r < length (w_ports w) then snd (w_ports w ! r) else []),
      rc_next = length (w_ports w), rc_add = A_Todo xs, rc_evict = E_Start, rc_evicted = 0\<rparr>"

definition history_of :: "nat \<Rightarrow> race \<Rightarrow> window_cache" where
  "history_of maxlen c = \<lparr>w_max = maxlen, w_ports = map (\<lambda>(p, r). (p, rc_queue c r)) (rc_cache c)\<rparr>"

definition finished :: "race \<Rightarrow> bool" where
  "finished c \<longleftrightarrow> rc_add c = A_Todo [] \<and> rc_evict c = E_Ports []"

definition failed :: "race \<Rightarrow> bool" where
  "failed c \<longleftrightarrow> rc_add c = A_KeyError \<or> rc_evict c = E_Failed"

section \<open>The invariant\<close>

text \<open>
  A steady history: every port has a recent snapshot, and the dispatcher only adds recent snapshots
  of ports that are in it. It is calm if, besides, no queue gets so long that adding drops its
  oldest entry.
\<close>

definition steady :: "time \<Rightarrow> port_snapshot list \<Rightarrow> window_cache \<Rightarrow> bool" where
  "steady cutoff xs w \<longleftrightarrow> window_ok w \<and> (\<forall>s \<in> set xs. dmem (s_port s) (w_ports w) \<and> cutoff \<le> s_time s)
     \<and> (\<forall>x \<in> set (w_ports w). cutoff \<le> s_time (last (snd x)))"

definition calm :: "time \<Rightarrow> port_snapshot list \<Rightarrow> window_cache \<Rightarrow> bool" where
  "calm cutoff xs w \<longleftrightarrow> steady cutoff xs w
     \<and> (\<forall>x \<in> set (w_ports w). length (snd x) + length (filter (\<lambda>s. s_port s = fst x) xs) \<le> w_max w)"

lemma calm_steady: "calm cutoff xs w \<Longrightarrow> steady cutoff xs w"
  by (simp add: calm_def)

abbreviation port_at :: "window_cache \<Rightarrow> nat \<Rightarrow> int" where "port_at w i \<equiv> fst (w_ports w ! i)"
abbreviation queue_at :: "window_cache \<Rightarrow> nat \<Rightarrow> port_snapshot list" where "queue_at w i \<equiv> snd (w_ports w ! i)"
abbreviation ports_of :: "window_cache \<Rightarrow> nat" where "ports_of w \<equiv> length (w_ports w)"

definition of_port :: "int \<Rightarrow> port_snapshot list \<Rightarrow> port_snapshot list" where
  "of_port p xs = filter (\<lambda>s. s_port s = p) xs"

text \<open>Each queue is its old content and what was added since, without some old entries at its front.\<close>

definition queues_inv :: "window_cache \<Rightarrow> time \<Rightarrow> port_snapshot list \<Rightarrow> race \<Rightarrow> bool" where
  "queues_inv w cutoff added c \<longleftrightarrow>
     (\<forall>i < ports_of w. \<exists>pre. queue_at w i @ of_port (port_at w i) added = pre @ rc_queue c i \<and> (\<forall>s \<in> set pre. s_time s < cutoff))
   \<and> rc_evicted c + (\<Sum>i < ports_of w. length (rc_queue c i)) = (\<Sum>i < ports_of w. length (queue_at w i)) + length added"

fun pending :: "add_thread \<Rightarrow> port_snapshot list" where
  "pending (A_Todo ss) = ss"
| "pending (A_Checked s ss) = s # ss"
| "pending (A_Found r s ss) = s # ss"
| "pending A_KeyError = []"

fun add_inv :: "window_cache \<Rightarrow> add_thread \<Rightarrow> bool" where
  "add_inv w (A_Found r s ss) \<longleftrightarrow> r < ports_of w \<and> port_at w r = s_port s"
| "add_inv w A_KeyError \<longleftrightarrow> False"
| "add_inv w _ \<longleftrightarrow> True"

text \<open>The ports visited have a recent snapshot in front.\<close>

definition settled :: "window_cache \<Rightarrow> time \<Rightarrow> (nat \<Rightarrow> port_snapshot list) \<Rightarrow> int list \<Rightarrow> bool" where
  "settled w cutoff q ps \<longleftrightarrow>
     (\<exists>vis. map fst (w_ports w) = vis @ ps \<and> (\<forall>i < ports_of w. port_at w i \<in> set vis \<longrightarrow> cutoff \<le> s_time (hd (q i))))"

fun evict_inv :: "window_cache \<Rightarrow> time \<Rightarrow> (nat \<Rightarrow> port_snapshot list) \<Rightarrow> evict_thread \<Rightarrow> bool" where
  "evict_inv w cutoff q E_Start \<longleftrightarrow> True"
| "evict_inv w cutoff q (E_Ports ps) \<longleftrightarrow> settled w cutoff q ps"
| "evict_inv w cutoff q (E_Loop r p ps) \<longleftrightarrow> r < ports_of w \<and> port_at w r = p \<and> settled w cutoff q (p # ps)"
| "evict_inv w cutoff q (E_Pop r p ps) \<longleftrightarrow> r < ports_of w \<and> port_at w r = p \<and> settled w cutoff q (p # ps) \<and> s_time (hd (q r)) < cutoff"
| "evict_inv w cutoff q (E_Empty r p ps) \<longleftrightarrow> r < ports_of w \<and> port_at w r = p \<and> settled w cutoff q (p # ps) \<and> cutoff \<le> s_time (hd (q r))"
| "evict_inv w cutoff q (E_Del p ps) \<longleftrightarrow> False"
| "evict_inv w cutoff q E_Failed \<longleftrightarrow> False"

definition race_inv :: "window_cache \<Rightarrow> time \<Rightarrow> port_snapshot list \<Rightarrow> race \<Rightarrow> bool" where
  "race_inv w cutoff xs c \<longleftrightarrow> rc_cache c = zip (map fst (w_ports w)) [0 ..< ports_of w]
     \<and> (\<exists>added. xs = added @ pending (rc_add c) \<and> queues_inv w cutoff added c)
     \<and> add_inv w (rc_add c) \<and> evict_inv w cutoff (rc_queue c) (rc_evict c)"

section \<open>It is kept\<close>

lemma index_dget: "distinct ks \<Longrightarrow> dget (zip ks [0 ..< length ks]) p = Some r \<longleftrightarrow> r < length ks \<and> ks ! r = p"
  by (subst map_of_eq_Some_iff) (auto simp: in_set_zip)

lemma steady_distinct: "steady cutoff xs w \<Longrightarrow> distinct (map fst (w_ports w))"
  by (simp add: steady_def window_ok_def dict_ok_def)

lemma cache_dget: "steady cutoff xs w \<Longrightarrow> dget (zip (map fst (w_ports w)) [0 ..< ports_of w]) p = Some r \<longleftrightarrow> r < ports_of w \<and> port_at w r = p"
  using index_dget [OF steady_distinct, of cutoff xs w p r] by auto

lemma port_at_inj: "steady cutoff xs w \<Longrightarrow> i < ports_of w \<Longrightarrow> j < ports_of w \<Longrightarrow> port_at w i = port_at w j \<longleftrightarrow> i = j"
  using nth_eq_iff_index_eq [OF steady_distinct, of cutoff xs w i j] by simp

lemma queue_live:
  assumes "steady cutoff xs w" and "queues_inv w cutoff added c" and "i < ports_of w"
  shows "rc_queue c i \<noteq> []"
proof
  assume e: "rc_queue c i = []"
  from assms(2,3) obtain pre where pre: "queue_at w i @ of_port (port_at w i) added = pre @ rc_queue c i" "\<forall>s \<in> set pre. s_time s < cutoff"
    unfolding queues_inv_def by blast
  have "w_ports w ! i \<in> set (w_ports w)" using assms(3) by simp
  with assms(1) have "queue_at w i \<noteq> []" "cutoff \<le> s_time (last (queue_at w i))"
    by (auto simp: steady_def window_ok_def queue_ok_def)
  moreover have "set (queue_at w i) \<subseteq> set pre" using arg_cong [OF pre(1), of set] by (auto simp: e)
  ultimately show False using pre(2) last_in_set by fastforce
qed

lemma sum_upd: "(r :: nat) < n \<Longrightarrow> (\<Sum>i < n. length ((q(r := v)) i)) + length (q r) = (\<Sum>i < n. length (q i)) + length (v :: 'a list)"
proof -
  assume r: "r < n"
  have "(\<Sum>i < n. length ((q(r := v)) i)) = length v + (\<Sum>i \<in> {..<n} - {r}. length ((q(r := v)) i))"
    using r sum.remove [of "{..<n}" r "\<lambda>i. length ((q(r := v)) i)"] by simp
  moreover have "(\<Sum>i < n. length (q i)) = length (q r) + (\<Sum>i \<in> {..<n} - {r}. length (q i))"
    using r sum.remove [of "{..<n}" r "\<lambda>i. length (q i)"] by simp
  moreover have "(\<Sum>i \<in> {..<n} - {r}. length ((q(r := v)) i)) = (\<Sum>i \<in> {..<n} - {r}. length (q i))"
    by (intro sum.cong) auto
  ultimately show ?thesis by simp
qed

lemma settled_append: "settled w cutoff q ps \<Longrightarrow> q r \<noteq> [] \<Longrightarrow> settled w cutoff (q(r := q r @ ys)) ps"
  unfolding settled_def by (metis fun_upd_apply hd_append2)

lemma evict_inv_append: "evict_inv w cutoff q e \<Longrightarrow> q r \<noteq> [] \<Longrightarrow> evict_inv w cutoff (q(r := q r @ ys)) e"
  by (cases e) (auto simp: settled_append)

lemma queues_inv_append:
  assumes "steady cutoff xs w" and "queues_inv w cutoff added c" and "r < ports_of w" and "port_at w r = s_port s"
    and "rc_queue c' = (rc_queue c)(r := rc_queue c r @ [s])" and "rc_evicted c' = rc_evicted c"
  shows "queues_inv w cutoff (added @ [s]) c'"
  unfolding queues_inv_def
proof (intro conjI allI impI)
  fix i assume i: "i < ports_of w"
  with assms(2) obtain pre where pre: "queue_at w i @ of_port (port_at w i) added = pre @ rc_queue c i" "\<forall>s \<in> set pre. s_time s < cutoff"
    unfolding queues_inv_def by blast
  have "port_at w i = s_port s \<longleftrightarrow> i = r" using port_at_inj [OF assms(1) i assms(3)] assms(4) by simp
  then have "queue_at w i @ of_port (port_at w i) (added @ [s]) = pre @ rc_queue c' i"
    using pre(1) by (auto simp: of_port_def assms(5) simp flip: append_assoc)
  with pre(2) show "\<exists>pre. queue_at w i @ of_port (port_at w i) (added @ [s]) = pre @ rc_queue c' i \<and> (\<forall>s \<in> set pre. s_time s < cutoff)"
    by blast
next
  show "rc_evicted c' + (\<Sum>i < ports_of w. length (rc_queue c' i)) = (\<Sum>i < ports_of w. length (queue_at w i)) + length (added @ [s])"
    using assms(2) sum_upd [OF assms(3), of "rc_queue c" "rc_queue c r @ [s]"] unfolding queues_inv_def assms(5,6) by simp
qed

lemma room_left:
  assumes "calm cutoff (added @ s # ss) w" and "queues_inv w cutoff added c" and "r < ports_of w" and "port_at w r = s_port s"
  shows "deque_append (w_max w) s (rc_queue c r) = rc_queue c r @ [s]"
proof -
  from assms(2,3) obtain pre where pre: "queue_at w r @ of_port (port_at w r) added = pre @ rc_queue c r"
    unfolding queues_inv_def by blast
  have "w_ports w ! r \<in> set (w_ports w)" using assms(3) by simp
  with assms(1) have "length (queue_at w r) + length (of_port (port_at w r) (added @ s # ss)) \<le> w_max w"
    by (auto simp: calm_def steady_def of_port_def)
  then have "length (queue_at w r @ of_port (port_at w r) added) < w_max w" using assms(4) by (simp add: of_port_def)
  then have "length (rc_queue c r) < w_max w" by (simp only: pre length_append)
  then show ?thesis by (simp add: deque_append_def)
qed

lemma add_step_inv:
  assumes "calm cutoff xs w" and "race_inv w cutoff xs c"
  shows "race_inv w cutoff xs (add_step (w_max w) c)"
proof -
  let ?cache = "zip (map fst (w_ports w)) [0 ..< ports_of w]"
  from assms(2) obtain added where inv: "rc_cache c = ?cache" "xs = added @ pending (rc_add c)" "queues_inv w cutoff added c"
    "add_inv w (rc_add c)" "evict_inv w cutoff (rc_queue c) (rc_evict c)" unfolding race_inv_def by blast
  have known: "\<exists>r. dget ?cache (s_port s) = Some r \<and> r < ports_of w \<and> port_at w r = s_port s" if "s \<in> set xs" for s
  proof -
    from assms(1) that have "s_port s \<in> fst ` set (w_ports w)" by (auto simp: calm_def steady_def dmem_iff)
    then obtain r where "r < ports_of w" "port_at w r = s_port s" by (auto simp: in_set_conv_nth)
    with cache_dget [OF calm_steady [OF assms(1)]] show ?thesis by blast
  qed
  show ?thesis
  proof (cases "rc_add c")
    case (A_Todo ss)
    show ?thesis
    proof (cases ss)
      case Nil
      with A_Todo assms(2) show ?thesis by (simp add: add_step_def)
    next
      case (Cons s rest)
      with A_Todo inv(2) have "s \<in> set xs" by simp
      from known [OF this] obtain r where "dget ?cache (s_port s) = Some r" by blast
      then have "dmem (s_port s) (rc_cache c)" unfolding dmem_def inv(1) by (simp only: option.distinct(2) not_False_eq_True)
      with A_Todo Cons have "add_step (w_max w) c = c\<lparr>rc_add := A_Checked s rest\<rparr>" by (simp add: add_step_def)
      with A_Todo Cons inv show ?thesis by (auto simp: race_inv_def queues_inv_def)
    qed
  next
    case (A_Checked s ss)
    with inv(2) have "s \<in> set xs" by simp
    from known [OF this] obtain r where "dget (rc_cache c) (s_port s) = Some r" "r < ports_of w" "port_at w r = s_port s"
      unfolding inv(1) by blast
    with A_Checked inv show ?thesis by (auto simp: add_step_def race_inv_def queues_inv_def)
  next
    case (A_Found r s ss)
    with inv have r: "r < ports_of w" "port_at w r = s_port s" and xs: "xs = added @ s # ss" by simp_all
    note live = queue_live [OF calm_steady [OF assms(1)] inv(3) r(1)]
    have q: "deque_append (w_max w) s (rc_queue c r) = rc_queue c r @ [s]"
      using assms(1) by (intro room_left [OF _ inv(3) r]) (simp add: xs)
    let ?c = "c\<lparr>rc_queue := (rc_queue c)(r := rc_queue c r @ [s]), rc_add := A_Todo ss\<rparr>"
    have "queues_inv w cutoff (added @ [s]) ?c" by (rule queues_inv_append [OF calm_steady [OF assms(1)] inv(3) r]) simp_all
    moreover have "evict_inv w cutoff (rc_queue ?c) (rc_evict ?c)" using evict_inv_append [OF inv(5) live] by simp
    moreover have "xs = (added @ [s]) @ pending (rc_add ?c)" by (simp add: xs)
    moreover have "rc_cache ?c = ?cache" "add_inv w (rc_add ?c)" using inv(1) by simp_all
    ultimately have "race_inv w cutoff xs ?c" unfolding race_inv_def by blast
    moreover have "add_step (w_max w) c = ?c" using A_Found q by (simp add: add_step_def)
    ultimately show ?thesis by simp
  next
    case A_KeyError
    with inv show ?thesis by simp
  qed
qed

lemma settled_next:
  assumes "steady cutoff xs w" and "settled w cutoff q (p # ps)" and "r < ports_of w" and "port_at w r = p" and "cutoff \<le> s_time (hd (q r))"
  shows "settled w cutoff q ps"
proof -
  from assms(2) obtain vis where vis: "map fst (w_ports w) = vis @ p # ps"
    "\<forall>i < ports_of w. port_at w i \<in> set vis \<longrightarrow> cutoff \<le> s_time (hd (q i))" unfolding settled_def by blast
  have "\<forall>i < ports_of w. port_at w i \<in> set (vis @ [p]) \<longrightarrow> cutoff \<le> s_time (hd (q i))"
    using vis(2) assms(3-5) port_at_inj [OF assms(1)] by auto
  with vis(1) show ?thesis unfolding settled_def by (intro exI [of _ "vis @ [p]"]) simp
qed

text \<open>Popping from the queue of the port at hand leaves the visited ports as they are.\<close>

lemma settled_pop:
  assumes "steady cutoff xs w" and "settled w cutoff q (p # ps)" and "r < ports_of w" and "port_at w r = p"
  shows "settled w cutoff (q(r := v)) (p # ps)"
proof -
  from assms(2) obtain vis where vis: "map fst (w_ports w) = vis @ p # ps"
    "\<forall>i < ports_of w. port_at w i \<in> set vis \<longrightarrow> cutoff \<le> s_time (hd (q i))" unfolding settled_def by blast
  have "p \<notin> set vis" using steady_distinct [OF assms(1)] by (simp add: vis(1))
  with vis assms(4) show ?thesis unfolding settled_def by (intro exI [of _ vis]) auto
qed

lemma queues_inv_pop:
  assumes "steady cutoff xs w" and "queues_inv w cutoff added c" and "r < ports_of w" and "s_time (hd (rc_queue c r)) < cutoff"
    and "rc_queue c' = (rc_queue c)(r := tl (rc_queue c r))" and "rc_evicted c' = Suc (rc_evicted c)"
  shows "queues_inv w cutoff added c'"
  unfolding queues_inv_def
proof (intro conjI allI impI)
  note live = queue_live [OF assms(1-3)]
  fix i assume i: "i < ports_of w"
  with assms(2) obtain pre where pre: "queue_at w i @ of_port (port_at w i) added = pre @ rc_queue c i" "\<forall>s \<in> set pre. s_time s < cutoff"
    unfolding queues_inv_def by blast
  show "\<exists>pre. queue_at w i @ of_port (port_at w i) added = pre @ rc_queue c' i \<and> (\<forall>s \<in> set pre. s_time s < cutoff)"
  proof (cases "i = r")
    case True
    with pre live assms(4) show ?thesis by (intro exI [of _ "pre @ [hd (rc_queue c r)]"]) (simp add: assms(5))
  next
    case False
    with pre show ?thesis by (intro exI [of _ pre]) (simp add: assms(5))
  qed
next
  have "length (rc_queue c r) = Suc (length (tl (rc_queue c r)))" using queue_live [OF assms(1-3)] by simp
  with assms(2) sum_upd [OF assms(3), of "rc_queue c" "tl (rc_queue c r)"]
  show "rc_evicted c' + (\<Sum>i < ports_of w. length (rc_queue c' i)) = (\<Sum>i < ports_of w. length (queue_at w i)) + length added"
    unfolding queues_inv_def assms(5,6) by linarith
qed

lemma evict_step_inv:
  assumes "steady cutoff xs w" and "race_inv w cutoff xs c"
  shows "race_inv w cutoff xs (evict_step cutoff c)"
proof -
  let ?cache = "zip (map fst (w_ports w)) [0 ..< ports_of w]"
  from assms(2) obtain added where inv: "rc_cache c = ?cache" "xs = added @ pending (rc_add c)" "queues_inv w cutoff added c"
    "add_inv w (rc_add c)" "evict_inv w cutoff (rc_queue c) (rc_evict c)" unfolding race_inv_def by blast
  have stay: "race_inv w cutoff xs (c\<lparr>rc_evict := e\<rparr>)" if "evict_inv w cutoff (rc_queue c) e" for e
    using inv that by (auto simp: race_inv_def queues_inv_def)
  show ?thesis
  proof (cases "rc_evict c")
    case E_Start
    have "settled w cutoff (rc_queue c) (dkeys (rc_cache c))"
      unfolding settled_def inv(1) by (intro exI [of _ "[]"]) simp
    with E_Start stay show ?thesis by (simp add: evict_step_def)
  next
    case (E_Ports ps)
    show ?thesis
    proof (cases ps)
      case Nil
      with E_Ports assms(2) show ?thesis by (simp add: evict_step_def)
    next
      case (Cons p rest)
      with inv(5) E_Ports have s: "settled w cutoff (rc_queue c) (p # rest)" by simp
      then obtain vis where "map fst (w_ports w) = vis @ p # rest" unfolding settled_def by blast
      then have "p \<in> set (map fst (w_ports w))" by (simp only: set_append list.set) simp
      then obtain r where r: "r < ports_of w" "port_at w r = p" by (auto simp: in_set_conv_nth)
      then have "dget (rc_cache c) p = Some r" unfolding inv(1) using cache_dget [OF assms(1)] by blast
      with E_Ports Cons have "evict_step cutoff c = c\<lparr>rc_evict := E_Loop r p rest\<rparr>" by (simp add: evict_step_def)
      with stay r s show ?thesis by simp
    qed
  next
    case (E_Loop r p ps)
    with inv(5) stay show ?thesis by (auto simp: evict_step_def intro: queue_live [OF assms(1) inv(3), THEN notE])
  next
    case (E_Pop r p ps)
    with inv(5) have r: "r < ports_of w" "port_at w r = p" "settled w cutoff (rc_queue c) (p # ps)" "s_time (hd (rc_queue c r)) < cutoff"
      by simp_all
    let ?c = "c\<lparr>rc_queue := (rc_queue c)(r := tl (rc_queue c r)), rc_evicted := Suc (rc_evicted c), rc_evict := E_Loop r p ps\<rparr>"
    have "queues_inv w cutoff added ?c" by (rule queues_inv_pop [OF assms(1) inv(3) r(1,4)]) simp_all
    moreover have "evict_inv w cutoff (rc_queue ?c) (rc_evict ?c)" using settled_pop [OF assms(1) r(3,1,2)] r by simp
    ultimately have "race_inv w cutoff xs ?c" using inv(1,2,4) by (auto simp: race_inv_def)
    moreover have "evict_step cutoff c = ?c" using E_Pop queue_live [OF assms(1) inv(3) r(1)] by (simp add: evict_step_def)
    ultimately show ?thesis by simp
  next
    case (E_Empty r p ps)
    with inv(5) have r: "r < ports_of w" "port_at w r = p" "settled w cutoff (rc_queue c) (p # ps)" "cutoff \<le> s_time (hd (rc_queue c r))"
      by simp_all
    have "evict_step cutoff c = c\<lparr>rc_evict := E_Ports ps\<rparr>"
      using E_Empty queue_live [OF assms(1) inv(3) r(1)] by (simp add: evict_step_def)
    with stay settled_next [OF assms(1) r(3,1,2,4)] show ?thesis by simp
  qed (use inv(5) in simp_all)
qed

section \<open>The sequential result\<close>

lemma dset_known: "distinct (dkeys d) \<Longrightarrow> k \<in> set (dkeys d) \<Longrightarrow> dset d k v = map (\<lambda>(k', x). (k', if k' = k then v else x)) d"
proof (induction d)
  case (Cons a d)
  obtain k' x where a: "a = (k', x)" by (cases a)
  show ?case
  proof (cases "k' = k")
    case True
    with Cons.prems a have "k \<notin> fst ` set d" by simp
    then have "map (\<lambda>(k', x). (k', if k' = k then v else x)) d = d" by (intro map_idI) (auto simp: image_iff)
    with True a show ?thesis by simp
  next
    case False
    with Cons a show ?thesis by auto
  qed
qed simp

lemma recent_kept: "dq \<noteq> [] \<Longrightarrow> cutoff \<le> s_time (last dq) \<Longrightarrow> keep_fresh cutoff dq \<noteq> [] \<and> keep_fresh cutoff (dq @ ys) = keep_fresh cutoff dq @ ys"
proof -
  assume dq: "dq \<noteq> []" "cutoff \<le> s_time (last dq)"
  then have l: "last dq \<in> set dq" "\<not> s_time (last dq) < cutoff" by simp_all
  from dropWhile_append1 [of "last dq" dq "\<lambda>s. s_time s < cutoff" ys] l show ?thesis by (auto simp: keep_fresh_def)
qed

lemma calm_port: "calm cutoff xs w \<Longrightarrow> x \<in> set (w_ports w) \<Longrightarrow>
    snd x \<noteq> [] \<and> cutoff \<le> s_time (last (snd x)) \<and> length (snd x) + length (of_port (fst x) xs) \<le> w_max w"
  by (auto simp: calm_def steady_def window_ok_def queue_ok_def of_port_def)

lemma calm_evict:
  assumes "calm cutoff xs w"
  shows "snd (evict_ports cutoff (w_ports w)) = map (\<lambda>(p, dq). (p, keep_fresh cutoff dq)) (w_ports w)"
proof -
  have "keep_fresh cutoff dq \<noteq> []" if "(p, dq) \<in> set (w_ports w)" for p dq
    using calm_port [OF assms that] recent_kept [of dq cutoff] by simp
  then show ?thesis unfolding evict_ports_eq by (intro filter_True) auto
qed

lemma adds_after_evict:
  assumes "calm cutoff xs w" and "xs = ys @ zs"
  shows "fold add_snapshot ys (w\<lparr>w_ports := snd (evict_ports cutoff (w_ports w))\<rparr>) =
    w\<lparr>w_ports := map (\<lambda>(p, dq). (p, keep_fresh cutoff dq @ of_port p ys)) (w_ports w)\<rparr>"
  using assms(2)
proof (induction ys arbitrary: zs rule: rev_induct)
  case Nil
  then show ?case by (simp add: calm_evict [OF assms(1)] of_port_def)
next
  case (snoc s ys)
  let ?f = "\<lambda>(p, dq). (p, keep_fresh cutoff dq @ of_port p ys)"
  let ?w = "w\<lparr>w_ports := map ?f (w_ports w)\<rparr>"
  have keys: "map fst (map ?f (w_ports w)) = map fst (w_ports w)" by (simp add: case_prod_beta comp_def)
  have "dmem (s_port s) (w_ports w)" using assms(1) snoc.prems by (simp add: calm_def steady_def)
  then obtain dq where dq: "(s_port s, dq) \<in> set (w_ports w)" by (auto simp: dmem_iff)
  have dist: "distinct (map fst (map ?f (w_ports w)))" unfolding keys by (rule steady_distinct [OF calm_steady [OF assms(1)]])
  have "(s_port s, keep_fresh cutoff dq @ of_port (s_port s) ys) \<in> set (map ?f (w_ports w))" using dq by force
  from map_of_is_SomeI [OF dist this] have e: "port_entries (s_port s) ?w = keep_fresh cutoff dq @ of_port (s_port s) ys"
    by (simp add: port_entries_def)
  from calm_port [OF assms(1) dq] have "length dq + length (of_port (s_port s) xs) \<le> w_max w" by simp
  then have "length (keep_fresh cutoff dq @ of_port (s_port s) ys) < w_max w"
    using keep_fresh_length [of cutoff dq] snoc.prems by (simp add: of_port_def)
  then have app: "deque_append (w_max w) s (port_entries (s_port s) ?w) = (keep_fresh cutoff dq @ of_port (s_port s) ys) @ [s]"
    by (simp add: e deque_append_def)
  have known: "s_port s \<in> set (dkeys (map ?f (w_ports w)))" unfolding keys using dq by force
  have "fold add_snapshot (ys @ [s]) (w\<lparr>w_ports := snd (evict_ports cutoff (w_ports w))\<rparr>) = add_snapshot s ?w"
    using snoc.IH [of "s # zs"] snoc.prems by simp
  also have "\<dots> = w\<lparr>w_ports := map (\<lambda>(k', x). (k', if k' = s_port s then (keep_fresh cutoff dq @ of_port (s_port s) ys) @ [s] else x))
      (map ?f (w_ports w))\<rparr>"
    by (simp add: add_snapshot_def app dset_known [OF dist known] del: map_map append_assoc)
  also have "\<dots> = w\<lparr>w_ports := map (\<lambda>(p, dq). (p, keep_fresh cutoff dq @ of_port p (ys @ [s]))) (w_ports w)\<rparr>"
  proof -
    have "dq' = dq" if "(s_port s, dq') \<in> set (w_ports w)" for dq'
      using eq_key_imp_eq_value [OF steady_distinct [OF calm_steady [OF assms(1)]] that dq] .
    then have "map (\<lambda>(k', x). (k', if k' = s_port s then (keep_fresh cutoff dq @ of_port (s_port s) ys) @ [s] else x)) (map ?f (w_ports w)) =
        map (\<lambda>(p, dq). (p, keep_fresh cutoff dq @ of_port p (ys @ [s]))) (w_ports w)"
      by (auto simp: of_port_def)
    then show ?thesis by simp
  qed
  finally show ?case .
qed

section \<open>Every schedule\<close>

lemma race_start: "steady cutoff xs w \<Longrightarrow> race_inv w cutoff xs (race_of w xs)"
  by (auto simp: race_inv_def race_of_def queues_inv_def of_port_def)

lemma schedule_inv: "calm cutoff xs w \<Longrightarrow> race_inv w cutoff xs c \<Longrightarrow> race_inv w cutoff xs (run_schedule (w_max w) cutoff sched c)"
  unfolding run_schedule_def by (induction sched arbitrary: c) (auto simp: add_step_inv evict_step_inv calm_steady)

lemma race_inv_ok: "race_inv w cutoff xs c \<Longrightarrow> \<not> failed c"
  by (auto simp: race_inv_def failed_def)

text \<open>When both threads are through, each queue is what remains of the old one, and what was added.\<close>

lemma final_queue:
  assumes "calm cutoff xs w" and "race_inv w cutoff xs c" and "finished c" and "i < ports_of w"
  shows "rc_queue c i = keep_fresh cutoff (queue_at w i) @ of_port (port_at w i) xs"
proof -
  from assms(2,3) have inv: "queues_inv w cutoff xs c" "settled w cutoff (rc_queue c) []" by (auto simp: race_inv_def finished_def)
  from inv(1) assms(4) obtain pre where pre: "queue_at w i @ of_port (port_at w i) xs = pre @ rc_queue c i" "\<forall>s \<in> set pre. s_time s < cutoff"
    unfolding queues_inv_def by blast
  have "port_at w i \<in> set (map fst (w_ports w))" using assms(4) by simp
  with inv(2) assms(4) have "cutoff \<le> s_time (hd (rc_queue c i))" unfolding settled_def by (metis append_Nil2)
  with queue_live [OF calm_steady [OF assms(1)] inv(1) assms(4)] have "keep_fresh cutoff (pre @ rc_queue c i) = rc_queue c i"
    using pre(2) by (cases "rc_queue c i") (auto simp: keep_fresh_def)
  moreover have "keep_fresh cutoff (queue_at w i @ of_port (port_at w i) xs) = keep_fresh cutoff (queue_at w i) @ of_port (port_at w i) xs"
    using calm_port [OF assms(1), of "w_ports w ! i"] assms(4) recent_kept by simp
  ultimately show ?thesis by (simp add: pre(1))
qed

lemma of_port_sum:
  assumes "steady cutoff xs w"
  shows "(\<Sum>i < ports_of w. length (of_port (port_at w i) xs)) = length xs"
proof -
  have "(\<Sum>i < ports_of w. length (of_port (port_at w i) ys)) = length ys" if "set ys \<subseteq> set xs" for ys
    using that
  proof (induction ys)
    case (Cons s ys)
    then have "s_port s \<in> fst ` set (w_ports w)" using assms by (auto simp: steady_def dmem_iff)
    then obtain j where j: "j < ports_of w" "port_at w j = s_port s" by (auto simp: in_set_conv_nth)
    have "length (of_port (port_at w i) (s # ys)) = (if i = j then 1 else 0) + length (of_port (port_at w i) ys)" if "i < ports_of w" for i
      using port_at_inj [OF assms that j(1)] j(2) by (auto simp: of_port_def)
    then have "(\<Sum>i < ports_of w. length (of_port (port_at w i) (s # ys))) =
        (\<Sum>i < ports_of w. (if i = j then 1 else 0) + length (of_port (port_at w i) ys))"
      by (intro sum.cong) simp_all
    with j(1) Cons show ?case by (simp add: sum.distrib)
  qed (simp add: of_port_def)
  from this [of xs] show ?thesis by simp
qed

lemma final_count:
  assumes "calm cutoff xs w" and "race_inv w cutoff xs c" and "finished c"
  shows "rc_evicted c = fst (evict_ports cutoff (w_ports w))"
proof -
  have sums: "(\<Sum>x\<leftarrow>f (w_ports w). length (snd x)) = (\<Sum>i < ports_of w. length (snd (f (w_ports w) ! i)))"
    if "length (f (w_ports w)) = ports_of w" for f :: "_ \<Rightarrow> (int \<times> port_snapshot list) list"
    using that by (simp add: sum_list_sum_nth atLeast0LessThan)
  from assms(2,3) have "queues_inv w cutoff xs c" by (auto simp: race_inv_def finished_def)
  then have "rc_evicted c + (\<Sum>i < ports_of w. length (rc_queue c i)) = (\<Sum>i < ports_of w. length (queue_at w i)) + length xs"
    unfolding queues_inv_def by blast
  moreover have "(\<Sum>i < ports_of w. length (rc_queue c i)) =
      (\<Sum>i < ports_of w. length (keep_fresh cutoff (queue_at w i)) + length (of_port (port_at w i) xs))"
    by (intro sum.cong) (simp_all add: final_queue [OF assms])
  moreover have "(\<Sum>x\<leftarrow>snd (evict_ports cutoff (w_ports w)). length (snd x)) = (\<Sum>i < ports_of w. length (keep_fresh cutoff (queue_at w i)))"
    unfolding calm_evict [OF assms(1)] using sums [of "map (\<lambda>(p, dq). (p, keep_fresh cutoff dq))"] by (simp add: case_prod_beta)
  ultimately show ?thesis
    using evict_count [of cutoff "w_ports w"] sums [of "\<lambda>d. d"] of_port_sum [OF calm_steady [OF assms(1)]] by (simp add: sum.distrib)
qed

section \<open>Both threads come to an end\<close>

fun add_left :: "add_thread \<Rightarrow> nat" where
  "add_left (A_Todo ss) = 3 * length ss"
| "add_left (A_Checked s ss) = 3 * length ss + 2"
| "add_left (A_Found r s ss) = 3 * length ss + 1"
| "add_left A_KeyError = 0"

fun evict_left :: "nat \<Rightarrow> evict_thread \<Rightarrow> nat" where
  "evict_left n E_Start = 3 * n + 1"
| "evict_left n (E_Ports ps) = 3 * length ps"
| "evict_left n (E_Loop r p ps) = 3 * length ps + 2"
| "evict_left n (E_Pop r p ps) = 3 * length ps + 1"
| "evict_left n (E_Empty r p ps) = 3 * length ps + 1"
| "evict_left n _ = 0"

text \<open>The moves each thread has left at most; of the pops there are no more than entries.\<close>

definition entries_bound :: "window_cache \<Rightarrow> port_snapshot list \<Rightarrow> nat" where
  "entries_bound w xs = (\<Sum>i < ports_of w. length (queue_at w i)) + length xs"

definition moves_left :: "window_cache \<Rightarrow> port_snapshot list \<Rightarrow> race \<Rightarrow> nat" where
  "moves_left w xs c = (if rc_evict c = E_Ports [] then 0
     else evict_left (ports_of w) (rc_evict c) + 2 * (entries_bound w xs - rc_evicted c))"

lemma add_moves: "race_inv w cutoff xs c \<Longrightarrow> moves_left w xs (add_step m c) = moves_left w xs c
    \<and> add_left (rc_add (add_step m c)) \<le> add_left (rc_add c) - 1"
  by (auto simp: add_step_def moves_left_def race_inv_def split: add_thread.splits list.splits option.splits)

lemma evict_moves:
  assumes "steady cutoff xs w" and "race_inv w cutoff xs c"
  shows "rc_add (evict_step cutoff c) = rc_add c"
    and "rc_evict c \<noteq> E_Ports [] \<Longrightarrow> moves_left w xs (evict_step cutoff c) < moves_left w xs c"
proof -
  show "rc_add (evict_step cutoff c) = rc_add c"
    by (simp add: evict_step_def split: evict_thread.splits list.splits option.splits)
next
  assume "rc_evict c \<noteq> E_Ports []"
  from assms(2) obtain added where inv: "xs = added @ pending (rc_add c)" "queues_inv w cutoff added c"
    "evict_inv w cutoff (rc_queue c) (rc_evict c)" and cache: "length (rc_cache c) = ports_of w" unfolding race_inv_def by auto
  have live: "rc_queue c r \<noteq> []" if "r < ports_of w" for r by (rule queue_live [OF assms(1) inv(2) that])
  have room: "rc_evicted c < entries_bound w xs" if r: "r < ports_of w" for r
  proof -
    have "length (rc_queue c r) \<le> (\<Sum>i < ports_of w. length (rc_queue c i))" using r by (intro member_le_sum) simp_all
    then have "0 < (\<Sum>i < ports_of w. length (rc_queue c i))" using live [OF r] by (cases "rc_queue c r") simp_all
    moreover have "rc_evicted c + (\<Sum>i < ports_of w. length (rc_queue c i)) \<le> entries_bound w xs"
      using inv(1,2) by (simp add: queues_inv_def entries_bound_def)
    ultimately show ?thesis by linarith
  qed
  show "moves_left w xs (evict_step cutoff c) < moves_left w xs c"
  proof (cases "rc_evict c")
    case (E_Ports ps)
    with \<open>rc_evict c \<noteq> E_Ports []\<close> show ?thesis
      by (cases ps) (auto simp: evict_step_def moves_left_def split: option.splits)
  next
    case (E_Pop r p ps)
    with inv(3) have r: "r < ports_of w" by simp
    with E_Pop room [OF r] live [OF r] show ?thesis by (simp add: evict_step_def moves_left_def)
  next
    case (E_Empty r p ps)
    with inv(3) live show ?thesis by (simp add: evict_step_def moves_left_def)
  qed (use inv(3) cache in \<open>simp_all add: evict_step_def moves_left_def\<close>)
qed

lemma evict_done: "moves_left w xs c = 0 \<Longrightarrow> race_inv w cutoff xs c \<Longrightarrow> rc_evict c = E_Ports []"
  by (cases "rc_evict c") (auto simp: moves_left_def race_inv_def split: if_splits)

lemma add_done: "add_left (rc_add c) = 0 \<Longrightarrow> race_inv w cutoff xs c \<Longrightarrow> rc_add c = A_Todo []"
  by (cases "rc_add c") (auto simp: race_inv_def)

lemma evict_move: "steady cutoff xs w \<Longrightarrow> race_inv w cutoff xs c \<Longrightarrow> moves_left w xs (evict_step cutoff c) \<le> moves_left w xs c - 1"
  using evict_moves(2) [of cutoff xs w c] by (cases "rc_evict c = E_Ports []") (auto simp: evict_step_def moves_left_def)

lemma moves_enough:
  assumes "calm cutoff xs w"
  shows "race_inv w cutoff xs c \<Longrightarrow> c' = run_schedule (w_max w) cutoff sched c \<Longrightarrow>
    add_left (rc_add c') \<le> add_left (rc_add c) - count_list sched True \<and> moves_left w xs c' \<le> moves_left w xs c - count_list sched False"
proof (induction sched arbitrary: c)
  case (Cons b sched)
  let ?c = "if b then add_step (w_max w) c else evict_step cutoff c"
  have inv: "race_inv w cutoff xs ?c" using assms Cons.prems(1) by (simp add: add_step_inv evict_step_inv calm_steady)
  have "c' = run_schedule (w_max w) cutoff sched ?c" using Cons.prems(2) by (simp add: run_schedule_def)
  from Cons.IH [OF inv this] add_moves [OF Cons.prems(1), of "w_max w"] evict_moves(1) [OF calm_steady [OF assms] Cons.prems(1)]
    evict_move [OF calm_steady [OF assms] Cons.prems(1)] show ?case by (cases b) auto
qed (simp add: run_schedule_def)

lemma enough_moves_finish:
  assumes "calm cutoff xs w" and "3 * length xs \<le> count_list sched True"
    and "3 * ports_of w + 1 + 2 * entries_bound w xs \<le> count_list sched False"
  shows "finished (run_schedule (w_max w) cutoff sched (race_of w xs))"
proof -
  let ?c = "run_schedule (w_max w) cutoff sched (race_of w xs)"
  note start = race_start [OF calm_steady [OF assms(1)]]
  have "add_left (rc_add (race_of w xs)) = 3 * length xs" "moves_left w xs (race_of w xs) = 3 * ports_of w + 1 + 2 * entries_bound w xs"
    by (simp_all add: race_of_def moves_left_def)
  with moves_enough [OF assms(1) start refl, of sched] assms(2,3) have "add_left (rc_add ?c) = 0" "moves_left w xs ?c = 0" by simp_all
  with evict_done add_done schedule_inv [OF assms(1) start, of sched] show ?thesis unfolding finished_def by blast
qed

lemma serialized:
  assumes "calm (now - of_int age) xs w" and "run_schedule (w_max w) (now - of_int age) sched (race_of w xs) = c"
  shows "\<not> failed c
    \<and> (finished c \<longrightarrow> (rc_evicted c, history_of (w_max w) c) = map_prod id (fold add_snapshot xs) (evict_stale now age w))"
proof -
  let ?c = "now - of_int age"
  have inv: "race_inv w ?c xs c" using schedule_inv [OF assms(1) race_start [OF calm_steady [OF assms(1)]]] assms(2) by blast
  have "history_of (w_max w) c = fold add_snapshot xs (w\<lparr>w_ports := snd (evict_ports ?c (w_ports w))\<rparr>)
      \<and> rc_evicted c = fst (evict_ports ?c (w_ports w))" if fin: "finished c"
  proof -
    have "rc_cache c = zip (map fst (w_ports w)) [0 ..< ports_of w]" using inv by (simp add: race_inv_def)
    then have "map (\<lambda>(p, r). (p, rc_queue c r)) (rc_cache c) = map (\<lambda>i. (port_at w i, rc_queue c i)) [0 ..< ports_of w]"
      by (intro nth_equalityI) simp_all
    also have "\<dots> = map (\<lambda>i. (port_at w i, keep_fresh ?c (queue_at w i) @ of_port (port_at w i) xs)) [0 ..< ports_of w]"
      using final_queue [OF assms(1) inv fin] by simp
    also have "\<dots> = map (\<lambda>(p, dq). (p, keep_fresh ?c dq @ of_port p xs)) (w_ports w)"
      by (intro nth_equalityI) (simp_all add: case_prod_beta)
    finally have "history_of (w_max w) c = w\<lparr>w_ports := map (\<lambda>(p, dq). (p, keep_fresh ?c dq @ of_port p xs)) (w_ports w)\<rparr>"
      by (simp add: history_of_def)
    with adds_after_evict [OF assms(1), of xs "[]"] final_count [OF assms(1) inv fin] show ?thesis by simp
  qed
  with race_inv_ok [OF inv] show ?thesis by (simp add: evict_stale_def split: prod.splits)
qed

section \<open>What can go wrong otherwise\<close>

definition sample_snapshot :: "time \<Rightarrow> port_snapshot" where
  "sample_snapshot t = \<lparr>s_time = t, s_port = 80, s_pid = 7, s_app = ''web'', s_in = 1, s_out = 1, s_protocol = ''TCP'',
     s_direction = ''both'', s_risk = 0, s_remote = ''0.0.0.0'', s_org = ''Unknown'', s_country = ''??''\<rparr>"

definition sample_history :: "time list \<Rightarrow> window_cache" where
  "sample_history ts = \<lparr>w_max = 4, w_ports = [(80, map sample_snapshot ts)]\<rparr>"

text \<open>
  A port whose last snapshot is old: when traffic comes back while the port is being evicted, the
  dispatcher either meets a \<open>KeyError\<close>, if the port vanishes between the test and the lookup of
  \<open>add\<close>, or the new snapshot goes to a queue that is no longer in the history.
\<close>

lemma eviction_race_raises:
  "rc_add (run_schedule 4 10 ([True] @ replicate 7 False @ [True]) (race_of (sample_history [0]) [sample_snapshot 50])) = A_KeyError"
  by (simp add: run_schedule_def race_of_def sample_history_def sample_snapshot_def add_step_def evict_step_def dmem_def numeral_eq_Suc)

definition lost_update :: race where
  "lost_update = run_schedule 4 10 (replicate 6 False @ replicate 3 True @ [False]) (race_of (sample_history [0]) [sample_snapshot 50])"

lemma eviction_race_loses: "finished lost_update \<and> w_ports (history_of 4 lost_update) = []"
  by (simp add: lost_update_def run_schedule_def race_of_def sample_history_def sample_snapshot_def add_step_def evict_step_def
      dmem_def numeral_eq_Suc finished_def history_of_def deque_append_def)

text \<open>
  A full queue: adding first drops an old entry that the eviction would have counted. The queue is
  the same in both orders, the count is not.
\<close>

lemma full_queue_count_differs:
  "(let c = run_schedule 2 10 (replicate 3 True @ replicate 5 False)
        (race_of ((sample_history [0, 40])\<lparr>w_max := 2\<rparr>) [sample_snapshot 50]) in
      finished c \<and> rc_evicted c = 0 \<and> rc_queue c 0 = [sample_snapshot 40, sample_snapshot 50])
   \<and> fst (evict_stale 20 10 ((sample_history [0, 40])\<lparr>w_max := 2\<rparr>)) = 1"
  by (simp add: run_schedule_def race_of_def sample_history_def sample_snapshot_def add_step_def evict_step_def
      dmem_def numeral_eq_Suc finished_def deque_append_def Let_def evict_stale_def)

section \<open>The property\<close>

text \<open>
  C29: eviction and additions commute on a calm history. While every port has a recent snapshot,
  only such ports get new ones, and no queue becomes full (its length and the additions to it stay
  within the maximum), the two threads may be interleaved in any way: no operation raises; with
  enough moves both come to an end; and then the history is the one an eviction leaves when the
  snapshots are added after it, with the same count of evicted entries. With a full queue the count
  may differ.
\<close>

theorem calm_history_is_serialized:
  assumes "calm (now - of_int age) xs w" and "run_schedule (w_max w) (now - of_int age) sched (race_of w xs) = c"
  shows "\<not> failed c
    \<and> (3 * length xs \<le> count_list sched True \<and> 3 * ports_of w + 1 + 2 * entries_bound w xs \<le> count_list sched False \<longrightarrow> finished c)
    \<and> (finished c \<longrightarrow> (rc_evicted c, history_of (w_max w) c) = map_prod id (fold add_snapshot xs) (evict_stale now age w))"
  using serialized [OF assms] enough_moves_finish [OF assms(1), of sched] assms(2) by blast

lemma sample_calm: "calm 10 [sample_snapshot 50] (sample_history [0, 40])"
  by (simp add: calm_def steady_def window_ok_def dict_ok_def queue_ok_def sample_history_def sample_snapshot_def dmem_def)

theorem calm_history_is_serialized_witness:
  "\<exists>c. run_schedule 4 10 (concat (replicate 10 [False, True]) ) (race_of (sample_history [0, 40]) [sample_snapshot 50]) = c
     \<and> rc_evicted c = 1 \<and> history_of 4 c = sample_history [40, 50]"
proof -
  let ?w = "sample_history [0, 40]" and ?xs = "[sample_snapshot 50]"
  obtain c where c: "run_schedule (w_max ?w) (20 - of_int 10) (concat (replicate 10 [False, True])) (race_of ?w ?xs) = c" by blast
  have n: "concat (replicate 10 [False, True]) = [False, True, False, True, False, True, False, True, False, True, False, True, False, True,
      False, True, False, True, False, True]" by (simp add: numeral_eq_Suc)
  have "calm (20 - of_int 10) ?xs ?w" using sample_calm by simp
  from calm_history_is_serialized [OF this c]
  have "(rc_evicted c, history_of 4 c) = map_prod id (fold add_snapshot ?xs) (evict_stale 20 10 ?w)"
    by (simp add: n entries_bound_def) (simp add: sample_history_def)
  also have "\<dots> = (1, sample_history [40, 50])"
    by (simp add: evict_stale_def sample_history_def sample_snapshot_def add_snapshot_def port_entries_def deque_append_def Let_def)
  finally show ?thesis using c by (simp add: sample_history_def)
qed

end
