(* ===== verification/Table_Race.thy ===== *)
theory Table_Race
  imports Cache_Race
begin

text \<open>
  \<open>get_port_table\<close> of \<open>application/services/metrics_service.py\<close> next to another thread. The event loop
  reads the table while the eviction job may run in the scheduler's thread, and the flush job reads
  it there while the dispatcher may add snapshots in the event loop; so there is one reader and one
  other thread, either of those of \<open>Cache_Race\<close>. The loop over \<open>self.cache._cache.items()\<close> is cut into
  the operations the interpreter executes as a whole. The snapshots themselves are taken as values.
\<close>

section \<open>The reader\<close>

text \<open>
  \<open>R_Next n i\<close>: the iterator was made when the dictionary had \<open>n\<close> items and has given \<open>i\<close> of them;
  it raises \<open>RuntimeError\<close> when the size is another one by now. \<open>R_Test\<close> is the test \<open>if dq\<close>,
  \<open>R_Last\<close> the expression \<open>dq[-1]\<close>.
\<close>

datatype reader =
    R_Start
  | R_Next nat nat "(int, port_snapshot) dict"
  | R_Test nat nat int nat "(int, port_snapshot) dict"
  | R_Last nat nat int nat "(int, port_snapshot) dict"
  | R_Done "(int, port_snapshot) dict"
  | R_RuntimeError
  | R_IndexError

record reading =
  rg_race :: race
  rg_reader :: reader

fun reader_step :: "race \<Rightarrow> reader \<Rightarrow> reader" where
  "reader_step c R_Start = R_Next (length (rc_cache c)) 0 []"
| "reader_step c (R_Next n i acc) =
     (if length (rc_cache c) \<noteq> n then R_RuntimeError
      else if i < n then R_Test n i (fst (rc_cache c ! i)) (snd (rc_cache c ! i)) acc
      else R_Done acc)"
| "reader_step c (R_Test n i p r acc) = (if rc_queue c r = [] then R_Next n (Suc i) acc else R_Last n i p r acc)"
| "reader_step c (R_Last n i p r acc) =
     (if rc_queue c r = [] then R_IndexError else R_Next n (Suc i) (dset acc p (last (rc_queue c r))))"
| "reader_step c rd = rd"

text \<open>The rows made of what the loop has collected.\<close>

definition rows_read :: "time \<Rightarrow> (int, port_snapshot) dict \<Rightarrow> port_row list" where
  "rows_read now acc = map row_of (filter (\<lambda>s. now - s_time s \<le> ACTIVE_PORT_TTL_SECONDS) (sort_key s_port (map snd acc)))"

text \<open>The other thread, and a schedule: the moves of the reader are \<open>True\<close>.\<close>

datatype partner = Adding | Evicting

fun partner_step :: "nat \<Rightarrow> time \<Rightarrow> partner \<Rightarrow> race \<Rightarrow> race" where
  "partner_step maxlen cutoff Adding = add_step maxlen"
| "partner_step maxlen cutoff Evicting = evict_step cutoff"

definition read_schedule :: "nat \<Rightarrow> time \<Rightarrow> partner \<Rightarrow> bool list \<Rightarrow> reading \<Rightarrow> reading" where
  "read_schedule maxlen cutoff other sched g =
     fold (\<lambda>b g. if b then g\<lparr>rg_reader := reader_step (rg_race g) (rg_reader g)\<rparr>
                else g\<lparr>rg_race := partner_step maxlen cutoff other (rg_race g)\<rparr>) sched g"

definition reading_of :: "window_cache \<Rightarrow> port_snapshot list \<Rightarrow> reading" where
  "reading_of w xs = \<lparr>rg_race = race_of w xs, rg_reader = R_Start\<rparr>"

section \<open>The invariant\<close>

text \<open>
  The newest snapshot of the \<open>i\<close>-th port after the first \<open>k\<close> additions, and the snapshots of the
  first \<open>length ks\<close> ports, each taken after its own number of additions.
\<close>

definition newest :: "window_cache \<Rightarrow> port_snapshot list \<Rightarrow> nat \<Rightarrow> nat \<Rightarrow> port_snapshot" where
  "newest w xs i k = last (queue_at w i @ of_port (port_at w i) (take k xs))"

definition taken :: "window_cache \<Rightarrow> port_snapshot list \<Rightarrow> nat list \<Rightarrow> (int, port_snapshot) dict" where
  "taken w xs ks = map (\<lambda>(i, k). (port_at w i, newest w xs i k)) (enumerate 0 ks)"

definition seen :: "window_cache \<Rightarrow> port_snapshot list \<Rightarrow> nat \<Rightarrow> nat \<Rightarrow> (int, port_snapshot) dict \<Rightarrow> bool" where
  "seen w xs m i acc \<longleftrightarrow> (\<exists>ks. sorted ks \<and> length ks = i \<and> (\<forall>k \<in> set ks. k \<le> m) \<and> acc = taken w xs ks)"

fun reader_inv :: "window_cache \<Rightarrow> port_snapshot list \<Rightarrow> nat \<Rightarrow> reader \<Rightarrow> bool" where
  "reader_inv w xs m R_Start \<longleftrightarrow> True"
| "reader_inv w xs m (R_Next n i acc) \<longleftrightarrow> n = ports_of w \<and> i \<le> n \<and> seen w xs m i acc"
| "reader_inv w xs m (R_Test n i p r acc) \<longleftrightarrow> n = ports_of w \<and> i < n \<and> r = i \<and> p = port_at w i \<and> seen w xs m i acc"
| "reader_inv w xs m (R_Last n i p r acc) \<longleftrightarrow> n = ports_of w \<and> i < n \<and> r = i \<and> p = port_at w i \<and> seen w xs m i acc"
| "reader_inv w xs m (R_Done acc) \<longleftrightarrow> seen w xs m (ports_of w) acc"
| "reader_inv w xs m R_RuntimeError \<longleftrightarrow> False"
| "reader_inv w xs m R_IndexError \<longleftrightarrow> False"

text \<open>How many snapshots have been added.\<close>

definition added_count :: "port_snapshot list \<Rightarrow> race \<Rightarrow> nat" where
  "added_count xs c = length xs - length (pending (rc_add c))"

text \<open>
  What the reader relies on: the dictionary stays what it was, and the newest entry of each queue is
  the last one added to it. Neither depends on the lengths of the queues.
\<close>

definition reads_inv :: "window_cache \<Rightarrow> port_snapshot list \<Rightarrow> race \<Rightarrow> bool" where
  "reads_inv w xs c \<longleftrightarrow> rc_cache c = zip (map fst (w_ports w)) [0 ..< ports_of w]
     \<and> (\<exists>added. xs = added @ pending (rc_add c)) \<and> add_inv w (rc_add c)
     \<and> (\<forall>i < ports_of w. rc_queue c i \<noteq> [] \<and> last (rc_queue c i) = newest w xs i (added_count xs c))"

definition partner_inv :: "partner \<Rightarrow> window_cache \<Rightarrow> time \<Rightarrow> port_snapshot list \<Rightarrow> race \<Rightarrow> bool" where
  "partner_inv other w cutoff xs c \<longleftrightarrow> reads_inv w xs c \<and> (other = Evicting \<longrightarrow> race_inv w cutoff xs c)"

definition reading_inv :: "partner \<Rightarrow> window_cache \<Rightarrow> time \<Rightarrow> port_snapshot list \<Rightarrow> reading \<Rightarrow> bool" where
  "reading_inv other w cutoff xs g \<longleftrightarrow>
     partner_inv other w cutoff xs (rg_race g) \<and> reader_inv w xs (added_count xs (rg_race g)) (rg_reader g)"

lemma seen_mono: "seen w xs m i acc \<Longrightarrow> m \<le> m' \<Longrightarrow> seen w xs m' i acc"
  unfolding seen_def by (blast intro: le_trans)

lemma reader_inv_mono: "reader_inv w xs m rd \<Longrightarrow> m \<le> m' \<Longrightarrow> reader_inv w xs m' rd"
  by (cases rd) (auto intro: seen_mono)

lemma evicting_reads:
  assumes "steady cutoff xs w" and "race_inv w cutoff xs c" and "i < ports_of w"
  shows "rc_queue c i \<noteq> [] \<and> last (rc_queue c i) = newest w xs i (added_count xs c)"
proof -
  from assms(2) obtain added where a: "xs = added @ pending (rc_add c)" "queues_inv w cutoff added c" unfolding race_inv_def by blast
  from queue_live [OF assms(1) a(2) assms(3)] have live: "rc_queue c i \<noteq> []" .
  from a(2) assms(3) obtain pre where "queue_at w i @ of_port (port_at w i) added = pre @ rc_queue c i"
    unfolding queues_inv_def by blast
  moreover have "take (added_count xs c) xs = added" by (simp add: a(1) added_count_def)
  ultimately show ?thesis using live by (simp add: newest_def)
qed

lemma taken_snoc:
  assumes "steady cutoff xs w" and "length ks < ports_of w"
  shows "dset (taken w xs ks) (port_at w (length ks)) (newest w xs (length ks) k) = taken w xs (ks @ [k])"
proof -
  have "dset d p v = d @ [(p, v)]" if "p \<notin> set (dkeys d)" for d :: "(int, port_snapshot) dict" and p v
    using that by (induction d) auto
  moreover have "port_at w (length ks) \<notin> set (dkeys (taken w xs ks))"
    using port_at_inj [OF assms(1)] assms(2) by (fastforce simp: taken_def in_set_enumerate_eq)
  ultimately have "dset (taken w xs ks) (port_at w (length ks)) (newest w xs (length ks) k) =
      taken w xs ks @ [(port_at w (length ks), newest w xs (length ks) k)]" by blast
  then show ?thesis by (simp add: taken_def enumerate_append_eq)
qed

lemma seen_snoc:
  assumes "steady cutoff xs w" and "i < ports_of w" and "seen w xs m i acc"
  shows "seen w xs m (Suc i) (dset acc (port_at w i) (newest w xs i m))"
proof -
  from assms(3) obtain ks where ks: "sorted ks" "length ks = i" "\<forall>k \<in> set ks. k \<le> m" "acc = taken w xs ks"
    unfolding seen_def by blast
  have "sorted (ks @ [m])" "length (ks @ [m]) = Suc i" "\<forall>k \<in> set (ks @ [m]). k \<le> m"
    using ks(1-3) by (auto simp: sorted_append)
  with taken_snoc [OF assms(1), of ks m] ks(2,4) assms(2) show ?thesis unfolding seen_def by (intro exI [of _ "ks @ [m]"]) simp
qed

lemma reader_step_inv:
  assumes "steady cutoff xs w" and "reads_inv w xs c" and "reader_inv w xs (added_count xs c) rd"
  shows "reader_inv w xs (added_count xs c) (reader_step c rd)"
proof -
  from assms(2) have cache: "rc_cache c = zip (map fst (w_ports w)) [0 ..< ports_of w]"
    and q: "\<forall>i < ports_of w. rc_queue c i \<noteq> [] \<and> last (rc_queue c i) = newest w xs i (added_count xs c)"
    by (simp_all add: reads_inv_def)
  note read = q [rule_format]
  show ?thesis
  proof (cases rd)
    case R_Start
    have "seen w xs m 0 []" for m by (simp add: seen_def taken_def)
    with R_Start cache show ?thesis by simp
  next
    case (R_Next n i acc)
    with assms(3) cache show ?thesis by auto
  next
    case (R_Test n i p r acc)
    with assms(3) read [of i] show ?thesis by simp
  next
    case (R_Last n i p r acc)
    with assms(3) read [of i] seen_snoc [OF assms(1), of i _ acc] show ?thesis by simp
  qed (use assms(3) in simp_all)
qed

text \<open>A step of the other thread adds nothing, or the next snapshot.\<close>

lemma added_count_mono:
  "partner_inv other w cutoff xs c \<Longrightarrow> added_count xs c \<le> added_count xs (partner_step (w_max w) cutoff other c)"
  by (cases other) (auto simp: added_count_def partner_inv_def reads_inv_def add_step_def evict_step_def
      split: add_thread.splits evict_thread.splits list.splits option.splits)

lemma evicting_step_inv:
  assumes "steady cutoff xs w" and "partner_inv Evicting w cutoff xs c"
  shows "partner_inv Evicting w cutoff xs (evict_step cutoff c)"
proof -
  have "race_inv w cutoff xs (evict_step cutoff c)" using assms evict_step_inv by (simp add: partner_inv_def)
  then show ?thesis using evicting_reads [OF assms(1)] unfolding partner_inv_def reads_inv_def race_inv_def by blast
qed

text \<open>An addition makes its snapshot the newest of its port and leaves the others alone, however full the queues are.\<close>

lemma newest_added:
  assumes "steady cutoff xs w" and "xs = added @ s # ss" and "r < ports_of w" and "port_at w r = s_port s" and "i < ports_of w"
  shows "newest w xs i (Suc (length added)) = (if i = r then s else newest w xs i (length added))"
  using port_at_inj [OF assms(1,5,3)] assms(2-5) by (cases "i = r") (auto simp: newest_def of_port_def)

lemma adding_step_inv:
  assumes "steady cutoff xs w" and "reads_inv w xs c"
  shows "reads_inv w xs (add_step (w_max w) c)"
proof -
  let ?cache = "zip (map fst (w_ports w)) [0 ..< ports_of w]"
  from assms(2) obtain added where inv: "rc_cache c = ?cache" "xs = added @ pending (rc_add c)" "add_inv w (rc_add c)"
    and q: "\<forall>i < ports_of w. rc_queue c i \<noteq> [] \<and> last (rc_queue c i) = newest w xs i (added_count xs c)"
    unfolding reads_inv_def by blast
  have known: "\<exists>r. dget ?cache (s_port s) = Some r \<and> r < ports_of w \<and> port_at w r = s_port s" if "s \<in> set xs" for s
  proof -
    from assms(1) that have "s_port s \<in> fst ` set (w_ports w)" by (auto simp: steady_def dmem_iff)
    then obtain r where "r < ports_of w" "port_at w r = s_port s" by (auto simp: in_set_conv_nth)
    with cache_dget [OF assms(1)] show ?thesis by blast
  qed
  show ?thesis
  proof (cases "rc_add c")
    case (A_Todo ss)
    show ?thesis
    proof (cases ss)
      case Nil
      with A_Todo assms(2) show ?thesis by (simp add: add_step_def)
    next
      case (Cons s rest)
      with A_Todo inv(2) have "s \<in> set xs" by simp
      from known [OF this] obtain r where "dget ?cache (s_port s) = Some r" by blast
      then have "dmem (s_port s) (rc_cache c)" unfolding dmem_def inv(1) by (simp only: option.distinct(2) not_False_eq_True)
      with A_Todo Cons have "add_step (w_max w) c = c\<lparr>rc_add := A_Checked s rest\<rparr>" by (simp add: add_step_def)
      with A_Todo Cons inv q show ?thesis by (auto simp: reads_inv_def added_count_def)
    qed
  next
    case (A_Checked s ss)
    with inv(2) have "s \<in> set xs" by simp
    from known [OF this] obtain r where "dget (rc_cache c) (s_port s) = Some r" "r < ports_of w" "port_at w r = s_port s"
      unfolding inv(1) by blast
    with A_Checked inv q show ?thesis by (auto simp: add_step_def reads_inv_def added_count_def)
  next
    case (A_Found r s ss)
    with inv have r: "r < ports_of w" "port_at w r = s_port s" and xs: "xs = added @ s # ss" by simp_all
    have max: "0 < w_max w" using assms(1) by (simp add: steady_def window_ok_def)
    let ?c = "c\<lparr>rc_queue := (rc_queue c)(r := deque_append (w_max w) s (rc_queue c r)), rc_add := A_Todo ss\<rparr>"
    have n: "added_count xs c = length added" "added_count xs ?c = Suc (length added)"
      by (simp_all add: added_count_def xs A_Found)
    have "rc_queue ?c i \<noteq> [] \<and> last (rc_queue ?c i) = newest w xs i (added_count xs ?c)" if "i < ports_of w" for i
      using q [rule_format, OF that] newest_added [OF assms(1) xs r that] max n
      by (simp add: last_deque_append deque_append_nonempty)
    moreover have "xs = (added @ [s]) @ pending (rc_add ?c)" by (simp add: xs)
    moreover have "rc_cache ?c = ?cache" "add_inv w (rc_add ?c)" using inv(1) by simp_all
    ultimately have "reads_inv w xs ?c" unfolding reads_inv_def by blast
    moreover have "add_step (w_max w) c = ?c" using A_Found by (simp add: add_step_def)
    ultimately show ?thesis by simp
  next
    case A_KeyError
    with inv show ?thesis by simp
  qed
qed

lemma other_step_inv:
  "steady cutoff xs w \<Longrightarrow> partner_inv other w cutoff xs c \<Longrightarrow> partner_inv other w cutoff xs (partner_step (w_max w) cutoff other c)"
  by (cases other) (simp_all add: evicting_step_inv, simp add: partner_inv_def adding_step_inv)

lemma partner_reads: "partner_inv other w cutoff xs c \<Longrightarrow> reads_inv w xs c"
  by (simp add: partner_inv_def)

lemma reading_keeps:
  assumes "steady cutoff xs w"
  shows "reading_inv other w cutoff xs g \<Longrightarrow> reading_inv other w cutoff xs (read_schedule (w_max w) cutoff other sched g)"
proof (induction sched arbitrary: g)
  case (Cons b sched)
  let ?g = "if b then g\<lparr>rg_reader := reader_step (rg_race g) (rg_reader g)\<rparr> else g\<lparr>rg_race := partner_step (w_max w) cutoff other (rg_race g)\<rparr>"
  have "reading_inv other w cutoff xs ?g"
    using Cons.prems reader_step_inv [OF assms(1) partner_reads] other_step_inv [OF assms]
      reader_inv_mono [OF _ added_count_mono]
    by (auto simp: reading_inv_def)
  from Cons.IH [OF this] show ?case by (simp add: read_schedule_def)
qed (simp add: read_schedule_def)

section \<open>The reader comes to an end\<close>

fun reads_left :: "nat \<Rightarrow> reader \<Rightarrow> nat" where
  "reads_left m R_Start = 3 * m + 2"
| "reads_left m (R_Next n i acc) = 3 * (n - i) + 1"
| "reads_left m (R_Test n i p r acc) = 3 * (n - i)"
| "reads_left m (R_Last n i p r acc) = 3 * (n - i) - 1"
| "reads_left m _ = 0"

lemma reader_moves:
  assumes "reads_inv w xs c" and "reader_inv w xs k rd"
  shows "reads_left (ports_of w) (reader_step c rd) \<le> reads_left (ports_of w) rd - 1"
  using assms by (cases rd) (auto simp: reads_inv_def)

lemma reads_enough:
  assumes "steady cutoff xs w"
  shows "reading_inv other w cutoff xs g \<Longrightarrow>
    reads_left (ports_of w) (rg_reader (read_schedule (w_max w) cutoff other sched g)) \<le> reads_left (ports_of w) (rg_reader g) - count_list sched True"
proof (induction sched arbitrary: g)
  case (Cons b sched)
  let ?g = "read_schedule (w_max w) cutoff other [b] g"
  have inv: "reading_inv other w cutoff xs ?g" by (rule reading_keeps [OF assms Cons.prems])
  have "reads_left (ports_of w) (rg_reader ?g) \<le> reads_left (ports_of w) (rg_reader g) - (if b then 1 else 0)"
    using reader_moves [OF partner_reads] Cons.prems by (auto simp: read_schedule_def reading_inv_def)
  with Cons.IH [OF inv] show ?case by (auto simp: read_schedule_def)
qed (simp add: read_schedule_def)

lemma reader_done: "reads_left m rd = 0 \<Longrightarrow> reader_inv w xs k rd \<Longrightarrow> \<exists>acc. rd = R_Done acc"
  by (cases rd) auto

section \<open>The table that was read\<close>

text \<open>Next to an eviction the rows are those of the history as it was.\<close>

lemma added_none: "rc_add (rg_race (read_schedule m cutoff Evicting sched g)) = rc_add (rg_race g)"
proof (induction sched arbitrary: g)
  case (Cons b sched)
  have "rc_add (evict_step cutoff c) = rc_add c" for c
    by (simp add: evict_step_def split: evict_thread.splits list.splits option.splits)
  with Cons show ?case by (auto simp: read_schedule_def)
qed (simp add: read_schedule_def)

lemma taken_before:
  assumes "steady cutoff xs w" and "length ks = ports_of w" and "\<forall>k \<in> set ks. k \<le> 0"
  shows "map snd (taken w xs ks) = latest w"
proof -
  have "snd (w_ports w ! i) \<noteq> []" if "i < ports_of w" for i
    using assms(1) nth_mem [OF that] by (auto simp: steady_def window_ok_def queue_ok_def)
  then have "filter (\<lambda>(port, dq). dq \<noteq> []) (w_ports w) = w_ports w" by (fastforce simp: filter_id_conv in_set_conv_nth)
  then have "latest w = map (\<lambda>(port, dq). last dq) (w_ports w)" by (simp add: latest_def)
  with assms(2,3) show ?thesis
    by (intro nth_equalityI) (auto simp: taken_def nth_enumerate_eq newest_def of_port_def case_prod_beta all_set_conv_all_nth)
qed

lemma table_read_next_to_another:
  assumes "steady cutoff xs w"
    and "read_schedule (w_max w) cutoff other sched (reading_of w xs) = g"
  shows "reading_inv other w cutoff xs g \<and> (3 * ports_of w + 2 \<le> count_list sched True \<longrightarrow> (\<exists>acc. rg_reader g = R_Done acc))"
proof -
  have start: "reading_inv other w cutoff xs (reading_of w xs)"
    using race_start [OF assms(1)] evicting_reads [OF assms(1)]
    unfolding reading_inv_def reading_of_def partner_inv_def reads_inv_def race_inv_def by auto
  then have inv: "reading_inv other w cutoff xs g" using reading_keeps [OF assms(1)] assms(2) by blast
  moreover have "\<exists>acc. rg_reader g = R_Done acc" if "3 * ports_of w + 2 \<le> count_list sched True"
  proof -
    have "reads_left (ports_of w) (rg_reader g) = 0"
      using reads_enough [OF assms(1) start, of sched] that assms(2) by (simp add: reading_of_def)
    then show ?thesis using reader_done inv unfolding reading_inv_def by blast
  qed
  ultimately show ?thesis by blast
qed

section \<open>What can go wrong otherwise\<close>

text \<open>
  When the history is not steady the read fails: a port that is evicted, or a port seen for the first
  time, between two steps of the loop makes the iterator raise, and a queue emptied between the test
  and the access raises as well. The dispatcher then skips the table of this turn, the flush job
  stores nothing.
\<close>

lemma size_change_raises: "length (rc_cache c) \<noteq> n \<Longrightarrow> reader_step c (R_Next n i acc) = R_RuntimeError"
  by simp

lemmas race_simps = read_schedule_def reading_of_def race_of_def sample_history_def sample_snapshot_def add_step_def evict_step_def
  dmem_def deque_append_def numeral_eq_Suc

lemma evicted_port_breaks_read:
  "rg_reader (read_schedule 4 10 Evicting (True # replicate 7 False @ [True]) (reading_of (sample_history [0]) [])) = R_RuntimeError"
  by (simp add: race_simps)

lemma new_port_breaks_read:
  "rg_reader (read_schedule 4 10 Adding [True, True, True, True, False, True]
     (reading_of (sample_history [40]) [sample_snapshot 50\<lparr>s_port := 443\<rparr>])) = R_RuntimeError"
  by (simp add: race_simps)

lemma emptied_queue_breaks_read:
  "rg_reader (read_schedule 4 10 Evicting ([True, True, True] @ replicate 4 False @ [True]) (reading_of (sample_history [0]) [])) = R_IndexError"
  by (simp add: race_simps)

section \<open>The property\<close>

text \<open>
  C30: the port table can be read next to another thread on a steady history. While every port has a
  recent snapshot and only such ports get new ones, whether or not queues are full,
  \<open>get_port_table\<close> may be interleaved in any way with the dispatcher's additions or with an
  eviction: the loop never raises and, with enough moves, comes to an end; it collects one snapshot for every port of the history, each the newest one of its port after some
  number of additions, a number that never decreases from one port to the next; and next to an
  eviction the rows are exactly those of the table before it.
\<close>

theorem table_read_consistent:
  assumes "steady cutoff xs w" and "ac_cache a = w"
    and "read_schedule (w_max w) cutoff other sched (reading_of w xs) = g"
  shows "rg_reader g \<notin> {R_RuntimeError, R_IndexError}
    \<and> (3 * ports_of w + 2 \<le> count_list sched True \<longrightarrow> (\<exists>acc. rg_reader g = R_Done acc))
    \<and> (\<forall>acc. rg_reader g = R_Done acc \<longrightarrow>
         (\<exists>ks. sorted ks \<and> length ks = ports_of w \<and> (\<forall>k \<in> set ks. k \<le> length xs) \<and> acc = taken w xs ks)
       \<and> (other = Evicting \<longrightarrow> rows_read now acc = get_port_table now a))"
proof -
  note read = table_read_next_to_another [OF assms(1,3)]
  then have inv: "reader_inv w xs (added_count xs (rg_race g)) (rg_reader g)" by (simp add: reading_inv_def)
  have "rows_read now acc = get_port_table now a" if "rg_reader g = R_Done acc" and "other = Evicting" for acc
  proof -
    have "rc_add (rg_race g) = A_Todo xs"
      using added_none [of "w_max w" cutoff sched "reading_of w xs"] assms(3) that(2) by (simp add: reading_of_def race_of_def)
    with inv that(1) have "seen w xs 0 (ports_of w) acc" by (simp add: added_count_def)
    then have "map snd acc = latest w" unfolding seen_def using taken_before [OF assms(1)] by blast
    then show ?thesis by (simp add: rows_read_def get_port_table_def assms(2))
  qed
  moreover have "\<exists>ks. sorted ks \<and> length ks = ports_of w \<and> (\<forall>k \<in> set ks. k \<le> length xs) \<and> acc = taken w xs ks"
    if "rg_reader g = R_Done acc" for acc
    using inv that unfolding seen_def by (fastforce simp: seen_def added_count_def)
  moreover have "rg_reader g \<notin> {R_RuntimeError, R_IndexError}" using inv by (cases "rg_reader g") simp_all
  ultimately show ?thesis using read by blast
qed

theorem table_read_consistent_witness:
  "\<exists>acc. rg_reader (read_schedule 4 10 Evicting (concat (replicate 5 [False, True]))
       (reading_of (sample_history [0, 40]) [sample_snapshot 50])) = R_Done acc
     \<and> rows_read 42 acc = [row_of (sample_snapshot 40)]"
proof -
  let ?w = "sample_history [0, 40]" and ?xs = "[sample_snapshot 50]"
  let ?a = "(new_accumulator None :: unit accumulator)\<lparr>ac_cache := ?w\<rparr>"
  obtain g where g: "read_schedule (w_max ?w) 10 Evicting (concat (replicate 5 [False, True])) (reading_of ?w ?xs) = g" by blast
  have n: "3 * ports_of ?w + 2 \<le> count_list (concat (replicate 5 [False, True])) True"
    by (simp add: sample_history_def numeral_eq_Suc)
  have "ac_cache ?a = ?w" by simp
  from table_read_consistent [OF calm_steady [OF sample_calm] this g, of 42] n obtain acc where
    acc: "rg_reader g = R_Done acc" "rows_read 42 acc = get_port_table 42 ?a" by auto
  have "get_port_table 42 ?a = [row_of (sample_snapshot 40)]"
    by (simp add: get_port_table_def latest_def sample_history_def sample_snapshot_def ACTIVE_PORT_TTL_SECONDS_def)
  with acc g show ?thesis by (auto simp: sample_history_def)
qed

end
