(* ===== verification/Routing.thy ===== *)
theory Routing
  imports Api Web
begin

text \<open>
  From a request to the handler: the table of routes in the order \<open>app.py\<close> includes the routers of
  \<open>presentation/api\<close>, the pages of the front end after them, and the documented way Starlette
  and FastAPI choose among them: the first route whose path and method match, else the first whose
  path matches (405), else the path with or without its final slash (a redirect), else 404. A path is
  the list of its parts between slashes and holds no line feed. How FastAPI reads an integer is the
  parameter \<open>as_int\<close>.
\<close>

section \<open>Patterns\<close>

datatype seg = Lit string | Param

fun match_path :: "seg list \<Rightarrow> string list \<Rightarrow> string list option" where
  "match_path [] [] = Some []"
| "match_path (Lit l # ps) (x # xs) = (if x = l then match_path ps xs else None)"
| "match_path (Param # ps) (x # xs) = (if x = [] then None else map_option ((#) x) (match_path ps xs))"
| "match_path _ _ = None"

section \<open>The table\<close>

datatype endpoint =
    EP_Ports | EP_History | EP_Blocked | EP_Talkers | EP_Logs | EP_Geo | EP_Countries | EP_Timeline | EP_Get_Prefs | EP_Set_Prefs
  | EP_Block | EP_Unblock | EP_Request | EP_Approvals | EP_Resolve | EP_Health | EP_Info | EP_Metrics

type_synonym route = "string \<times> seg list \<times> endpoint"

abbreviation api :: "string list \<Rightarrow> seg list" where
  "api ls \<equiv> map Lit (''api'' # ls)"

definition ports_router :: "route list" where
  "ports_router =
    [(''GET'', api [''ports''], EP_Ports), (''GET'', api [''ports''] @ [Param, Lit ''history''], EP_History),
     (''GET'', api [''blocked''], EP_Blocked), (''GET'', api [''analytics'', ''top-talkers''], EP_Talkers),
     (''GET'', api [''audit'', ''logs''], EP_Logs), (''GET'', api [''threats'', ''geo''], EP_Geo),
     (''GET'', api [''threats'', ''countries''], EP_Countries), (''GET'', api [''threats'', ''timeline''], EP_Timeline),
     (''GET'', api [''auth'', ''preferences''], EP_Get_Prefs), (''POST'', api [''auth'', ''preferences''], EP_Set_Prefs)]"

definition control_router :: "route list" where
  "control_router =
    [(''POST'', api [''control'', ''block''] @ [Param], EP_Block), (''POST'', api [''control'', ''unblock''] @ [Param], EP_Unblock)]"

definition approvals_router :: "route list" where
  "approvals_router =
    [(''POST'', api [''approvals'', ''request''], EP_Request), (''GET'', api [''approvals''], EP_Approvals),
     (''POST'', api [''approvals''] @ [Param, Lit ''resolve''], EP_Resolve)]"

definition system_router :: "route list" where
  "system_router =
    [(''GET'', api [''health''], EP_Health), (''GET'', api [''info''], EP_Info), (''GET'', api [''system'', ''metrics''], EP_Metrics)]"

definition included_routes :: "route list" where
  "included_routes = ports_router @ control_router @ approvals_router @ system_router"

section \<open>The choice\<close>

text \<open>
  \<open>Socket_IO\<close> stands for the server the application is wrapped in, which keeps the requests on its
  own paths to itself, \<open>Docs\<close> for the documentation pages FastAPI registers before all others,
  \<open>Spa_Asset\<close> for the mounted directory of assets, whose answer (a file, or 404 when there is none)
  is Starlette's, and \<open>Spa_Root\<close> and \<open>Spa_File\<close> for the two handlers of the front end.
\<close>

datatype target =
    Socket_IO
  | Docs string
  | Api_Route endpoint "string list"
  | Spa_Root
  | Spa_Asset "string list"
  | Spa_File "string list"
  | Method_Not_Allowed
  | Redirect_Slash "string list"
  | Page_Not_Found

fun first_match :: "route list \<Rightarrow> string \<Rightarrow> string list \<Rightarrow> target option" where
  "first_match [] m xs = None"
| "first_match ((m', ps, e) # rs) m xs =
     (case match_path ps xs of
        Some vs \<Rightarrow> if m = m' then Some (Api_Route e vs) else first_match rs m xs
      | None \<Rightarrow> first_match rs m xs)"

definition path_known :: "route list \<Rightarrow> string list \<Rightarrow> bool" where
  "path_known rs xs \<longleftrightarrow> (\<exists>(m, ps, e) \<in> set rs. match_path ps xs \<noteq> None)"

text \<open>The path with its final slash taken away, or with one added.\<close>

definition other_slash :: "string list \<Rightarrow> string list" where
  "other_slash xs = (if xs \<noteq> [] \<and> last xs = [] then rev (dropWhile (\<lambda>x. x = []) (rev xs)) else xs @ [[]])"

text \<open>
  \<open>sio\<close> are the paths \<open>socketio.ASGIApp\<close> takes (\<open>/socket.io/\<close> and what is below),
  \<open>docs\<close> are the paths FastAPI serves by \<open>GET\<close> and \<open>HEAD\<close> for its documentation, \<open>spa\<close> says
  whether the front end was found. With the front end, \<open>GET\<close> on the root and on anything else has a
  route, and \<open>/assets/\<close> is mounted for every method.
\<close>

definition choose_route ::
  "(string list \<Rightarrow> bool) \<Rightarrow> string list list \<Rightarrow> bool \<Rightarrow> string \<Rightarrow> string list \<Rightarrow> target" where
  "choose_route sio docs spa m xs =
     (if sio xs then Socket_IO
      else if xs \<in> set docs \<and> m \<in> {''GET'', ''HEAD''} then Docs (last xs)
      else case first_match included_routes m xs of
        Some t \<Rightarrow> t
      | None \<Rightarrow>
          if spa \<and> m = ''GET'' \<and> xs = [[]] then Spa_Root
          else if spa \<and> 2 \<le> length xs \<and> hd xs = ''assets'' then Spa_Asset (tl xs)
          else if spa \<and> m = ''GET'' then Spa_File xs
          else if spa \<or> xs \<in> set docs \<or> path_known included_routes xs then Method_Not_Allowed
          else if xs \<noteq> [[]] \<and> (other_slash xs \<in> set docs \<or> path_known included_routes (other_slash xs))
            then Redirect_Slash (other_slash xs)
          else Page_Not_Found)"

section \<open>The arguments\<close>

text \<open>A value of a JSON body: a string, or anything else with the text Python's \<open>str\<close> makes of it.\<close>

datatype json = J_Str string | J_Other string

fun json_str :: "json \<Rightarrow> string" where
  "json_str (J_Str s) = s"
| "json_str (J_Other s) = s"

record http_args =
  ha_query :: "string \<Rightarrow> string option"
  ha_body :: "(string, json) dict option"

text \<open>
  \<open>Invalid\<close> is FastAPI's answer 422. A negative limit is passed to the SQL engine, whose reading of
  it is not modelled.
\<close>

datatype call = Call api_call | Invalid | Negative_Limit

definition int_query :: "(string \<Rightarrow> int option) \<Rightarrow> http_args \<Rightarrow> string \<Rightarrow> int \<Rightarrow> int option" where
  "int_query as_int a k d = (case ha_query a k of None \<Rightarrow> Some d | Some v \<Rightarrow> as_int v)"

definition with_int :: "int option \<Rightarrow> (int \<Rightarrow> call) \<Rightarrow> call" where
  "with_int x f = (case x of None \<Rightarrow> Invalid | Some n \<Rightarrow> f n)"

definition with_limit :: "int option \<Rightarrow> (nat \<Rightarrow> call) \<Rightarrow> call" where
  "with_limit x f = (case x of None \<Rightarrow> Invalid | Some n \<Rightarrow> if n < 0 then Negative_Limit else f (nat n))"

fun call_of :: "(string \<Rightarrow> int option) \<Rightarrow> endpoint \<Rightarrow> string list \<Rightarrow> http_args \<Rightarrow> call" where
  "call_of as_int EP_Ports vs a = Call GetPorts"
| "call_of as_int EP_History vs a =
     with_int (as_int (hd vs)) (\<lambda>port. with_int (int_query as_int a ''hours'' 24) (\<lambda>hours. Call (GetPortHistory port hours)))"
| "call_of as_int EP_Blocked vs a = Call GetBlocked"
| "call_of as_int EP_Talkers vs a =
     with_int (int_query as_int a ''hours'' 24) (\<lambda>hours. with_limit (int_query as_int a ''limit'' 10) (\<lambda>limit. Call (GetTopTalkers hours limit)))"
| "call_of as_int EP_Logs vs a = with_limit (int_query as_int a ''limit'' 100) (\<lambda>limit. Call (GetAuditLogs limit))"
| "call_of as_int EP_Geo vs a = with_int (int_query as_int a ''min_risk'' 0) (\<lambda>r. Call (GetThreatGeo r))"
| "call_of as_int EP_Countries vs a = Call GetThreatCountries"
| "call_of as_int EP_Timeline vs a = with_int (int_query as_int a ''hours'' 24) (\<lambda>hours. Call (GetThreatTimeline hours))"
| "call_of as_int EP_Get_Prefs vs a = Call GetPreferences"
| "call_of as_int EP_Set_Prefs vs a =
     (case ha_body a of None \<Rightarrow> Invalid | Some prefs \<Rightarrow> Call (SetPreferences (map (\<lambda>(k, v). (k, json_str v)) prefs)))"
| "call_of as_int EP_Block vs a =
     with_int (as_int (hd vs)) (\<lambda>port. Call (PostBlock port (case ha_query a ''protocol'' of None \<Rightarrow> ''TCP'' | Some p \<Rightarrow> p)))"
| "call_of as_int EP_Unblock vs a = with_int (as_int (hd vs)) (\<lambda>port. Call (PostUnblock port))"
| "call_of as_int EP_Request vs a =
     (case ha_query a ''pid'' of
        None \<Rightarrow> Invalid
      | Some v \<Rightarrow> with_int (as_int v) (\<lambda>pid.
          Call (PostApproval pid (case ha_query a ''reason'' of None \<Rightarrow> ''Manual request'' | Some r \<Rightarrow> r) (ha_query a ''app_name''))))"
| "call_of as_int EP_Approvals vs a = Call GetApprovals"
| "call_of as_int EP_Resolve vs a =
     with_int (as_int (hd vs)) (\<lambda>i.
       case ha_body a of
         None \<Rightarrow> Invalid
       | Some body \<Rightarrow> (case dget body ''status'' of Some (J_Str s) \<Rightarrow> Call (PostResolve i s) | _ \<Rightarrow> Invalid))"
| "call_of as_int EP_Health vs a = Call GetHealth"
| "call_of as_int EP_Info vs a = Call GetInfo"
| "call_of as_int EP_Metrics vs a = Call GetSystemMetrics"

text \<open>
  The answer to a request: of a handler, a page or an error of the framework, or the answer 422.
  \<open>None\<close> is a call that is not modelled.
\<close>

datatype http_reply = Handled api_call "reply result" | Framework target | Unprocessable

definition http_serve ::
  "'t meta_op \<Rightarrow> (string \<Rightarrow> int option) \<Rightarrow> (string list \<Rightarrow> bool) \<Rightarrow> string list list \<Rightarrow> bool \<Rightarrow> 's call_env \<Rightarrow> string \<Rightarrow> string list \<Rightarrow> http_args
     \<Rightarrow> ('t, 's) app \<Rightarrow> (http_reply \<times> ('t, 's) app) option" where
  "http_serve gm as_int sio docs spa e m xs args a =
     (case choose_route sio docs spa m xs of
        Api_Route ep vs \<Rightarrow>
          (case call_of as_int ep vs args of
             Call c \<Rightarrow> Some (apfst (Handled c) (serve gm e c a))
           | Invalid \<Rightarrow> Some (Unprocessable, a)
           | Negative_Limit \<Rightarrow> None)
      | t \<Rightarrow> Some (Framework t, a))"

section \<open>The table is unambiguous\<close>

text \<open>Whether two patterns have a path in common.\<close>

fun overlap :: "seg list \<Rightarrow> seg list \<Rightarrow> bool" where
  "overlap [] [] \<longleftrightarrow> True"
| "overlap (Lit l # ps) (Lit l' # qs) \<longleftrightarrow> l = l' \<and> overlap ps qs"
| "overlap (Lit l # ps) (Param # qs) \<longleftrightarrow> l \<noteq> [] \<and> overlap ps qs"
| "overlap (Param # ps) (Lit l # qs) \<longleftrightarrow> l \<noteq> [] \<and> overlap ps qs"
| "overlap (Param # ps) (Param # qs) \<longleftrightarrow> overlap ps qs"
| "overlap _ _ \<longleftrightarrow> False"

lemma match_path_iff:
  "match_path [] xs = Some vs \<longleftrightarrow> xs = [] \<and> vs = []"
  "match_path (Lit l # ps) xs = Some vs \<longleftrightarrow> (\<exists>ys. xs = l # ys \<and> match_path ps ys = Some vs)"
  "match_path (Param # ps) xs = Some vs \<longleftrightarrow> (\<exists>x ys us. xs = x # ys \<and> x \<noteq> [] \<and> match_path ps ys = Some us \<and> vs = x # us)"
  by (cases xs; auto)+

lemma match_overlap: "match_path ps xs = Some vs \<Longrightarrow> match_path qs xs = Some us \<Longrightarrow> overlap ps qs"
  by (induction ps qs arbitrary: xs vs us rule: overlap.induct) (auto simp: match_path_iff)

lemma table_disjoint: "list_all (\<lambda>(m, ps, e). list_all (\<lambda>(m', qs, e'). m = m' \<and> overlap ps qs \<longrightarrow> ps = qs \<and> e = e') included_routes) included_routes"
  by code_simp

lemma same_route:
  assumes "(m, ps, e) \<in> set included_routes" and "(m, qs, e') \<in> set included_routes"
    and "match_path ps xs = Some vs" and "match_path qs xs = Some us"
  shows "ps = qs \<and> e = e' \<and> vs = us"
proof -
  from table_disjoint assms(1) have "list_all (\<lambda>(m', qs, e'). m = m' \<and> overlap ps qs \<longrightarrow> ps = qs \<and> e = e') included_routes"
    by (auto simp only: list_all_iff prod.case)
  with assms(2) have "overlap ps qs \<longrightarrow> ps = qs \<and> e = e'" by (auto simp only: list_all_iff prod.case)
  with match_overlap [OF assms(3,4)] assms(3,4) show ?thesis by simp
qed

lemma first_match_iff:
  assumes "set rs \<subseteq> set included_routes"
  shows "first_match rs m xs = Some t \<longleftrightarrow> (\<exists>ps e vs. (m, ps, e) \<in> set rs \<and> match_path ps xs = Some vs \<and> t = Api_Route e vs)"
  using assms
proof (induction rs)
  case (Cons r rs)
  obtain m' ps' e' where r: "r = (m', ps', e')" by (cases r)
  show ?case
  proof (cases "match_path ps' xs")
    case None
    with Cons r show ?thesis by auto
  next
    case (Some us)
    show ?thesis
    proof (cases "m = m'")
      case True
      have head: "(m, ps', e') \<in> set included_routes" "(m, ps', e') \<in> set (r # rs)" using Cons.prems r True by simp_all
      have first: "first_match (r # rs) m xs = Some (Api_Route e' us)" by (simp add: r Some True)
      show ?thesis
      proof
        assume "first_match (r # rs) m xs = Some t"
        then have "t = Api_Route e' us" by (simp only: first option.inject)
        with head(2) Some show "\<exists>ps e vs. (m, ps, e) \<in> set (r # rs) \<and> match_path ps xs = Some vs \<and> t = Api_Route e vs" by blast
      next
        assume "\<exists>ps e vs. (m, ps, e) \<in> set (r # rs) \<and> match_path ps xs = Some vs \<and> t = Api_Route e vs"
        then obtain ps e vs where t: "(m, ps, e) \<in> set (r # rs)" "match_path ps xs = Some vs" "t = Api_Route e vs" by blast
        from t(1) Cons.prems have "(m, ps, e) \<in> set included_routes" by (rule subsetD [rotated])
        from same_route [OF this head(1) t(2) Some] t(3) first show "first_match (r # rs) m xs = Some t" by (simp only:)
      qed
    qed (use Cons r Some in auto)
  qed
qed simp

section \<open>Reading requests\<close>

lemma get_endpoints: "(''GET'', ps, e) \<in> set included_routes \<Longrightarrow>
    e \<in> {EP_Ports, EP_History, EP_Blocked, EP_Talkers, EP_Logs, EP_Geo, EP_Countries, EP_Timeline, EP_Get_Prefs, EP_Approvals,
      EP_Health, EP_Info, EP_Metrics}"
  by (auto simp: included_routes_def ports_router_def control_router_def approvals_router_def system_router_def)

lemma endpoint_calls: "with_int x f = Call c \<longleftrightarrow> (\<exists>n. x = Some n \<and> f n = Call c)"
  "with_limit x g = Call c \<longleftrightarrow> (\<exists>n. x = Some n \<and> 0 \<le> n \<and> g (nat n) = Call c)"
  by (auto simp: with_int_def with_limit_def split: option.splits)

lemma get_reads:
  assumes "(''GET'', ps, e) \<in> set included_routes" and "call_of as_int e vs args = Call c"
  shows "reads c"
  using get_endpoints [OF assms(1)] assms(2) by (auto simp: endpoint_calls reads_def)

lemma only_get_and_post: "(m, ps, e) \<in> set included_routes \<Longrightarrow> m = ''GET'' \<or> m = ''POST''"
  by (auto simp: included_routes_def ports_router_def control_router_def approvals_router_def system_router_def)

lemma chosen_api: "choose_route sio docs spa m xs = Api_Route e vs \<longleftrightarrow>
    \<not> sio xs \<and> \<not> (xs \<in> set docs \<and> m \<in> {''GET'', ''HEAD''}) \<and> (\<exists>ps. (m, ps, e) \<in> set included_routes \<and> match_path ps xs = Some vs)"
proof -
  have "choose_route sio docs spa m xs = Api_Route e vs \<longleftrightarrow>
      \<not> sio xs \<and> \<not> (xs \<in> set docs \<and> m \<in> {''GET'', ''HEAD''}) \<and> first_match included_routes m xs = Some (Api_Route e vs)"
    by (cases "first_match included_routes m xs") (auto simp: choose_route_def)
  also have "first_match included_routes m xs = Some (Api_Route e vs) \<longleftrightarrow> (\<exists>ps. (m, ps, e) \<in> set included_routes \<and> match_path ps xs = Some vs)"
    unfolding first_match_iff [OF subset_refl] target.inject by blast
  finally show ?thesis .
qed

lemma order_irrelevant:
  assumes "set rs = set included_routes"
  shows "first_match rs m xs = first_match included_routes m xs"
proof -
  have sub: "set rs \<subseteq> set included_routes" using assms by simp
  have "first_match rs m xs = Some t \<longleftrightarrow> first_match included_routes m xs = Some t" for t
    unfolding first_match_iff [OF sub] first_match_iff [OF subset_refl] assms ..
  then show ?thesis by (metis option.exhaust)
qed

section \<open>Properties\<close>

text \<open>The paths of the Socket.IO server, as its documentation gives them.\<close>

definition below_socket_io :: "string list \<Rightarrow> bool" where
  "below_socket_io xs \<longleftrightarrow> 2 \<le> length xs \<and> hd xs = ''socket.io''"

text \<open>
  C14: the routes of the API never shadow each other. A request that neither the Socket.IO server
  nor one of FastAPI's documentation pages takes is handled by an endpoint exactly if one of its
  routes has the method and a pattern of the path, with the values of the pattern as arguments; the
  order in which the routers are included does not matter. Once the front end is found, every other
  \<open>GET\<close> reaches one of three targets, fixed by the path alone: the index for the root, the mounted
  directory below \<open>/assets/\<close> (which answers 404 for a missing file), and the fallback for everything
  else, so outside \<open>/assets/\<close> the framework itself never answers a \<open>GET\<close> with 404 or 405, not even
  for an unknown address below \<open>/api\<close> or for a \<open>POST\<close> route.
\<close>

theorem routing_is_by_pattern:
  "(choose_route sio docs spa m xs = Api_Route e vs \<longleftrightarrow>
      \<not> sio xs \<and> \<not> (xs \<in> set docs \<and> m \<in> {''GET'', ''HEAD''})
      \<and> (\<exists>ps. (m, ps, e) \<in> set included_routes \<and> match_path ps xs = Some vs))
    \<and> (set rs = set included_routes \<longrightarrow> first_match rs m xs = first_match included_routes m xs)
    \<and> (\<not> sio xs \<and> xs \<notin> set docs \<and> (\<forall>e vs. choose_route sio docs True ''GET'' xs \<noteq> Api_Route e vs) \<longrightarrow>
        choose_route sio docs True ''GET'' xs =
          (if xs = [[]] then Spa_Root
           else if 2 \<le> length xs \<and> hd xs = ''assets'' then Spa_Asset (tl xs) else Spa_File xs))
    \<and> (sio xs \<longrightarrow> choose_route sio docs spa m xs = Socket_IO)"
proof (intro conjI)
  show "choose_route sio docs spa m xs = Api_Route e vs \<longleftrightarrow>
      \<not> sio xs \<and> \<not> (xs \<in> set docs \<and> m \<in> {''GET'', ''HEAD''})
      \<and> (\<exists>ps. (m, ps, e) \<in> set included_routes \<and> match_path ps xs = Some vs)" by (rule chosen_api)
  show "set rs = set included_routes \<longrightarrow> first_match rs m xs = first_match included_routes m xs"
    by (rule impI) (rule order_irrelevant)
  show "sio xs \<longrightarrow> choose_route sio docs spa m xs = Socket_IO" by (simp add: choose_route_def)
  show "\<not> sio xs \<and> xs \<notin> set docs \<and> (\<forall>e vs. choose_route sio docs True ''GET'' xs \<noteq> Api_Route e vs) \<longrightarrow>
      choose_route sio docs True ''GET'' xs =
        (if xs = [[]] then Spa_Root
         else if 2 \<le> length xs \<and> hd xs = ''assets'' then Spa_Asset (tl xs) else Spa_File xs)"
  proof (cases "first_match included_routes ''GET'' xs")
    case (Some t)
    with first_match_iff [OF subset_refl, of "''GET''" xs t] show ?thesis by (auto simp: choose_route_def)
  qed (simp add: choose_route_def)
qed

theorem routing_is_by_pattern_witness:
  "choose_route below_socket_io [[''docs'']] True ''GET'' [''api'', ''ports'', ''443'', ''history''] = Api_Route EP_History [''443'']
    \<and> choose_route below_socket_io [[''docs'']] True ''GET'' [''api'', ''control'', ''block'', ''80'']
      = Spa_File [''api'', ''control'', ''block'', ''80'']
    \<and> choose_route below_socket_io [[''docs'']] True ''GET'' [''assets'', ''missing.js''] = Spa_Asset [''missing.js'']
    \<and> choose_route below_socket_io [[''docs'']] True ''POST'' [''socket.io'', []] = Socket_IO"
proof -
  have m: "match_path (api [''ports''] @ [Param, Lit ''history'']) [''api'', ''ports'', ''443'', ''history''] = Some [''443'']" by simp
  have "(''GET'', api [''ports''] @ [Param, Lit ''history''], EP_History) \<in> set included_routes"
    unfolding included_routes_def ports_router_def by (simp only: list.set set_append) blast
  moreover have "\<not> below_socket_io [''api'', ''ports'', ''443'', ''history'']"
    "[''api'', ''ports'', ''443'', ''history''] \<notin> set [[''docs'']]" by code_simp+
  ultimately have "choose_route below_socket_io [[''docs'']] True ''GET'' [''api'', ''ports'', ''443'', ''history''] = Api_Route EP_History [''443'']"
    using m routing_is_by_pattern [of below_socket_io "[[''docs'']]" True "''GET''" "[''api'', ''ports'', ''443'', ''history'']" EP_History "[''443'']"]
    by blast
  moreover have "choose_route below_socket_io [[''docs'']] True ''GET'' [''api'', ''control'', ''block'', ''80''] = Spa_File [''api'', ''control'', ''block'', ''80'']"
    "choose_route below_socket_io [[''docs'']] True ''GET'' [''assets'', ''missing.js''] = Spa_Asset [''missing.js'']"
    "choose_route below_socket_io [[''docs'']] True ''POST'' [''socket.io'', []] = Socket_IO"
    by code_simp+
  ultimately show ?thesis by blast
qed

text \<open>
  Reading changes nothing. A \<open>GET\<close> request, whatever its path and arguments, leaves the
  firewall, the blocked ports, approvals, preferences and audit log as they are, and so does any
  request whose method is neither \<open>GET\<close> nor \<open>POST\<close>.
\<close>

theorem get_requests_change_nothing:
  assumes "w_bus (ap_world a) = register_all new_bus" and "sql_ok (en_sql (ce_env e))" and "m \<noteq> ''POST''"
    and "http_serve gm as_int sio docs spa e m xs args a = Some (r, a')"
  shows "w_fw (ap_world a') = w_fw (ap_world a) \<and> t_blocked (w_db (ap_world a')) = t_blocked (w_db (ap_world a))
    \<and> t_approvals (w_db (ap_world a')) = t_approvals (w_db (ap_world a)) \<and> t_prefs (w_db (ap_world a')) = t_prefs (w_db (ap_world a))
    \<and> t_audit (w_db (ap_world a')) = t_audit (w_db (ap_world a)) \<and> t_traffic (w_db (ap_world a')) = t_traffic (w_db (ap_world a))
    \<and> ac_cache (ap_acc a') = ac_cache (ap_acc a)"
proof (cases "\<exists>ep vs. choose_route sio docs spa m xs = Api_Route ep vs")
  case False
  with assms(4) have "a' = a" by (cases "choose_route sio docs spa m xs") (auto simp: http_serve_def)
  then show ?thesis by simp
next
  case True
  then obtain ep vs where ch: "choose_route sio docs spa m xs = Api_Route ep vs" by blast
  then obtain ps where ps: "(m, ps, ep) \<in> set included_routes" by (auto simp: chosen_api)
  with only_get_and_post assms(3) have get: "(''GET'', ps, ep) \<in> set included_routes" by blast
  show ?thesis
  proof (cases "call_of as_int ep vs args")
    case (Call c)
    obtain r0 a0 where s: "serve gm e c a = (r0, a0)" by (rule surjective_pairing [THEN that])
    with Call ch assms(4) have "a' = a0" by (simp add: http_serve_def)
    with serve_frame [OF assms(1) s assms(2)] get_reads [OF get Call] show ?thesis
      by (simp add: wframe_def frame_def aframe_def reads_def)
  qed (use ch assms(4) in \<open>simp_all add: http_serve_def\<close>)
qed

theorem get_requests_change_nothing_witness:
  "\<exists>r a'. http_serve no_service (\<lambda>_. Some 1) below_socket_io [] True linux_call ''GET'' [''api'', ''blocked''] \<lparr>ha_query = Map.empty, ha_body = None\<rparr> linux_app = Some (r, a')
     \<and> t_blocked (w_db (ap_world a')) = [] \<and> w_fw (ap_world a') = []"
proof -
  let ?args = "\<lparr>ha_query = Map.empty, ha_body = None\<rparr>"
  have ch: "choose_route below_socket_io [] True ''GET'' [''api'', ''blocked''] = Api_Route EP_Blocked []" by code_simp
  obtain r0 a' where g: "serve no_service linux_call GetBlocked linux_app = (r0, a')" by (rule surjective_pairing [THEN that])
  then have s: "http_serve no_service (\<lambda>_. Some 1) below_socket_io [] True linux_call ''GET'' [''api'', ''blocked''] ?args linux_app = Some (Handled GetBlocked r0, a')"
    by (simp add: http_serve_def ch)
  have "w_bus (ap_world linux_app) = register_all new_bus" by (simp add: linux_app_def linux_world_def)
  moreover have "sql_ok (en_sql (ce_env linux_call))" by (simp add: linux_call_def linux_env_def plain_sql_ok)
  moreover have "''GET'' \<noteq> ''POST''" by simp
  ultimately have "t_blocked (w_db (ap_world a')) = t_blocked (w_db (ap_world linux_app)) \<and> w_fw (ap_world a') = w_fw (ap_world linux_app)"
    using get_requests_change_nothing [OF _ _ _ s] by blast
  with s show ?thesis by (simp add: linux_app_def linux_world_def empty_db_def)
qed

end
