(* ===== verification/Darwin_Firewall.thy ===== *)
theory Darwin_Firewall
  imports Life Darwin_Bridge
begin

text \<open>
  What the macOS bridge (\<open>os_adapters/darwin_bridge.py\<close>) makes of the packet filter. \<open>anchor k\<close> is
  the list of rules in the anchor of the program and \<open>rest k\<close> everything else the filter holds. The
  contracts of \<open>Enforcement\<close> are discharged for the bridge as long as \<open>pfctl\<close> answers, so on macOS
  too the table of blocked ports is enforced and a life of the program leaves no rule behind; what
  happens when \<open>pfctl\<close> does not answer is shown as well.
\<close>

section \<open>What is relied on of pfctl and of the rules file\<close>

text \<open>
  Loading replaces the rules of the anchor by the lines of the file, enabling the filter may fail
  because it is enabled already, flushing empties the anchor; none of the three raises, and none
  touches anything outside the anchor. The file can be written and read.
\<close>

definition pf_works :: "'k darwin_env \<Rightarrow> ('k \<Rightarrow> string list) \<Rightarrow> ('k \<Rightarrow> 'o) \<Rightarrow> bool" where
  "pf_works v anchor rest \<longleftrightarrow>
     (\<forall>text k. \<exists>out k'. de_run v (Some text) pfctl_load k = (Inr (0, out), k') \<and> anchor k' = file_lines text \<and> rest k' = rest k)
   \<and> (\<forall>file k. \<exists>rc out k'. de_run v file pfctl_enable k = (Inr (rc, out), k') \<and> anchor k' = anchor k \<and> rest k' = rest k)
   \<and> (\<forall>file k. \<exists>rc out k'. de_run v file pfctl_flush k = (Inr (rc, out), k') \<and> anchor k' = [] \<and> rest k' = rest k)
   \<and> (\<forall>new old. de_write v new old = Some new) \<and> de_readable v"

lemma pf_write: "pf_works v anchor rest \<Longrightarrow>
    write_pf_rules v s = s\<lparr>dw_file := Some (rules_text (map snd (dw_rules s)))\<rparr>"
  by (simp add: pf_works_def write_pf_rules_def)

lemma pf_load:
  assumes "pf_works v anchor rest"
  obtains out k' where "de_run v (Some text) pfctl_load k = (Inr (0, out), k')" and "anchor k' = file_lines text" and "rest k' = rest k"
  using assms unfolding pf_works_def by blast

lemma pf_enable:
  assumes "pf_works v anchor rest"
  obtains rc out k' where "de_run v file pfctl_enable k = (Inr (rc, out), k')" and "anchor k' = anchor k" and "rest k' = rest k"
  using assms unfolding pf_works_def by blast

lemma pf_flush:
  assumes "pf_works v anchor rest"
  obtains rc out k' where "de_run v file pfctl_flush k = (Inr (rc, out), k')" and "anchor k' = []" and "rest k' = rest k"
  using assms unfolding pf_works_def by blast

section \<open>What the operations do\<close>

text \<open>The dictionary, the rules file and the anchor hold the same rules.\<close>

definition in_step :: "('k \<Rightarrow> string list) \<Rightarrow> 'k darwin \<Rightarrow> bool" where
  "in_step anchor s \<longleftrightarrow> rules_ok (dw_rules s) \<and> anchor (dw_os s) = map snd (dw_rules s)
     \<and> dw_file s \<in> {Some (rules_text (map snd (dw_rules s)))} \<union> (if dw_rules s = [] then {None} else {})"

text \<open>The ports the anchor closes.\<close>

definition pf_ports :: "('k \<Rightarrow> string list) \<Rightarrow> 'k darwin \<Rightarrow> int set" where
  "pf_ports anchor s = {p. Some p \<in> parse_pf_line ` set (anchor (dw_os s))}"

lemma parse_rules: "rules_ok d \<Longrightarrow> {p. Some p \<in> parse_pf_line ` set (map snd d)} = set (dkeys d)"
proof -
  assume d: "rules_ok d"
  have "parse_pf_line r = Some p" if "(p, r) \<in> set d" for p r
    using d that by (force simp: rules_ok_def parse_pf_rule)
  then show ?thesis by (force simp: image_iff)
qed

lemma in_step_ports: "in_step anchor s \<Longrightarrow> pf_ports anchor s = set (dkeys (dw_rules s))"
  using parse_rules [of "dw_rules s"] by (simp add: in_step_def pf_ports_def)

lemma in_step_lines: "rules_ok d \<Longrightarrow> file_lines (rules_text (map snd d)) = map snd d"
  by (intro file_lines_rules) (auto simp: rules_ok_def)

text \<open>Reading the rules back into a dictionary that holds them changes nothing.\<close>

lemma load_again:
  assumes "rules_ok d"
  shows "load_rules (rules_text (map snd d)) d = d"
proof -
  let ?add = "\<lambda>line d. case parse_pf_line (str_strip line) of Some p \<Rightarrow> dset d p (str_strip line) | None \<Rightarrow> d"
  have same: "(p, r) \<in> set e \<Longrightarrow> distinct (map fst e) \<Longrightarrow> dset e p r = e" for p :: int and r :: string and e
    by (induction e) (force simp: image_iff)+
  have "fold ?add (map snd xs) d = d" if "set xs \<subseteq> set d" for xs
    using that
  proof (induction xs)
    case (Cons x xs)
    obtain p r where x: "x = (p, r)" by (cases x)
    with Cons.prems assms obtain iface proto where r: "r = pf_rule iface proto p" "valid_port p" "(p, r) \<in> set d"
      by (auto simp: rules_ok_def)
    moreover have "distinct (map fst d)" using assms by (simp add: rules_ok_def dict_ok_def)
    ultimately have "?add r d = d" using same [of p r d] by (simp add: strip_pf_rule parse_pf_rule)
    with Cons x show ?case by simp
  qed simp
  from this [of d] show ?thesis using in_step_lines [OF assms] by (simp add: load_rules_def)
qed

lemma pf_rule_line: "valid_port p \<Longrightarrow> valid_protocol proto \<Longrightarrow> DNL \<notin> set (pf_rule ''en0'' (str_lower proto) p)"
proof -
  assume p: "valid_port p" and "valid_protocol proto"
  then have "str_lower proto \<in> {''tcp'', ''udp''}" by (simp add: valid_protocol_def)
  moreover have "DNL \<notin> set (show_int p)"
    using show_nat_digits [of "nat p"] by (auto simp: show_int_pos [OF p] list_all_iff is_digit_def DNL_def)
  moreover have "DNL \<notin> set ''block drop on en0 proto tcp from any to any port ''"
    and "DNL \<notin> set ''block drop on en0 proto udp from any to any port ''" by code_simp+
  ultimately show ?thesis by (auto simp: pf_rule_def)
qed

lemma rules_ok_ddel: "rules_ok d \<Longrightarrow> rules_ok (ddel d p)"
proof -
  assume a: "rules_ok d"
  have "set (ddel d p) \<subseteq> set d" by (induction d) auto
  with a show ?thesis unfolding rules_ok_def by (auto simp: dict_ok_ddel)
qed

definition mac_ops :: "'k darwin_env \<Rightarrow> 'k darwin fw_ops" where
  "mac_ops v = \<lparr>fw_block = mac_block_port v ''Darwin'' ''en0'', fw_unblock = mac_unblock_port v, fw_cleanup = mac_cleanup_all_rules v\<rparr>"

lemma mac_ops_adapter: "firewall_adapter (fw_block (mac_ops v)) (fw_unblock (mac_ops v)) (fw_cleanup (mac_ops v))"
  by (simp add: mac_ops_def mac_fw.firewall_adapter_axioms)

text \<open>A block that passes the guards always succeeds; the anchor is loaded from the dictionary with the new rule.\<close>

lemma mac_block_effect:
  assumes "pf_works v anchor rest" and "mac_block_port v ''Darwin'' ''en0'' p proto s = (r, s')"
  obtains "r = Inl FirewallRuleError" and "s' = s"
  | "r = Inr True" and "valid_port p" and "valid_protocol proto"
    and "dw_rules s' = dset (dw_rules s) p (pf_rule ''en0'' (str_lower proto) p)"
    and "dw_file s' = Some (rules_text (map snd (dw_rules s')))"
    and "anchor (dw_os s') = file_lines (rules_text (map snd (dw_rules s')))" and "rest (dw_os s') = rest (dw_os s)"
proof (cases "valid_port p \<and> valid_protocol proto")
  case False
  from mac_fw.block_guard [OF this, of v "''Darwin''" s] assms(2) show thesis by (intro that(1)) simp_all
next
  case True
  let ?d = "dset (dw_rules s) p (pf_rule ''en0'' (str_lower proto) p)"
  let ?text = "rules_text (map snd ?d)"
  obtain out k where l: "de_run v (Some ?text) pfctl_load (dw_os s) = (Inr (0, out), k)" "anchor k = file_lines ?text" "rest k = rest (dw_os s)"
    by (rule pf_load [OF assms(1)])
  obtain rc out' k' where e: "de_run v (Some ?text) pfctl_enable k = (Inr (rc, out'), k')" "anchor k' = anchor k" "rest k' = rest k"
    by (rule pf_enable [OF assms(1)])
  have i: "iface_ok ''en0''" by code_simp
  have "mac_block_port v ''Darwin'' ''en0'' p proto s = (Inr True, s\<lparr>dw_rules := ?d, dw_file := Some ?text, dw_os := k'\<rparr>)"
    using True by (simp add: mac_block_port_def mac_compatible_def valid_port_def valid_protocol_def i pf_write [OF assms(1)] l e Let_def)
  with assms(2) True l e show thesis by (intro that(2)) auto
qed

text \<open>An unblock of a listed port drops its rule, of any other it leaves everything as it is.\<close>

lemma mac_unblock_effect:
  assumes "pf_works v anchor rest" and "in_step anchor s" and "mac_unblock_port v p s = (r, s')"
  shows "r = Inr True \<and> in_step anchor s' \<and> dw_rules s' = ddel (dw_rules s) p \<and> rest (dw_os s') = rest (dw_os s)"
proof (cases "dmem p (dw_rules s)")
  case True
  let ?d = "ddel (dw_rules s) p"
  obtain out k where l: "de_run v (Some (rules_text (map snd ?d))) pfctl_load (dw_os s) = (Inr (0, out), k)"
    "anchor k = file_lines (rules_text (map snd ?d))" "rest k = rest (dw_os s)"
    by (rule pf_load [OF assms(1)])
  have "rules_ok ?d" using assms(2) by (simp add: in_step_def rules_ok_ddel)
  moreover have "mac_unblock_port v p s = (Inr True, s\<lparr>dw_rules := ?d, dw_file := Some (rules_text (map snd ?d)), dw_os := k\<rparr>)"
    using True by (simp add: mac_unblock_port_def reload_pf_def pf_write [OF assms(1)] l Let_def split: option.split)
  ultimately show ?thesis using assms(3) l by (auto simp: in_step_def in_step_lines)
next
  case False
  have ok: "rules_ok (dw_rules s)" and f: "dw_file s = Some (rules_text (map snd (dw_rules s))) \<or> dw_file s = None"
    using assms(2) by (auto simp: in_step_def split: if_splits)
  have "ddel (dw_rules s) p = dw_rules s" using False by (intro delete_id) (auto simp: dmem_iff)
  moreover have "mac_unblock_port v p s = (Inr True, s)"
    using f False load_again [OF ok] by (auto simp: mac_unblock_port_def)
  ultimately show ?thesis using assms(2,3) by simp
qed

lemma mac_block_in_step:
  assumes "pf_works v anchor rest" and "in_step anchor s" and "mac_block_port v ''Darwin'' ''en0'' p proto s = (r, s')"
  shows "in_step anchor s' \<and> rest (dw_os s') = rest (dw_os s)
    \<and> set (dkeys (dw_rules s')) = (if r = Inr True then insert p (set (dkeys (dw_rules s))) else set (dkeys (dw_rules s)))"
proof (rule mac_block_effect [OF assms(1,3)])
  assume n: "r = Inr True" "valid_port p" "valid_protocol proto"
    "dw_rules s' = dset (dw_rules s) p (pf_rule ''en0'' (str_lower proto) p)"
    "dw_file s' = Some (rules_text (map snd (dw_rules s')))" "anchor (dw_os s') = file_lines (rules_text (map snd (dw_rules s')))"
    "rest (dw_os s') = rest (dw_os s)"
  have "rules_ok (dw_rules s')" unfolding n(4)
    using assms(2) n(2,3) by (intro rules_ok_dset pf_rule_line) (simp_all add: in_step_def)
  with n show ?thesis by (auto simp: in_step_def in_step_lines keys_dset)
qed (use assms(2) in simp)

section \<open>The contracts\<close>

definition mac_usable :: "'k darwin_env \<Rightarrow> ('k \<Rightarrow> string list) \<Rightarrow> ('k \<Rightarrow> 'o) \<Rightarrow> 'k darwin \<Rightarrow> bool" where
  "mac_usable v anchor rest s \<longleftrightarrow> pf_works v anchor rest \<and> in_step anchor s"

interpretation mac_frame: firewall_frame "mac_ops v" "\<lambda>s. rest (dw_os s)" "mac_usable v anchor rest" for v anchor rest
proof (intro firewall_frame.intro firewall_frame_axioms.intro mac_ops_adapter)
  fix s p proto r s'
  assume "mac_usable v anchor rest s" and "fw_block (mac_ops v) p proto s = (r, s')"
  then show "mac_usable v anchor rest s' \<and> rest (dw_os s') = rest (dw_os s)"
    using mac_block_in_step [of v anchor rest s p proto r s'] by (simp add: mac_usable_def mac_ops_def)
next
  fix s p r s'
  assume "mac_usable v anchor rest s" and "fw_unblock (mac_ops v) p s = (r, s')"
  then show "mac_usable v anchor rest s' \<and> rest (dw_os s') = rest (dw_os s)"
    using mac_unblock_effect [of v anchor rest s p r s'] by (simp add: mac_usable_def mac_ops_def)
qed

interpretation mac_ports: port_firewall "mac_ops v" "pf_ports anchor" "mac_usable v anchor rest" for v anchor rest
proof (intro port_firewall.intro port_firewall_axioms.intro mac_ops_adapter)
  fix s p proto r s'
  assume "mac_usable v anchor rest s" and "fw_block (mac_ops v) p proto s = (r, s')"
  then show "mac_usable v anchor rest s' \<and> pf_ports anchor s' = (if r = Inr True then insert p (pf_ports anchor s) else pf_ports anchor s)"
    using mac_block_in_step [of v anchor rest s p proto r s'] by (simp add: mac_usable_def mac_ops_def in_step_ports)
next
  fix s p r s'
  assume "mac_usable v anchor rest s" and "fw_unblock (mac_ops v) p s = (r, s')"
  then show "mac_usable v anchor rest s' \<and> pf_ports anchor s' = (if r = Inr True then pf_ports anchor s - {p} else pf_ports anchor s)"
    using mac_unblock_effect [of v anchor rest s p r s'] by (simp add: mac_usable_def mac_ops_def in_step_ports keys_ddel)
qed

section \<open>The life of the program on macOS\<close>

text \<open>The ports the table lists are those the anchor closes.\<close>

theorem mac_listing_is_enforced:
  assumes "pf_works v anchor rest" and "in_step anchor fw" and "pf_ports anchor fw = listed d"
    and "startup q env (new_container s d fw) p = (None, c1, p1)"
    and "list_all (uses_bridge (mac_ops v) reliable) es" and "live gm es c1 = c"
  shows "pf_ports anchor (w_fw (k_world c)) = listed (w_db (k_world c))"
proof -
  note st = startup_state [OF assms(4)]
  then have "enforced (pf_ports anchor) (mac_usable v anchor rest) (k_world c1)"
    using assms(1-3) by (simp add: enforced_def mac_usable_def)
  with mac_ports.live_enforced [OF _ assms(5)] st
  have "enforced (pf_ports anchor) (mac_usable v anchor rest) (k_world c)" unfolding assms(6) [symmetric] by blast
  then show ?thesis by (simp add: enforced_def)
qed

text \<open>After the shut-down the anchor is empty, whatever it held, and nothing else has changed.\<close>

theorem mac_life_leaves_no_rule:
  assumes "pf_works v anchor rest" and "in_step anchor fw"
    and "su_system env = ''Darwin''" and "su_bridge env Darwin_Kind = None" and "cleanup Darwin_Kind = mac_cleanup_all_rules v"
    and "startup q env (new_container s d fw) p = (None, c1, p1)"
    and "list_all (uses_bridge (mac_ops v) sql_ok) es"
    and "lifespan q env gm cleanup es (new_container s d fw) p = (r, c, p')"
  shows "anchor (dw_os (w_fw (k_world c))) = [] \<and> dw_file (w_fw (k_world c)) = None
    \<and> rest (dw_os (w_fw (k_world c))) = rest (dw_os fw)"
proof -
  note st = startup_state [OF assms(6)]
  have k: "k_bridge c1 = Some Darwin_Kind" using st assms(3,4) by (simp add: wired_bridge_def platform_bridge_def)
  let ?l = "live gm es c1"
  have live: "spares (\<lambda>s. rest (dw_os s)) (mac_usable v anchor rest) (k_world c1) (k_world ?l)" "k_bridge ?l = Some Darwin_Kind"
    using mac_frame.live_spares [OF _ assms(7), of q s c1 _ _ gm] st k by auto
  have "rest (dw_os (w_fw (k_world ?l))) = rest (dw_os fw)"
    using live(1) st assms(1,2) by (simp add: spares_def mac_usable_def)
  moreover have "shutdown cleanup ?l p1 = (r, c, p')" using assms(6,8) by (simp add: lifespan_def)
  then have "w_fw (k_world c) = snd (mac_cleanup_all_rules v (w_fw (k_world ?l)))"
    using shutdown_world [OF _ live(2)] assms(5) by simp
  moreover obtain rc out k' where "de_run v (dw_file (w_fw (k_world ?l))) pfctl_flush (dw_os (w_fw (k_world ?l))) = (Inr (rc, out), k')"
    "anchor k' = []" "rest k' = rest (dw_os (w_fw (k_world ?l)))" by (rule pf_flush [OF assms(1)])
  ultimately show ?thesis by (simp add: mac_cleanup_all_rules_def)
qed

section \<open>When pfctl does not answer\<close>

text \<open>
  \<open>block_port\<close> enters the rule into the dictionary and the file before it runs \<open>pfctl\<close>, and leaves
  it there when \<open>pfctl\<close> times out. The caller is told that the block failed and does not list the
  port; the next block of another port loads the rule with its own.
\<close>

lemma mac_failed_block_stays:
  assumes "\<forall>new old. de_write v new old = Some new"
    and "valid_port p" and "valid_protocol proto" and "iface_ok iface"
    and "mac_block_port v ''Darwin'' iface p proto s = (Inl FirewallRuleError, s1)"
    and "mac_block_port v ''Darwin'' iface q proto' s1 = (Inr True, s2)" and "q \<noteq> p"
  shows "dget (dw_rules s2) p = Some (pf_rule iface (str_lower proto) p) \<and> dw_file s2 = Some (rules_text (map snd (dw_rules s2)))"
proof -
  from assms(1-5) have "dw_rules s1 = dset (dw_rules s) p (pf_rule iface (str_lower proto) p)"
    by (auto simp: mac_block_port_def mac_compatible_def valid_port_def valid_protocol_def write_pf_rules_def Let_def
        split: prod.splits sum.splits)
  with assms(1,6,7) show ?thesis
    by (auto simp: mac_block_port_def mac_compatible_def write_pf_rules_def dget_dset Let_def split: if_splits prod.splits sum.splits)
qed

section \<open>A simulated pfctl\<close>

text \<open>The state is the anchor; every command answers 0, except that it hangs at the calls in \<open>bad\<close>.\<close>

definition sim_pfctl :: "nat set \<Rightarrow> string option \<Rightarrow> (nat \<times> string list) runner" where
  "sim_pfctl bad file cmd k =
     (if fst k \<in> bad then (Inl TimeoutExpired, (Suc (fst k), snd k))
      else (Inr (0, []), Suc (fst k),
        if cmd = pfctl_load then (case file of None \<Rightarrow> snd k | Some text \<Rightarrow> file_lines text)
        else if cmd = pfctl_flush then [] else snd k))"

definition sim_mac :: "nat set \<Rightarrow> (nat \<times> string list) darwin_env" where
  "sim_mac bad = \<lparr>de_run = sim_pfctl bad, de_write = (\<lambda>new old. Some new), de_readable = True\<rparr>"

lemma pfctl_commands: "pfctl_load \<noteq> pfctl_flush" "pfctl_enable \<noteq> pfctl_load" "pfctl_enable \<noteq> pfctl_flush"
  by code_simp+

lemma sim_pf_works: "pf_works (sim_mac {}) snd (\<lambda>k. ())"
  using pfctl_commands by (simp add: pf_works_def sim_mac_def sim_pfctl_def)

definition fresh_mac :: "(nat \<times> string list) darwin" where
  "fresh_mac = \<lparr>dw_rules = [], dw_file = None, dw_os = (0, [])\<rparr>"

lemma fresh_in_step: "in_step snd fresh_mac" "pf_ports snd fresh_mac = {}"
  by (simp_all add: in_step_def fresh_mac_def rules_ok_def pf_ports_def)

text \<open>A block closes the port; a block that times out closes it with the next one.\<close>

lemma sim_mac_blocks: "pf_ports snd (snd (mac_block_port (sim_mac {}) ''Darwin'' ''en0'' 445 ''tcp'' fresh_mac)) = {445}"
proof -
  obtain r s' where b: "mac_block_port (sim_mac {}) ''Darwin'' ''en0'' 445 ''tcp'' fresh_mac = (r, s')" by (rule surjective_pairing [THEN that])
  have i: "iface_ok ''en0''" "str_lower ''tcp'' = ''tcp''" by code_simp+
  from b have "r = Inr True"
    by (auto simp: mac_block_port_def mac_compatible_def i Let_def sim_mac_def sim_pfctl_def)
  with mac_block_in_step [OF sim_pf_works fresh_in_step(1) b] b show ?thesis
    using in_step_ports [of snd s'] by (simp add: fresh_mac_def)
qed

lemma sim_mac_blocks_failed: "\<exists>s1 s2. mac_block_port (sim_mac {0}) ''Darwin'' ''en0'' 445 ''tcp'' fresh_mac = (Inl FirewallRuleError, s1)
    \<and> mac_block_port (sim_mac {0}) ''Darwin'' ''en0'' 80 ''tcp'' s1 = (Inr True, s2) \<and> dmem 445 (dw_rules s2)"
proof -
  obtain s1 where b: "mac_block_port (sim_mac {0}) ''Darwin'' ''en0'' 445 ''tcp'' fresh_mac = (Inl FirewallRuleError, s1)" "fst (dw_os s1) = 1"
  proof -
    have i: "iface_ok ''en0''" "str_lower ''tcp'' = ''tcp''" by code_simp+
    show thesis
      by (rule that [of "snd (mac_block_port (sim_mac {0}) ''Darwin'' ''en0'' 445 ''tcp'' fresh_mac)"])
         (simp_all add: mac_block_port_def mac_compatible_def i Let_def sim_mac_def sim_pfctl_def write_pf_rules_def fresh_mac_def)
  qed
  obtain s2 where b2: "mac_block_port (sim_mac {0}) ''Darwin'' ''en0'' 80 ''tcp'' s1 = (Inr True, s2)"
  proof -
    have i: "iface_ok ''en0''" "str_lower ''tcp'' = ''tcp''" by code_simp+
    show thesis
      by (rule that [of "snd (mac_block_port (sim_mac {0}) ''Darwin'' ''en0'' 80 ''tcp'' s1)"])
         (use b(2) in \<open>simp add: mac_block_port_def mac_compatible_def i Let_def sim_mac_def sim_pfctl_def write_pf_rules_def\<close>)
  qed
  have "iface_ok ''en0''" "valid_protocol ''tcp''" by code_simp+
  then have "dget (dw_rules s2) 445 = Some (pf_rule ''en0'' (str_lower ''tcp'') 445)"
    using mac_failed_block_stays [OF _ _ _ _ b(1) b2] by (simp add: sim_mac_def valid_port_def)
  with b(1) b2 show ?thesis by (auto simp: dmem_def)
qed

end
