(* ===== verification/Py_Classes.thy ===== *)
theory Py_Classes
  imports Py_Prelude "HOL-Library.Sublist"
begin

text \<open>
  What the program uses of Python's classes: the method resolution order of a class statement (the C3
  linearisation), the abstract methods \<open>abc.ABCMeta\<close> collects, the lookup of an attribute, and the
  binding of the arguments of a call to the parameters of a method. The classes of the program are in
  \<open>Classes\<close>.
\<close>

section \<open>The linearisation\<close>

text \<open>
  The next class is the first head that is in no tail; it is taken off every list it leads. Without
  such a head the class statement raises \<open>TypeError\<close>.
\<close>

definition next_class :: "'c list list \<Rightarrow> 'c option" where
  "next_class ls = find (\<lambda>h. list_all (\<lambda>l. h \<notin> set (tl l)) ls) (map hd ls)"

definition drop_head :: "'c \<Rightarrow> 'c list \<Rightarrow> 'c list" where
  "drop_head h l = (if hd l = h then tl l else l)"

lemma next_class_Some: "next_class ls = Some h \<Longrightarrow> h \<in> hd ` set ls \<and> (\<forall>l \<in> set ls. h \<notin> set (tl l))"
  by (auto simp: next_class_def find_Some_iff list_all_iff)

lemma next_class_decreases:
  assumes "next_class ls = Some h" and "[] \<notin> set ls"
  shows "(\<Sum>l\<leftarrow>map (drop_head h) ls. length l) < (\<Sum>l\<leftarrow>ls. length l)"
proof -
  from next_class_Some [OF assms(1)] obtain l where l: "l \<in> set ls" "hd l = h" by auto
  then obtain xs ys where ls: "ls = xs @ l # ys" by (meson split_list)
  have le: "(\<Sum>l\<leftarrow>map (drop_head h) xs. length l) \<le> (\<Sum>l\<leftarrow>xs. length l)" for xs
    by (induction xs) (auto simp: drop_head_def)
  have "length (drop_head h l) < length l" proof -
    have "l \<noteq> []" using l(1) assms(2) by metis
    then show ?thesis using l(2) by (simp add: drop_head_def)
  qed
  with le [of xs] le [of ys] show ?thesis by (simp add: ls)
qed

function c3_merge :: "'c list list \<Rightarrow> 'c list option" where
  "c3_merge lss =
     (let ls = filter (\<lambda>l. l \<noteq> []) lss in
      if ls = [] then Some []
      else case next_class ls of
        None \<Rightarrow> None
      | Some h \<Rightarrow> map_option ((#) h) (c3_merge (map (drop_head h) ls)))"
  by pat_completeness auto

termination
proof (relation "measure (\<lambda>ls. \<Sum>l\<leftarrow>ls. length l)")
  fix lss ls :: "'c list list" and h
  assume ls: "ls = filter (\<lambda>l. l \<noteq> []) lss" "next_class ls = Some h"
  then have "(\<Sum>l\<leftarrow>map (drop_head h) ls. length l) < (\<Sum>l\<leftarrow>ls. length l)" by (intro next_class_decreases) simp_all
  also have "\<dots> = (\<Sum>l\<leftarrow>lss. length l)" unfolding ls(1) by (induction lss) auto
  finally show "(map (drop_head h) ls, lss) \<in> measure (\<lambda>ls. \<Sum>l\<leftarrow>ls. length l)" by simp
qed simp

declare c3_merge.simps [simp del]

lemma drop_head_set: "l \<noteq> [] \<Longrightarrow> h \<notin> set (tl l) \<Longrightarrow>
    set l = (if hd l = h then insert h (set (drop_head h l)) else set (drop_head h l)) \<and> h \<notin> set (drop_head h l)"
  by (cases l) (auto simp: drop_head_def)

lemma drop_head_subseq: "l \<noteq> [] \<Longrightarrow> subseq (drop_head h l) rest \<Longrightarrow> subseq l (h # rest)"
  by (cases l) (auto simp: drop_head_def split: if_splits)

text \<open>The result has the classes of all lists, each once, and every list in its own order.\<close>

lemma c3_merge_sound:
  "c3_merge lss = Some res \<Longrightarrow> \<forall>l \<in> set lss. distinct l \<Longrightarrow>
    set res = \<Union> (set ` set lss) \<and> distinct res \<and> (\<forall>l \<in> set lss. subseq l res)"
proof (induction lss arbitrary: res rule: c3_merge.induct)
  case (1 lss)
  let ?ls = "filter (\<lambda>l. l \<noteq> []) lss"
  show ?case
  proof (cases "?ls = []")
    case True
    then have empty: "\<forall>l \<in> set lss. l = []" by (auto simp: filter_empty_conv)
    from True 1(2) have "res = []" by (simp add: c3_merge.simps [of lss])
    with empty show ?thesis by auto
  next
    case False
    with 1(2) obtain h rest where h: "next_class ?ls = Some h" "c3_merge (map (drop_head h) ?ls) = Some rest" "res = h # rest"
      by (auto simp: c3_merge.simps [of lss] Let_def split: option.splits)
    have head: "h \<in> hd ` set ?ls" "\<And>l. l \<in> set ?ls \<Longrightarrow> h \<notin> set (tl l)" using next_class_Some [OF h(1)] by blast+
    have "distinct (drop_head h l)" if "l \<in> set ?ls" for l using that 1(3) by (auto simp: drop_head_def distinct_tl)
    then have ih: "set rest = \<Union> (set ` set (map (drop_head h) ?ls))" "distinct rest" "\<And>l. l \<in> set ?ls \<Longrightarrow> subseq (drop_head h l) rest"
      using 1(1) [OF refl False h(1,2)] by auto
    have sets: "set l \<subseteq> insert h (set (drop_head h l))" "set (drop_head h l) \<subseteq> set l - {h}" if "l \<in> set ?ls" for l
      using that drop_head_set [of l h, OF _ head(2) [OF that]] by (auto split: if_splits)
    from sets(2) have "h \<notin> set rest" unfolding ih(1) by fastforce
    moreover have "set res = \<Union> (set ` set ?ls)"
    proof -
      have "h \<in> \<Union> (set ` set ?ls)" using head(1) by force
      moreover have "set rest \<subseteq> \<Union> (set ` set ?ls)" unfolding ih(1) using sets(2) by fastforce
      moreover have "\<Union> (set ` set ?ls) \<subseteq> insert h (set rest)" unfolding ih(1) using sets(1) by fastforce
      ultimately show ?thesis using h(3) by auto
    qed
    moreover have "\<Union> (set ` set ?ls) = \<Union> (set ` set lss)" by auto
    moreover have "subseq l res" if "l \<in> set lss" for l
    proof (cases "l = []")
      case False
      with that have "subseq (drop_head h l) rest" by (intro ih(3)) simp
      from drop_head_subseq [OF False this] h(3) show ?thesis by simp
    qed simp
    ultimately show ?thesis using h(3) ih(2) by auto
  qed
qed

section \<open>Class statements\<close>

text \<open>
  A parameter without a default, or with one; \<open>self\<close> is left out. A member of a class body is a
  method with its parameters (a property has none), abstract or not.
\<close>

datatype default_value = D_Str string | D_Int int | D_None

datatype param = Req string | Opt string default_value

fun p_name :: "param \<Rightarrow> string" where
  "p_name (Req n) = n"
| "p_name (Opt n d) = n"

fun has_default :: "param \<Rightarrow> bool" where
  "has_default (Req n) = False"
| "has_default (Opt n d) = True"

datatype member = Abstract "param list" | Concrete "param list"

fun is_abstract :: "member \<Rightarrow> bool" where
  "is_abstract (Abstract ps) = True"
| "is_abstract (Concrete ps) = False"

record 'c class_def =
  cd_name :: 'c
  cd_bases :: "'c list"
  cd_members :: "(string, member) dict"

text \<open>What a class keeps: its order of resolution, the members of its body, the names still abstract.\<close>

record 'c cls =
  cl_mro :: "'c list"
  cl_members :: "(string, member) dict"
  cl_abstract :: "string list"

type_synonym 'c classes = "('c, 'c cls) dict"

definition body_of :: "'c classes \<Rightarrow> 'c \<Rightarrow> (string, member) dict" where
  "body_of t c = (case dget t c of None \<Rightarrow> [] | Some k \<Rightarrow> cl_members k)"

definition mro_of :: "'c classes \<Rightarrow> 'c \<Rightarrow> 'c list" where
  "mro_of t c = (case dget t c of None \<Rightarrow> [] | Some k \<Rightarrow> cl_mro k)"

definition abstract_of :: "'c classes \<Rightarrow> 'c \<Rightarrow> string list" where
  "abstract_of t c = (case dget t c of None \<Rightarrow> [] | Some k \<Rightarrow> cl_abstract k)"

text \<open>The attribute of the first class of the order that has it.\<close>

definition lookup_in :: "'c classes \<Rightarrow> 'c list \<Rightarrow> string \<Rightarrow> member option" where
  "lookup_in t cs n = (case find (\<lambda>c. dmem n (body_of t c)) cs of None \<Rightarrow> None | Some c \<Rightarrow> dget (body_of t c) n)"

definition lookup :: "'c classes \<Rightarrow> 'c \<Rightarrow> string \<Rightarrow> member option" where
  "lookup t c = lookup_in t (mro_of t c)"

definition abstract_names :: "(string, member) dict \<Rightarrow> string list" where
  "abstract_names ms = map fst (filter (\<lambda>(n, m). is_abstract m) ms)"

text \<open>
  A class statement: the bases must exist and have a linearisation; the abstract names are those of
  the body, and those of the bases that still resolve to an abstract method.
\<close>

definition declare_class :: "'c class_def \<Rightarrow> 'c classes \<Rightarrow> 'c classes option" where
  "declare_class d t =
     (if \<not> list_all (\<lambda>b. dmem b t) (cd_bases d) then None
      else case c3_merge (map (mro_of t) (cd_bases d) @ [cd_bases d]) of
        None \<Rightarrow> None
      | Some order \<Rightarrow>
          let mro = cd_name d # order;
              t1 = dset t (cd_name d) \<lparr>cl_mro = mro, cl_members = cd_members d, cl_abstract = []\<rparr>;
              inherited = filter (\<lambda>n. case lookup_in t1 mro n of Some m \<Rightarrow> is_abstract m | None \<Rightarrow> False)
                            (concat (map (abstract_of t) (cd_bases d)))
          in Some (dset t (cd_name d) \<lparr>cl_mro = mro, cl_members = cd_members d,
                     cl_abstract = remdups (abstract_names (cd_members d) @ inherited)\<rparr>))"

fun declare_all :: "'c class_def list \<Rightarrow> 'c classes \<Rightarrow> 'c classes option" where
  "declare_all [] t = Some t"
| "declare_all (d # ds) t = (case declare_class d t of None \<Rightarrow> None | Some t' \<Rightarrow> declare_all ds t')"

text \<open>Calling a class with an abstract name raises \<open>TypeError\<close>.\<close>

definition instantiable :: "'c classes \<Rightarrow> 'c \<Rightarrow> bool" where
  "instantiable t c \<longleftrightarrow> dmem c t \<and> abstract_of t c = []"

definition is_subclass :: "'c classes \<Rightarrow> 'c \<Rightarrow> 'c \<Rightarrow> bool" where
  "is_subclass t c b \<longleftrightarrow> b \<in> set (mro_of t c)"

section \<open>The abstract names are those that resolve to an abstract method\<close>

definition classes_ok :: "'c classes \<Rightarrow> bool" where
  "classes_ok t \<longleftrightarrow> (\<forall>c. dmem c t \<longrightarrow> distinct (mro_of t c) \<and> mro_of t c \<noteq> [] \<and> hd (mro_of t c) = c
      \<and> set (mro_of t c) \<subseteq> fst ` set t \<and> (\<forall>b \<in> set (mro_of t c). subseq (mro_of t b) (mro_of t c)))
    \<and> (\<forall>c n. dmem c t \<longrightarrow> (n \<in> set (abstract_of t c) \<longleftrightarrow> (\<exists>m. lookup t c n = Some m \<and> is_abstract m)))"

lemma find_subseq: "subseq xs ys \<Longrightarrow> distinct ys \<Longrightarrow> find P ys = Some d \<Longrightarrow> d \<in> set xs \<Longrightarrow> find P xs = Some d"
proof (induction xs ys rule: list_emb.induct)
  case (list_emb_Cons xs ys y)
  have "set xs \<subseteq> set ys" using list_emb_Cons.hyps(1) by (auto elim: list_emb_set)
  with list_emb_Cons.prems list_emb_Cons.IH show ?case by (cases "P y") auto
next
  case (list_emb_Cons2 x y xs ys)
  show ?case
  proof (cases "P y")
    case False
    with list_emb_Cons2.prems have f: "find P ys = Some d" by simp
    then have "P d" by (auto simp: find_Some_iff)
    with False list_emb_Cons2 f show ?thesis by auto
  qed (use list_emb_Cons2 in simp)
qed simp

lemma lookup_in_cong: "(\<And>c. c \<in> set cs \<Longrightarrow> body_of t' c = body_of t c) \<Longrightarrow> lookup_in t' cs n = lookup_in t cs n"
proof (induction cs)
  case (Cons c cs)
  from Cons.prems have "body_of t' c = body_of t c" "lookup_in t' cs n = lookup_in t cs n" by (simp_all add: Cons.IH)
  then show ?case by (simp add: lookup_in_def)
qed (simp add: lookup_in_def)

lemma lookup_in_Cons: "lookup_in t (c # cs) n = (if dmem n (body_of t c) then dget (body_of t c) n else lookup_in t cs n)"
  by (simp add: lookup_in_def)

lemma abstract_names_iff: "dict_ok ms \<Longrightarrow> n \<in> set (abstract_names ms) \<longleftrightarrow> (\<exists>m. dget ms n = Some m \<and> is_abstract m)"
  by (force simp: abstract_names_def dict_ok_item [symmetric])

lemma classes_ok_mro: "classes_ok t \<Longrightarrow> dmem c t \<Longrightarrow> distinct (mro_of t c) \<and> mro_of t c \<noteq> [] \<and> hd (mro_of t c) = c
    \<and> set (mro_of t c) \<subseteq> fst ` set t \<and> (\<forall>b \<in> set (mro_of t c). subseq (mro_of t b) (mro_of t c))"
  by (simp add: classes_ok_def)

lemma classes_ok_abstract: "classes_ok t \<Longrightarrow> dmem c t \<Longrightarrow> n \<in> set (abstract_of t c) \<longleftrightarrow> (\<exists>m. lookup t c n = Some m \<and> is_abstract m)"
  by (simp add: classes_ok_def)

lemma declared_class:
  assumes "declare_class d t = Some t'"
  obtains order a where "c3_merge (map (mro_of t) (cd_bases d) @ [cd_bases d]) = Some order"
    and "\<forall>b \<in> set (cd_bases d). dmem b t"
    and "t' = dset t (cd_name d) \<lparr>cl_mro = cd_name d # order, cl_members = cd_members d, cl_abstract = a\<rparr>"
    and "\<forall>n. n \<in> set a \<longleftrightarrow> n \<in> set (abstract_names (cd_members d)) \<or>
        (\<exists>b \<in> set (cd_bases d). n \<in> set (abstract_of t b)) \<and> (\<exists>m. lookup_in t' (cd_name d # order) n = Some m \<and> is_abstract m)"
proof -
  from assms have bases: "list_all (\<lambda>b. dmem b t) (cd_bases d)" by (auto simp: declare_class_def split: if_splits)
  with assms obtain order where order: "c3_merge (map (mro_of t) (cd_bases d) @ [cd_bases d]) = Some order"
    by (auto simp: declare_class_def split: option.splits)
  let ?t1 = "dset t (cd_name d) \<lparr>cl_mro = cd_name d # order, cl_members = cd_members d, cl_abstract = []\<rparr>"
  let ?inh = "filter (\<lambda>n. case lookup_in ?t1 (cd_name d # order) n of Some m \<Rightarrow> is_abstract m | None \<Rightarrow> False)
    (concat (map (abstract_of t) (cd_bases d)))"
  let ?a = "remdups (abstract_names (cd_members d) @ ?inh)"
  have t': "t' = dset t (cd_name d) \<lparr>cl_mro = cd_name d # order, cl_members = cd_members d, cl_abstract = ?a\<rparr>"
    using assms bases order by (simp add: declare_class_def Let_def)
  have "lookup_in t' cs n = lookup_in ?t1 cs n" for cs n
    by (rule lookup_in_cong) (simp add: t' body_of_def dget_dset)
  then have "n \<in> set ?a \<longleftrightarrow> n \<in> set (abstract_names (cd_members d)) \<or>
      (\<exists>b \<in> set (cd_bases d). n \<in> set (abstract_of t b)) \<and> (\<exists>m. lookup_in t' (cd_name d # order) n = Some m \<and> is_abstract m)" for n
    by (auto split: option.splits)
  with bases show thesis by (intro that [OF order _ t']) (simp_all add: list_all_iff)
qed

lemma declare_class_ok:
  assumes "classes_ok t" and "\<not> dmem (cd_name d) t" and "distinct (cd_bases d)" and "dict_ok (cd_members d)"
    and "declare_class d t = Some t'"
  shows "classes_ok t'"
proof -
  let ?c = "cd_name d"
  obtain order a where d: "c3_merge (map (mro_of t) (cd_bases d) @ [cd_bases d]) = Some order"
    and bases': "\<forall>b \<in> set (cd_bases d). dmem b t"
    and t': "t' = dset t ?c \<lparr>cl_mro = ?c # order, cl_members = cd_members d, cl_abstract = a\<rparr>"
    and a': "\<forall>n. n \<in> set a \<longleftrightarrow> n \<in> set (abstract_names (cd_members d)) \<or>
        (\<exists>b \<in> set (cd_bases d). n \<in> set (abstract_of t b)) \<and> (\<exists>m. lookup_in t' (?c # order) n = Some m \<and> is_abstract m)"
    by (rule declared_class [OF assms(5)])
  note bases = bases' [rule_format] and a = a' [rule_format]
  have mros: "distinct (mro_of t b)" "b \<in> set (mro_of t b)" "set (mro_of t b) \<subseteq> fst ` set t"
    "\<And>x. x \<in> set (mro_of t b) \<Longrightarrow> subseq (mro_of t x) (mro_of t b)" if "dmem b t" for b
    using classes_ok_mro [OF assms(1) that] by (auto simp: in_set_conv_nth hd_conv_nth)
  have merged: "set order = \<Union> (set ` set (map (mro_of t) (cd_bases d) @ [cd_bases d]))" "distinct order"
    "\<And>b. b \<in> set (cd_bases d) \<Longrightarrow> subseq (mro_of t b) order"
    using c3_merge_sound [OF d] mros(1) bases assms(3) by auto
  have order: "\<exists>b \<in> set (cd_bases d). x \<in> set (mro_of t b)" if "x \<in> set order" for x
    using that merged(1) mros(2) bases by auto
  then have known: "set order \<subseteq> fst ` set t" using mros(3) bases by blast
  then have fresh: "?c \<notin> set order" using assms(2) by (auto simp: dmem_iff)
  have same: "mro_of t' c = mro_of t c" "body_of t' c = body_of t c" "abstract_of t' c = abstract_of t c" if "c \<noteq> ?c" for c
    using that by (simp_all add: t' mro_of_def body_of_def abstract_of_def dget_dset)
  have new: "mro_of t' ?c = ?c # order" "body_of t' ?c = cd_members d" "abstract_of t' ?c = a"
    by (simp_all add: t' mro_of_def body_of_def abstract_of_def dget_dset)
  have keys: "fst ` set t' = insert ?c (fst ` set t)" by (simp add: t' keys_dset)
  have old: "c \<noteq> ?c" if "c \<in> fst ` set t" for c using that assms(2) unfolding dmem_iff by metis
  have lookup_old: "lookup_in t' cs n = lookup_in t cs n" if "set cs \<subseteq> fst ` set t" for cs n
    using that old same(2) by (intro lookup_in_cong) blast
  have "distinct (mro_of t' c) \<and> hd (mro_of t' c) = c \<and> mro_of t' c \<noteq> [] \<and> set (mro_of t' c) \<subseteq> fst ` set t'
      \<and> (\<forall>b \<in> set (mro_of t' c). subseq (mro_of t' b) (mro_of t' c))" if "dmem c t'" for c
  proof (cases "c = ?c")
    case True
    have "subseq (mro_of t' b) (?c # order)" if "b \<in> set order" for b
    proof -
      from order [OF that] obtain b' where b': "b' \<in> set (cd_bases d)" "b \<in> set (mro_of t b')" by blast
      have "subseq (mro_of t b) order" using mros(4) [OF bases [OF b'(1)] b'(2)] merged(3) [OF b'(1)] by (rule subseq_order.trans)
      moreover have "mro_of t' b = mro_of t b" using that fresh by (intro same) auto
      ultimately show ?thesis by (simp add: list_emb_Cons)
    qed
    with True new merged(2) fresh known keys show ?thesis by auto
  next
    case False
    then have c: "dmem c t" using that keys by (auto simp: dmem_iff)
    from mros(3) [OF c] old same(1) have "mro_of t' b = mro_of t b" if "b \<in> set (mro_of t c)" for b using that by blast
    with classes_ok_mro [OF assms(1) c] same(1) [OF False] keys show ?thesis by auto
  qed
  moreover have "n \<in> set (abstract_of t' c) \<longleftrightarrow> (\<exists>m. lookup t' c n = Some m \<and> is_abstract m)" if "dmem c t'" for c n
  proof (cases "c = ?c")
    case False
    then have c: "dmem c t" using that keys by (auto simp: dmem_iff)
    have "lookup t' c n = lookup t c n" unfolding lookup_def same(1) [OF False] by (rule lookup_old [OF mros(3) [OF c]])
    with classes_ok_abstract [OF assms(1) c] same(3) [OF False] show ?thesis by simp
  next
    case True
    have look: "lookup t' c n = (if dmem n (cd_members d) then dget (cd_members d) n else lookup_in t order n)"
      unfolding lookup_def True new lookup_in_Cons lookup_old [OF known] ..
    have "\<exists>b \<in> set (cd_bases d). n \<in> set (abstract_of t b)" if "lookup_in t order n = Some m" "is_abstract m" for m
    proof -
      from that(1) obtain x where x: "find (\<lambda>c. dmem n (body_of t c)) order = Some x" "dget (body_of t x) n = Some m"
        by (auto simp: lookup_in_def split: option.splits)
      then have "x \<in> set order" by (auto simp: find_Some_iff)
      from order [OF this] obtain b where b: "b \<in> set (cd_bases d)" "x \<in> set (mro_of t b)" by blast
      have "find (\<lambda>c. dmem n (body_of t c)) (mro_of t b) = Some x"
        by (rule find_subseq [OF merged(3) [OF b(1)] merged(2) x(1) b(2)])
      with x(2) have "lookup t b n = Some m" by (simp add: lookup_def lookup_in_def)
      with that(2) classes_ok_abstract [OF assms(1) bases [OF b(1)]] b(1) show ?thesis by blast
    qed
    moreover have "lookup_in t' (?c # order) n = lookup t' c n" by (simp add: lookup_def True new)
    ultimately show ?thesis
      unfolding True new(3) a abstract_names_iff [OF assms(4)] unfolding True [symmetric] look
      by (cases "dmem n (cd_members d)") (auto simp: dmem_def)
  qed
  ultimately show ?thesis by (simp add: classes_ok_def)
qed

lemma declare_all_ok:
  "classes_ok t \<Longrightarrow> distinct (map cd_name ds) \<Longrightarrow> \<forall>d \<in> set ds. \<not> dmem (cd_name d) t \<and> distinct (cd_bases d) \<and> dict_ok (cd_members d)
    \<Longrightarrow> declare_all ds t = Some t' \<Longrightarrow> classes_ok t'"
proof (induction ds arbitrary: t)
  case (Cons d ds)
  then obtain t1 where t1: "declare_class d t = Some t1" "declare_all ds t1 = Some t'" by (auto split: option.splits)
  have ok: "classes_ok t1" by (rule declare_class_ok [OF Cons.prems(1) _ _ _ t1(1)]) (use Cons.prems(3) in simp_all)
  obtain order a where "t1 = dset t (cd_name d) \<lparr>cl_mro = cd_name d # order, cl_members = cd_members d, cl_abstract = a\<rparr>"
    by (rule declared_class [OF t1(1)])
  then have "dmem x t1 \<longleftrightarrow> x = cd_name d \<or> dmem x t" for x by (simp add: dmem_iff keys_dset)
  moreover have "cd_name d' \<noteq> cd_name d" if "d' \<in> set ds" for d' using Cons.prems(2) that by (metis imageI list.set_map distinct.simps(2) list.simps(9))
  ultimately have "\<forall>d' \<in> set ds. \<not> dmem (cd_name d') t1 \<and> distinct (cd_bases d') \<and> dict_ok (cd_members d')" using Cons.prems(3) by simp
  from Cons.IH [OF ok _ this t1(2)] Cons.prems(2) show ?case by simp
qed simp

lemma instantiable_iff: "classes_ok t \<Longrightarrow> dmem c t \<Longrightarrow>
    instantiable t c \<longleftrightarrow> (\<forall>n m. lookup t c n = Some m \<longrightarrow> \<not> is_abstract m)"
  using classes_ok_abstract [of t c] by (auto simp: instantiable_def) (metis list.set_intros(1) neq_Nil_conv)

section \<open>Tables of class statements\<close>

lemma declare_all_append: "declare_all (xs @ ys) t = (case declare_all xs t of None \<Rightarrow> None | Some t' \<Rightarrow> declare_all ys t')"
  by (induction xs arbitrary: t) (auto split: option.split)

lemma declared_keys: "declare_class d t = Some t' \<Longrightarrow> dmem c t' \<longleftrightarrow> c = cd_name d \<or> dmem c t"
  using declared_class [of d t t'] by (metis dmem_iff insert_iff keys_dset)

lemma declared_others: "declare_class d t = Some t' \<Longrightarrow> c \<noteq> cd_name d \<Longrightarrow> mro_of t' c = mro_of t c \<and> body_of t' c = body_of t c"
  by (rule declared_class [of d t t']) (auto simp: mro_of_def body_of_def dget_dset)

lemma declare_all_keys: "declare_all ds t = Some t' \<Longrightarrow> dmem c t' \<longleftrightarrow> c \<in> cd_name ` set ds \<or> dmem c t"
  by (induction ds arbitrary: t) (auto simp: declared_keys split: option.splits)

lemma declare_all_keeps:
  "declare_all ds t = Some t' \<Longrightarrow> c \<notin> cd_name ` set ds \<Longrightarrow> mro_of t' c = mro_of t c \<and> body_of t' c = body_of t c"
proof (induction ds arbitrary: t)
  case (Cons d ds)
  then obtain t1 where t1: "declare_class d t = Some t1" "declare_all ds t1 = Some t'" by (auto split: option.splits)
  with Cons declared_others [OF t1(1), of c] show ?case by simp
qed simp

text \<open>What a table holds of each of its class statements.\<close>

lemma declare_all_entry:
  "declare_all ds t = Some t' \<Longrightarrow> distinct (map cd_name ds) \<Longrightarrow> \<forall>d \<in> set ds. \<not> dmem (cd_name d) t \<Longrightarrow> d \<in> set ds \<Longrightarrow>
    body_of t' (cd_name d) = cd_members d
    \<and> (\<exists>order. c3_merge (map (mro_of t') (cd_bases d) @ [cd_bases d]) = Some order \<and> mro_of t' (cd_name d) = cd_name d # order)"
proof (induction ds arbitrary: t)
  case (Cons e ds)
  then obtain t1 where t1: "declare_class e t = Some t1" "declare_all ds t1 = Some t'" by (auto split: option.splits)
  have names: "cd_name d' \<noteq> cd_name e" if "d' \<in> set ds" for d' using Cons.prems(2) that by (metis imageI list.set_map distinct.simps(2) list.simps(9))
  then have fresh: "\<forall>d' \<in> set ds. \<not> dmem (cd_name d') t1" using Cons.prems(3) declared_keys [OF t1(1)] by simp
  show ?case
  proof (cases "d = e")
    case True
    obtain order a where d: "c3_merge (map (mro_of t) (cd_bases e) @ [cd_bases e]) = Some order"
      "\<forall>b \<in> set (cd_bases e). dmem b t"
      "t1 = dset t (cd_name e) \<lparr>cl_mro = cd_name e # order, cl_members = cd_members e, cl_abstract = a\<rparr>"
      by (rule declared_class [OF t1(1)])
    have "mro_of t' b = mro_of t b" if "dmem b t" for b
    proof -
      have "b \<noteq> cd_name e" "b \<notin> cd_name ` set ds" using that Cons.prems(3) by auto
      with declare_all_keeps [OF t1(2), of b] declared_others [OF t1(1), of b] show ?thesis by simp
    qed
    with d(2) have "map (mro_of t') (cd_bases e) = map (mro_of t) (cd_bases e)" by simp
    moreover have "cd_name e \<notin> cd_name ` set ds" using Cons.prems(2) by simp
    with declare_all_keeps [OF t1(2)] d(3) have "mro_of t' (cd_name e) = cd_name e # order" "body_of t' (cd_name e) = cd_members e"
      by (simp_all add: mro_of_def body_of_def dget_dset)
    ultimately show ?thesis using d(1) True by (simp cong: map_cong)
  next
    case False
    with Cons.prems Cons.IH [OF t1(2) _ fresh] show ?thesis by simp
  qed
qed simp

text \<open>With one base the order is that of the base.\<close>

lemma c3_one: "distinct xs \<Longrightarrow> c3_merge [xs, []] = Some xs \<and> c3_merge [xs] = Some xs"
proof (induction xs)
  case (Cons x xs)
  then have "next_class [x # xs] = Some x" by (simp add: next_class_def)
  with Cons show ?case by (simp add: c3_merge.simps [of "[x # xs, []]"] c3_merge.simps [of "[x # xs]"] drop_head_def)
qed (simp add: c3_merge.simps)

lemma c3_single: "distinct (b # xs) \<Longrightarrow> c3_merge [b # xs, [b]] = Some (b # xs)"
  using c3_one [of xs] by (simp add: c3_merge.simps [of "[b # xs, [b]]"] next_class_def drop_head_def)

lemma mro_single:
  assumes "classes_ok t" and "dmem b t"
  shows "c3_merge [mro_of t b, [b]] = Some (mro_of t b)"
proof -
  from classes_ok_mro [OF assms] have "mro_of t b = b # tl (mro_of t b)" "distinct (mro_of t b)" by (metis list.collapse)+
  with c3_single [of b "tl (mro_of t b)"] show ?thesis by simp
qed

fun singles :: "'c list \<Rightarrow> 'c class_def list \<Rightarrow> bool" where
  "singles known [] \<longleftrightarrow> True"
| "singles known (d # ds) \<longleftrightarrow> length (cd_bases d) = 1 \<and> set (cd_bases d) \<subseteq> set known \<and> cd_name d \<notin> set known
     \<and> dict_ok (cd_members d) \<and> singles (cd_name d # known) ds"

lemma singles_succeed:
  "classes_ok t \<Longrightarrow> {c. dmem c t} = set known \<Longrightarrow> singles known ds \<Longrightarrow> \<exists>t'. declare_all ds t = Some t' \<and> classes_ok t'"
proof (induction ds arbitrary: t known)
  case (Cons d ds)
  then obtain b where b: "cd_bases d = [b]" "b \<in> set known" by (auto simp: length_Suc_conv)
  with Cons.prems(2) have "dmem b t" by auto
  with b mro_single [OF Cons.prems(1)] obtain t1 where t1: "declare_class d t = Some t1" by (simp add: declare_class_def Let_def)
  have "\<not> dmem (cd_name d) t" using Cons.prems(2,3) by auto
  then have "classes_ok t1" using Cons.prems(1,3) b(1) by (intro declare_class_ok [OF _ _ _ _ t1]) simp_all
  moreover have "{c. dmem c t1} = set (cd_name d # known)" using declared_keys [OF t1] Cons.prems(2) by auto
  ultimately show ?case using Cons.IH [of t1 "cd_name d # known"] Cons.prems(3) t1 by simp
qed simp

text \<open>A class with one base can be instantiated if its body defines what is still abstract in the base.\<close>

lemma subclass_instantiable:
  assumes "classes_ok t" and "declare_class d t = Some t'" and "cd_bases d = [b]" and "\<not> dmem (cd_name d) t" and "dict_ok (cd_members d)"
  shows "instantiable t' (cd_name d) \<longleftrightarrow>
    (\<forall>n m. dget (cd_members d) n = Some m \<longrightarrow> \<not> is_abstract m) \<and> set (abstract_of t b) \<subseteq> set (dkeys (cd_members d))"
proof -
  obtain order a where d: "c3_merge (map (mro_of t) (cd_bases d) @ [cd_bases d]) = Some order" "\<forall>b \<in> set (cd_bases d). dmem b t"
    and t': "t' = dset t (cd_name d) \<lparr>cl_mro = cd_name d # order, cl_members = cd_members d, cl_abstract = a\<rparr>"
    and a: "\<forall>n. n \<in> set a \<longleftrightarrow> n \<in> set (abstract_names (cd_members d)) \<or>
        (\<exists>b \<in> set (cd_bases d). n \<in> set (abstract_of t b)) \<and> (\<exists>m. lookup_in t' (cd_name d # order) n = Some m \<and> is_abstract m)"
    by (rule declared_class [OF assms(2)])
  have b: "dmem b t" using d(2) assms(3) by simp
  have order: "order = mro_of t b" using d(1) mro_single [OF assms(1) b] assms(3) by simp
  have known: "set order \<subseteq> fst ` set t" using classes_ok_mro [OF assms(1) b] order by simp
  have "lookup_in t' order n = lookup_in t order n" for n
  proof (rule lookup_in_cong)
    fix c assume "c \<in> set order"
    with known assms(4) have "c \<noteq> cd_name d" by (auto simp: dmem_iff)
    then show "body_of t' c = body_of t c" by (simp add: t' body_of_def dget_dset)
  qed
  moreover have own: "body_of t' (cd_name d) = cd_members d" by (simp add: t' body_of_def dget_dset)
  ultimately have look: "lookup_in t' (cd_name d # order) n =
      (if dmem n (cd_members d) then dget (cd_members d) n else lookup t b n)" for n
    by (simp add: lookup_in_Cons lookup_def order)
  have "dmem (cd_name d) t'" using declared_keys [OF assms(2)] by simp
  then have "instantiable t' (cd_name d) \<longleftrightarrow> (\<forall>n. n \<notin> set a)"
    by (auto simp: instantiable_def t' abstract_of_def dget_dset)
  also have "\<dots> \<longleftrightarrow> (\<forall>n m. dget (cd_members d) n = Some m \<longrightarrow> \<not> is_abstract m) \<and> (\<forall>n \<in> set (abstract_of t b). dmem n (cd_members d))"
    unfolding a [rule_format] abstract_names_iff [OF assms(5)] look using assms(3) classes_ok_abstract [OF assms(1) b]
    by (auto simp: dmem_def) (metis option.distinct(1))
  finally show ?thesis by (auto simp: dmem_iff)
qed

section \<open>Calls\<close>

text \<open>
  Positional arguments go to the parameters in order, the others are taken by name or from the
  default; too many arguments, an unknown name, a parameter bound twice or not at all raise
  \<open>TypeError\<close>. The result names what each parameter is bound to.
\<close>

datatype 'v bound = Given 'v | Default default_value

fun bind :: "param list \<Rightarrow> 'v list \<Rightarrow> (string, 'v) dict \<Rightarrow> (string \<times> 'v bound) list option" where
  "bind [] pos kw = (if pos = [] \<and> kw = [] then Some [] else None)"
| "bind (p # ps) (v # pos) kw =
     (if dmem (p_name p) kw then None else map_option ((#) (p_name p, Given v)) (bind ps pos kw))"
| "bind (p # ps) [] kw =
     (case dget kw (p_name p) of
        Some v \<Rightarrow> map_option ((#) (p_name p, Given v)) (bind ps [] (ddel kw (p_name p)))
      | None \<Rightarrow>
          (case p of Req n \<Rightarrow> None | Opt n d \<Rightarrow> map_option ((#) (n, Default d)) (bind ps [] kw)))"

text \<open>
  The first method takes every call the second one takes: the same names in the same order, a default
  wherever the other has one, and defaults for what comes after.
\<close>

fun accepts :: "param list \<Rightarrow> param list \<Rightarrow> bool" where
  "accepts qs [] \<longleftrightarrow> list_all has_default qs"
| "accepts [] (p # ps) \<longleftrightarrow> False"
| "accepts (q # qs) (p # ps) \<longleftrightarrow> p_name q = p_name p \<and> (has_default p \<longrightarrow> has_default q) \<and> accepts qs ps"

lemma bind_defaults: "list_all has_default qs \<Longrightarrow> \<exists>args. bind qs [] [] = Some args"
proof (induction qs)
  case (Cons q qs)
  then show ?case by (cases q) auto
qed simp

lemma bind_optional: "has_default p \<Longrightarrow> dget kw (p_name p) = None \<Longrightarrow>
    bind (p # ps) [] kw = map_option ((#) (p_name p, Default (case p of Opt n d \<Rightarrow> d | Req n \<Rightarrow> D_None))) (bind ps [] kw)"
  by (cases p) auto

lemma accepts_bind:
  assumes "accepts qs ps" and "bind ps pos kw = Some args"
  shows "\<exists>args'. bind qs pos kw = Some args' \<and> (\<forall>n v. (n, Given v) \<in> set args \<longrightarrow> (n, Given v) \<in> set args')"
  using assms
proof (induction qs ps arbitrary: pos kw args rule: accepts.induct)
  case (1 qs)
  then show ?case using bind_defaults [of qs] by (auto split: if_splits)
next
  case (3 q qs p ps)
  then have q: "p_name q = p_name p" "has_default p \<longrightarrow> has_default q" "accepts qs ps" by simp_all
  show ?case
  proof (cases pos)
    case (Cons v pos')
    with 3(3) obtain rest where r: "bind ps pos' kw = Some rest" "args = (p_name p, Given v) # rest" "\<not> dmem (p_name p) kw"
      by (auto split: if_splits)
    from 3(1) [OF q(3) r(1)] obtain args' where "bind qs pos' kw = Some args'" "\<forall>n v. (n, Given v) \<in> set rest \<longrightarrow> (n, Given v) \<in> set args'"
      by blast
    with Cons r q(1) show ?thesis by auto
  next
    case Nil
    show ?thesis
    proof (cases "dget kw (p_name p)")
      case (Some v)
      with 3(3) Nil obtain rest where r: "bind ps [] (ddel kw (p_name p)) = Some rest" "args = (p_name p, Given v) # rest" by auto
      from 3(1) [OF q(3) r(1)] obtain args' where
        "bind qs [] (ddel kw (p_name p)) = Some args'" "\<forall>n v. (n, Given v) \<in> set rest \<longrightarrow> (n, Given v) \<in> set args'" by blast
      with Some Nil r(2) q(1) show ?thesis by auto
    next
      case None
      then have "has_default p" using 3(3) Nil by (cases p) simp_all
      with None 3(3) Nil obtain rest where r: "bind ps [] kw = Some rest" "\<And>n v. (n, Given v) \<in> set args \<Longrightarrow> (n, Given v) \<in> set rest"
        using \<open>has_default p\<close> by (cases p) auto
      from 3(1) [OF q(3) r(1)] obtain args' where "bind qs [] kw = Some args'" "\<forall>n v. (n, Given v) \<in> set rest \<longrightarrow> (n, Given v) \<in> set args'"
        by blast
      moreover have "has_default q" using q(2) \<open>has_default p\<close> by simp
      ultimately show ?thesis using None Nil q(1) r(2) by (cases q) auto
    qed
  qed
qed simp

end
