(* ===== verification/Classes.thy ===== *)
theory Classes
  imports Py_Classes Os_Bridge Plugins
begin

text \<open>
  The classes of \<open>domain/interfaces\<close>, of the repository, the event bus, the threat service, the bridges,
  the plugins and the exceptions (\<open>core/exceptions.py\<close>), as class statements of \<open>Py_Classes\<close>: their
  bases and, for every method, its parameters with their defaults. What the concrete methods do is
  modelled in the theories of the components; here it is shown which classes can be instantiated and
  that a call written against an interface fits every class that implements it.
\<close>

section \<open>Names\<close>

datatype class_name =
    C_object | C_ABC | C_BaseException | C_Exception | C_INetworkCapture | C_IFirewallAdapter |
    C_IThreatIntelProvider | C_IEventBus | C_IPortRepository | C_IHistoryRepository | C_IAuditRepository |
    C_IApprovalRepository | C_IThreatRepository | C_IRuleRepository | C_IConfigRepository |
    C_IPreferenceRepository | C_IDashboardRepository | C_DatabaseRepository | C_EventBus | C_ThreatIntel |
    C_OSBridgeAdapter | C_LinuxBridge | C_WindowsBridge | C_DarwinBridge | C_BaseMonitorPlugin | C_SentinelError |
    C_SystemProcessProtectionError | C_SnifferError | C_FirewallRuleError | C_CleanupError | C_DatabaseError
  | C_Plugin string

text \<open>\<open>C_Plugin\<close> names the classes of plugins, which are not part of the repository.\<close>

fun is_plugin :: "class_name \<Rightarrow> bool" where
  "is_plugin (C_Plugin s) = True"
| "is_plugin c = False"

section \<open>Service interfaces\<close>

definition INetworkCapture_class :: "class_name class_def" where
  "INetworkCapture_class =
     \<lparr>cd_name = C_INetworkCapture, cd_bases = [C_ABC],
      cd_members =
      [(''start'', Abstract []),
       (''stop'', Abstract []),
       (''is_alive'', Abstract [])]\<rparr>"

definition IFirewallAdapter_class :: "class_name class_def" where
  "IFirewallAdapter_class =
     \<lparr>cd_name = C_IFirewallAdapter, cd_bases = [C_ABC],
      cd_members =
      [(''is_compatible'', Abstract []),
       (''is_elevated'', Abstract []),
       (''block_port'', Abstract [Req ''port'', Opt ''protocol'' (D_Str ''tcp'')]),
       (''unblock_port'', Abstract [Req ''port'']),
       (''cleanup_all_rules'', Abstract []),
       (''get_port_pid_map'', Abstract []),
       (''get_process_info'', Abstract [Req ''pid''])]\<rparr>"

definition IThreatIntelProvider_class :: "class_name class_def" where
  "IThreatIntelProvider_class =
     \<lparr>cd_name = C_IThreatIntelProvider, cd_bases = [C_ABC],
      cd_members =
      [(''get_ip_metadata'', Abstract [Req ''ip'']),
       (''get_risk_score'', Abstract [Req ''ip'']),
       (''is_malicious'', Abstract [Req ''ip''])]\<rparr>"

definition IEventBus_class :: "class_name class_def" where
  "IEventBus_class =
     \<lparr>cd_name = C_IEventBus, cd_bases = [C_ABC],
      cd_members =
      [(''publish'', Abstract [Req ''event'']),
       (''subscribe'', Abstract [Req ''event_type'', Req ''handler'']),
       (''unsubscribe'', Abstract [Req ''event_type'', Req ''handler''])]\<rparr>"

section \<open>Repository interfaces\<close>

definition IPortRepository_class :: "class_name class_def" where
  "IPortRepository_class =
     \<lparr>cd_name = C_IPortRepository, cd_bases = [C_ABC],
      cd_members =
      [(''add_blocked_port'', Abstract [Req ''port'', Opt ''block_type'' (D_Str ''hard''), Opt ''reason'' (D_Str [])]),
       (''remove_blocked_port'', Abstract [Req ''port'']),
       (''get_blocked_ports'', Abstract []),
       (''clear_blocked_ports'', Abstract [])]\<rparr>"

definition IHistoryRepository_class :: "class_name class_def" where
  "IHistoryRepository_class =
     \<lparr>cd_name = C_IHistoryRepository, cd_bases = [C_ABC],
      cd_members =
      [(''insert_traffic'', Abstract [Req ''records'']),
       (''get_traffic_history'', Abstract [Req ''port'', Opt ''hours'' (D_Int 24)]),
       (''prune_old_traffic'', Abstract [Opt ''max_age_hours'' (D_Int 24)]),
       (''get_top_talkers'', Abstract [Opt ''hours'' (D_Int 24), Opt ''limit'' (D_Int 10)]),
       (''get_global_traffic_stats'', Abstract [Opt ''hours'' (D_Int 24)])]\<rparr>"

definition IAuditRepository_class :: "class_name class_def" where
  "IAuditRepository_class =
     \<lparr>cd_name = C_IAuditRepository, cd_bases = [C_ABC],
      cd_members =
      [(''insert_audit_log'', Abstract [Req ''event_type'', Req ''message'', Opt ''app_name'' D_None, Opt ''port'' D_None,
                 Opt ''pid'' D_None, Opt ''severity'' (D_Str ''info''), Opt ''details'' D_None]),
       (''get_audit_logs'', Abstract [Opt ''limit'' (D_Int 100)])]\<rparr>"

definition IApprovalRepository_class :: "class_name class_def" where
  "IApprovalRepository_class =
     \<lparr>cd_name = C_IApprovalRepository, cd_bases = [C_ABC],
      cd_members =
      [(''create_analyst_approval'', Abstract [Req ''action_type'', Req ''target_identifier'', Req ''reason'',
                 Opt ''risk_score'' (D_Int 0)]),
       (''update_approval_status'', Abstract [Req ''approval_id'', Req ''status'', Req ''resolved_by'']),
       (''get_pending_approvals'', Abstract [])]\<rparr>"

definition IThreatRepository_class :: "class_name class_def" where
  "IThreatRepository_class =
     \<lparr>cd_name = C_IThreatRepository, cd_bases = [C_ABC],
      cd_members =
      [(''get_malicious_ips'', Abstract []),
       (''update_malicious_ips'', Abstract [Req ''ips''])]\<rparr>"

definition IRuleRepository_class :: "class_name class_def" where
  "IRuleRepository_class =
     \<lparr>cd_name = C_IRuleRepository, cd_bases = [C_ABC],
      cd_members =
      [(''get_rules'', Abstract []),
       (''save_rule'', Abstract [Req ''rule'']),
       (''delete_rule'', Abstract [Req ''rule_id''])]\<rparr>"

definition IConfigRepository_class :: "class_name class_def" where
  "IConfigRepository_class =
     \<lparr>cd_name = C_IConfigRepository, cd_bases = [C_ABC],
      cd_members =
      [(''set_config'', Abstract [Req ''key'', Req ''value'']),
       (''get_config'', Abstract [Req ''key'', Opt ''default'' D_None])]\<rparr>"

definition IPreferenceRepository_class :: "class_name class_def" where
  "IPreferenceRepository_class =
     \<lparr>cd_name = C_IPreferenceRepository, cd_bases = [C_ABC],
      cd_members =
      [(''set_user_preference'', Abstract [Req ''key'', Req ''value'']),
       (''get_user_preferences'', Abstract [])]\<rparr>"

definition IDashboardRepository_class :: "class_name class_def" where
  "IDashboardRepository_class =
     \<lparr>cd_name = C_IDashboardRepository, cd_bases = [C_ABC],
      cd_members =
      [(''save_dashboard_layout'', Abstract [Req ''user_id'', Req ''layout_json'', Opt ''name'' (D_Str ''default'')]),
       (''get_dashboard_layout'', Abstract [Opt ''name'' (D_Str ''default'')])]\<rparr>"

section \<open>The implementations\<close>

definition DatabaseRepository_class :: "class_name class_def" where
  "DatabaseRepository_class =
     \<lparr>cd_name = C_DatabaseRepository, cd_bases = [C_IPortRepository, C_IHistoryRepository, C_IAuditRepository, C_IApprovalRepository, C_IConfigRepository,
        C_IPreferenceRepository, C_IDashboardRepository],
      cd_members =
      [(''__init__'', Concrete [Opt ''db_url'' (D_Str ''sqlite:///vigilant_data.db'')]),
       (''engine'', Concrete []),
       (''session_factory'', Concrete []),
       (''add_blocked_port'', Concrete [Req ''port'', Opt ''block_type'' (D_Str ''hard''), Opt ''reason'' (D_Str [])]),
       (''remove_blocked_port'', Concrete [Req ''port'']),
       (''get_blocked_ports'', Concrete []),
       (''clear_blocked_ports'', Concrete []),
       (''insert_traffic'', Concrete [Req ''records'']),
       (''get_traffic_history'', Concrete [Req ''port'', Opt ''hours'' (D_Int 24)]),
       (''prune_old_traffic'', Concrete [Opt ''max_age_hours'' (D_Int 24)]),
       (''get_top_talkers'', Concrete [Opt ''hours'' (D_Int 24), Opt ''limit'' (D_Int 10)]),
       (''get_global_traffic_stats'', Concrete [Opt ''hours'' (D_Int 24)]),
       (''insert_audit_log'', Concrete [Req ''event_type'', Req ''message'', Opt ''app_name'' D_None, Opt ''port'' D_None,
                 Opt ''pid'' D_None, Opt ''severity'' (D_Str ''info''), Opt ''details'' D_None]),
       (''get_audit_logs'', Concrete [Opt ''limit'' (D_Int 100)]),
       (''create_analyst_approval'', Concrete [Req ''action_type'', Req ''target_identifier'', Req ''reason'',
                 Opt ''risk_score'' (D_Int 0)]),
       (''update_approval_status'', Concrete [Req ''approval_id'', Req ''status'', Req ''resolved_by'']),
       (''get_pending_approvals'', Concrete []),
       (''set_config'', Concrete [Req ''key'', Req ''value'']),
       (''get_config'', Concrete [Req ''key'', Opt ''default'' D_None]),
       (''set_user_preference'', Concrete [Req ''key'', Req ''value'']),
       (''get_user_preferences'', Concrete []),
       (''save_dashboard_layout'', Concrete [Req ''user_id'', Req ''layout_json'', Opt ''name'' (D_Str ''default'')]),
       (''get_dashboard_layout'', Concrete [Opt ''name'' (D_Str ''default'')]),
       (''close'', Concrete [])]\<rparr>"

definition EventBus_class :: "class_name class_def" where
  "EventBus_class =
     \<lparr>cd_name = C_EventBus, cd_bases = [C_IEventBus],
      cd_members =
      [(''__init__'', Concrete []),
       (''publish'', Concrete [Req ''event'']),
       (''publish_async'', Concrete [Req ''event'']),
       (''subscribe'', Concrete [Req ''event_type'', Req ''handler'']),
       (''subscribe_async'', Concrete [Req ''event_type'', Req ''handler'']),
       (''unsubscribe'', Concrete [Req ''event_type'', Req ''handler'']),
       (''clear'', Concrete []),
       (''handler_count'', Concrete [])]\<rparr>"

definition ThreatIntel_class :: "class_name class_def" where
  "ThreatIntel_class =
     \<lparr>cd_name = C_ThreatIntel, cd_bases = [C_object],
      cd_members =
      [(''__init__'', Concrete []),
       (''_bootstrap_list'', Concrete []),
       (''get_ip_metadata'', Concrete [Req ''ip'']),
       (''is_malicious'', Concrete [Req ''ip'']),
       (''get_risk_score'', Concrete [Req ''ip''])]\<rparr>"

section \<open>Bridges and plugins\<close>

definition OSBridgeAdapter_class :: "class_name class_def" where
  "OSBridgeAdapter_class =
     \<lparr>cd_name = C_OSBridgeAdapter, cd_bases = [C_ABC],
      cd_members =
      [(''is_compatible'', Abstract []),
       (''is_elevated'', Abstract []),
       (''get_port_pid_map'', Abstract []),
       (''get_process_info'', Abstract [Req ''pid'']),
       (''block_port'', Abstract [Req ''port'', Opt ''protocol'' (D_Str ''tcp'')]),
       (''unblock_port'', Abstract [Req ''port'']),
       (''cleanup_all_rules'', Abstract [])]\<rparr>"

definition LinuxBridge_class :: "class_name class_def" where
  "LinuxBridge_class =
     \<lparr>cd_name = C_LinuxBridge, cd_bases = [C_OSBridgeAdapter],
      cd_members =
      [(''__init__'', Concrete []),
       (''_detect_firewall'', Concrete []),
       (''_fw_cmd'', Concrete [Req ''args'']),
       (''is_compatible'', Concrete []),
       (''is_elevated'', Concrete []),
       (''get_port_pid_map'', Concrete []),
       (''get_process_info'', Concrete [Req ''pid'']),
       (''block_port'', Concrete [Req ''port'', Opt ''protocol'' (D_Str ''tcp'')]),
       (''unblock_port'', Concrete [Req ''port'']),
       (''cleanup_all_rules'', Concrete [])]\<rparr>"

definition WindowsBridge_class :: "class_name class_def" where
  "WindowsBridge_class =
     \<lparr>cd_name = C_WindowsBridge, cd_bases = [C_OSBridgeAdapter],
      cd_members =
      [(''is_compatible'', Concrete []),
       (''is_elevated'', Concrete []),
       (''get_port_pid_map'', Concrete []),
       (''get_process_info'', Concrete [Req ''pid'']),
       (''block_port'', Concrete [Req ''port'', Opt ''protocol'' (D_Str ''TCP'')]),
       (''unblock_port'', Concrete [Req ''port'']),
       (''cleanup_all_rules'', Concrete [])]\<rparr>"

definition DarwinBridge_class :: "class_name class_def" where
  "DarwinBridge_class =
     \<lparr>cd_name = C_DarwinBridge, cd_bases = [C_OSBridgeAdapter],
      cd_members =
      [(''is_compatible'', Concrete []),
       (''is_elevated'', Concrete []),
       (''get_port_pid_map'', Concrete []),
       (''get_process_info'', Concrete [Req ''pid'']),
       (''block_port'', Concrete [Req ''port'', Opt ''protocol'' (D_Str ''tcp''), Opt ''interface'' (D_Str ''en0'')]),
       (''unblock_port'', Concrete [Req ''port'']),
       (''cleanup_all_rules'', Concrete [])]\<rparr>"

definition BaseMonitorPlugin_class :: "class_name class_def" where
  "BaseMonitorPlugin_class =
     \<lparr>cd_name = C_BaseMonitorPlugin, cd_bases = [C_ABC],
      cd_members =
      [(''name'', Abstract []),
       (''description'', Abstract []),
       (''version'', Concrete []),
       (''enabled'', Concrete []),
       (''__init__'', Concrete []),
       (''start'', Abstract []),
       (''stop'', Abstract []),
       (''get_data'', Abstract []),
       (''health_check'', Concrete [])]\<rparr>"

section \<open>Exceptions\<close>

definition SentinelError_class :: "class_name class_def" where
  "SentinelError_class = \<lparr>cd_name = C_SentinelError, cd_bases = [C_Exception], cd_members = []\<rparr>"

definition SystemProcessProtectionError_class :: "class_name class_def" where
  "SystemProcessProtectionError_class =
     \<lparr>cd_name = C_SystemProcessProtectionError, cd_bases = [C_SentinelError],
      cd_members =
      [(''__init__'', Concrete [Req ''pid'', Req ''operation''])]\<rparr>"

definition SnifferError_class :: "class_name class_def" where
  "SnifferError_class = \<lparr>cd_name = C_SnifferError, cd_bases = [C_SentinelError], cd_members = []\<rparr>"

definition FirewallRuleError_class :: "class_name class_def" where
  "FirewallRuleError_class = \<lparr>cd_name = C_FirewallRuleError, cd_bases = [C_SentinelError], cd_members = []\<rparr>"

definition CleanupError_class :: "class_name class_def" where
  "CleanupError_class = \<lparr>cd_name = C_CleanupError, cd_bases = [C_SentinelError], cd_members = []\<rparr>"

definition DatabaseError_class :: "class_name class_def" where
  "DatabaseError_class = \<lparr>cd_name = C_DatabaseError, cd_bases = [C_SentinelError], cd_members = []\<rparr>"

text \<open>The text of the message, which is all the base class is given.\<close>

definition protection_message :: "int \<Rightarrow> string \<Rightarrow> string" where
  "protection_message pid operation =
     ''Operation '' @ [CHR 0x27] @ operation @ [CHR 0x27] @ '' blocked: PID '' @ show_int pid @
     '' is a protected system process. '' @ ''This is a non-fatal warning.''"

section \<open>The table of classes\<close>

text \<open>
  The class statements of the program, after those of the classes of Python it starts from; of their
  methods the program overrides only \<open>__init__\<close>.
\<close>

definition builtin_defs :: "class_name class_def list" where
  "builtin_defs =
     [\<lparr>cd_name = C_ABC, cd_bases = [C_object], cd_members = []\<rparr>,
      \<lparr>cd_name = C_BaseException, cd_bases = [C_object], cd_members = []\<rparr>,
      \<lparr>cd_name = C_Exception, cd_bases = [C_BaseException], cd_members = []\<rparr>]"

definition object_class :: "class_name class_def" where
  "object_class = \<lparr>cd_name = C_object, cd_bases = [], cd_members = [(''__init__'', Concrete [])]\<rparr>"

definition interface_defs :: "class_name class_def list" where
  "interface_defs =
     [INetworkCapture_class, IFirewallAdapter_class, IThreatIntelProvider_class, IEventBus_class, IPortRepository_class,
      IHistoryRepository_class, IAuditRepository_class, IApprovalRepository_class, IThreatRepository_class,
      IRuleRepository_class, IConfigRepository_class, IPreferenceRepository_class, IDashboardRepository_class]"

definition other_defs :: "class_name class_def list" where
  "other_defs =
     [EventBus_class, ThreatIntel_class, OSBridgeAdapter_class, LinuxBridge_class, WindowsBridge_class, DarwinBridge_class,
      BaseMonitorPlugin_class, SentinelError_class, SystemProcessProtectionError_class, SnifferError_class,
      FirewallRuleError_class, CleanupError_class, DatabaseError_class]"

definition class_defs :: "class_name class_def list" where
  "class_defs = object_class # (builtin_defs @ interface_defs) @ DatabaseRepository_class # other_defs"

definition program_classes :: "class_name classes option" where
  "program_classes = declare_all class_defs []"

section \<open>The table exists\<close>

lemmas class_stmts = INetworkCapture_class_def IFirewallAdapter_class_def IThreatIntelProvider_class_def IEventBus_class_def
  IPortRepository_class_def IHistoryRepository_class_def IAuditRepository_class_def IApprovalRepository_class_def
  IThreatRepository_class_def IRuleRepository_class_def IConfigRepository_class_def IPreferenceRepository_class_def
  IDashboardRepository_class_def DatabaseRepository_class_def EventBus_class_def ThreatIntel_class_def OSBridgeAdapter_class_def
  LinuxBridge_class_def WindowsBridge_class_def DarwinBridge_class_def BaseMonitorPlugin_class_def SentinelError_class_def
  SystemProcessProtectionError_class_def SnifferError_class_def FirewallRuleError_class_def CleanupError_class_def
  DatabaseError_class_def

lemma statement_heads:
  "map cd_name builtin_defs = [C_ABC, C_BaseException, C_Exception]"
  "map cd_bases builtin_defs = [[C_object], [C_object], [C_BaseException]]"
  "map cd_name interface_defs = [C_INetworkCapture, C_IFirewallAdapter, C_IThreatIntelProvider, C_IEventBus, C_IPortRepository,
     C_IHistoryRepository, C_IAuditRepository, C_IApprovalRepository, C_IThreatRepository, C_IRuleRepository, C_IConfigRepository,
     C_IPreferenceRepository, C_IDashboardRepository]"
  "map cd_bases interface_defs = replicate 13 [C_ABC]"
  "map cd_name other_defs = [C_EventBus, C_ThreatIntel, C_OSBridgeAdapter, C_LinuxBridge, C_WindowsBridge, C_DarwinBridge,
     C_BaseMonitorPlugin, C_SentinelError, C_SystemProcessProtectionError, C_SnifferError, C_FirewallRuleError, C_CleanupError,
     C_DatabaseError]"
  by (simp_all add: builtin_defs_def interface_defs_def other_defs_def class_stmts numeral_eq_Suc)

lemma dict_bodies: "list_all (\<lambda>d. dict_ok (cd_members d)) class_defs"
  by (simp add: class_defs_def object_class_def builtin_defs_def interface_defs_def other_defs_def class_stmts dict_ok_def)

lemma class_names: "distinct (map cd_name class_defs)" "cd_name ` set class_defs = {c. \<not> is_plugin c}"
proof -
  have names: "map cd_name class_defs = C_object # (map cd_name builtin_defs @ map cd_name interface_defs) @ C_DatabaseRepository # map cd_name other_defs"
    by (simp add: class_defs_def object_class_def DatabaseRepository_class_def)
  show "distinct (map cd_name class_defs)" unfolding names statement_heads by simp
  have "x \<in> set (map cd_name class_defs) \<longleftrightarrow> \<not> is_plugin x" for x unfolding names statement_heads by (cases x) simp_all
  then show "cd_name ` set class_defs = {c. \<not> is_plugin c}" by auto
qed

lemma single_defs: "singles [C_object] (builtin_defs @ interface_defs)"
  by (simp add: builtin_defs_def interface_defs_def class_stmts dict_ok_def)

text \<open>The repository's seven interfaces, and its order of resolution.\<close>

abbreviation repository_bases :: "class_name list" where
  "repository_bases \<equiv> [C_IPortRepository, C_IHistoryRepository, C_IAuditRepository, C_IApprovalRepository, C_IConfigRepository,
     C_IPreferenceRepository, C_IDashboardRepository]"

lemma repository_order:
  "c3_merge (map (\<lambda>i. [i, C_ABC, C_object]) repository_bases @ [repository_bases]) = Some (repository_bases @ [C_ABC, C_object])"
  by code_simp

lemma object_declared: "\<exists>t. declare_class object_class [] = Some t \<and> classes_ok t \<and> {c. dmem c t} = {C_object} \<and> mro_of t C_object = [C_object]"
proof -
  have "c3_merge [[]] = Some ([] :: class_name list)" by (simp add: c3_merge.simps)
  then obtain t where t: "declare_class object_class [] = Some t" by (simp add: declare_class_def object_class_def Let_def)
  have "classes_ok ([] :: class_name classes)" by (simp add: classes_ok_def dmem_def)
  then have "classes_ok t" by (rule declare_class_ok [OF _ _ _ _ t]) (simp_all add: dmem_def object_class_def dict_ok_def)
  moreover have "{c. dmem c t} = {C_object}" using declared_keys [OF t] by (auto simp: object_class_def dmem_def)
  moreover have "mro_of t C_object = [C_object]"
    using t by (auto simp: declare_class_def object_class_def c3_merge.simps Let_def mro_of_def)
  ultimately show ?thesis using t by blast
qed

lemma declared_single:
  assumes "declare_all ds t0 = Some t" and "distinct (map cd_name ds)" and "\<forall>d \<in> set ds. \<not> dmem (cd_name d) t0"
    and "classes_ok t" and "d \<in> set ds" and "cd_bases d = [b]" and "dmem b t"
  shows "mro_of t (cd_name d) = cd_name d # mro_of t b"
  using declare_all_entry [OF assms(1-3,5)] mro_single [OF assms(4,7)] assms(6) by auto

lemma interface_mro:
  assumes "declare_class object_class [] = Some t0" and "{c. dmem c t0} = {C_object}" and "mro_of t0 C_object = [C_object]"
    and "declare_all (builtin_defs @ interface_defs) t0 = Some t" and "classes_ok t" and "i \<in> set (map cd_name interface_defs)"
  shows "mro_of t i = [i, C_ABC, C_object]"
proof -
  let ?ds = "builtin_defs @ interface_defs"
  have d: "distinct (map cd_name ?ds)" "C_object \<notin> cd_name ` set ?ds"
    using class_names(1) by (auto simp: class_defs_def object_class_def)
  have "dmem c t0 \<longleftrightarrow> c = C_object" for c using assms(2) by blast
  with d(2) have f: "\<forall>d \<in> set ?ds. \<not> dmem (cd_name d) t0" by (metis imageI)
  have obj: "mro_of t C_object = [C_object]" using declare_all_keeps [OF assms(4) d(2)] assms(3) by simp
  have keys: "dmem c t" if "c \<in> insert C_object (cd_name ` set ?ds)" for c
    using declare_all_keys [OF assms(4), of c] assms(2) that by blast
  have "\<lparr>cd_name = C_ABC, cd_bases = [C_object], cd_members = []\<rparr> \<in> set ?ds" by (simp add: builtin_defs_def)
  from declared_single [OF assms(4) d(1) f assms(5) this] keys obj have abc: "mro_of t C_ABC = [C_ABC, C_object]" by simp
  from assms(6) obtain e where e: "e \<in> set interface_defs" "cd_name e = i" by auto
  have "cd_bases e \<in> set (map cd_bases interface_defs)" using e(1) by simp
  then have "cd_bases e = [C_ABC]" unfolding statement_heads by simp
  moreover have "dmem C_ABC t" by (rule keys) (simp add: builtin_defs_def)
  ultimately show ?thesis using declared_single [OF assms(4) d(1) f assms(5), of e C_ABC] e abc by simp
qed

lemma program_table: "\<exists>t. program_classes = Some t \<and> classes_ok t"
proof -
  from object_declared obtain t0 where t0: "declare_class object_class [] = Some t0" "classes_ok t0" "{c. dmem c t0} = {C_object}"
    "mro_of t0 C_object = [C_object]" by blast
  have "{c. dmem c t0} = set [C_object]" using t0(3) by simp
  from singles_succeed [OF t0(2) this single_defs] obtain t1 where
    t1: "declare_all (builtin_defs @ interface_defs) t0 = Some t1" "classes_ok t1" by blast
  have keys1: "{c. dmem c t1} = set (C_object # map cd_name builtin_defs @ map cd_name interface_defs)"
    using declare_all_keys [OF t1(1)] t0(3) by auto
  have mros: "mro_of t1 i = [i, C_ABC, C_object]" if "i \<in> set repository_bases" for i
    by (rule interface_mro [OF t0(1,3,4) t1]) (use that in \<open>auto simp: statement_heads\<close>)
  have bases: "cd_bases DatabaseRepository_class = repository_bases" "cd_name DatabaseRepository_class = C_DatabaseRepository"
    by (simp_all add: DatabaseRepository_class_def)
  have "c3_merge (map (mro_of t1) repository_bases @ [repository_bases]) = Some (repository_bases @ [C_ABC, C_object])"
    using mros repository_order by simp
  moreover have "list_all (\<lambda>b. dmem b t1) repository_bases" using keys1 by (auto simp: statement_heads)
  ultimately obtain t2 where t2: "declare_class DatabaseRepository_class t1 = Some t2"
    by (simp add: declare_class_def bases Let_def del: list.map)
  have "\<not> dmem C_DatabaseRepository t1" using keys1 by (auto simp: statement_heads)
  then have ok2: "classes_ok t2"
    using dict_bodies by (intro declare_class_ok [OF t1(2) _ _ _ t2]) (simp_all add: bases class_defs_def)
  let ?known = "C_DatabaseRepository # C_object # map cd_name builtin_defs @ map cd_name interface_defs"
  have "singles ?known other_defs" unfolding statement_heads by (simp add: other_defs_def class_stmts dict_ok_def)
  moreover have "{c. dmem c t2} = set ?known" using declared_keys [OF t2] keys1 bases(2) by auto
  ultimately obtain t where "declare_all other_defs t2 = Some t" "classes_ok t" using singles_succeed [OF ok2] by blast
  moreover have "declare_all class_defs [] = declare_all other_defs t2"
    by (simp only: class_defs_def declare_all.simps t0(1) option.case declare_all_append [of "builtin_defs @ interface_defs"] t1(1) t2)
  ultimately show ?thesis by (simp add: program_classes_def)
qed

section \<open>What it holds\<close>

text \<open>The order of resolution of every class.\<close>

fun class_order :: "class_name \<Rightarrow> class_name list" where
  "class_order C_object = [C_object]"
| "class_order C_ABC = [C_ABC, C_object]"
| "class_order C_BaseException = [C_BaseException, C_object]"
| "class_order C_Exception = [C_Exception, C_BaseException, C_object]"
| "class_order C_ThreatIntel = [C_ThreatIntel, C_object]"
| "class_order C_SentinelError = [C_SentinelError, C_Exception, C_BaseException, C_object]"
| "class_order C_DatabaseRepository = C_DatabaseRepository # repository_bases @ [C_ABC, C_object]"
| "class_order C_EventBus = [C_EventBus, C_IEventBus, C_ABC, C_object]"
| "class_order (C_Plugin s) = []"
| "class_order c =
     (if c \<in> {C_LinuxBridge, C_WindowsBridge, C_DarwinBridge} then [c, C_OSBridgeAdapter, C_ABC, C_object]
      else if c \<in> {C_SystemProcessProtectionError, C_SnifferError, C_FirewallRuleError, C_CleanupError, C_DatabaseError}
        then [c, C_SentinelError, C_Exception, C_BaseException, C_object]
      else [c, C_ABC, C_object])"

lemma program_entry:
  assumes "program_classes = Some t"
  shows "classes_ok t" and "dmem c t \<longleftrightarrow> \<not> is_plugin c" and "d \<in> set class_defs \<Longrightarrow> body_of t (cd_name d) = cd_members d"
    and "d \<in> set class_defs \<Longrightarrow> cd_bases d = [b] \<Longrightarrow> \<not> is_plugin b \<Longrightarrow> mro_of t (cd_name d) = cd_name d # mro_of t b"
    and "mro_of t C_object = [C_object]"
    and "c3_merge (map (mro_of t) repository_bases @ [repository_bases]) = Some order \<Longrightarrow>
      mro_of t C_DatabaseRepository = C_DatabaseRepository # order"
proof -
  have decl: "declare_all class_defs [] = Some t" "\<forall>d \<in> set class_defs. \<not> dmem (cd_name d) []"
    using assms by (simp_all add: program_classes_def dmem_def)
  note entry = declare_all_entry [OF decl(1) class_names(1) decl(2)]
  from program_table obtain t' where "program_classes = Some t'" "classes_ok t'" by blast
  with assms show ok: "classes_ok t" by (metis option.inject)
  show mem: "dmem c t \<longleftrightarrow> \<not> is_plugin c" for c using declare_all_keys [OF decl(1), of c] class_names(2) by (simp add: dmem_def)
  show "body_of t (cd_name d) = cd_members d" if "d \<in> set class_defs" using entry [OF that] by blast
  show "mro_of t (cd_name d) = cd_name d # mro_of t b" if "d \<in> set class_defs" "cd_bases d = [b]" "\<not> is_plugin b"
    using declared_single [OF decl(1) class_names(1) decl(2) ok that(1,2)] mem that(3) by simp
  have "object_class \<in> set class_defs" by (simp add: class_defs_def)
  from entry [OF this] show "mro_of t C_object = [C_object]" by (simp add: object_class_def c3_merge.simps [of "[[]]"])
  have "DatabaseRepository_class \<in> set class_defs" by (simp add: class_defs_def)
  from entry [OF this] show "mro_of t C_DatabaseRepository = C_DatabaseRepository # order"
    if "c3_merge (map (mro_of t) repository_bases @ [repository_bases]) = Some order"
    using that by (simp add: DatabaseRepository_class_def)
qed

lemma class_heads:
  "map (\<lambda>d. (cd_name d, cd_bases d)) class_defs =
     (C_object, []) # ([(C_ABC, [C_object]), (C_BaseException, [C_object]), (C_Exception, [C_BaseException])]
       @ map (\<lambda>i. (i, [C_ABC])) (map cd_name interface_defs))
     @ (C_DatabaseRepository, repository_bases)
     # [(C_EventBus, [C_IEventBus]), (C_ThreatIntel, [C_object]), (C_OSBridgeAdapter, [C_ABC]), (C_LinuxBridge, [C_OSBridgeAdapter]),
        (C_WindowsBridge, [C_OSBridgeAdapter]), (C_DarwinBridge, [C_OSBridgeAdapter]), (C_BaseMonitorPlugin, [C_ABC]),
        (C_SentinelError, [C_Exception]), (C_SystemProcessProtectionError, [C_SentinelError]), (C_SnifferError, [C_SentinelError]),
        (C_FirewallRuleError, [C_SentinelError]), (C_CleanupError, [C_SentinelError]), (C_DatabaseError, [C_SentinelError])]"
  by (simp add: class_defs_def object_class_def builtin_defs_def interface_defs_def other_defs_def class_stmts)

lemma program_mro:
  assumes "program_classes = Some t"
  shows "mro_of t c = class_order c"
proof -
  have "mro_of t x = x # mro_of t b" if "(x, [b]) \<in> set (map (\<lambda>d. (cd_name d, cd_bases d)) class_defs)" "\<not> is_plugin b" for x b
    using that program_entry(4) [OF assms] by auto
  then have single: "\<And>x b. (x, [b]) \<in> set (map (\<lambda>d. (cd_name d, cd_bases d)) class_defs) \<Longrightarrow> \<not> is_plugin b \<Longrightarrow> mro_of t x = x # mro_of t b" .
  note heads = single [unfolded class_heads statement_heads]
  have base: "mro_of t C_object = [C_object]" "mro_of t C_ABC = [C_ABC, C_object]" "mro_of t C_BaseException = [C_BaseException, C_object]"
    using heads [of C_ABC C_object] heads [of C_BaseException C_object] program_entry(5) [OF assms] by simp_all
  have ifaces: "mro_of t x = [x, C_ABC, C_object]" if "x \<in> set (map cd_name interface_defs) \<union> {C_OSBridgeAdapter, C_BaseMonitorPlugin}" for x
    using that heads [of x C_ABC] base by (auto simp: statement_heads)
  have "map (mro_of t) repository_bases = map (\<lambda>i. [i, C_ABC, C_object]) repository_bases"
    using ifaces by (simp add: statement_heads)
  with program_entry(6) [OF assms] repository_order have repo: "mro_of t C_DatabaseRepository = class_order C_DatabaseRepository" by simp
  have exc: "mro_of t C_Exception = class_order C_Exception" "mro_of t C_SentinelError = class_order C_SentinelError"
    using heads [of C_Exception C_BaseException] heads [of C_SentinelError C_Exception] base by simp_all
  have "mro_of t (C_Plugin s) = []" for s
    using program_entry(2) [OF assms, of "C_Plugin s"] by (simp add: mro_of_def dmem_def)
  then show ?thesis
    using base exc repo ifaces [of c] heads [of c C_SentinelError] heads [of c C_OSBridgeAdapter] heads [of c C_object] heads [of c C_IEventBus]
      ifaces [of C_IEventBus] ifaces [of C_OSBridgeAdapter]
    by (cases c) (simp_all add: statement_heads)
qed

section \<open>Overrides\<close>

text \<open>Every abstract method of the second body is overridden in the first by one that takes all its calls.\<close>

definition overrides :: "(string, member) dict \<Rightarrow> (string, member) dict \<Rightarrow> bool" where
  "overrides impl iface \<longleftrightarrow> list_all (\<lambda>(n, m). case m of Concrete ps \<Rightarrow> True
     | Abstract ps \<Rightarrow> (case dget impl n of Some (Concrete qs) \<Rightarrow> accepts qs ps | _ \<Rightarrow> False)) iface"

lemma overridesD: "overrides impl iface \<Longrightarrow> (n, Abstract ps) \<in> set iface \<Longrightarrow> \<exists>qs. dget impl n = Some (Concrete qs) \<and> accepts qs ps"
  unfolding overrides_def list_all_iff by (drule (1) bspec) (auto split: option.splits member.splits)

lemma repository_overrides:
  "overrides (cd_members DatabaseRepository_class) (cd_members IPortRepository_class)"
  "overrides (cd_members DatabaseRepository_class) (cd_members IHistoryRepository_class)"
  "overrides (cd_members DatabaseRepository_class) (cd_members IAuditRepository_class)"
  "overrides (cd_members DatabaseRepository_class) (cd_members IApprovalRepository_class)"
  "overrides (cd_members DatabaseRepository_class) (cd_members IConfigRepository_class)"
  "overrides (cd_members DatabaseRepository_class) (cd_members IPreferenceRepository_class)"
  "overrides (cd_members DatabaseRepository_class) (cd_members IDashboardRepository_class)"
  by code_simp+

lemma bridge_overrides:
  "overrides (cd_members LinuxBridge_class) (cd_members OSBridgeAdapter_class)"
  "overrides (cd_members WindowsBridge_class) (cd_members OSBridgeAdapter_class)"
  "overrides (cd_members DarwinBridge_class) (cd_members OSBridgeAdapter_class)"
  by code_simp+

lemma bus_overrides: "overrides (cd_members EventBus_class) (cd_members IEventBus_class)"
  by code_simp

text \<open>
  The bridges and the threat service have the methods of the service interfaces as well, although
  they are not declared as subclasses of them.
\<close>

lemma undeclared_overrides:
  "overrides (cd_members LinuxBridge_class) (cd_members IFirewallAdapter_class)"
  "overrides (cd_members WindowsBridge_class) (cd_members IFirewallAdapter_class)"
  "overrides (cd_members DarwinBridge_class) (cd_members IFirewallAdapter_class)"
  "overrides (cd_members ThreatIntel_class) (cd_members IThreatIntelProvider_class)"
  by code_simp+

lemma unimplemented_interfaces:
  assumes "program_classes = Some t"
    and "i \<in> {C_INetworkCapture, C_IFirewallAdapter, C_IThreatIntelProvider, C_IThreatRepository, C_IRuleRepository}"
  shows "is_subclass t c i \<longleftrightarrow> c = i"
  using assms(2) unfolding is_subclass_def program_mro [OF assms(1)] by (cases c) auto

text \<open>Every exception of the program is caught by a handler of \<open>Exception\<close>, and by one of \<open>SentinelError\<close>.\<close>

lemma program_exceptions:
  assumes "program_classes = Some t"
    and "c \<in> {C_SystemProcessProtectionError, C_SnifferError, C_FirewallRuleError, C_CleanupError, C_DatabaseError}"
  shows "is_subclass t c C_SentinelError \<and> is_subclass t c C_Exception"
  using assms(2) unfolding is_subclass_def program_mro [OF assms(1)] by auto

definition abstract_class_names :: "class_name set" where
  "abstract_class_names = set (map cd_name interface_defs) \<union> {C_OSBridgeAdapter, C_BaseMonitorPlugin}"

text \<open>The statements whose bodies matter, by their names.\<close>

definition related :: "class_name class_def list" where
  "related = [DatabaseRepository_class, IPortRepository_class, IHistoryRepository_class, IAuditRepository_class,
     IApprovalRepository_class, IConfigRepository_class, IPreferenceRepository_class, IDashboardRepository_class, EventBus_class,
     IEventBus_class, LinuxBridge_class, WindowsBridge_class, DarwinBridge_class, OSBridgeAdapter_class]"

lemma related_defs: "d \<in> set related \<Longrightarrow> d \<in> set class_defs"
  by (auto simp: related_def class_defs_def interface_defs_def other_defs_def)

lemma related_names: "map cd_name related = [C_DatabaseRepository, C_IPortRepository, C_IHistoryRepository, C_IAuditRepository,
     C_IApprovalRepository, C_IConfigRepository, C_IPreferenceRepository, C_IDashboardRepository, C_EventBus,
     C_IEventBus, C_LinuxBridge, C_WindowsBridge, C_DarwinBridge, C_OSBridgeAdapter]"
  by (simp add: related_def class_stmts)

lemma body_facts:
  assumes "program_classes = Some t"
  shows "map (body_of t) (map cd_name related) = map cd_members related"
  using program_entry(3) [OF assms] related_defs by simp

text \<open>What stands in the body of a class of the order other than the class itself is overridden.\<close>

lemma abstract_bodies:
  "list_all (\<lambda>d. cd_name d \<in> abstract_class_names \<or> list_all (\<lambda>(n, m). \<not> is_abstract m) (cd_members d)) class_defs"
  by (simp add: class_defs_def object_class_def builtin_defs_def interface_defs_def other_defs_def class_stmts abstract_class_names_def)

lemma abstract_provider:
  assumes "program_classes = Some t" and "(m, Abstract ps) \<in> set (body_of t b)"
  shows "b \<in> abstract_class_names"
proof -
  have "dmem b t" using assms(2) by (cases "dget t b") (simp_all add: body_of_def dmem_def)
  then have "b \<in> cd_name ` set class_defs" using program_entry(2) [OF assms(1)] class_names(2) by simp
  then obtain d where d: "d \<in> set class_defs" "cd_name d = b" by blast
  with program_entry(3) [OF assms(1) d(1)] assms(2) have "(m, Abstract ps) \<in> set (cd_members d)" by simp
  with abstract_bodies d show ?thesis by (force simp: list_all_iff)
qed

lemma overridden:
  assumes "program_classes = Some t" and "c \<notin> abstract_class_names" and "b \<in> set (mro_of t c)" and "(m, Abstract ps) \<in> set (body_of t b)"
  shows "\<exists>qs. dget (body_of t c) m = Some (Concrete qs) \<and> accepts qs ps"
proof -
  note b = abstract_provider [OF assms(1,4)]
  have "b \<in> set (class_order c)" using assms(3) program_mro [OF assms(1)] by simp
  with b assms(2) have "(c, b) \<in> {C_DatabaseRepository} \<times> set repository_bases \<union> {(C_EventBus, C_IEventBus)}
      \<union> {C_LinuxBridge, C_WindowsBridge, C_DarwinBridge} \<times> {C_OSBridgeAdapter}"
    by (cases c) (auto simp: abstract_class_names_def statement_heads)
  then have "overrides (body_of t c) (body_of t b)"
    using body_facts [OF assms(1), unfolded related_names] repository_overrides bridge_overrides bus_overrides
    by (auto simp: related_def)
  from overridesD [OF this assms(4)] show ?thesis .
qed

lemma lookup_provider: "lookup t c n = Some m \<Longrightarrow> \<exists>b \<in> set (mro_of t c). (n, m) \<in> set (body_of t b)"
  by (auto simp: lookup_def lookup_in_def find_Some_iff dest: map_of_SomeD split: option.splits)

lemma lookup_own: "classes_ok t \<Longrightarrow> dget (body_of t c) n = Some m \<Longrightarrow> lookup t c n = Some m"
proof -
  assume ok: "classes_ok t" and own: "dget (body_of t c) n = Some m"
  then have "dmem c t" by (auto simp: body_of_def dmem_def split: option.splits)
  from classes_ok_mro [OF ok this] have "mro_of t c = c # tl (mro_of t c)" by (metis list.collapse)
  with own show ?thesis unfolding lookup_def by (metis lookup_in_Cons dmem_def option.distinct(1))
qed

lemma no_abstract_lookup:
  assumes "program_classes = Some t" and "c \<notin> abstract_class_names"
  shows "lookup t c n \<noteq> Some (Abstract ps)"
proof
  assume l: "lookup t c n = Some (Abstract ps)"
  from lookup_provider [OF this] obtain b where "b \<in> set (mro_of t c)" "(n, Abstract ps) \<in> set (body_of t b)" by blast
  from overridden [OF assms this] obtain qs where "dget (body_of t c) n = Some (Concrete qs)" by blast
  with lookup_own [OF program_entry(1) [OF assms(1)]] l show False by fastforce
qed

lemma abstract_methods:
  "list_all (\<lambda>d. cd_name d \<notin> abstract_class_names \<or> is_abstract (snd (hd (cd_members d))) \<and> cd_members d \<noteq> []) class_defs"
  by (simp add: class_defs_def object_class_def builtin_defs_def interface_defs_def other_defs_def class_stmts abstract_class_names_def)

lemma instantiable_classes:
  assumes "program_classes = Some t"
  shows "instantiable t c \<longleftrightarrow> c \<notin> abstract_class_names \<and> \<not> is_plugin c"
proof (cases "c \<in> abstract_class_names")
  case False
  have "\<not> is_abstract m" if "lookup t c n = Some m" for n m
    using no_abstract_lookup [OF assms False, of n] that by (cases m) auto
  with False show ?thesis using instantiable_iff [OF program_entry(1) [OF assms], of c] program_entry(2) [OF assms]
    by (auto simp: instantiable_def)
next
  case True
  then have "\<not> is_plugin c" by (auto simp: abstract_class_names_def statement_heads)
  then have "c \<in> cd_name ` set class_defs" using class_names(2) by simp
  then obtain d where d: "d \<in> set class_defs" "cd_name d = c" by blast
  with abstract_methods True have "cd_members d \<noteq> []" "is_abstract (snd (hd (cd_members d)))" by (auto simp: list_all_iff)
  then obtain n m ms where m: "cd_members d = (n, m) # ms" "is_abstract m" by (cases "cd_members d") auto
  then have "dget (body_of t c) n = Some m" using program_entry(3) [OF assms d(1)] d(2) by simp
  from lookup_own [OF program_entry(1) [OF assms] this] m(2) have "\<not> instantiable t c"
    using classes_ok_abstract [OF program_entry(1) [OF assms]] by (force simp: instantiable_def)
  with True show ?thesis by simp
qed

section \<open>Plugins\<close>

lemma plugin_abstract_names:
  assumes "program_classes = Some t"
  shows "set (abstract_of t C_BaseMonitorPlugin) = {''name'', ''description'', ''start'', ''stop'', ''get_data''}"
proof -
  let ?p = C_BaseMonitorPlugin
  have p: "dmem ?p t" using program_entry(2) [OF assms] by simp
  have body: "body_of t ?p = cd_members BaseMonitorPlugin_class"
    using program_entry(3) [OF assms, of BaseMonitorPlugin_class] by (simp add: class_defs_def other_defs_def BaseMonitorPlugin_class_def)
  have "\<not> is_abstract m" if "lookup_in t [C_ABC, C_object] n = Some m" for n m
  proof -
    have "C_ABC \<notin> abstract_class_names" "C_object \<notin> abstract_class_names" by (simp_all add: abstract_class_names_def statement_heads)
    then have "(n, m) \<in> set (body_of t b) \<Longrightarrow> \<not> is_abstract m" if "b \<in> {C_ABC, C_object}" for b
      using abstract_provider [OF assms] that by (cases m) auto
    with that show ?thesis by (auto simp: lookup_in_def find_Some_iff dest: map_of_SomeD split: option.splits if_splits)
  qed
  then have "n \<in> set (abstract_of t ?p) \<longleftrightarrow> (\<exists>m. dget (cd_members BaseMonitorPlugin_class) n = Some m \<and> is_abstract m)" for n
    unfolding classes_ok_abstract [OF program_entry(1) [OF assms] p] lookup_def program_mro [OF assms]
    by (auto simp: lookup_in_Cons body dmem_def)
  then have "set (abstract_of t ?p) = set (abstract_names (cd_members BaseMonitorPlugin_class))"
    by (subst set_eq_iff) (simp add: abstract_names_iff dict_ok_def BaseMonitorPlugin_class_def)
  then show ?thesis by (simp add: abstract_names_def BaseMonitorPlugin_class_def)
qed

text \<open>
  A plugin class, as \<open>PluginRegistry.discover\<close> finds and calls it, can be instantiated exactly if it
  defines the five abstract members of \<open>BaseMonitorPlugin\<close> and has no abstract one of its own.
\<close>

lemma plugin_instantiable:
  assumes "program_classes = Some t" and "dict_ok ms"
    and "declare_class \<lparr>cd_name = C_Plugin s, cd_bases = [C_BaseMonitorPlugin], cd_members = ms\<rparr> t = Some t'"
  shows "instantiable t' (C_Plugin s) \<longleftrightarrow> (\<forall>n m. dget ms n = Some m \<longrightarrow> \<not> is_abstract m)
    \<and> {''name'', ''description'', ''start'', ''stop'', ''get_data''} \<subseteq> fst ` set ms"
  using subclass_instantiable [OF program_entry(1) [OF assms(1)] assms(3), of C_BaseMonitorPlugin] assms(2)
    program_entry(2) [OF assms(1)] plugin_abstract_names [OF assms(1)] by simp

section \<open>Defaults\<close>

text \<open>The parameters whose default in an override is not the one of the interface.\<close>

definition other_defaults :: "(string, member) dict \<Rightarrow> (string, member) dict \<Rightarrow> (string \<times> string) list" where
  "other_defaults impl iface = concat (map (\<lambda>(n, m). case (m, dget impl n) of
       (Abstract ps, Some (Concrete qs)) \<Rightarrow>
         map (\<lambda>(p, q). (n, p_name p)) (filter (\<lambda>(p, q). has_default p \<and> p \<noteq> q) (zip ps qs))
     | _ \<Rightarrow> []) iface)"

lemma windows_default: "other_defaults (cd_members WindowsBridge_class) (cd_members OSBridgeAdapter_class) = [(''block_port'', ''protocol'')]"
  by code_simp

lemma same_defaults:
  "other_defaults (cd_members LinuxBridge_class) (cd_members OSBridgeAdapter_class) = []"
  "other_defaults (cd_members DarwinBridge_class) (cd_members OSBridgeAdapter_class) = []"
  "list_all (\<lambda>i. other_defaults (cd_members DatabaseRepository_class) (cd_members i) = [])
     [IPortRepository_class, IHistoryRepository_class, IAuditRepository_class, IApprovalRepository_class, IConfigRepository_class,
      IPreferenceRepository_class, IDashboardRepository_class]"
  by code_simp+

lemma interface_call:
  assumes t: "program_classes = Some t" and "c \<notin> abstract_class_names"
    and a: "instantiable t c \<and> is_subclass t c i \<and> lookup t i m = Some (Abstract ps) \<and> bind ps pos kw = Some args"
  shows "\<exists>qs args'. lookup t c m = Some (Concrete qs) \<and> bind qs pos kw = Some args'
    \<and> (\<forall>n v. (n, Given v) \<in> set args \<longrightarrow> (n, Given v) \<in> set args')"
proof -
  from a have c: "dmem c t" by (simp add: instantiable_def)
  note ok = program_entry(1) [OF t]
  from a obtain b where b: "b \<in> set (mro_of t i)" "(m, Abstract ps) \<in> set (body_of t b)" using lookup_provider by metis
  have "subseq (mro_of t i) (mro_of t c)" using classes_ok_mro [OF ok c] a by (simp add: is_subclass_def)
  with b(1) have "b \<in> set (mro_of t c)" by (auto elim: list_emb_set)
  from overridden [OF t assms(2) this b(2)] obtain qs where qs: "dget (body_of t c) m = Some (Concrete qs)" "accepts qs ps" by blast
  with accepts_bind [of qs ps pos kw args] lookup_own [OF ok qs(1)] a show ?thesis by blast
qed

section \<open>The property\<close>

text \<open>
  C8: the classes of the program keep the contracts of its interfaces. All class statements succeed;
  of the classes (those of plugin files, found at run time, are not among them) exactly the interfaces, the base of the bridges and the base of the plugins cannot
  be instantiated; and whenever a class that can be instantiated has an interface among its ancestors
  and a call fits the signature of one of the interface's abstract methods, the class has a concrete
  method of that name which takes the call and binds every argument to the parameter the interface
  names for it.
\<close>

theorem calls_fit_implementations:
  assumes "\<not> is_plugin c"
  shows "\<exists>t. program_classes = Some t \<and> (instantiable t c \<longleftrightarrow> c \<notin> abstract_class_names)
    \<and> (\<forall>i m ps pos kw args. instantiable t c \<and> is_subclass t c i \<and> lookup t i m = Some (Abstract ps) \<and> bind ps pos kw = Some args \<longrightarrow>
         (\<exists>qs args'. lookup t c m = Some (Concrete qs) \<and> bind qs pos kw = Some args'
            \<and> (\<forall>n v. (n, Given (v :: 'v)) \<in> set args \<longrightarrow> (n, Given v) \<in> set args')))"
proof -
  obtain t where t: "program_classes = Some t" using program_table by blast
  have inst: "instantiable t c \<longleftrightarrow> c \<notin> abstract_class_names" using instantiable_classes [OF t] assms by simp
  have "\<exists>qs args'. lookup t c m = Some (Concrete qs) \<and> bind qs pos kw = Some args'
      \<and> (\<forall>n v. (n, Given (v :: 'v)) \<in> set args \<longrightarrow> (n, Given v) \<in> set args')"
    if "instantiable t c \<and> is_subclass t c i \<and> lookup t i m = Some (Abstract ps) \<and> bind ps pos kw = Some args" for i m ps pos kw args
    by (rule interface_call [OF t _ that]) (use inst that in blast)
  with t inst show ?thesis by blast
qed

text \<open>A call of \<open>block_port\<close> written against the base class, on the macOS bridge with its further parameter.\<close>

theorem calls_fit_implementations_witness:
  "\<exists>t qs args'. program_classes = Some t \<and> instantiable t C_DarwinBridge \<and> lookup t C_DarwinBridge ''block_port'' = Some (Concrete qs)
     \<and> bind qs [8080 :: int] [] = Some args' \<and> (''port'', Given 8080) \<in> set args'"
proof -
  obtain t where t: "program_classes = Some t" using program_table by blast
  have inst: "instantiable t C_DarwinBridge"
    using instantiable_classes [OF t] by (simp add: abstract_class_names_def statement_heads)
  have sub: "is_subclass t C_DarwinBridge C_OSBridgeAdapter" by (simp add: is_subclass_def program_mro [OF t])
  have l: "lookup t C_OSBridgeAdapter ''block_port'' = Some (Abstract [Req ''port'', Opt ''protocol'' (D_Str ''tcp'')])"
    by (rule lookup_own [OF program_entry(1) [OF t]]) (use body_facts [OF t, unfolded related_names] in \<open>simp add: related_def, simp add: OSBridgeAdapter_class_def\<close>)
  have b: "bind [Req ''port'', Opt ''protocol'' (D_Str ''tcp'')] [8080 :: int] [] =
      Some [(''port'', Given 8080), (''protocol'', Default (D_Str ''tcp''))]" by (simp add: dmem_def)
  have "\<not> is_plugin C_DarwinBridge" by simp
  from calls_fit_implementations [OF this, where 'v = int] obtain t' where t': "program_classes = Some t'"
    "\<forall>i m ps pos kw args. instantiable t' C_DarwinBridge \<and> is_subclass t' C_DarwinBridge i \<and> lookup t' i m = Some (Abstract ps)
      \<and> bind ps pos kw = Some args \<longrightarrow> (\<exists>qs args'. lookup t' C_DarwinBridge m = Some (Concrete qs) \<and> bind qs pos kw = Some args'
        \<and> (\<forall>n v. (n, Given (v :: int)) \<in> set args \<longrightarrow> (n, Given v) \<in> set args'))" by blast
  from t t'(1) have "t' = t" by (metis option.inject)
  from t'(2) [unfolded this, rule_format, OF conjI [OF inst conjI [OF sub conjI [OF l b]]]] inst t
  show ?thesis by (metis list.set_intros(1))
qed

end
