(* ===== verification/Spec2Isabelle.thy ===== *)
theory Spec2Isabelle
  imports Sha256_Vector Windows_Bridge Darwin_Bridge Repository Connection Wire Web Migration_Env Life Windows_Firewall Dispatch_Loop Watchdog Boot Table_Race Routing Darwin_Firewall Classes
begin

text \<open>
  A verification development of the Port Sentinel backend (\<open>src/backend\<close>).

  \<^bold>\<open>The program.\<close> A capture process (\<open>core/sniffer.py\<close>) counts the bytes of every local port
  and publishes them, signed, in a shared-memory segment. In the server process a dispatcher
  (\<open>infrastructure/network/dispatcher.py\<close>) reads the segment in every turn, turns counters into
  rates (\<open>application/services/metrics_service.py\<close>, enriched by \<open>core/threat_intel.py\<close>), evaluates
  the policies (\<open>domain/policies/engine.py\<close>), whose matches travel over the event bus
  (\<open>application/events\<close>) to handlers that write to the database (\<open>core/db.py\<close>) and set firewall
  rules through the bridge of the platform (\<open>os_adapters\<close>), and emits the table of the ports over
  the WebSocket. HTTP routes (\<open>presentation/api\<close>) issue the same commands and read the same state
  behind three middlewares. Background jobs (\<open>application/jobs/scheduler.py\<close>) store and prune the
  history. The container (\<open>container.py\<close>) wires all of it and \<open>lifespan\<close> in \<open>app.py\<close> starts and
  stops it.

  \<^bold>\<open>Theories, from the bottom up.\<close>
  \<^item> \<open>Py_Float\<close>: rounding to the nearest double (\<open>double\<close>) and Python's \<open>round(x, 2)\<close>
    (\<open>py_round2\<close>), with the bounds of their errors.
  \<^item> \<open>Py_Prelude\<close>: exceptions as the datatype \<open>exc\<close>, results as sums, Python dictionaries as
    association lists, strings, decimal numbers, stable sorting; the collections
    \<open>dict_simps\<close> and \<open>str_simps\<close>.
  \<^item> \<open>Net_Addr\<close>, \<open>Sha256\<close>, \<open>Sha256_Vector\<close>: little-endian bytes, dotted addresses, HMAC over SHA-256
    on words of 32 bits, with a published test vector. They are standard-library functions the
    capture process uses.
  \<^item> \<open>Interfaces\<close>: the contracts of \<open>domain/interfaces\<close> as locales. Others stand where they are
    used: \<open>job_set\<close> in \<open>Scheduler\<close>, the history, settings and audit contracts in \<open>Repository\<close>,
    \<open>firewall_frame\<close> and \<open>port_firewall\<close> in \<open>Enforcement\<close>. Every locale is interpreted on the
    model's own operations in the theory that provides them.
  \<^item> \<open>Shm\<close> and \<open>Sniffer\<close>: the segment with its two readers, the packet callback, the process map, the
    flush and the main loop of the capture process.
  \<^item> \<open>Threat_Intel\<close>, \<open>Metrics\<close>, \<open>Policy\<close>, \<open>Events\<close>: the cache of address data, the metrics accumulator,
    the policy engine, the bus.
  \<^item> \<open>Database\<close>, \<open>Connection\<close>, \<open>Repository\<close>, \<open>Migrations\<close>, \<open>Migration_Env\<close>: the table operations,
    the engine and its sessions, the repository over them, the two Alembic revisions and the
    environment that runs them.
  \<^item> \<open>Cache_Race\<close>, \<open>Table_Race\<close>: the history of the metrics service between the thread that adds and
    the thread that evicts, and the reading of the port table next to either, as schedules of atomic
    steps.
  \<^item> \<open>Py_Classes\<close>, \<open>Classes\<close>: class statements (order of resolution, abstract methods, binding of
    arguments), and those of the interfaces, the implementations, the plugins and the exceptions.
  \<^item> \<open>Entities\<close>: value objects (subtypes with an order) and entities of the domain.
  \<^item> \<open>Os_Bridge\<close>, \<open>Linux_Bridge\<close>, \<open>Windows_Bridge\<close>, \<open>Darwin_Bridge\<close>: what the bridges share, and the
    commands, rules files and parsers of each.
  \<^item> \<open>Commands\<close>, \<open>Queries\<close>: event handlers and commands with the routes that issue them; the read
    side.
  \<^item> \<open>Dispatcher\<close>, \<open>Wire\<close>, \<open>Dispatch_Loop\<close>: one turn; the run of turns and the payloads it emits;
    the loop as a task that is started, cancelled and resumed.
  \<^item> \<open>Scheduler\<close>, \<open>Plugins\<close>, \<open>Settings\<close>, \<open>Watchdog\<close>, \<open>Boot\<close>: the jobs over ticks, the plugin registry,
    the configuration and a turn of the watchdog, its loop and process, the launcher, the entry
    point and the log.
  \<^item> \<open>Api\<close>, \<open>Routing\<close>, \<open>Web\<close>: all handlers over the state of the application; the table of routes and
    the arguments of a request; the middlewares, the static files.
  \<^item> \<open>Container\<close>, \<open>Enforcement\<close>, \<open>Life\<close>, \<open>Windows_Firewall\<close>, \<open>Darwin_Firewall\<close>: wiring, start-up and shut-down; what the
    firewall and the table of blocked ports have to do with each other; the whole life of the
    program, on Linux, on Windows and on macOS.

  \<^bold>\<open>How code becomes definitions.\<close> An object is a record, a method a function from its arguments and
  the state to a result and the state. A raised exception is \<open>Inl\<close>, and every call that may raise is
  followed by the code's own \<open>except\<close>, \<open>finally\<close> or propagation. Python integers are \<open>int\<close>; the
  fields of the segment are bytes and their widths are written out (\<open>mod 2 ^ 64\<close>). A rate is
  computed in double precision as the code computes it: the elapsed time, the conversion of the
  counter difference to a float, the quotient and \<open>round\<close> are each rounded to 53 bits
  (\<open>calculate_delta\<close>), and so are the totals of a row and the megabytes of a memory reading. The range
  of the exponent is not bounded: overflow and subnormal numbers are left out. Readings of a clock,
  the comparison of times, the sums of SQL and of the policy rules are exact rationals. Strings are lists of characters below 256.

  \<^bold>\<open>What is a parameter.\<close> Everything outside the repository: clocks and \<open>uuid4\<close>, psutil, Scapy's
  packets, HTTP answers, the runner of external commands, what \<open>realpath\<close> and \<open>isfile\<close> say,
  Starlette's stacking of middlewares, the transport of the WebSocket, the predicates of \<open>ipaddress\<close>,
  and the choices of the SQL engine: new identifiers, the order of scans, and a failure of any call
  (\<open>sql\<close>, \<open>sql_ok\<close>). \<open>iptables_ok\<close>, \<open>netsh_changes\<close> with \<open>netsh_lists\<close>, and \<open>pf_works\<close> state what
  the bridges rely on of the firewall commands; a simulation of each shows that it can hold.

  \<^bold>\<open>What the lemmas show.\<close> Per component, an invariant that every operation keeps (\<open>sn_ok\<close>, \<open>ti_ok\<close>,
  \<open>acc_ok\<close>, \<open>blocked_ok\<close>, \<open>bus_ok\<close>, \<open>world_ok\<close>, \<open>handle_ok\<close> and others), the result of each
  operation on every branch, and the contract of its interface. Across components:
  \<^item> C1 below follows the bytes from a packet to the emitted row.
  \<^item> \<open>Enforcement\<close> proves once, for any firewall that meets its locale, what a request and a turn do to
    the rules and to the rows; \<open>Life\<close> lifts it to any order of requests, turns and jobs
    (\<open>listing_is_enforced\<close>, \<open>life_leaves_no_rule\<close> for \<open>iptables\<close>, and the same for \<open>netsh\<close> in
    \<open>Windows_Firewall\<close> and for \<open>pfctl\<close> in \<open>Darwin_Firewall\<close>).
  \<^item> \<open>Api\<close> says which part of the state each route may change (the collection \<open>frames\<close>); \<open>Routing\<close>
    adds which request reaches which route, so that a \<open>GET\<close> request changes nothing.
  \<^item> \<open>Cache_Race\<close> shows when eviction and additions commute under every schedule, \<open>Table_Race\<close> what a
    table read meanwhile shows; both say what is lost or raised otherwise.
  \<^item> \<open>Classes\<close> shows that every call an interface allows is taken by each class that implements it.
  \<^item> Refinements: the blocked ports are a map, the stored approval follows the entity, the
    history is the list of the records stored within the window, the limiter agrees with a
    reference that keeps all requests.
  \<^item> Properties without an id (\<open>shutdown_spec\<close>, \<open>timeline_spec\<close>, \<open>approval_lifecycle\<close>,
    \<open>one_live_loop\<close>, \<open>production_sessions_ask_for_ssl\<close>) are ordinary theorems.

  \<^bold>\<open>Bounds and fuel.\<close> No definition takes fuel. Loops run over the finite list of their remaining
  inputs (packets, turns, ticks, connections, lines); the regular-expression scan terminates by the
  length of the rest; the watchdog stops after its restart limit. The loops that run until they are
  cancelled are step relations (\<open>loop_reach\<close>) or folds over the events.

  \<^bold>\<open>Atomicity.\<close> An event of \<open>Life\<close> is a whole request, a whole turn or a whole visit of the jobs.
  The asyncio loop interleaves requests and turns only at their await points, and the jobs run in a
  thread of their own, so finer interleavings exist. They are modelled where the code is about them:
  two lookups of one address (\<open>Threat_Intel\<close>), stop and start of the dispatcher's task
  (\<open>Dispatch_Loop\<close>), and the history two threads share (\<open>Cache_Race\<close>, \<open>Table_Race\<close>). A session of the database fails before it changes anything or commits.

  \<^bold>\<open>What is relied on where.\<close> \<open>iptables_ok\<close> says that checks, listings and deletions of \<open>iptables\<close>
  work and that only an insertion may fail. The code ignores the return code of a deletion
  (\<open>failed_delete_unnoticed\<close>), so \<open>listing_is_enforced\<close> and \<open>life_leaves_no_rule\<close> need this.
  \<open>calm\<close> in \<open>Cache_Race\<close> asks, beyond a \<open>steady\<close> schedule, that no queue reaches its maximal length,
  since the count of evicted entries differs otherwise (\<open>full_queue_count_differs\<close>); the reading of
  the table in \<open>Table_Race\<close> needs \<open>steady\<close> only. The pf rules survive a restart if the rules file can be
  written and read and no interface name holds a line feed, which the bridge's pattern lets pass at
  its end (\<open>newline_breaks_rule\<close>). The upgrade of the schema starts from the tables of an earlier
  version, which are written out (\<open>legacy_columns\<close>, \<open>legacy_indexes\<close>).

  \<^bold>\<open>Around the HTTP application.\<close> \<open>create_app\<close> in \<open>Web\<close> is the whole server: the Socket.IO server
  keeps its own requests (a parameter), the middlewares see the others, and the framework answers an
  exception that leaks, outside of the middlewares. \<open>choose_route\<close> has the same order and ends with
  the three targets of the front end; whether a mounted asset exists is the file system's. No route
  looks at credentials, although the API document asks for a token.

  \<^bold>\<open>Not modelled.\<close> The formats of the log and the texts of exceptions, uvicorn and the browser thread,
  the engine Alembic builds, the answers of the Socket.IO server, CORS, FastAPI's
  reading of integers and its error bodies, negative limits of a query (their meaning is the SQL
  engine's), the locks (each guarded section is one step), the assignment of fields to a
  snapshot another thread may be reading, and the front end, which is not Python.

  \<^bold>\<open>Left to do.\<close> The jobs could interleave with a turn between any two of its calls, not only at
  the history.
\<close>

section \<open>From the packet to the emitted table\<close>

text \<open>
  C1: what the sniffer captured reaches the clients. After any sequence of well-formed turns of the
  capture process on a fresh segment, a turn of the dispatcher that emits a table shows, for every
  port the capture process has seen within the last thirty seconds, a row of that port with the
  risk score and the remote address the capture process holds, the time of the turn, and the rates
  the byte counters (modulo \<open>2^64\<close>) give against those stored for the port before the turn.
\<close>

theorem capture_reaches_table:
  assumes "list_all cycle_wf cs" and "cycle_wf c"
    and "run_cycles cs (new_sniffer key\<lparr>sn_shm := Some init_shared_memory\<rparr>) = (None, s0)"
    and "sniffer_cycle c s0 = (None, s1)" and "sn_shm s1 = Some m"
    and "acc_ok (ds_acc st)" and "dispatch_turn gm t key (Some m) st = (Some table, st')"
    and "dget (sn_accum (captured c s0)) p = Some e" and "is_active (cy_flush_time c) e"
  shows "\<exists>r \<in> set table. s_port r = p \<and> s_risk r = a_risk e \<and> s_remote r = inet_ntoa (ip_bytes_of (a_remote e))
    \<and> s_time r = tn_now t
    \<and> (s_in r, s_out r) = fst (calculate_delta p (a_in e mod 2 ^ 64) (a_out e mod 2 ^ 64) (tn_now t) (ac_metrics (ds_acc st)))"
proof -
  let ?s = "new_sniffer key\<lparr>sn_shm := Some init_shared_memory\<rparr>"
  have "sn_shm ?s = Some init_shared_memory" "sn_key ?s = key" by (simp_all add: new_sniffer_def)
  with run_cycles_ok [OF sn_ok_fresh this(1) assms(1)] assms(3) obtain m0 where
    s0: "sn_ok s0" "sn_shm s0 = Some m0" "sn_key s0 = key" by auto
  let ?xs = "published_rows (sn_pids (refresh_pids (cy_flush_time c) (cy_conns c) (captured c s0)))
      (cy_flush_time c) (sn_accum (captured c s0))"
  have xs: "read_all_active_ports key m = ?xs"
    using cycle_publishes [OF s0(1,2) assms(2)] assms(4,5) s0(3) by auto
  have "accum_ok (sn_accum (captured c s0))" using captured_ok [OF s0(1) assms(2)] by (simp add: sn_ok_def)
  from published_row [OF this assms(8,9)] obtain x where x: "x \<in> set ?xs" "e_port x = p" "e_risk x = a_risk e"
    "e_ip x = inet_ntoa (ip_bytes_of (a_remote e))" "e_bytes_in x = a_in e mod 2 ^ 64" "e_bytes_out x = a_out e mod 2 ^ 64"
    by (fastforce simp: written_row_def)
  obtain r where d: "dispatch_entries gm t 0 ?xs st = (r, st')" and r: "r = None" and table: "table = get_port_table (tn_now t) (ds_acc st')"
    using assms(7) by (auto simp: dispatch_turn_def xs Let_def split: prod.splits option.splits if_splits)
  note h = dispatch_entries_effect [OF assms(6) published_distinct d [unfolded r]]
  from h x(1) obtain s where s: "shown t (ac_metrics (ds_acc st)) x s" "port_entries (e_port x) (ac_cache (ds_acc st')) \<noteq> []"
    "last (port_entries (e_port x) (ac_cache (ds_acc st'))) = s" by blast
  have "row_of s \<in> set table" unfolding table using h by (intro shown_in_table [OF _ s]) simp
  with s(1) x show ?thesis by (intro bexI [of _ "row_of s"]) (simp_all add: shown_def)
qed

theorem capture_reaches_table_witness:
  "\<exists>s1 m table st'. sniffer_cycle one_draw (new_sniffer [7]\<lparr>sn_shm := Some init_shared_memory\<rparr>) = (None, s1) \<and> sn_shm s1 = Some m
     \<and> dispatch_turn no_service turn1 [7] (Some m) (fresh_dispatcher None) = (Some table, st')
     \<and> (\<exists>r \<in> set table. s_port r = 443 \<and> s_risk r = 7)"
proof -
  have wf: "cycle_wf one_draw" by (rule one_draw_wf)
  obtain s1 m table st' where c: "sniffer_cycle one_draw (new_sniffer [7]\<lparr>sn_shm := Some init_shared_memory\<rparr>) = (None, s1)"
    "sn_shm s1 = Some m" and d: "dispatch_turn no_service turn1 [7] (Some m) (fresh_dispatcher None) = (Some table, st')"
    using dispatch_drawn by blast
  have "acc_ok (ds_acc (fresh_dispatcher None))" by (simp add: fresh_dispatcher_def acc_ok_new)
  moreover have "list_all cycle_wf []" "run_cycles [] (new_sniffer [7]\<lparr>sn_shm := Some init_shared_memory\<rparr>)
      = (None, new_sniffer [7]\<lparr>sn_shm := Some init_shared_memory\<rparr>)" by simp_all
  moreover have "dget (sn_accum (captured one_draw (new_sniffer [7]\<lparr>sn_shm := Some init_shared_memory\<rparr>))) 443 = Some drawn_entry"
    by (simp add: drawn)
  moreover have "is_active (cy_flush_time one_draw) drawn_entry"
    by (simp add: is_active_def drawn_entry_def one_draw_def quiet_cycle_def)
  ultimately obtain r where "r \<in> set table" "s_port r = 443" "s_risk r = a_risk drawn_entry"
    using capture_reaches_table [OF _ wf _ c _ d] by blast
  hence "\<exists>r \<in> set table. s_port r = 443 \<and> s_risk r = 7" by (auto simp: drawn_entry_def)
  with c d show ?thesis by blast
qed

end
